(* ===== verification/CPrelude.thy ===== *)
theory CPrelude
  imports Main "HOL-Library.Word" "HOL-Library.Monad_Syntax" "HOL-Library.Char_ord"
begin

text \<open>
  The conventions every other theory shares: the machine integers of the 32-bit
  ARM target, byte buffers with checked access, and C strings.

  A buffer (an object of C memory) is a list of bytes.  Every access through
  \<open>get_byte\<close>, \<open>put_byte\<close>, \<open>load\<close> and \<open>store\<close> is checked against its length;
  an access outside the object is the value \<open>None\<close>, and the do-notation of the
  option monad carries that outcome upwards, so that a theorem with the
  conclusion \<open>f x = Some y\<close> includes the memory safety of the code.
  A C string is the list of its bytes without the terminating NUL.
\<close>

unbundle bit_operations_syntax

type_synonym u8 = "8 word"
type_synonym u16 = "16 word"
type_synonym u32 = "32 word"
type_synonym u64 = "64 word"
type_synonym buf = "u8 list"
type_synonym cstring = "u8 list"

text \<open>Facts about buffers, and facts about the conversion of machine integers.\<close>

named_theorems buf_simps
named_theorems word_conv

section \<open>Checked access to a buffer\<close>

definition get_byte :: "buf \<Rightarrow> nat \<Rightarrow> u8 option" where
  "get_byte m i = (if i < length m then Some (m ! i) else None)"

definition put_byte :: "buf \<Rightarrow> nat \<Rightarrow> u8 \<Rightarrow> buf option" where
  "put_byte m i v = (if i < length m then Some (m[i := v]) else None)"

definition load :: "buf \<Rightarrow> nat \<Rightarrow> nat \<Rightarrow> buf option" where
  "load m i n = (if i + n \<le> length m then Some (take n (drop i m)) else None)"

definition blit :: "buf \<Rightarrow> nat \<Rightarrow> buf \<Rightarrow> buf" where
  "blit m i xs = take i m @ xs @ drop (i + length xs) m"

definition store :: "buf \<Rightarrow> nat \<Rightarrow> buf \<Rightarrow> buf option" where
  "store m i xs = (if i + length xs \<le> length m then Some (blit m i xs) else None)"

definition lit :: "string \<Rightarrow> cstring" where
  "lit s = map of_char s"

lemma get_byte_Some [simp, buf_simps]: "i < length m \<Longrightarrow> get_byte m i = Some (m ! i)"
  by (simp add: get_byte_def)

lemma get_byte_None [simp, buf_simps]: "length m \<le> i \<Longrightarrow> get_byte m i = None"
  by (simp add: get_byte_def)

lemma get_byte_eq_Some: "get_byte m i = Some v \<longleftrightarrow> i < length m \<and> m ! i = v"
  by (auto simp: get_byte_def)

lemma put_byte_Some [simp, buf_simps]: "i < length m \<Longrightarrow> put_byte m i v = Some (m[i := v])"
  by (simp add: put_byte_def)

lemma put_byte_None [simp, buf_simps]: "length m \<le> i \<Longrightarrow> put_byte m i v = None"
  by (simp add: put_byte_def)

lemma put_byte_eq_Some: "put_byte m i v = Some m' \<longleftrightarrow> i < length m \<and> m' = m[i := v]"
  by (auto simp: put_byte_def)

lemma load_Some [simp, buf_simps]: "i + n \<le> length m \<Longrightarrow> load m i n = Some (take n (drop i m))"
  by (simp add: load_def)

lemma load_eq_Some: "load m i n = Some xs \<longleftrightarrow> i + n \<le> length m \<and> xs = take n (drop i m)"
  by (auto simp: load_def)

lemma length_blit [simp, buf_simps]:
  "i + length xs \<le> length m \<Longrightarrow> length (blit m i xs) = length m"
  by (simp add: blit_def)

lemma store_Some [simp, buf_simps]:
  "i + length xs \<le> length m \<Longrightarrow> store m i xs = Some (blit m i xs)"
  by (simp add: store_def)

lemma store_eq_Some:
  "store m i xs = Some m' \<longleftrightarrow> i + length xs \<le> length m \<and> m' = blit m i xs"
  by (auto simp: store_def)

lemma nth_blit:
  assumes "i + length xs \<le> length m" "k < length m"
  shows "blit m i xs ! k = (if i \<le> k \<and> k < i + length xs then xs ! (k - i) else m ! k)"
  using assms by (auto simp: blit_def nth_append min_def add.commute)

lemma blit_Nil [simp]: "blit m i [] = m"
  by (simp add: blit_def)

lemma blit_here [simp]:
  "i + length xs \<le> length m \<Longrightarrow> take (length xs) (drop i (blit m i xs)) = xs"
  by (simp add: blit_def)

lemma take_drop_blit:
  assumes "i + length xs \<le> length m" "j + n \<le> i \<or> i + length xs \<le> j"
  shows "take n (drop j (blit m i xs)) = take n (drop j m)"
  using assms by (intro nth_equalityI) (auto simp: nth_blit)

lemma take_drop_blit_inside:
  assumes "i + length xs \<le> length m" "k + n \<le> length xs"
  shows "take n (drop (i + k) (blit m i xs)) = take n (drop k xs)"
  using assms by (intro nth_equalityI) (auto simp: nth_blit)

lemma blit_append:
  assumes "i + length xs + length ys \<le> length m"
  shows "blit (blit m i xs) (i + length xs) ys = blit m i (xs @ ys)"
  using assms by (intro nth_equalityI) (auto simp: nth_blit nth_append)

lemma blit_singleton: "i < length m \<Longrightarrow> blit m i [v] = m[i := v]"
  by (simp add: blit_def upd_conv_take_nth_drop)

lemma blit_take_drop: "i + n \<le> length m \<Longrightarrow> blit m i (take n (drop i m)) = m"
  by (intro nth_equalityI) (auto simp: nth_blit)

text \<open>Block i of an array of blocks.\<close>

definition blk_of :: "nat \<Rightarrow> buf \<Rightarrow> nat \<Rightarrow> buf" where
  "blk_of bs m i = take bs (drop (i * bs) m)"

lemma length_blk_of: "i * bs + bs \<le> length m \<Longrightarrow> length (blk_of bs m i) = bs"
  by (simp add: blk_of_def)

lemma length_concat_blocks: "\<forall>xs \<in> set xss. length xs = n \<Longrightarrow> length (concat xss) = length xss * n"
  by (induction xss) auto

lemma blk_of_concat:
  assumes "\<forall>xs \<in> set xss. length xs = n" "i < length xss"
  shows "blk_of n (concat xss) i = xss ! i"
  using assms
proof (induction xss arbitrary: i)
  case (Cons xs xss)
  then show ?case
    by (cases i) (auto simp: blk_of_def)
qed simp

text \<open>The bytes found at an address, as a recursive predicate.\<close>

primrec bytes_at :: "buf \<Rightarrow> nat \<Rightarrow> u8 list \<Rightarrow> bool" where
  "bytes_at m p [] = True"
| "bytes_at m p (x # xs) \<longleftrightarrow> get_byte m p = Some x \<and> bytes_at m (p + 1) xs"

lemma bytes_at_append:
  "bytes_at m p (xs @ ys) \<longleftrightarrow> bytes_at m p xs \<and> bytes_at m (p + length xs) ys"
  by (induction xs arbitrary: p) auto

section \<open>Machine integers\<close>

lemma unat_of_nat_u32 [word_conv]: "n < 2 ^ 32 \<Longrightarrow> unat (of_nat n :: u32) = n"
  by (simp add: unat_of_nat take_bit_nat_eq_self)

lemma unat_u32_less [simp]: "unat (x :: u32) < 4294967296"
  using unsigned_less [of x] by simp

lemma unat_u8_less [simp]: "unat (x :: u8) < 256"
  using unsigned_less [of x] by simp

lemma unat_u16_less [simp]: "unat (x :: u16) < 65536"
  using unsigned_less [of x] by simp

lemma unat_plus_if_u32 [word_conv]:
  "unat (a + b :: u32) =
     (if unat a + unat b < 4294967296 then unat a + unat b else unat a + unat b - 4294967296)"
  by (simp add: unat_plus_if')

lemma unat_mult_u32 [word_conv]:
  "unat a * unat b < 4294967296 \<Longrightarrow> unat (a * b :: u32) = unat a * unat b"
  by (simp add: unat_word_ariths)

lemma unat_sub_u32 [word_conv]: "b \<le> a \<Longrightarrow> unat (a - b :: u32) = unat a - unat b"
  by (simp add: unat_sub)

lemma sint_word_of_int_u32 [word_conv]:
  "- 2147483648 \<le> k \<Longrightarrow> k < 2147483648 \<Longrightarrow> sint (word_of_int k :: u32) = k"
  by (subst sint_sbintrunc') (simp add: signed_take_bit_int_eq_self)

lemma sint_small_u32 [word_conv]:
  assumes "unat n < 2147483648"
  shows "sint (n :: u32) = int (unat n)"
proof -
  have "sint (word_of_int (int (unat n)) :: u32) = int (unat n)"
    using assms by (intro sint_word_of_int_u32) linarith+
  then show ?thesis
    by simp
qed

text \<open>Advancing through a whole number of blocks.\<close>

lemma unat_div_bs: "0 < bs \<Longrightarrow> unat (n div bs :: u32) = unat n div unat bs"
  by (simp add: unat_div)

lemma unat_Suc_u32: "unat x + 1 < 4294967296 \<Longrightarrow> unat (x + 1 :: u32) = unat x + 1"
  by (simp add: unat_plus_if_u32)

section \<open>The option monad\<close>

lemma bind_eq_Some [simp]: "Option.bind x f = Some y \<longleftrightarrow> (\<exists>z. x = Some z \<and> f z = Some y)"
  by (cases x) auto

section \<open>Error numbers (errno.h)\<close>

text \<open>Results of functions that return a pointer and leave the reason of a
  failure in \<open>errno\<close>: \<open>Inl e\<close> is NULL with the number \<open>e\<close>.\<close>

datatype errno = ENOMEM | EINVAL | ENOENT | ENOTDIR | EFAULT | EROFS | ERANGE | ENOSPC

definition errno_code :: "errno \<Rightarrow> int" where
  "errno_code e = (case e of ENOMEM \<Rightarrow> -1 | EINVAL \<Rightarrow> -2 | ENOENT \<Rightarrow> -3 | ENOTDIR \<Rightarrow> -4
     | EFAULT \<Rightarrow> -5 | EROFS \<Rightarrow> -6 | ERANGE \<Rightarrow> -7 | ENOSPC \<Rightarrow> -8)"

end
