(* ===== verification/ByteUtil.thy ===== *)
theory ByteUtil
  imports CPrelude
begin

text \<open>
  The unaligned accessors of util.h: little-endian reads and writes of bytes,
  halfwords and words in a byte buffer, the big-endian read, \<open>byte_swap\<close>, and
  \<open>qmemcpy\<close> with the assembly routine \<open>quick_memcpy\<close> it dispatches to.
  The locale \<open>field_codec\<close> is the contract the parsers and writers of on-disk
  structures rely on; it is interpreted on the three accessor pairs.
\<close>

section \<open>Accessors\<close>

definition write_word :: "u32 \<Rightarrow> buf \<Rightarrow> nat \<Rightarrow> buf option" where
  "write_word val b offset = do {
     b \<leftarrow> put_byte b (offset + 0) (ucast (val AND 0xff));
     b \<leftarrow> put_byte b (offset + 1) (ucast (drop_bit 8 val AND 0xff));
     b \<leftarrow> put_byte b (offset + 2) (ucast (drop_bit 16 val AND 0xff));
     put_byte b (offset + 3) (ucast (drop_bit 24 val AND 0xff)) }"

definition write_halfword :: "u16 \<Rightarrow> buf \<Rightarrow> nat \<Rightarrow> buf option" where
  "write_halfword val b offset = do {
     b \<leftarrow> put_byte b (offset + 0) (ucast (val AND 0xff));
     put_byte b (offset + 1) (ucast (drop_bit 8 val AND 0xff)) }"

definition write_byte :: "u8 \<Rightarrow> buf \<Rightarrow> nat \<Rightarrow> buf option" where
  "write_byte byte b offset = put_byte b offset byte"

definition read_word :: "buf \<Rightarrow> nat \<Rightarrow> u32 option" where
  "read_word b offset = do {
     b0 \<leftarrow> get_byte b (offset + 0);
     b1 \<leftarrow> get_byte b (offset + 1);
     b2 \<leftarrow> get_byte b (offset + 2);
     b3 \<leftarrow> get_byte b (offset + 3);
     Some (ucast b0 OR push_bit 8 (ucast b1) OR push_bit 16 (ucast b2) OR push_bit 24 (ucast b3)) }"

definition read_wordbe :: "buf \<Rightarrow> nat \<Rightarrow> u32 option" where
  "read_wordbe b offset = do {
     b0 \<leftarrow> get_byte b (offset + 0);
     b1 \<leftarrow> get_byte b (offset + 1);
     b2 \<leftarrow> get_byte b (offset + 2);
     b3 \<leftarrow> get_byte b (offset + 3);
     Some (ucast b3 OR push_bit 8 (ucast b2) OR push_bit 16 (ucast b1) OR push_bit 24 (ucast b0)) }"

definition read_halfword :: "buf \<Rightarrow> nat \<Rightarrow> u16 option" where
  "read_halfword b offset = do {
     b0 \<leftarrow> get_byte b (offset + 0);
     b1 \<leftarrow> get_byte b (offset + 1);
     Some (ucast b0 OR push_bit 8 (ucast b1)) }"

definition read_byte :: "buf \<Rightarrow> nat \<Rightarrow> u8 option" where
  "read_byte b offset = get_byte b offset"

definition byte_swap :: "u32 \<Rightarrow> u32" where
  "byte_swap w = (let b0 = w AND 0xff; b1 = drop_bit 8 w AND 0xff;
                      b2 = drop_bit 16 w AND 0xff; b3 = drop_bit 24 w AND 0xff
                  in push_bit 24 b0 OR push_bit 16 b1 OR push_bit 8 b2 OR b3)"

section \<open>Block copy\<close>

text \<open>\<open>memcpy\<close> copies byte by byte, lowest address first, inside one memory;
  \<open>quick_memcpy\<close> moves four words per turn and tests the remaining count
  afterwards (subs / bhi), so it always moves at least sixteen bytes.\<close>

primrec memcpy :: "buf \<Rightarrow> nat \<Rightarrow> nat \<Rightarrow> nat \<Rightarrow> buf option" where
  "memcpy m d s 0 = Some m"
| "memcpy m d s (Suc n) = do {
     v \<leftarrow> get_byte m s;
     m \<leftarrow> put_byte m d v;
     memcpy m (d + 1) (s + 1) n }"

function quick_memcpy :: "buf \<Rightarrow> nat \<Rightarrow> nat \<Rightarrow> nat \<Rightarrow> buf option" where
  "quick_memcpy m d s n = do {
     xs \<leftarrow> load m s 16;
     m \<leftarrow> store m d xs;
     if n > 16 then quick_memcpy m (d + 16) (s + 16) (n - 16) else Some m }"
  by pat_completeness auto
termination by (relation "measure (\<lambda>(m, d, s, n). n)") auto

declare quick_memcpy.simps [simp del]

definition qmemcpy :: "buf \<Rightarrow> nat \<Rightarrow> nat \<Rightarrow> nat \<Rightarrow> buf option" where
  "qmemcpy m d s n =
     (if d mod 16 = 0 \<and> s mod 16 = 0 \<and> n mod 16 = 0 then quick_memcpy m d s n
      else memcpy m d s n)"

section \<open>The accessors on valid offsets\<close>

lemma read_word_eq:
  "off + 4 \<le> length b \<Longrightarrow> read_word b off =
     Some (ucast (b ! off) OR push_bit 8 (ucast (b ! (off + 1)))
        OR push_bit 16 (ucast (b ! (off + 2))) OR push_bit 24 (ucast (b ! (off + 3))))"
  by (simp add: read_word_def)

lemma read_halfword_eq:
  "off + 2 \<le> length b \<Longrightarrow> read_halfword b off =
     Some (ucast (b ! off) OR push_bit 8 (ucast (b ! (off + 1))))"
  by (simp add: read_halfword_def)

lemma read_word_None: "length b < off + 4 \<Longrightarrow> read_word b off = None"
  by (auto simp: read_word_def get_byte_def)

lemma read_halfword_None: "length b < off + 2 \<Longrightarrow> read_halfword b off = None"
  by (auto simp: read_halfword_def get_byte_def)

lemma write_word_eq:
  "off + 4 \<le> length b \<Longrightarrow> write_word v b off =
     Some (b[off := ucast (v AND 0xff), off + 1 := ucast (drop_bit 8 v AND 0xff),
             off + 2 := ucast (drop_bit 16 v AND 0xff), off + 3 := ucast (drop_bit 24 v AND 0xff)])"
  by (simp add: write_word_def)

lemma write_halfword_eq:
  "off + 2 \<le> length b \<Longrightarrow> write_halfword v b off =
     Some (b[off := ucast (v AND 0xff), off + 1 := ucast (drop_bit 8 v AND 0xff)])"
  by (simp add: write_halfword_def)

lemma write_word_None: "length b < off + 4 \<Longrightarrow> write_word v b off = None"
  by (auto simp: write_word_def put_byte_def)

lemma write_halfword_None: "length b < off + 2 \<Longrightarrow> write_halfword v b off = None"
  by (auto simp: write_halfword_def put_byte_def)

lemma mask_8: "(0xff :: 'a :: len word) = mask 8"
  by (simp add: mask_eq_exp_minus_1)

lemma byte_of_bit:
  assumes "n < 32"
  shows "\<exists>k < 8. n = k \<or> n = 8 + k \<or> n = 16 + k \<or> n = 24 + (k :: nat)"
proof -
  have "n = 8 * (n div 8) + n mod 8" "n div 8 = 0 \<or> n div 8 = 1 \<or> n div 8 = 2 \<or> n div 8 = 3"
    using assms by auto
  then have "n = n mod 8 \<or> n = 8 + n mod 8 \<or> n = 16 + n mod 8 \<or> n = 24 + n mod 8"
    by (elim disjE) simp_all
  then show ?thesis
    by (intro exI [of _ "n mod 8"]) auto
qed

lemma bytes_of_word:
  "ucast (ucast (v AND 0xff) :: u8) OR push_bit 8 (ucast (ucast (drop_bit 8 v AND 0xff) :: u8))
     OR push_bit 16 (ucast (ucast (drop_bit 16 v AND 0xff) :: u8))
     OR push_bit 24 (ucast (ucast (drop_bit 24 v AND 0xff) :: u8)) = (v :: u32)"
proof (rule bit_word_eqI, unfold mask_8)
  fix n
  assume "n < LENGTH(32)"
  then have "\<exists>k < 8. n = k \<or> n = 8 + k \<or> n = 16 + k \<or> n = 24 + k"
    by (simp add: byte_of_bit)
  then show "bit ((ucast (ucast (v AND mask 8) :: u8) :: u32) OR push_bit 8 (ucast (ucast (drop_bit 8 v AND mask 8) :: u8))
     OR push_bit 16 (ucast (ucast (drop_bit 16 v AND mask 8) :: u8))
     OR push_bit 24 (ucast (ucast (drop_bit 24 v AND mask 8) :: u8))) n = bit (v :: u32) n"
    by (elim exE conjE disjE) (simp_all add: bit_simps)
qed

lemma bytes_of_halfword:
  "ucast (ucast (v AND 0xff) :: u8) OR push_bit 8 (ucast (ucast (drop_bit 8 v AND 0xff) :: u8))
     = (v :: u16)"
  unfolding mask_8 by (rule bit_word_eqI) (auto simp: bit_simps)

lemma read_word_cong:
  assumes "length b = length b'" "\<And>i. off \<le> i \<Longrightarrow> i < off + 4 \<Longrightarrow> b ! i = b' ! i"
  shows "read_word b off = read_word b' off"
  using assms by (cases "off + 4 \<le> length b") (auto simp: read_word_eq read_word_None)

lemma read_halfword_cong:
  assumes "length b = length b'" "\<And>i. off \<le> i \<Longrightarrow> i < off + 2 \<Longrightarrow> b ! i = b' ! i"
  shows "read_halfword b off = read_halfword b' off"
  using assms by (cases "off + 2 \<le> length b") (auto simp: read_halfword_eq read_halfword_None)

lemma read_word_Some_iff [simp]: "(\<exists>v. read_word b off = Some v) \<longleftrightarrow> off + 4 \<le> length b"
  by (cases "off + 4 \<le> length b") (simp_all add: read_word_eq read_word_None)

lemma read_halfword_Some_iff [simp]:
  "(\<exists>v. read_halfword b off = Some v) \<longleftrightarrow> off + 2 \<le> length b"
  by (cases "off + 2 \<le> length b") (simp_all add: read_halfword_eq read_halfword_None)

section \<open>The contract of an accessor pair\<close>

text \<open>Parsers of on-disk structures read fields at fixed offsets; what they
  need of a writer and its reader is the law of read-after-write, the frame, and
  that the reader looks at the bytes of its field only.\<close>

locale field_codec =
  fixes wr :: "'v \<Rightarrow> buf \<Rightarrow> nat \<Rightarrow> buf option"
    and rd :: "buf \<Rightarrow> nat \<Rightarrow> 'v option"
    and width :: nat
  assumes wr_ok: "off + width \<le> length b \<Longrightarrow> \<exists>b'. wr v b off = Some b'"
    and wr_bad: "length b < off + width \<Longrightarrow> wr v b off = None"
    and wr_length: "wr v b off = Some b' \<Longrightarrow> length b' = length b"
    and wr_frame: "wr v b off = Some b' \<Longrightarrow> i < off \<or> off + width \<le> i \<Longrightarrow> b' ! i = b ! i"
    and rd_wr: "wr v b off = Some b' \<Longrightarrow> rd b' off = Some v"
    and rd_cong: "length b = length b' \<Longrightarrow> (\<And>i. off \<le> i \<Longrightarrow> i < off + width \<Longrightarrow> b ! i = b' ! i)
                    \<Longrightarrow> rd b off = rd b' off"
begin

lemma rd_other:
  assumes "wr v b off = Some b'" "off' + width \<le> off \<or> off + width \<le> off'"
  shows "rd b' off' = rd b off'"
  using assms by (intro rd_cong) (auto simp: wr_length wr_frame)

lemma rd_blit_other:
  assumes "off' + width \<le> off \<or> off + length xs \<le> off'" "off + length xs \<le> length b"
    and "off' + width \<le> length b"
  shows "rd (blit b off xs) off' = rd b off'"
  using assms by (intro rd_cong) (auto simp: nth_blit)

lemma two_fields:
  assumes "o1 + width \<le> o2 \<or> o2 + width \<le> o1" "o1 + width \<le> length b" "o2 + width \<le> length b"
  obtains b1 b2 where "wr v1 b o1 = Some b1" "wr v2 b1 o2 = Some b2"
    "rd b2 o1 = Some v1" "rd b2 o2 = Some v2" "length b2 = length b"
proof -
  obtain b1 where 1: "wr v1 b o1 = Some b1"
    using wr_ok assms(2) by blast
  obtain b2 where 2: "wr v2 b1 o2 = Some b2"
    using wr_ok assms(3) wr_length [OF 1] by metis
  have "rd b2 o1 = Some v1"
    using rd_other [OF 2, of o1] rd_wr [OF 1] assms(1) by auto
  then show thesis
    using that 1 2 rd_wr [OF 2] wr_length [OF 1] wr_length [OF 2] by simp
qed

end

interpretation word_field: field_codec write_word read_word 4
proof
  fix v :: u32 and b off b' i
  show "off + 4 \<le> length b \<Longrightarrow> \<exists>b'. write_word v b off = Some b'"
    by (simp add: write_word_eq)
  show "length b < off + 4 \<Longrightarrow> write_word v b off = None"
    by (rule write_word_None)
  show "write_word v b off = Some b' \<Longrightarrow> length b' = length b"
    by (cases "off + 4 \<le> length b") (auto simp: write_word_eq write_word_None)
  show "write_word v b off = Some b' \<Longrightarrow> i < off \<or> off + 4 \<le> i \<Longrightarrow> b' ! i = b ! i"
    by (cases "off + 4 \<le> length b") (auto simp: write_word_eq write_word_None)
  show "write_word v b off = Some b' \<Longrightarrow> read_word b' off = Some v"
    by (cases "off + 4 \<le> length b")
      (auto simp: write_word_eq write_word_None read_word_eq bytes_of_word)
qed (rule read_word_cong)

interpretation halfword_field: field_codec write_halfword read_halfword 2
proof
  fix v :: u16 and b off b' i
  show "off + 2 \<le> length b \<Longrightarrow> \<exists>b'. write_halfword v b off = Some b'"
    by (simp add: write_halfword_eq)
  show "length b < off + 2 \<Longrightarrow> write_halfword v b off = None"
    by (rule write_halfword_None)
  show "write_halfword v b off = Some b' \<Longrightarrow> length b' = length b"
    by (cases "off + 2 \<le> length b") (auto simp: write_halfword_eq write_halfword_None)
  show "write_halfword v b off = Some b' \<Longrightarrow> i < off \<or> off + 2 \<le> i \<Longrightarrow> b' ! i = b ! i"
    by (cases "off + 2 \<le> length b") (auto simp: write_halfword_eq write_halfword_None)
  show "write_halfword v b off = Some b' \<Longrightarrow> read_halfword b' off = Some v"
    by (cases "off + 2 \<le> length b")
      (auto simp: write_halfword_eq write_halfword_None read_halfword_eq bytes_of_halfword)
qed (rule read_halfword_cong)

interpretation byte_field: field_codec write_byte read_byte 1
  by unfold_locales
    (auto simp: write_byte_def read_byte_def put_byte_def get_byte_def split: if_splits)

section \<open>Byte order\<close>

lemma byte_swap_byte_swap: "byte_swap (byte_swap w) = w"
proof (unfold byte_swap_def Let_def mask_8, rule bit_word_eqI)
  fix n
  assume "n < LENGTH(32)"
  then have "\<exists>k < 8. n = k \<or> n = 8 + k \<or> n = 16 + k \<or> n = 24 + k"
    by (simp add: byte_of_bit)
  then show "bit (push_bit 24 ((push_bit 24 (w AND mask 8) OR push_bit 16 (drop_bit 8 w AND mask 8)
         OR push_bit 8 (drop_bit 16 w AND mask 8) OR drop_bit 24 w AND mask 8) AND mask 8)
       OR push_bit 16 (drop_bit 8 (push_bit 24 (w AND mask 8) OR push_bit 16 (drop_bit 8 w AND mask 8)
         OR push_bit 8 (drop_bit 16 w AND mask 8) OR drop_bit 24 w AND mask 8) AND mask 8)
       OR push_bit 8 (drop_bit 16 (push_bit 24 (w AND mask 8) OR push_bit 16 (drop_bit 8 w AND mask 8)
         OR push_bit 8 (drop_bit 16 w AND mask 8) OR drop_bit 24 w AND mask 8) AND mask 8)
       OR drop_bit 24 (push_bit 24 (w AND mask 8) OR push_bit 16 (drop_bit 8 w AND mask 8)
         OR push_bit 8 (drop_bit 16 w AND mask 8) OR drop_bit 24 w AND mask 8) AND mask 8) n = bit w n"
    by (elim exE conjE disjE) (simp_all add: bit_simps)
qed

section \<open>Block copies\<close>

lemma memcpy_disjoint:
  assumes "s + n \<le> d \<or> d + n \<le> s" "s + n \<le> length m" "d + n \<le> length m"
  shows "memcpy m d s n = Some (blit m d (take n (drop s m)))"
  using assms
proof (induction n arbitrary: m d s)
  case (Suc n)
  have "memcpy (m[d := m ! s]) (d + 1) (s + 1) n =
      Some (blit (m[d := m ! s]) (d + 1) (take n (drop (s + 1) (m[d := m ! s]))))"
    using Suc.prems by (intro Suc.IH) auto
  also have "take n (drop (s + 1) (m[d := m ! s])) = take n (drop (s + 1) m)"
    using Suc.prems by (intro nth_equalityI) auto
  also have "blit (m[d := m ! s]) (d + 1) (take n (drop (s + 1) m)) =
      blit (blit m d [m ! s]) (d + length [m ! s]) (take n (drop (s + 1) m))"
    using Suc.prems by (simp add: blit_singleton)
  also have "\<dots> = blit m d ([m ! s] @ take n (drop (s + 1) m))"
    using Suc.prems by (intro blit_append) auto
  also have "[m ! s] @ take n (drop (s + 1) m) = take (Suc n) (drop s m)"
    using Suc.prems by (simp add: Cons_nth_drop_Suc [symmetric])
  finally show ?case
    using Suc.prems by simp
qed simp

lemma quick_memcpy_disjoint:
  assumes "s + n \<le> d \<or> d + n \<le> s" "s + n \<le> length m" "d + n \<le> length m"
    and "n mod 16 = 0" "0 < n"
  shows "quick_memcpy m d s n = Some (blit m d (take n (drop s m)))"
  using assms
proof (induction m d s n rule: quick_memcpy.induct)
  case (1 m d s n)
  have n: "16 \<le> n" "n \<noteq> 16 \<Longrightarrow> 16 < n \<and> (n - 16) mod 16 = 0"
    using "1.prems" by presburger+
  let ?m' = "blit m d (take 16 (drop s m))"
  have ld: "load m s 16 = Some (take 16 (drop s m))" "store m d (take 16 (drop s m)) = Some ?m'"
    using "1.prems" n by auto
  show ?case
  proof (cases "n = 16")
    case True
    then show ?thesis
      using ld by (subst quick_memcpy.simps) simp
  next
    case False
    have "quick_memcpy ?m' (d + 16) (s + 16) (n - 16) =
        Some (blit ?m' (d + 16) (take (n - 16) (drop (s + 16) ?m')))"
      using "1.IH" [OF ld] "1.prems" n False by auto
    moreover have "take (n - 16) (drop (s + 16) ?m') = take (n - 16) (drop (s + 16) m)"
      using "1.prems" n by (intro take_drop_blit) auto
    moreover have "blit ?m' (d + 16) (take (n - 16) (drop (s + 16) m)) =
        blit m d (take 16 (drop s m) @ take (n - 16) (drop (s + 16) m))"
      using "1.prems" n blit_append [of d "take 16 (drop s m)"] by auto
    moreover have "take 16 (drop s m) @ take (n - 16) (drop (s + 16) m) = take n (drop s m)"
      using n take_add [of 16 "n - 16" "drop s m"] by (simp add: add.commute)
    ultimately show ?thesis
      using ld n False by (subst quick_memcpy.simps) simp
  qed
qed

lemma quick_memcpy_0:
  assumes "s + 16 \<le> length m" "d + 16 \<le> length m"
  shows "quick_memcpy m d s 0 = Some (blit m d (take 16 (drop s m)))"
  using assms by (subst quick_memcpy.simps) simp

text \<open>The number of bytes \<open>quick_memcpy\<close> moves for a count: what it reads from
  and writes to when its two ends are in different objects.\<close>

definition quick_len :: "nat \<Rightarrow> nat" where
  "quick_len n = (if n = 0 then 16 else (n + 15) div 16 * 16)"

lemma quick_len_multiple: "0 < n \<Longrightarrow> n mod 16 = 0 \<Longrightarrow> quick_len n = n"
  by (auto simp: quick_len_def elim!: dvdE dest!: mod_0_imp_dvd)

lemma quick_len_0 [simp]: "quick_len 0 = 16"
  by (simp add: quick_len_def)

lemma and_15_mod: "((n :: u32) AND 0xf = 0) \<longleftrightarrow> unat n mod 16 = 0"
proof -
  have "n AND 0xf = take_bit 4 n"
    by (simp add: take_bit_eq_mask mask_eq_exp_minus_1)
  then have "unat (n AND 0xf) = unat n mod 16"
    by (simp add: unsigned_take_bit_eq take_bit_eq_mod unat_mod)
  then show ?thesis
    by (metis unat_eq_zero unsigned_0)
qed

text \<open>The number of bytes \<open>qmemcpy\<close> moves from an address into a buffer of which
  only the alignment is known.\<close>

definition qcopy_len :: "bool \<Rightarrow> u32 \<Rightarrow> u32 \<Rightarrow> nat" where
  "qcopy_len dest_aligned src n =
     (if dest_aligned \<and> src AND 0xf = 0 \<and> n AND 0xf = 0 then quick_len (unat n) else unat n)"

lemma qcopy_len_eq: "0 < n \<Longrightarrow> qcopy_len al src n = unat n"
  by (auto simp: qcopy_len_def and_15_mod quick_len_multiple word_less_nat_alt)

lemma quick_memcpy_len:
  assumes "n mod 16 = 0" "s + quick_len n \<le> d \<or> d + quick_len n \<le> s"
    and "s + quick_len n \<le> length m" "d + quick_len n \<le> length m"
  shows "quick_memcpy m d s n = Some (blit m d (take (quick_len n) (drop s m)))"
  using assms by (cases "n = 0") (simp_all add: quick_memcpy_0 quick_memcpy_disjoint quick_len_multiple)

section \<open>Properties\<close>

text \<open>Two non-overlapping words written into a buffer by \<open>write_word\<close> are
  both read back by \<open>read_word\<close>, whatever was in the buffer, every byte outside
  the two fields keeps its value, and no access leaves the buffer.\<close>

theorem write_word_read_word:
  assumes "o1 + 4 \<le> o2 \<or> o2 + 4 \<le> o1" "o1 + 4 \<le> length b" "o2 + 4 \<le> length b"
  shows "\<exists>b1 b2. write_word v1 b o1 = Some b1 \<and> write_word v2 b1 o2 = Some b2
    \<and> read_word b2 o1 = Some v1 \<and> read_word b2 o2 = Some v2 \<and> length b2 = length b
    \<and> (\<forall>i. (i < o1 \<or> o1 + 4 \<le> i) \<and> (i < o2 \<or> o2 + 4 \<le> i) \<longrightarrow> b2 ! i = b ! i)"
proof -
  obtain b1 b2 where "write_word v1 b o1 = Some b1" "write_word v2 b1 o2 = Some b2"
    "read_word b2 o1 = Some v1" "read_word b2 o2 = Some v2" "length b2 = length b"
    using assms by (rule word_field.two_fields)
  then show ?thesis
    using word_field.wr_frame by fastforce
qed

theorem write_word_read_word_witness:
  "\<exists>b1 b2. write_word 0xdeadbeef [1, 2, 3, 4, 5, 6, 7, 8, 9] 5 = Some b1
    \<and> write_word 0x55aa b1 1 = Some b2 \<and> read_word b2 5 = Some 0xdeadbeef \<and> b2 ! 0 = 1"
  using write_word_read_word [of 5 1 "[1, 2, 3, 4, 5, 6, 7, 8, 9]" "0xdeadbeef" "0x55aa"]
  by fastforce

text \<open>C20: \<open>qmemcpy\<close> of a non-zero count between regions that do not overlap and
  lie inside the memory moves exactly those bytes, whichever of the two copy
  routines the alignment selects.\<close>

theorem qmemcpy_copies:
  assumes "s + n \<le> d \<or> d + n \<le> s" "s + n \<le> length m" "d + n \<le> length m" "0 < n"
  shows "qmemcpy m d s n = Some (blit m d (take n (drop s m)))"
  using assms by (simp add: qmemcpy_def quick_memcpy_disjoint memcpy_disjoint)

theorem qmemcpy_copies_witness:
  "qmemcpy (replicate 32 0 @ replicate 32 7) 0 32 32 = Some (replicate 64 7)"
  using qmemcpy_copies [of 32 32 0 "replicate 32 0 @ replicate 32 7"]
  by (simp add: blit_def replicate_add [symmetric])

text \<open>A zero count is not a no-op: with both pointers 16-aligned,
  \<open>qmemcpy\<close> of zero bytes overwrites the sixteen bytes at the destination.\<close>

theorem qmemcpy_zero_overwrites:
  assumes "d mod 16 = 0" "s mod 16 = 0" "s + 16 \<le> length m" "d + 16 \<le> length m"
  shows "qmemcpy m d s 0 = Some (blit m d (take 16 (drop s m)))"
  using assms by (simp add: qmemcpy_def quick_memcpy_0)

theorem qmemcpy_zero_overwrites_witness:
  "qmemcpy (replicate 16 0 @ replicate 16 7) 0 16 0 = Some (replicate 32 7)"
  using qmemcpy_zero_overwrites [of 0 16 "replicate 16 0 @ replicate 16 7"]
  by (simp add: blit_def replicate_add [symmetric])

end
