(* ===== verification/CString.thy ===== *)
theory CString
  imports ByteUtil
begin

text \<open>
  The string and memory routines of stdlib.c and the character tests of
  ctype.c, over one flat memory in which a pointer is an index.  A loop that
  runs to a terminating NUL ends with \<open>None\<close> when it would leave the memory.
  \<open>char\<close> is unsigned on the target.  A pointer-or-NULL result is an option
  inside the option of the memory check.
\<close>

section \<open>ctype.c\<close>

definition isspace :: "int \<Rightarrow> bool" where
  "isspace c \<longleftrightarrow> c = 32 \<or> c = 12 \<or> c = 10 \<or> c = 13 \<or> c = 9 \<or> c = 11"

definition isdigit :: "int \<Rightarrow> bool" where
  "isdigit c = (if c < 48 \<or> c > 57 then False else True)"

definition isalpha :: "int \<Rightarrow> bool" where
  "isalpha c = (if c \<ge> 97 \<and> c \<le> 122 then True else if c \<ge> 65 \<and> c \<le> 90 then True else False)"

definition isupper :: "int \<Rightarrow> bool" where
  "isupper c = (if c \<ge> 65 \<and> c \<le> 90 then True else False)"

section \<open>stdlib.c\<close>

definition tolower :: "int \<Rightarrow> int" where
  "tolower c = (if c \<ge> 65 \<and> c \<le> 90 then 97 + (c - 65) else c)"

definition toupper :: "int \<Rightarrow> int" where
  "toupper c = (if c \<ge> 97 \<and> c \<le> 122 then 65 + (c - 97) else c)"

primrec memset :: "buf \<Rightarrow> nat \<Rightarrow> int \<Rightarrow> nat \<Rightarrow> buf option" where
  "memset m s c 0 = Some m"
| "memset m s c (Suc n) = do {
     m \<leftarrow> put_byte m s (word_of_int c);
     memset m (s + 1) c n }"

function strlen :: "buf \<Rightarrow> nat \<Rightarrow> nat option" where
  "strlen m s = do {
     c \<leftarrow> get_byte m s;
     if c \<noteq> 0 then do { r \<leftarrow> strlen m (s + 1); Some (Suc r) } else Some 0 }"
  by pat_completeness auto
termination by (relation "measure (\<lambda>(m, s). length m - s)") (auto simp: get_byte_eq_Some)

text \<open>The copying loop shared by \<open>strcpy\<close> and \<open>strcat\<close>: it advances both
  pointers up to the terminating NUL, and then writes one.\<close>

function copy_str :: "buf \<Rightarrow> nat \<Rightarrow> nat \<Rightarrow> buf option" where
  "copy_str m d s = do {
     c \<leftarrow> get_byte m s;
     if c \<noteq> 0 then do { m' \<leftarrow> put_byte m d c; copy_str m' (d + 1) (s + 1) }
     else put_byte m d 0 }"
  by pat_completeness auto
termination by (relation "measure (\<lambda>(m, d, s). length m - s)")
    (auto simp: get_byte_eq_Some put_byte_eq_Some)

definition strcpy :: "buf \<Rightarrow> nat \<Rightarrow> nat \<Rightarrow> buf option" where
  "strcpy m dest src = copy_str m dest src"

definition strcat :: "buf \<Rightarrow> nat \<Rightarrow> nat \<Rightarrow> buf option" where
  "strcat m dest src = do {
     n \<leftarrow> strlen m dest;
     copy_str m (dest + n) src }"

function strncpy :: "buf \<Rightarrow> nat \<Rightarrow> nat \<Rightarrow> nat \<Rightarrow> buf option" where
  "strncpy m d s n = do {
     c \<leftarrow> get_byte m s;
     if c \<noteq> 0 \<and> n > 0 then do {
       m' \<leftarrow> put_byte m d c;
       strncpy m' (d + 1) (s + 1) (n - 1) }
     else if n > 0 then put_byte m d 0 else Some m }"
  by pat_completeness auto
termination by (relation "measure (\<lambda>(m, d, s, n). n)") auto

function strcmp :: "buf \<Rightarrow> nat \<Rightarrow> nat \<Rightarrow> int option" where
  "strcmp m s1 s2 = do {
     a \<leftarrow> get_byte m s1;
     b \<leftarrow> get_byte m s2;
     if a \<noteq> 0 \<or> b \<noteq> 0 then
       if a - b \<noteq> 0 then Some (uint (a - b)) else strcmp m (s1 + 1) (s2 + 1)
     else Some 0 }"
  by pat_completeness auto
termination by (relation "measure (\<lambda>(m, s1, s2). length m - s1)") (auto simp: get_byte_eq_Some)

definition lower_byte :: "u8 \<Rightarrow> u8" where
  "lower_byte c = word_of_int (tolower (uint c))"

definition upper_byte :: "u8 \<Rightarrow> u8" where
  "upper_byte c = word_of_int (toupper (uint c))"

text \<open>\<open>strlwr\<close> and \<open>strupr\<close> return a fresh object of \<open>strlen s + 1\<close> bytes.\<close>

definition strlwr :: "buf \<Rightarrow> nat \<Rightarrow> buf option" where
  "strlwr m s = do {
     len \<leftarrow> strlen m s;
     xs \<leftarrow> load m s len;
     Some (map lower_byte xs @ [0]) }"

definition strupr :: "buf \<Rightarrow> nat \<Rightarrow> buf option" where
  "strupr m s = do {
     len \<leftarrow> strlen m s;
     xs \<leftarrow> load m s len;
     Some (map upper_byte xs @ [0]) }"

primrec copy_down :: "buf \<Rightarrow> nat \<Rightarrow> nat \<Rightarrow> nat \<Rightarrow> buf option" where
  "copy_down m d s 0 = Some m"
| "copy_down m d s (Suc n) = do {
     c \<leftarrow> get_byte m (s + n);
     m \<leftarrow> put_byte m (d + n) c;
     copy_down m d s n }"

definition memmove :: "buf \<Rightarrow> nat \<Rightarrow> nat \<Rightarrow> nat \<Rightarrow> buf option" where
  "memmove m dest src n = (if dest > src then memcpy m dest src n else copy_down m dest src n)"

primrec memcmp :: "buf \<Rightarrow> nat \<Rightarrow> nat \<Rightarrow> nat \<Rightarrow> int option" where
  "memcmp m s1 s2 0 = Some 0"
| "memcmp m s1 s2 (Suc n) = do {
     a \<leftarrow> get_byte m s1;
     b \<leftarrow> get_byte m s2;
     if uint a - uint b \<noteq> 0 then Some (uint a - uint b) else memcmp m (s1 + 1) (s2 + 1) n }"

text \<open>\<open>while(*s++ && maxlen--)\<close>: the byte is read before the count is tested.\<close>

function strnlen :: "buf \<Rightarrow> nat \<Rightarrow> nat \<Rightarrow> nat option" where
  "strnlen m s maxlen = do {
     c \<leftarrow> get_byte m s;
     if c \<noteq> 0 \<and> maxlen \<noteq> 0 then do { r \<leftarrow> strnlen m (s + 1) (maxlen - 1); Some (Suc r) }
     else Some 0 }"
  by pat_completeness auto
termination by (relation "measure (\<lambda>(m, s, n). n)") auto

function strchr :: "buf \<Rightarrow> nat \<Rightarrow> int \<Rightarrow> nat option option" where
  "strchr m s c = do {
     v \<leftarrow> get_byte m s;
     if v \<noteq> 0 then if uint v = c then Some (Some s) else strchr m (s + 1) c
     else Some None }"
  by pat_completeness auto
termination by (relation "measure (\<lambda>(m, s, c). length m - s)") (auto simp: get_byte_eq_Some)

primrec memchr :: "buf \<Rightarrow> nat \<Rightarrow> int \<Rightarrow> nat \<Rightarrow> nat option option" where
  "memchr m s c 0 = Some None"
| "memchr m s c (Suc n) = do {
     v \<leftarrow> get_byte m s;
     if uint v = c then Some (Some s) else memchr m (s + 1) c n }"

declare strlen.simps [simp del] copy_str.simps [simp del] strncpy.simps [simp del]
  strcmp.simps [simp del] strnlen.simps [simp del] strchr.simps [simp del]

section \<open>A C string in memory\<close>

primrec cstr_at :: "buf \<Rightarrow> nat \<Rightarrow> cstring \<Rightarrow> bool" where
  "cstr_at m p [] \<longleftrightarrow> get_byte m p = Some 0"
| "cstr_at m p (x # xs) \<longleftrightarrow> get_byte m p = Some x \<and> x \<noteq> 0 \<and> cstr_at m (p + 1) xs"

lemma cstr_at_iff:
  "cstr_at m p xs \<longleftrightarrow> p + length xs < length m \<and> take (length xs) (drop p m) = xs
     \<and> m ! (p + length xs) = 0 \<and> 0 \<notin> set xs"
proof (induction xs arbitrary: p)
  case (Cons x xs)
  show ?case
  proof (cases "p < length m")
    case True
    then have "drop p m = m ! p # drop (Suc p) m"
      by (simp add: Cons_nth_drop_Suc)
    then show ?thesis
      using Cons [of "p + 1"] True by (auto simp: get_byte_def)
  qed (auto simp: get_byte_def)
qed (auto simp: get_byte_eq_Some)

lemma cstr_at_length: "cstr_at m p xs \<Longrightarrow> p + length xs < length m"
  by (simp add: cstr_at_iff)

lemma cstr_at_unique: "cstr_at m p xs \<Longrightarrow> cstr_at m p ys \<Longrightarrow> xs = ys"
proof (induction xs arbitrary: p ys)
  case Nil
  then show ?case
    by (cases ys) auto
next
  case (Cons x xs)
  then show ?case
    by (cases ys) auto
qed

lemma cstr_at_put_other:
  "cstr_at m p xs \<Longrightarrow> i < p \<or> p + length xs < i \<Longrightarrow> cstr_at (m[i := v]) p xs"
  by (induction xs arbitrary: p) (auto simp: get_byte_def split: if_splits)

lemma memset_blit:
  "s + n \<le> length m \<Longrightarrow> memset m s c n = Some (blit m s (replicate n (word_of_int c)))"
proof (induction n arbitrary: m s)
  case (Suc n)
  then show ?case
    using blit_append [of s "[word_of_int c]" "replicate n (word_of_int c)" m]
    by (simp add: blit_singleton [symmetric] del: blit_singleton)
qed simp

lemma cstr_at_blit_other:
  assumes "cstr_at m p xs" "i + length ys \<le> p \<or> p + length xs < i" "i + length ys \<le> length m"
  shows "cstr_at (blit m i ys) p xs"
  using assms by (auto simp: cstr_at_iff nth_blit take_drop_blit)

lemma cstr_at_blit:
  assumes "0 \<notin> set xs" "p + length xs < length m"
  shows "cstr_at (blit m p (xs @ [0])) p xs"
  using assms by (auto simp: cstr_at_iff nth_blit) (simp add: blit_def)

text \<open>Memories that differ inside a range only.\<close>

definition same_outside :: "buf \<Rightarrow> buf \<Rightarrow> nat \<Rightarrow> nat \<Rightarrow> bool" where
  "same_outside m m' lo hi \<longleftrightarrow> length m' = length m \<and> (\<forall>i. i < lo \<or> hi \<le> i \<longrightarrow> m' ! i = m ! i)"

lemma same_outside_refl [simp]: "same_outside m m lo hi"
  by (simp add: same_outside_def)

lemma same_outside_upd: "lo \<le> i \<Longrightarrow> i < hi \<Longrightarrow> same_outside m (m[i := v]) lo hi"
  by (auto simp: same_outside_def)

lemma same_outside_trans:
  "same_outside m m' lo hi \<Longrightarrow> same_outside m' m'' lo' hi' \<Longrightarrow> lo \<le> lo' \<Longrightarrow> hi' \<le> hi \<Longrightarrow>
     same_outside m m'' lo hi"
  by (auto simp: same_outside_def)

lemma same_outside_mono:
  "same_outside m m' lo hi \<Longrightarrow> lo' \<le> lo \<Longrightarrow> hi \<le> hi' \<Longrightarrow> same_outside m m' lo' hi'"
  by (auto simp: same_outside_def)

lemma cstr_at_outside:
  "cstr_at m p xs \<Longrightarrow> same_outside m m' lo hi \<Longrightarrow> hi \<le> p \<or> p + length xs < lo \<Longrightarrow> cstr_at m' p xs"
  by (induction xs arbitrary: p) (auto simp: same_outside_def get_byte_def split: if_splits)

lemma cstr_at_drop: "cstr_at m p xs \<Longrightarrow> n \<le> length xs \<Longrightarrow> cstr_at m (p + n) (drop n xs)"
proof (induction n arbitrary: p xs)
  case (Suc n)
  then obtain x ys where "xs = x # ys"
    by (cases xs) auto
  then show ?case
    using Suc.IH [of "p + 1" ys] Suc.prems by simp
qed simp

lemma cstr_at_nonzero: "cstr_at m p xs \<Longrightarrow> 0 \<notin> set xs"
  by (simp add: cstr_at_iff)

lemma cstr_at_cut:
  "cstr_at m p xs \<Longrightarrow> n \<le> length xs \<Longrightarrow> cstr_at (m[p + n := 0]) p (take n xs)"
proof (induction n arbitrary: p xs)
  case 0
  then show ?case
    using cstr_at_length [of m p xs] by simp
next
  case (Suc n)
  then show ?case
  proof (cases xs)
    case (Cons x ys)
    then show ?thesis
      using Suc.prems Suc.IH [of "p + 1" ys] by (auto simp: get_byte_def split: if_splits)
  qed simp
qed

section \<open>Functional behaviour\<close>

lemma strlen_cstr: "cstr_at m p xs \<Longrightarrow> strlen m p = Some (length xs)"
  by (induction xs arbitrary: p) (simp_all add: strlen.simps)

lemma copy_str_cstr:
  assumes "cstr_at m s xs" "d + length xs < s \<or> s + length xs < d" "d + length xs < length m"
  shows "copy_str m d s = Some (blit m d (xs @ [0]))"
  using assms
proof (induction xs arbitrary: m d s)
  case Nil
  then show ?case
    by (simp add: copy_str.simps blit_singleton)
next
  case (Cons x xs)
  have "copy_str (m[d := x]) (d + 1) (s + 1) = Some (blit (m[d := x]) (d + 1) (xs @ [0]))"
    using Cons.prems by (intro Cons.IH) (auto intro: cstr_at_put_other)
  also have "blit (m[d := x]) (d + 1) (xs @ [0]) = blit m d ((x # xs) @ [0])"
    using Cons.prems blit_append [of d "[x]" "xs @ [0]" m] by (simp add: blit_singleton)
  finally show ?case
    using Cons.prems by (subst copy_str.simps) simp
qed

lemma strcmp_cstr:
  "cstr_at m p xs \<Longrightarrow> cstr_at m q ys \<Longrightarrow>
     \<exists>r. strcmp m p q = Some r \<and> 0 \<le> r \<and> (r = 0 \<longleftrightarrow> xs = ys)"
proof (induction xs arbitrary: p q ys)
  case Nil
  then show ?case
    by (cases ys) (auto simp: strcmp.simps uint_0_iff)
next
  case (Cons x xs)
  show ?case
  proof (cases ys)
    case Nil
    then show ?thesis
      using Cons.prems by (auto simp: strcmp.simps uint_0_iff)
  next
    case (Cons y zs)
    show ?thesis
    proof (cases "x = y")
      case True
      then show ?thesis
        using Cons.prems Cons.IH [of "p + 1" "q + 1" zs] Cons
        by (subst strcmp.simps) auto
    qed (use Cons.prems Cons in \<open>auto simp: strcmp.simps uint_0_iff\<close>)
  qed
qed

lemma strchr_cstr:
  "cstr_at m p xs \<Longrightarrow> strchr m p c =
     Some (if c \<in> uint ` set xs then Some (p + length (takeWhile (\<lambda>v. uint v \<noteq> c) xs)) else None)"
proof (induction xs arbitrary: p)
  case (Cons x xs)
  then show ?case
    by (subst strchr.simps) auto
qed (simp add: strchr.simps)

lemma strncpy_cstr:
  assumes "cstr_at m s xs" "d + n \<le> s \<or> s + length xs < d" "d + n \<le> length m"
  shows "strncpy m d s n = Some (blit m d (take n (xs @ [0])))"
  using assms
proof (induction xs arbitrary: m d s n)
  case Nil
  then show ?case
    by (cases n) (auto simp: strncpy.simps blit_singleton)
next
  case (Cons x xs)
  show ?case
  proof (cases n)
    case 0
    then show ?thesis
      using Cons.prems by (subst strncpy.simps) simp
  next
    case (Suc k)
    have "strncpy (m[d := x]) (d + 1) (s + 1) k = Some (blit (m[d := x]) (d + 1) (take k (xs @ [0])))"
      using Cons.prems Suc by (intro Cons.IH) (auto intro: cstr_at_put_other)
    also have "blit (m[d := x]) (d + 1) (take k (xs @ [0])) = blit m d (x # take k (xs @ [0]))"
      using Cons.prems Suc blit_append [of d "[x]" "take k (xs @ [0])" m]
      by (simp add: blit_singleton)
    finally show ?thesis
      using Cons.prems Suc by (subst strncpy.simps) simp
  qed
qed

lemma memmove_up_smears:
  "d = Suc s \<Longrightarrow> d + n \<le> length m \<Longrightarrow> memcpy m d s n = Some (blit m d (replicate n (m ! s)))"
proof (induction n arbitrary: m s d)
  case (Suc n)
  have "memcpy (m[d := m ! s]) (d + 1) (s + 1) n =
      Some (blit (m[d := m ! s]) (d + 1) (replicate n (m[d := m ! s] ! (s + 1))))"
    using Suc.prems by (intro Suc.IH) auto
  also have "blit (m[d := m ! s]) (d + 1) (replicate n (m[d := m ! s] ! (s + 1)))
      = blit m d (replicate (Suc n) (m ! s))"
    using Suc.prems blit_append [of d "[m ! s]" "replicate n (m ! s)" m]
    by (simp add: blit_singleton)
  finally show ?case
    using Suc.prems by simp
qed simp

lemma copy_down_disjoint:
  assumes "s + n \<le> d \<or> d + n \<le> s" "s + n \<le> length m" "d + n \<le> length m"
  shows "copy_down m d s n = Some (blit m d (take n (drop s m)))"
  using assms
proof (induction n arbitrary: m)
  case (Suc n)
  have "copy_down (m[d + n := m ! (s + n)]) d s n =
      Some (blit (m[d + n := m ! (s + n)]) d (take n (drop s (m[d + n := m ! (s + n)]))))"
    using Suc.prems by (intro Suc.IH) auto
  also have "take n (drop s (m[d + n := m ! (s + n)])) = take n (drop s m)"
    using Suc.prems by (intro nth_equalityI) auto
  also have "blit (m[d + n := m ! (s + n)]) d (take n (drop s m)) = blit m d (take (Suc n) (drop s m))"
    using Suc.prems by (intro nth_equalityI) (auto simp: nth_blit nth_list_update)
  finally show ?case
    using Suc.prems by simp
qed simp

lemma strlwr_cstr: "cstr_at m p xs \<Longrightarrow> strlwr m p = Some (map lower_byte xs @ [0])"
  by (simp add: strlwr_def strlen_cstr cstr_at_iff)

lemma strupr_cstr: "cstr_at m p xs \<Longrightarrow> strupr m p = Some (map upper_byte xs @ [0])"
  by (simp add: strupr_def strlen_cstr cstr_at_iff)

section \<open>Properties\<close>

text \<open>\<open>strcmp\<close> on two NUL-terminated strings stays inside them, returns
  zero exactly when they are equal, and is never negative: the difference is
  narrowed to the unsigned \<open>char\<close>, so the sign that would order two strings is
  lost.\<close>

theorem strcmp_decides_equality:
  assumes "cstr_at m p xs" "cstr_at m q ys"
  shows "\<exists>r. strcmp m p q = Some r \<and> 0 \<le> r \<and> (r = 0 \<longleftrightarrow> xs = ys)"
  using assms by (rule strcmp_cstr)

theorem strcmp_decides_equality_witness:
  "\<exists>r. strcmp [97, 98, 0, 97, 99, 0] 0 3 = Some r \<and> 0 < r"
  using strcmp_decides_equality [of "[97, 98, 0, 97, 99, 0]" 0 "[97, 98]" 3 "[97, 99]"]
  by force

text \<open>\<open>strcpy\<close> followed by \<open>strcat\<close> into a buffer with room for both strings
  leaves their concatenation there, NUL-terminated, and changes no other byte;
  this is how device names and paths are put together.\<close>

theorem strcpy_strcat:
  assumes "cstr_at m p xs" "cstr_at m q ys"
    and "d + length xs + length ys < length m"
    and "d + length xs + length ys < p \<or> p + length xs < d"
    and "d + length xs + length ys < q \<or> q + length ys < d"
  shows "\<exists>m1 m2. strcpy m d p = Some m1 \<and> strcat m1 d q = Some m2
    \<and> cstr_at m2 d (xs @ ys) \<and> m2 = blit m d (xs @ ys @ [0])"
proof -
  let ?m1 = "blit m d (xs @ [0])"
  have z: "0 \<notin> set xs" "0 \<notin> set ys"
    using assms by (auto simp: cstr_at_iff)
  have 1: "strcpy m d p = Some ?m1"
    unfolding strcpy_def using assms by (intro copy_str_cstr) auto
  have "strlen ?m1 d = Some (length xs)"
    using assms z by (intro strlen_cstr cstr_at_blit) auto
  moreover have "copy_str ?m1 (d + length xs) q = Some (blit ?m1 (d + length xs) (ys @ [0]))"
    using assms by (intro copy_str_cstr cstr_at_blit_other) auto
  moreover have "blit ?m1 (d + length xs) (ys @ [0]) = blit m d (xs @ ys @ [0])"
    using assms by (intro nth_equalityI) (auto simp: nth_blit nth_append)
  ultimately have "strcat ?m1 d q = Some (blit m d (xs @ ys @ [0]))"
    by (simp add: strcat_def)
  moreover have "cstr_at (blit m d ((xs @ ys) @ [0])) d (xs @ ys)"
    using assms z by (intro cstr_at_blit) auto
  ultimately show ?thesis
    using 1 by simp
qed

theorem strcpy_strcat_witness:
  "\<exists>m1 m2. strcpy [0, 0, 0, 9, 97, 0, 98, 0] 0 4 = Some m1 \<and> strcat m1 0 6 = Some m2
    \<and> cstr_at m2 0 [97, 98]"
  using strcpy_strcat [of "[0, 0, 0, 9, 97, 0, 98, 0]" 4 "[97]" 6 "[98]" 0] by fastforce

text \<open>\<open>memmove\<close> between regions that do not overlap copies the bytes, but for
  a destination one byte above the source it fills the destination with the
  first source byte: the test for the copy direction is the wrong way round.\<close>

theorem memmove_behaviour:
  assumes "s + n \<le> length m" "d + n \<le> length m"
  shows "(s + n \<le> d \<or> d + n \<le> s \<longrightarrow> memmove m d s n = Some (blit m d (take n (drop s m))))
    \<and> (d = s + 1 \<longrightarrow> memmove m d s n = Some (blit m d (replicate n (m ! s))))"
  using assms by (auto simp: memmove_def memcpy_disjoint copy_down_disjoint memmove_up_smears)

theorem memmove_behaviour_witness:
  "memmove [1, 2, 3, 4] 1 0 3 = Some [1, 1, 1, 1]"
  using memmove_behaviour [of 0 3 "[1, 2, 3, 4]" 1]
  by (simp add: blit_def numeral_eq_Suc)

end
