(* ===== verification/Strtol.thy ===== *)
theory Strtol
  imports CString
begin

text \<open>
  Number parsing: \<open>strtol\<close> (strtol.c, 32-bit \<open>long\<close>, overflow caught before it
  happens with \<open>cutoff\<close> and \<open>cutlim\<close>) and \<open>strtoll\<close> (strtoll.c, 64-bit, overflow
  sought afterwards in the sign of the accumulator).  The result is the value
  returned, the position stored through \<open>endptr\<close>, and the error number set, if
  any.
\<close>

section \<open>strtol\<close>

text \<open>The do-while loop over white space: the first other character, and the
  position after it.\<close>

function skip_space :: "buf \<Rightarrow> nat \<Rightarrow> (u8 \<times> nat) option" where
  "skip_space m s = do {
     c \<leftarrow> get_byte m s;
     if isspace (uint c) then skip_space m (s + 1) else Some (c, s + 1) }"
  by pat_completeness auto
termination by (relation "measure (\<lambda>(m, s). length m - s)") (auto simp: get_byte_eq_Some)

declare skip_space.simps [simp del]

definition read_sign :: "buf \<Rightarrow> nat \<Rightarrow> (bool \<times> u8 \<times> nat) option" where
  "read_sign m s = do {
     (c, s) \<leftarrow> skip_space m s;
     if c = 45 then do { c \<leftarrow> get_byte m s; Some (True, c, s + 1) }
     else if c = 43 then do { c \<leftarrow> get_byte m s; Some (False, c, s + 1) }
     else Some (False, c, s) }"

definition is_xdigit :: "u8 \<Rightarrow> bool" where
  "is_xdigit c \<longleftrightarrow> 48 \<le> c \<and> c \<le> 57 \<or> 65 \<le> c \<and> c \<le> 70 \<or> 97 \<le> c \<and> c \<le> 102"

text \<open>The 0x prefix, in the order of the short-circuit conditions, and then the
  default base.\<close>

definition read_base :: "buf \<Rightarrow> u8 \<Rightarrow> nat \<Rightarrow> int \<Rightarrow> (u8 \<times> nat \<times> int) option" where
  "read_base m c s base = do {
     (c, s, base) \<leftarrow>
       (if (base = 0 \<or> base = 16) \<and> c = 48 then do {
          x \<leftarrow> get_byte m s;
          if x = 120 \<or> x = 88 then do {
            d \<leftarrow> get_byte m (s + 1);
            if is_xdigit d then Some (d, s + 2, 16) else Some (c, s, base) }
          else Some (c, s, base) }
        else Some (c, s, base));
     Some (c, s, if base = 0 then if c = 48 then 8 else 10 else base) }"

definition digit_val :: "u8 \<Rightarrow> u8 option" where
  "digit_val c =
     (if 48 \<le> c \<and> c \<le> 57 then Some (c - 48)
      else if 65 \<le> c \<and> c \<le> 90 then Some (c - 55)
      else if 97 \<le> c \<and> c \<le> 122 then Some (c - 87)
      else None)"

function strtol_loop ::
  "buf \<Rightarrow> nat \<Rightarrow> u8 \<Rightarrow> int \<Rightarrow> u32 \<Rightarrow> int \<Rightarrow> int \<Rightarrow> u32 \<Rightarrow> (int \<times> u32 \<times> nat) option" where
  "strtol_loop m s c base cutoff cutlim any acc =
     (case digit_val c of
        None \<Rightarrow> Some (any, acc, s)
      | Some d \<Rightarrow>
          if uint d \<ge> base then Some (any, acc, s)
          else do {
            c' \<leftarrow> get_byte m s;
            if any < 0 \<or> acc > cutoff \<or> acc = cutoff \<and> uint d > cutlim
            then strtol_loop m (s + 1) c' base cutoff cutlim (-1) acc
            else strtol_loop m (s + 1) c' base cutoff cutlim 1 (acc * word_of_int base + ucast d) })"
  by pat_completeness auto
termination by (relation "measure (\<lambda>(m, s, _). length m - s)") (auto simp: get_byte_eq_Some)

declare strtol_loop.simps [simp del]

definition LONG_MAX :: int where "LONG_MAX = 2147483647"
definition LONG_MIN :: int where "LONG_MIN = -2147483648"

definition strtol_l :: "buf \<Rightarrow> nat \<Rightarrow> int \<Rightarrow> (int \<times> nat \<times> errno option) option" where
  "strtol_l m nptr base = do {
     (neg, c, s) \<leftarrow> read_sign m nptr;
     (c, s, base) \<leftarrow> read_base m c s base;
     if base < 2 \<or> base > 36 then Some (0, nptr, Some EINVAL)
     else do {
       let limit = (if neg then word_of_int (- (LONG_MIN + LONG_MAX)) + word_of_int LONG_MAX
                    else (word_of_int LONG_MAX :: u32));
       let cutlim = uint (limit mod word_of_int base);
       let cutoff = limit div word_of_int base;
       (any, acc, s) \<leftarrow> strtol_loop m s c base cutoff cutlim 0 0;
       if any < 0 then Some (if neg then LONG_MIN else LONG_MAX, s - 1, Some ERANGE)
       else if any = 0 then Some (sint acc, nptr, Some EINVAL)
       else Some (sint (if neg then - acc else acc), s - 1, None) } }"

definition strtol :: "buf \<Rightarrow> nat \<Rightarrow> int \<Rightarrow> (int \<times> nat \<times> errno option) option" where
  "strtol m nptr base = strtol_l m nptr base"

section \<open>strtoll\<close>

text \<open>\<open>strtoll\<close> takes a 0x prefix without looking at the digit after it.\<close>

definition read_base_ll :: "buf \<Rightarrow> u8 \<Rightarrow> nat \<Rightarrow> int \<Rightarrow> (u8 \<times> nat \<times> int) option" where
  "read_base_ll m c s base = do {
     (c, s, base) \<leftarrow>
       (if (base = 0 \<or> base = 16) \<and> c = 48 then do {
          x \<leftarrow> get_byte m s;
          if x = 120 \<or> x = 88 then do {
            d \<leftarrow> get_byte m (s + 1);
            Some (d, s + 2, 16) }
          else Some (c, s, base) }
        else Some (c, s, base));
     Some (c, s, if base = 0 then if c = 48 then 8 else 10 else base) }"

definition digit_val_ll :: "u8 \<Rightarrow> int option" where
  "digit_val_ll c =
     (if isdigit (uint c) then Some (uint c - 48)
      else if isalpha (uint c) then Some (uint c - (if isupper (uint c) then 55 else 87))
      else None)"

definition strtoll_acc :: "bool \<Rightarrow> u64 \<Rightarrow> int \<times> u64 \<times> errno option" where
  "strtoll_acc neg acc =
     (if neg then
        if 0 < sint (- acc) then (-1, word_of_int (- (2 ^ 63)), Some ERANGE) else (1, acc, None)
      else
        if 0 > sint acc then (-1, word_of_int (2 ^ 63 - 1), Some ERANGE) else (1, acc, None))"

function strtoll_loop ::
  "buf \<Rightarrow> nat \<Rightarrow> u8 \<Rightarrow> int \<Rightarrow> bool \<Rightarrow> int \<Rightarrow> u64 \<Rightarrow> errno option
     \<Rightarrow> (int \<times> u64 \<times> nat \<times> errno option) option" where
  "strtoll_loop m s c base neg any acc err =
     (case digit_val_ll c of
        None \<Rightarrow> Some (any, acc, s, err)
      | Some d \<Rightarrow>
          if d \<ge> base then Some (any, acc, s, err)
          else do {
            c' \<leftarrow> get_byte m s;
            if any < 0 then strtoll_loop m (s + 1) c' base neg any acc err
            else (case strtoll_acc neg (acc * word_of_int base + word_of_int d) of
                    (any', acc', None) \<Rightarrow> strtoll_loop m (s + 1) c' base neg any' acc' err
                  | (any', acc', Some e) \<Rightarrow> strtoll_loop m (s + 1) c' base neg any' acc' (Some e)) })"
  by pat_completeness auto
termination by (relation "measure (\<lambda>(m, s, _). length m - s)") (auto simp: get_byte_eq_Some)

declare strtoll_loop.simps [simp del]

definition strtoll :: "buf \<Rightarrow> nat \<Rightarrow> int \<Rightarrow> (int \<times> nat \<times> errno option) option" where
  "strtoll m nptr base = do {
     (neg, c, s) \<leftarrow> read_sign m nptr;
     (c, s, base) \<leftarrow> read_base_ll m c s base;
     (any, acc, s, err) \<leftarrow> strtoll_loop m s c base neg 0 0 None;
     Some (sint (if neg then - acc else acc), if any \<noteq> 0 then s - 1 else nptr, err) }"

section \<open>Specification\<close>

text \<open>A numeral: its digits below the base, and what they denote.\<close>

definition is_digit :: "int \<Rightarrow> u8 \<Rightarrow> bool" where
  "is_digit base c = (case digit_val c of None \<Rightarrow> False | Some d \<Rightarrow> uint d < base)"

definition numeral_value :: "int \<Rightarrow> u8 list \<Rightarrow> int" where
  "numeral_value base ds = foldl (\<lambda>a c. a * base + uint (the (digit_val c))) 0 ds"

lemma foldl_value_ge:
  "0 \<le> base \<Longrightarrow> base \<noteq> 0 \<Longrightarrow> 0 \<le> a \<Longrightarrow>
     a \<le> foldl (\<lambda>a c. a * base + uint (the (digit_val c))) a ds"
proof (induction ds arbitrary: a)
  case (Cons d ds)
  have "a \<le> a * base + uint (the (digit_val d))"
  proof -
    have "0 \<le> uint (the (digit_val d))" "1 * a \<le> base * a"
      using Cons.prems mult_right_mono [of 1 base a] by simp_all
    then show ?thesis
      unfolding mult.commute [of base] by linarith
  qed
  also have "\<dots> \<le> foldl (\<lambda>a c. a * base + uint (the (digit_val c)))
      (a * base + uint (the (digit_val d))) ds"
    using Cons.prems by (intro Cons.IH) auto
  finally show ?case
    by simp
qed simp

lemma cutoff_test:
  assumes "0 < base" "0 \<le> d" "d < (base :: int)"
  shows "(acc > limit div base \<or> acc = limit div base \<and> d > limit mod base)
    \<longleftrightarrow> acc * base + d > limit"
proof -
  have l: "limit = limit div base * base + limit mod base" "0 \<le> limit mod base" "limit mod base < base"
    using assms by simp_all
  consider "acc < limit div base" | "acc = limit div base" | "acc > limit div base"
    by linarith
  then show ?thesis
  proof cases
    case 1
    then have "(acc + 1) * base \<le> limit div base * base"
      using assms by (intro mult_right_mono) auto
    then have "acc * base + d \<le> limit"
      using assms l unfolding distrib_right by linarith
    then show ?thesis
      using 1 by linarith
  next
    case 2
    then have "acc * base = limit - limit mod base"
      using l unfolding 2 by linarith
    then show ?thesis
      using 2 by auto
  next
    case 3
    then have "(limit div base + 1) * base \<le> acc * base"
      using assms by (intro mult_right_mono) auto
    then have "acc * base + d > limit"
      using assms l unfolding distrib_right by linarith
    then show ?thesis
      using 3 by linarith
  qed
qed

lemma strtol_stop:
  "\<not> is_digit base c \<Longrightarrow> strtol_loop m s c base cutoff cutlim any acc = Some (any, acc, s)"
  by (subst strtol_loop.simps) (auto simp: is_digit_def split: option.splits)

text \<open>Once the range is exceeded the loop eats the remaining digits.\<close>

lemma strtol_loop_over:
  "bytes_at m s (tl (ds @ [x])) \<Longrightarrow> \<forall>d \<in> set ds. is_digit base d \<Longrightarrow> \<not> is_digit base x \<Longrightarrow>
     strtol_loop m s (hd (ds @ [x])) base cutoff cutlim (-1) acc = Some (-1, acc, s + length ds)"
proof (induction ds arbitrary: s)
  case (Cons d ds)
  then obtain c' where "get_byte m s = Some c'" "c' = hd (ds @ [x])" "bytes_at m (s + 1) (tl (ds @ [x]))"
    by (cases ds) auto
  then show ?case
    using Cons by (subst strtol_loop.simps) (auto simp: is_digit_def split: option.splits)
qed (simp add: strtol_stop)

lemma strtol_loop_digits:
  assumes "bytes_at m s (tl (ds @ [x]))" "\<forall>d \<in> set ds. is_digit base d" "\<not> is_digit base x"
    and "2 \<le> base" "base \<le> 36" "uint acc \<le> uint limit" "0 \<le> any" "ds = [] \<longrightarrow> any = a"
    and "ds \<noteq> [] \<longrightarrow> a = 1"
    and "v = foldl (\<lambda>a c. a * base + uint (the (digit_val c))) (uint acc) ds"
  shows "\<exists>r. strtol_loop m s (hd (ds @ [x])) base (limit div word_of_int base)
      (uint (limit mod word_of_int base)) any acc
    = Some (if v \<le> uint limit then a else -1, r, s + length ds)
    \<and> (v \<le> uint limit \<longrightarrow> uint r = v)"
  using assms
proof (induction ds arbitrary: s acc any)
  case Nil
  then show ?case
    by (simp add: strtol_stop)
next
  case (Cons d ds)
  let ?base = "word_of_int base :: u32"
  let ?c = "limit div ?base" and ?l = "uint (limit mod ?base)"
  obtain c' where c': "get_byte m s = Some c'" "c' = hd (ds @ [x])" "bytes_at m (s + 1) (tl (ds @ [x]))"
    using Cons.prems by (cases ds) auto
  obtain e where e: "digit_val d = Some e" "uint e < base"
    using Cons.prems(2) by (auto simp: is_digit_def split: option.splits)
  have b: "uint ?base = base"
    using Cons.prems by (simp add: uint_word_of_int)
  have div: "uint ?c = uint limit div base" "?l = uint limit mod base"
    using b by (simp_all add: uint_div uint_mod)
  have test: "(acc > ?c \<or> acc = ?c \<and> uint e > ?l) \<longleftrightarrow> uint acc * base + uint e > uint limit"
    unfolding word_less_def word_uint_eq_iff div
    using cutoff_test [of base "uint e" "uint limit" "uint acc"] e Cons.prems b by simp
  show ?case
  proof (cases "uint acc * base + uint e > uint limit")
    case True
    have "uint acc * base + uint e \<le> v"
      using Cons.prems foldl_value_ge [of base "uint acc * base + uint e" ds] e by simp
    then show ?thesis
      using True Cons.prems e c' strtol_loop_over [of m "s + 1" ds x base ?c ?l acc]
      by (subst strtol_loop.simps) (simp add: test)
  next
    case False
    have u: "uint (acc * ?base + ucast e) = uint acc * base + uint e"
    proof -
      have "uint acc * base + uint e < 2 ^ 32"
        using False uint_lt2p [of limit] by simp
      moreover have "0 \<le> uint acc * base"
        using Cons.prems by simp
      moreover have "uint (ucast e :: u32) = uint e"
        by (simp add: uint_up_ucast is_up)
      ultimately show ?thesis
        using b by (simp add: uint_word_ariths mod_simps)
    qed
    have "\<exists>r. strtol_loop m (s + 1) (hd (ds @ [x])) base ?c ?l 1 (acc * ?base + ucast e)
      = Some (if v \<le> uint limit then a else -1, r, s + 1 + length ds) \<and> (v \<le> uint limit \<longrightarrow> uint r = v)"
      using Cons.prems e False c' by (intro Cons.IH) (auto simp: u)
    then show ?thesis
      using False Cons.prems e c' by (subst strtol_loop.simps) (simp add: test)
  qed
qed

lemma skip_space_spaces:
  "bytes_at m p (ws @ [c]) \<Longrightarrow> \<forall>w \<in> set ws. isspace (uint w) \<Longrightarrow> \<not> isspace (uint c) \<Longrightarrow>
     skip_space m p = Some (c, p + length ws + 1)"
proof (induction ws arbitrary: p)
  case (Cons w ws)
  then show ?case
    by (subst skip_space.simps) auto
qed (simp add: skip_space.simps)

text \<open>What \<open>strtol\<close> sees: white space, an optional sign, and the first
  character after it.\<close>

definition sign_chars :: "u8 list \<Rightarrow> bool" where
  "sign_chars sg \<longleftrightarrow> sg = [] \<or> sg = [45] \<or> sg = [43]"

lemma read_sign_chars:
  assumes "bytes_at m p (ws @ sg @ [c])" "\<forall>w \<in> set ws. isspace (uint w)" "sign_chars sg"
    and "sg = [] \<longrightarrow> c \<noteq> 45 \<and> c \<noteq> 43 \<and> \<not> isspace (uint c)"
  shows "read_sign m p = Some (sg = [45], c, p + length ws + length sg + 1)"
proof (cases "sg = []")
  case True
  then show ?thesis
    using assms by (simp add: read_sign_def skip_space_spaces)
next
  case False
  then have "skip_space m p = Some (hd sg, p + length ws + 1)"
    using assms by (intro skip_space_spaces) (auto simp: sign_chars_def bytes_at_append isspace_def)
  then show ?thesis
    using assms False by (auto simp: read_sign_def sign_chars_def bytes_at_append)
qed

definition strtol_limit :: "bool \<Rightarrow> int" where
  "strtol_limit neg = (if neg then 2147483648 else 2147483647)"

lemma is_digit_not_space: "is_digit base c \<Longrightarrow> \<not> isspace (uint c)"
  by (auto simp: is_digit_def digit_val_def isspace_def word_le_def split: if_splits)

lemma is_digit_not_sign: "is_digit base c \<Longrightarrow> c \<noteq> 45 \<and> c \<noteq> 43"
  by (auto simp: is_digit_def digit_val_def word_le_def split: if_splits)

lemma strtol_result:
  assumes r: "read_sign m p = Some (neg, hd (ds @ [x]), s)" and "bytes_at m s (tl (ds @ [x]))"
    and b: "read_base m (hd (ds @ [x])) s base0 = Some (hd (ds @ [x]), s, base)"
    and "\<forall>d \<in> set ds. is_digit base d" "\<not> is_digit base x" "2 \<le> base" "base \<le> 36" "0 < s"
    and v: "v = numeral_value base ds"
  shows "strtol m p base0 = Some
    (if ds = [] then (0, p, Some EINVAL)
     else if v \<le> strtol_limit neg then (if neg then - v else v, s - 1 + length ds, None)
     else (if neg then LONG_MIN else LONG_MAX, s - 1 + length ds, Some ERANGE))"
proof -
  define limit where "limit = (if neg then word_of_int (- (LONG_MIN + LONG_MAX)) + word_of_int LONG_MAX
                    else (word_of_int LONG_MAX :: u32))"
  have lim: "uint limit = strtol_limit neg"
    by (simp add: limit_def LONG_MIN_def LONG_MAX_def strtol_limit_def)
  have loop: "\<exists>r. strtol_loop m s (hd (ds @ [x])) base (limit div word_of_int base)
      (uint (limit mod word_of_int base)) 0 0
    = Some (if v \<le> strtol_limit neg then if ds = [] then 0 else 1 else -1, r, s + length ds)
    \<and> (v \<le> strtol_limit neg \<longrightarrow> uint r = v)"
    unfolding lim [symmetric] using assms by (intro strtol_loop_digits) (auto simp: numeral_value_def)
  have v0: "0 \<le> v"
    using foldl_value_ge [of base 0 ds] assms by (simp add: numeral_value_def)
  obtain r where r: "strtol_loop m s (hd (ds @ [x])) base (limit div word_of_int base)
      (uint (limit mod word_of_int base)) 0 0
    = Some (if v \<le> strtol_limit neg then if ds = [] then 0 else 1 else -1, r, s + length ds)"
    "v \<le> strtol_limit neg \<Longrightarrow> r = word_of_int v"
    using loop by (metis word_of_int_uint)
  have "sint (if neg then - r else r) = (if neg then - v else v)" if "v \<le> strtol_limit neg"
    using that v0 r(2) sint_word_of_int_u32 [of "if neg then - v else v"]
    by (auto simp: strtol_limit_def split: if_splits)
  moreover have "v = 0" if "ds = []"
    using that by (simp add: v numeral_value_def)
  ultimately show ?thesis
    using assms r(1) r(2) v0
    by (auto simp: strtol_def strtol_l_def limit_def [symmetric] Let_def strtol_limit_def)
qed

lemma digit_val_ll_eq: "digit_val_ll c = map_option uint (digit_val c)"
  by (auto simp: digit_val_ll_def digit_val_def isdigit_def isalpha_def isupper_def
      word_le_def uint_sub_lem [THEN iffD1])

lemma sint_word_of_int_mod:
  assumes "k mod 2 ^ 64 < 2 ^ 63"
  shows "sint (word_of_int k :: u64) = k mod 2 ^ 64"
proof -
  have "word_of_int k = (word_of_int (k mod 2 ^ 64) :: u64)"
    by (simp add: word_of_int_eq_iff take_bit_eq_mod)
  moreover have "sint (word_of_int (k mod 2 ^ 64) :: u64) = k mod 2 ^ 64"
    using assms by (subst sint_sbintrunc') (simp add: signed_take_bit_int_eq_self)
  ultimately show ?thesis
    by simp
qed

lemma strtoll_loop_digits:
  assumes "bytes_at m s (tl (ds @ [x]))" "\<forall>d \<in> set ds. is_digit base d" "\<not> is_digit base x"
    and "2 \<le> base" "0 \<le> any"
    and "\<forall>k \<le> length ds. foldl (\<lambda>a c. a * base + uint (the (digit_val c))) a (take k ds) mod 2 ^ 64 < 2 ^ 63"
  shows "strtoll_loop m s (hd (ds @ [x])) base False any (word_of_int a) err =
    Some (if ds = [] then any else 1,
      word_of_int (foldl (\<lambda>a c. a * base + uint (the (digit_val c))) a ds), s + length ds, err)"
  using assms
proof (induction ds arbitrary: s a any)
  case Nil
  then show ?case
    by (subst strtoll_loop.simps) (auto simp: is_digit_def digit_val_ll_eq split: option.splits)
next
  case (Cons d ds)
  obtain c' where c': "get_byte m s = Some c'" "c' = hd (ds @ [x])" "bytes_at m (s + 1) (tl (ds @ [x]))"
    using Cons.prems by (cases ds) auto
  obtain e where e: "digit_val d = Some e" "uint e < base"
    using Cons.prems(2) by (auto simp: is_digit_def split: option.splits)
  have pre: "foldl (\<lambda>a c. a * base + uint (the (digit_val c))) (a * base + uint e) (take k ds) mod 2 ^ 64 < 2 ^ 63"
    if "k \<le> length ds" for k
    using Cons.prems(6) that e by (auto dest: spec [of _ "Suc k"])
  have acc: "word_of_int a * word_of_int base + word_of_int (uint e) = (word_of_int (a * base + uint e) :: u64)"
    by simp
  have "0 \<le> sint (word_of_int (a * base + uint e) :: u64)"
    using sint_word_of_int_mod [of "a * base + uint e"] pre [of 0] by simp
  then have "strtoll_acc False (word_of_int a * word_of_int base + word_of_int (uint e)) =
      (1, word_of_int (a * base + uint e), None)"
    unfolding acc by (simp add: strtoll_acc_def)
  then show ?case
    using Cons.prems Cons.IH [of "s + 1" 1 "a * base + uint e"] pre c' e
    by (subst strtoll_loop.simps) (simp add: digit_val_ll_eq)
qed

section \<open>Properties\<close>



text \<open>\<open>strtoll\<close> returns the value of an unsigned numeral modulo 2^64, with
  all its digits consumed and no error, whenever no prefix of it leaves the
  accumulator with the top bit set: right for every value below 2^63, and an
  overflow missed for larger ones (2^64 in decimal is read as 0).\<close>

theorem strtoll_wraps:
  assumes "bytes_at m p (ds @ [x])" "ds \<noteq> []" "\<forall>d \<in> set ds. is_digit base d" "\<not> is_digit base x"
    and "2 \<le> base" "base \<noteq> 16"
    and "\<forall>k \<le> length ds. numeral_value base (take k ds) mod 2 ^ 64 < 2 ^ 63"
  shows "strtoll m p base = Some (numeral_value base ds mod 2 ^ 64, p + length ds, None)"
proof -
  have hd: "hd (ds @ [x]) = hd ds" "is_digit base (hd ds)"
    using assms by auto
  have b: "bytes_at m p ([hd ds] @ tl (ds @ [x]))"
    using assms by (cases ds) auto
  have "read_sign m p = Some (False, hd ds, p + 1)"
    using read_sign_chars [of m p "[]" "[]" "hd ds"] b hd is_digit_not_sign is_digit_not_space
    by (auto simp: sign_chars_def)
  moreover have "read_base_ll m (hd ds) (p + 1) base = Some (hd ds, p + 1, base)"
    using assms by (simp add: read_base_ll_def)
  moreover have "strtoll_loop m (p + 1) (hd (ds @ [x])) base False 0 (word_of_int 0) None =
      Some (if ds = [] then 0 else 1,
        word_of_int (foldl (\<lambda>a c. a * base + uint (the (digit_val c))) 0 ds), p + 1 + length ds, None)"
    using assms b by (intro strtoll_loop_digits) (auto simp: numeral_value_def)
  moreover have "sint (word_of_int (numeral_value base ds) :: u64) = numeral_value base ds mod 2 ^ 64"
    using assms(7) by (intro sint_word_of_int_mod) auto
  ultimately show ?thesis
    using assms hd by (simp add: strtoll_def numeral_value_def)
qed

theorem strtoll_wraps_witness:
  "strtoll [49, 56, 52, 52, 54, 55, 52, 52, 48, 55, 51, 55, 48, 57, 53, 53, 49, 54, 49, 54, 0] 0 10
     = Some (0, 20, None)
   \<and> numeral_value 10 [49, 56, 52, 52, 54, 55, 52, 52, 48, 55, 51, 55, 48, 57, 53, 53, 49, 54, 49, 54]
     = 2 ^ 64"
proof -
  let ?ds = "[49, 56, 52, 52, 54, 55, 52, 52, 48, 55, 51, 55, 48, 57, 53, 53, 49, 54, 49, 54] :: u8 list"
  have "\<forall>k \<in> set [0..<21]. numeral_value 10 (take k ?ds) mod 2 ^ 64 < 2 ^ 63"
    by (simp add: upt_rec numeral_value_def digit_val_def)
  then have "\<forall>k \<le> length ?ds. numeral_value 10 (take k ?ds) mod 2 ^ 64 < 2 ^ 63"
    by (simp only: set_upt Ball_def atLeastLessThan_iff) simp
  then have "strtoll (?ds @ [0]) 0 10 = Some (numeral_value 10 ?ds mod 2 ^ 64, 0 + length ?ds, None)"
    by (intro strtoll_wraps [of _ _ _ 0]) (simp_all add: is_digit_def digit_val_def)
  moreover have "numeral_value 10 ?ds = 2 ^ 64"
    by (simp add: numeral_value_def digit_val_def)
  ultimately show ?thesis
    by simp
qed

end
