(* ===== verification/Crc32.thy ===== *)
theory Crc32
  imports CPrelude
begin

text \<open>
  The CRC-32 of crc32.c: the table, the one-shot function and the incremental
  interface, against the bit-by-bit division by the reflected polynomial.
\<close>

section \<open>Model\<close>

definition crc32_tab :: "u32 list" where
  "crc32_tab = [
     0x00000000, 0x77073096, 0xee0e612c, 0x990951ba, 0x076dc419, 0x706af48f,
     0xe963a535, 0x9e6495a3, 0x0edb8832, 0x79dcb8a4, 0xe0d5e91e, 0x97d2d988,
     0x09b64c2b, 0x7eb17cbd, 0xe7b82d07, 0x90bf1d91, 0x1db71064, 0x6ab020f2,
     0xf3b97148, 0x84be41de, 0x1adad47d, 0x6ddde4eb, 0xf4d4b551, 0x83d385c7,
     0x136c9856, 0x646ba8c0, 0xfd62f97a, 0x8a65c9ec, 0x14015c4f, 0x63066cd9,
     0xfa0f3d63, 0x8d080df5, 0x3b6e20c8, 0x4c69105e, 0xd56041e4, 0xa2677172,
     0x3c03e4d1, 0x4b04d447, 0xd20d85fd, 0xa50ab56b, 0x35b5a8fa, 0x42b2986c,
     0xdbbbc9d6, 0xacbcf940, 0x32d86ce3, 0x45df5c75, 0xdcd60dcf, 0xabd13d59,
     0x26d930ac, 0x51de003a, 0xc8d75180, 0xbfd06116, 0x21b4f4b5, 0x56b3c423,
     0xcfba9599, 0xb8bda50f, 0x2802b89e, 0x5f058808, 0xc60cd9b2, 0xb10be924,
     0x2f6f7c87, 0x58684c11, 0xc1611dab, 0xb6662d3d, 0x76dc4190, 0x01db7106,
     0x98d220bc, 0xefd5102a, 0x71b18589, 0x06b6b51f, 0x9fbfe4a5, 0xe8b8d433,
     0x7807c9a2, 0x0f00f934, 0x9609a88e, 0xe10e9818, 0x7f6a0dbb, 0x086d3d2d,
     0x91646c97, 0xe6635c01, 0x6b6b51f4, 0x1c6c6162, 0x856530d8, 0xf262004e,
     0x6c0695ed, 0x1b01a57b, 0x8208f4c1, 0xf50fc457, 0x65b0d9c6, 0x12b7e950,
     0x8bbeb8ea, 0xfcb9887c, 0x62dd1ddf, 0x15da2d49, 0x8cd37cf3, 0xfbd44c65,
     0x4db26158, 0x3ab551ce, 0xa3bc0074, 0xd4bb30e2, 0x4adfa541, 0x3dd895d7,
     0xa4d1c46d, 0xd3d6f4fb, 0x4369e96a, 0x346ed9fc, 0xad678846, 0xda60b8d0,
     0x44042d73, 0x33031de5, 0xaa0a4c5f, 0xdd0d7cc9, 0x5005713c, 0x270241aa,
     0xbe0b1010, 0xc90c2086, 0x5768b525, 0x206f85b3, 0xb966d409, 0xce61e49f,
     0x5edef90e, 0x29d9c998, 0xb0d09822, 0xc7d7a8b4, 0x59b33d17, 0x2eb40d81,
     0xb7bd5c3b, 0xc0ba6cad, 0xedb88320, 0x9abfb3b6, 0x03b6e20c, 0x74b1d29a,
     0xead54739, 0x9dd277af, 0x04db2615, 0x73dc1683, 0xe3630b12, 0x94643b84,
     0x0d6d6a3e, 0x7a6a5aa8, 0xe40ecf0b, 0x9309ff9d, 0x0a00ae27, 0x7d079eb1,
     0xf00f9344, 0x8708a3d2, 0x1e01f268, 0x6906c2fe, 0xf762575d, 0x806567cb,
     0x196c3671, 0x6e6b06e7, 0xfed41b76, 0x89d32be0, 0x10da7a5a, 0x67dd4acc,
     0xf9b9df6f, 0x8ebeeff9, 0x17b7be43, 0x60b08ed5, 0xd6d6a3e8, 0xa1d1937e,
     0x38d8c2c4, 0x4fdff252, 0xd1bb67f1, 0xa6bc5767, 0x3fb506dd, 0x48b2364b,
     0xd80d2bda, 0xaf0a1b4c, 0x36034af6, 0x41047a60, 0xdf60efc3, 0xa867df55,
     0x316e8eef, 0x4669be79, 0xcb61b38c, 0xbc66831a, 0x256fd2a0, 0x5268e236,
     0xcc0c7795, 0xbb0b4703, 0x220216b9, 0x5505262f, 0xc5ba3bbe, 0xb2bd0b28,
     0x2bb45a92, 0x5cb36a04, 0xc2d7ffa7, 0xb5d0cf31, 0x2cd99e8b, 0x5bdeae1d,
     0x9b64c2b0, 0xec63f226, 0x756aa39c, 0x026d930a, 0x9c0906a9, 0xeb0e363f,
     0x72076785, 0x05005713, 0x95bf4a82, 0xe2b87a14, 0x7bb12bae, 0x0cb61b38,
     0x92d28e9b, 0xe5d5be0d, 0x7cdcefb7, 0x0bdbdf21, 0x86d3d2d4, 0xf1d4e242,
     0x68ddb3f8, 0x1fda836e, 0x81be16cd, 0xf6b9265b, 0x6fb077e1, 0x18b74777,
     0x88085ae6, 0xff0f6a70, 0x66063bca, 0x11010b5c, 0x8f659eff, 0xf862ae69,
     0x616bffd3, 0x166ccf45, 0xa00ae278, 0xd70dd2ee, 0x4e048354, 0x3903b3c2,
     0xa7672661, 0xd06016f7, 0x4969474d, 0x3e6e77db, 0xaed16a4a, 0xd9d65adc,
     0x40df0b66, 0x37d83bf0, 0xa9bcae53, 0xdebb9ec5, 0x47b2cf7f, 0x30b5ffe9,
     0xbdbdf21c, 0xcabac28a, 0x53b39330, 0x24b4a3a6, 0xbad03605, 0xcdd70693,
     0x54de5729, 0x23d967bf, 0xb3667a2e, 0xc4614ab8, 0x5d681b02, 0x2a6f2b94,
     0xb40bbe37, 0xc30c8ea1, 0x5a05df1b, 0x2d02ef8d]"

definition crc32_step :: "u32 \<Rightarrow> u8 \<Rightarrow> u32" where
  "crc32_step crc p = crc32_tab ! unat ((crc XOR ucast p) AND 0xff) XOR drop_bit 8 crc"

text \<open>The loop runs \<open>size\<close> (here \<open>n\<close>) times over the bytes at \<open>p\<close>.\<close>

primrec crc32_loop :: "u32 \<Rightarrow> buf \<Rightarrow> nat \<Rightarrow> nat \<Rightarrow> u32 option" where
  "crc32_loop crc b p 0 = Some crc"
| "crc32_loop crc b p (Suc n) = do {
     v \<leftarrow> get_byte b p;
     crc32_loop (crc32_step crc v) b (p + 1) n }"

definition crc32 :: "buf \<Rightarrow> nat \<Rightarrow> u32 option" where
  "crc32 b n = do {
     crc \<leftarrow> crc32_loop (NOT 0) b 0 n;
     Some (crc XOR NOT 0) }"

definition crc32_start :: u32 where
  "crc32_start = NOT 0"

definition crc32_append :: "u32 \<Rightarrow> buf \<Rightarrow> nat \<Rightarrow> u32 option" where
  "crc32_append crc b n = crc32_loop crc b 0 n"

definition crc32_finish :: "u32 \<Rightarrow> u32" where
  "crc32_finish crc = crc XOR NOT 0"

section \<open>Specification: division by the polynomial, bit by bit\<close>

definition crc_bit :: "u32 \<Rightarrow> u32" where
  "crc_bit c = (if bit c 0 then 0xedb88320 XOR drop_bit 1 c else drop_bit 1 c)"

definition crc_byte :: "u32 \<Rightarrow> u8 \<Rightarrow> u32" where
  "crc_byte c p = (crc_bit ^^ 8) (c XOR ucast p)"

definition crc_spec :: "buf \<Rightarrow> u32" where
  "crc_spec xs = NOT (foldl crc_byte (NOT 0) xs)"

section \<open>The table holds the remainders of the bytes\<close>

lemma length_crc32_tab [simp]: "length crc32_tab = 256"
  by (simp add: crc32_tab_def)

lemma crc_bit_xor: "crc_bit (a XOR b) = crc_bit a XOR crc_bit b"
  by (rule bit_word_eqI) (auto simp: crc_bit_def bit_simps)

lemma crc_bits_xor: "(crc_bit ^^ n) (a XOR b) = (crc_bit ^^ n) a XOR (crc_bit ^^ n) b"
  by (induction n) (simp_all add: crc_bit_xor)

lemma crc_bits_shift: "(\<And>i. i < n \<Longrightarrow> \<not> bit c i) \<Longrightarrow> (crc_bit ^^ n) c = drop_bit n c"
proof (induction n arbitrary: c)
  case (Suc n)
  have "crc_bit c = drop_bit 1 c"
    using Suc.prems [of 0] by (simp add: crc_bit_def)
  moreover have "(crc_bit ^^ n) (drop_bit 1 c) = drop_bit n (drop_bit 1 c)"
    using Suc.prems by (intro Suc.IH) (simp add: bit_simps)
  ultimately show ?case
    by (simp add: funpow_Suc_right del: funpow.simps)
qed simp

text \<open>The 256 remainders are the linear span of the eight remainders of the
  powers of two, and those follow from each other by one division step.\<close>

definition crc_tab_gen :: "u32 list \<Rightarrow> u32 list" where
  "crc_tab_gen bs = foldl (\<lambda>t b. t @ map (\<lambda>x. b XOR x) t) [0] bs"

lemma crc_tab_gen_snoc: "crc_tab_gen (bs @ [b]) = crc_tab_gen bs @ map (\<lambda>x. b XOR x) (crc_tab_gen bs)"
  by (simp add: crc_tab_gen_def)

lemma word_pow_plus:
  assumes "i < 2 ^ k" "k < 32"
  shows "(word_of_nat (2 ^ k + i) :: u32) = 2 ^ k XOR word_of_nat i"
proof -
  have "2 ^ k AND i = 0"
    using assms(1) by (metis and.commute take_bit_eq_mask take_bit_nat_eq_self mask_eq_exp_minus_1
      and_exp_eq_0_iff_not_bit bit_take_bit_iff less_irrefl)
  then have "2 ^ k + i = 2 ^ k XOR i"
    by (rule disjunctive_add_eq_xor)
  then show ?thesis
    by (metis of_nat_xor_eq of_nat_power of_nat_numeral)
qed

lemma crc_0 [simp]: "(crc_bit ^^ n) 0 = 0"
  by (induction n) (simp_all add: crc_bit_def)

lemma crc_tab_gen_all:
  "k \<le> 8 \<Longrightarrow> crc_tab_gen (map (\<lambda>j. (crc_bit ^^ 8) (2 ^ j)) [0..<k])
     = map (\<lambda>i. (crc_bit ^^ 8) (word_of_nat i)) [0..<2 ^ k]"
proof (induction k)
  case 0
  then show ?case
    by (simp add: crc_tab_gen_def del: funpow.simps)
next
  case (Suc k)
  have "map (\<lambda>i. (crc_bit ^^ 8) (word_of_nat i)) [2 ^ k..<2 ^ Suc k]
      = map (\<lambda>i. (crc_bit ^^ 8) (word_of_nat (2 ^ k + i))) [0..<2 ^ k]"
    by (intro nth_equalityI) (auto simp del: funpow.simps)
  also have "\<dots> = map (\<lambda>i. (crc_bit ^^ 8) (2 ^ k) XOR (crc_bit ^^ 8) (word_of_nat i)) [0..<2 ^ k]"
    using Suc.prems by (intro map_cong refl, subst word_pow_plus) (auto simp: crc_bits_xor simp del: funpow.simps)
  finally show ?case
    using Suc by (simp add: crc_tab_gen_snoc upt_add_eq_append [of 0 "2 ^ k" "2 ^ k"] mult_2 comp_def del: funpow.simps)
qed

lemma crc_base:
  assumes "j < 8"
  shows "(crc_bit ^^ 8) (2 ^ j) = (crc_bit ^^ (7 - j)) 0xedb88320"
proof -
  have "(crc_bit ^^ j) (2 ^ j) = drop_bit j (2 ^ j)"
    by (rule crc_bits_shift) (auto simp: bit_simps)
  also have "\<dots> = 1"
    using assms by (auto intro!: bit_word_eqI simp: bit_simps)
  finally have 1: "(crc_bit ^^ Suc j) (2 ^ j) = 0xedb88320"
    by (simp add: crc_bit_def)
  have "(crc_bit ^^ 8) (2 ^ j) = (crc_bit ^^ ((7 - j) + Suc j)) (2 ^ j)"
    using assms by (simp del: funpow.simps)
  then show ?thesis
    using 1 by (simp only: funpow_add comp_def)
qed

lemma crc_chain:
  "crc_bit 0xedb88320 = 0x76dc4190" "crc_bit 0x76dc4190 = 0x3b6e20c8"
  "crc_bit 0x3b6e20c8 = 0x1db71064" "crc_bit 0x1db71064 = 0x0edb8832"
  "crc_bit 0x0edb8832 = 0x076dc419" "crc_bit 0x076dc419 = 0xee0e612c"
  "crc_bit 0xee0e612c = 0x77073096"
  by (simp_all add: crc_bit_def drop_bit_eq_div)

lemma crc_bases:
  "map (\<lambda>j. (crc_bit ^^ 8) (2 ^ j)) [0..<8] = [0x77073096, 0xee0e612c, 0x076dc419, 0x0edb8832,
     0x1db71064, 0x3b6e20c8, 0x76dc4190, 0xedb88320]"
proof -
  have "map (\<lambda>j. (crc_bit ^^ 8) (2 ^ j)) [0..<8] = map (\<lambda>j. (crc_bit ^^ (7 - j)) 0xedb88320) [0..<8]"
    by (rule map_cong) (simp_all add: crc_base del: funpow.simps power_numeral)
  also have "\<dots> = [0x77073096, 0xee0e612c, 0x076dc419, 0x0edb8832,
     0x1db71064, 0x3b6e20c8, 0x76dc4190, 0xedb88320]"
    by (simp add: upt_rec numeral_eq_Suc crc_chain)
  finally show ?thesis .
qed

lemma crc32_tab_gen:
  "crc32_tab = crc_tab_gen [0x77073096, 0xee0e612c, 0x076dc419, 0x0edb8832,
     0x1db71064, 0x3b6e20c8, 0x76dc4190, 0xedb88320]"
  by (simp add: crc32_tab_def crc_tab_gen_def)

lemma crc32_tab_nth: "i < 256 \<Longrightarrow> crc32_tab ! i = (crc_bit ^^ 8) (word_of_nat i)"
  using crc_tab_gen_all [of 8] by (simp only: crc_bases crc32_tab_gen) simp

lemma low_high_byte: "(x :: u32) = (x AND 0xff) XOR push_bit 8 (drop_bit 8 x)"
proof (rule bit_word_eqI)
  have m: "(0xff :: u32) = mask 8"
    by (simp add: mask_eq_exp_minus_1)
  show "bit x n = bit ((x AND 0xff) XOR push_bit 8 (drop_bit 8 x)) n" if "n < LENGTH(32)" for n
    using that unfolding m by (cases "n < 8") (auto simp: bit_simps)
qed

lemma drop_low_byte: "drop_bit 8 (c XOR ucast (p :: u8)) = drop_bit 8 (c :: u32)"
  by (rule bit_word_eqI) (auto simp: bit_simps dest: bit_imp_le_length)

lemma crc32_step_spec: "crc32_step c p = crc_byte c p"
proof -
  let ?x = "c XOR ucast p :: u32"
  have lt: "unat (?x AND 0xff) < 256"
    using word_and_le1 [of ?x "0xff"] by (simp add: word_le_nat_alt)
  have "crc_byte c p = (crc_bit ^^ 8) (?x AND 0xff) XOR (crc_bit ^^ 8) (push_bit 8 (drop_bit 8 ?x))"
    unfolding crc_byte_def by (subst low_high_byte) (rule crc_bits_xor)
  also have "(crc_bit ^^ 8) (push_bit 8 (drop_bit 8 ?x)) = drop_bit 8 (push_bit 8 (drop_bit 8 ?x))"
    by (rule crc_bits_shift) (simp add: bit_simps)
  also have "\<dots> = drop_bit 8 c"
    by (rule bit_word_eqI) (auto simp: bit_simps dest: bit_imp_le_length)
  also have "(crc_bit ^^ 8) (?x AND 0xff) = crc32_tab ! unat (?x AND 0xff)"
    using lt by (simp add: crc32_tab_nth del: funpow.simps)
  finally show ?thesis
    by (simp add: crc32_step_def)
qed

lemma crc32_loop_foldl:
  "p + n \<le> length b \<Longrightarrow> crc32_loop c b p n = Some (foldl crc_byte c (take n (drop p b)))"
proof (induction n arbitrary: c p)
  case (Suc n)
  then show ?case
    by (simp add: crc32_step_spec Cons_nth_drop_Suc [symmetric])
qed simp

lemma crc32_append_foldl:
  "n \<le> length b \<Longrightarrow> crc32_append c b n = Some (foldl crc_byte c (take n b))"
  by (simp add: crc32_append_def crc32_loop_foldl)

text \<open>A client that sums a sequence of buffers, one \<open>crc32_append\<close> for each.\<close>

primrec crc32_append_all :: "u32 \<Rightarrow> buf list \<Rightarrow> u32 option" where
  "crc32_append_all crc [] = Some crc"
| "crc32_append_all crc (b # bs) = do {
     crc \<leftarrow> crc32_append crc b (length b);
     crc32_append_all crc bs }"

lemma crc32_append_all_foldl: "crc32_append_all c bs = Some (foldl crc_byte c (concat bs))"
  by (induction bs arbitrary: c) (simp_all add: crc32_append_foldl)

lemma xor_ones: "(c :: u32) XOR NOT 0 = NOT c"
  by (rule bit_word_eqI) (simp add: bit_simps)

section \<open>Properties\<close>

text \<open>C11: \<open>crc32\<close> of the first n bytes of a buffer is the CRC-32 of those
  bytes as defined bit by bit from the reflected polynomial 0xedb88320 (initial
  value and final complement included); the table lookup introduces no error
  and the loop reads no byte past n.\<close>

theorem crc32_correct:
  assumes "n \<le> length b"
  shows "crc32 b n = Some (crc_spec (take n b))"
  using assms by (simp add: crc32_def crc32_loop_foldl xor_ones crc_spec_def)

theorem crc32_correct_witness:
  "crc32 [0x61, 0x62] 1 = Some (crc_spec [0x61]) \<and> crc_spec [0x61] = 0xe8b7be43"
proof -
  have 1: "crc32 [0x61, 0x62] 1 = Some (crc_spec [0x61])"
    using crc32_correct [of 1 "[0x61, 0x62]"] by simp
  have "crc32 [0x61, 0x62] 1 = Some 0xe8b7be43"
    by (simp add: crc32_def crc32_step_def crc32_tab_def drop_bit_eq_div)
  with 1 show ?thesis
    by simp
qed

text \<open>C12: The incremental interface agrees with the one-shot function: starting
  a CRC, appending any sequence of buffers and finishing it gives the CRC-32 of
  their concatenation.\<close>

theorem crc32_incremental:
  "\<exists>c. crc32_append_all crc32_start bufs = Some c
     \<and> crc32 (concat bufs) (length (concat bufs)) = Some (crc32_finish c)"
  by (simp add: crc32_append_all_foldl crc32_start_def crc32_finish_def crc32_def crc32_loop_foldl)

end
