(* ===== verification/ConfigParse.thy ===== *)
theory ConfigParse
  imports CString
begin

text \<open>
  The configuration parser of config_parse.c.  The file is one NUL-terminated
  string in memory which the parser cuts in place: \<open>read_line\<close> overwrites the
  newline, \<open>strip_comments\<close> the comment and the trailing white space,
  \<open>split_string\<close> the delimiter after the method.  Pointers are indices, and the
  methods of the caller's table are functions on the program state.
\<close>

section \<open>Model\<close>

text \<open>The end of the line: the first NUL or newline at or after a position.\<close>

function line_end :: "buf \<Rightarrow> nat \<Rightarrow> nat option" where
  "line_end m p = do {
     c \<leftarrow> get_byte m p;
     if c \<noteq> 0 \<and> c \<noteq> 10 then line_end m (p + 1) else Some p }"
  by pat_completeness auto
termination by (relation "measure (\<lambda>(m, p). length m - p)") (auto simp: get_byte_eq_Some)

text \<open>\<open>read_line\<close>: \<open>None\<close> in the result is the NULL at the end of the string;
  otherwise the start of the line and the position of the next one.\<close>

definition read_line :: "buf \<Rightarrow> nat \<Rightarrow> ((nat \<times> nat) option \<times> buf) option" where
  "read_line m b = do {
     c \<leftarrow> get_byte m b;
     if c = 0 then Some (None, m)
     else do {
       p \<leftarrow> line_end m b;
       e \<leftarrow> get_byte m p;
       if e = 0 then Some (Some (b, p), m)
       else do {
         m \<leftarrow> put_byte m p 0;
         Some (Some (b, p + 1), m) } } }"

function skip_blank :: "buf \<Rightarrow> nat \<Rightarrow> nat option" where
  "skip_blank m p = do {
     c \<leftarrow> get_byte m p;
     if isspace (uint c) then skip_blank m (p + 1) else Some p }"
  by pat_completeness auto
termination by (relation "measure (\<lambda>(m, p). length m - p)") (auto simp: get_byte_eq_Some)

text \<open>The comment loop: at a hash it stores a NUL and stays, and so stops.\<close>

function cut_comment :: "buf \<Rightarrow> nat \<Rightarrow> (nat \<times> buf) option" where
  "cut_comment m s = do {
     c \<leftarrow> get_byte m s;
     if c = 0 then Some (s, m)
     else if c = 35 then do { m \<leftarrow> put_byte m s 0; Some (s, m) }
     else cut_comment m (s + 1) }"
  by pat_completeness auto
termination by (relation "measure (\<lambda>(m, p). length m - p)") (auto simp: get_byte_eq_Some)

text \<open>The trailing blanks, downwards from the last character; \<open>s > buf\<close> is tested
  before the character is read, so an empty line reads nothing below it.\<close>

function cut_blank :: "buf \<Rightarrow> nat \<Rightarrow> int \<Rightarrow> buf option" where
  "cut_blank m b s =
     (if s > int b then do {
        c \<leftarrow> get_byte m (nat s);
        if isspace (uint c) then do { m' \<leftarrow> put_byte m (nat s) 0; cut_blank m' b (s - 1) }
        else Some m }
      else Some m)"
  by pat_completeness auto
termination by (relation "measure (\<lambda>(m, b, s). nat (s - int b))") auto

definition strip_comments :: "buf \<Rightarrow> nat \<Rightarrow> (nat \<times> buf) option" where
  "strip_comments m b = do {
     b \<leftarrow> skip_blank m b;
     (s, m) \<leftarrow> cut_comment m b;
     m \<leftarrow> cut_blank m b (int s - 1);
     Some (b, m) }"

text \<open>\<open>split_string\<close>: \<open>None\<close> for a pointer is the static empty string.\<close>

datatype split_state = Before_Method | In_Method | Before_Args

function split_loop ::
  "buf \<Rightarrow> nat \<Rightarrow> u8 \<Rightarrow> split_state \<Rightarrow> nat option \<Rightarrow> (nat option \<times> nat option \<times> buf) option" where
  "split_loop m p delim state meth = do {
     c \<leftarrow> get_byte m p;
     if c = 0 then Some (meth, None, m)
     else if c = delim then
       (if state = In_Method then do {
          m' \<leftarrow> put_byte m p 0;
          split_loop m' (p + 1) delim Before_Args meth }
        else split_loop m (p + 1) delim state meth)
     else
       (case state of
          Before_Method \<Rightarrow> split_loop m (p + 1) delim In_Method (Some p)
        | In_Method \<Rightarrow> split_loop m (p + 1) delim state meth
        | Before_Args \<Rightarrow> Some (meth, Some p, m)) }"
  by pat_completeness auto
termination by (relation "measure (\<lambda>(m, p, _). length m - p)")
    (auto simp: get_byte_eq_Some put_byte_eq_Some)

definition split_string :: "buf \<Rightarrow> nat \<Rightarrow> u8 \<Rightarrow> (nat option \<times> nat option \<times> buf) option" where
  "split_string m str delim =
     split_loop m str (if delim = 0 then 32 else delim) Before_Method None"

declare line_end.simps [simp del] skip_blank.simps [simp del] cut_comment.simps [simp del]
  cut_blank.simps [simp del] split_loop.simps [simp del]

text \<open>A method of the table: its name, and a function of the argument string and
  the program state with an int result.\<close>

type_synonym 'w cfg_method = "cstring \<times> (cstring \<Rightarrow> 'w \<Rightarrow> int \<times> 'w)"

text \<open>The string a pointer designates.\<close>

function string_at :: "buf \<Rightarrow> nat \<Rightarrow> cstring option" where
  "string_at m p = do {
     c \<leftarrow> get_byte m p;
     if c = 0 then Some [] else do { cs \<leftarrow> string_at m (p + 1); Some (c # cs) } }"
  by pat_completeness auto
termination by (relation "measure (\<lambda>(m, p). length m - p)") (auto simp: get_byte_eq_Some)

declare string_at.simps [simp del]

definition string_of :: "buf \<Rightarrow> nat option \<Rightarrow> cstring option" where
  "string_of m q = (case q of None \<Rightarrow> Some [] | Some p \<Rightarrow> string_at m p)"

text \<open>The search through the table: the first entry of that name is called.
  \<open>None\<close> when there is no such entry.\<close>

primrec run_method :: "'w cfg_method list \<Rightarrow> cstring \<Rightarrow> cstring \<Rightarrow> 'w \<Rightarrow> (int \<times> 'w) option" where
  "run_method [] lwr args w = None"
| "run_method (cm # cms) lwr args w =
     (if lwr = fst cm then Some (snd cm args w) else run_method cms lwr args w)"

text \<open>\<open>config_parse\<close>, with the lines it reports on the console as output: the
  fuel is one unit for each line.\<close>

datatype cfg_msg = Failed cstring int | Unknown cstring

fun config_loop ::
  "nat \<Rightarrow> buf \<Rightarrow> nat \<Rightarrow> u8 \<Rightarrow> 'w cfg_method list \<Rightarrow> 'w \<Rightarrow> (int \<times> cfg_msg list \<times> 'w) option" where
  "config_loop 0 m b delim methods w = None"
| "config_loop (Suc k) m b delim methods w = do {
     (line, m) \<leftarrow> read_line m b;
     (case line of
        None \<Rightarrow> Some (0, [], w)
      | Some (line, b) \<Rightarrow> do {
          (line, m) \<leftarrow> strip_comments m line;
          (meth, args, m) \<leftarrow> split_string m line delim;
          ms \<leftarrow> string_of m meth;
          if ms = [] then config_loop k m b delim methods w
          else do {
            as \<leftarrow> string_of m args;
            (case run_method methods (map lower_byte ms) as w of
               Some (r, w') \<Rightarrow>
                 if r \<noteq> 0 then do { ls \<leftarrow> string_at m line; Some (r, [Failed ls r], w') }
                 else config_loop k m b delim methods w'
             | None \<Rightarrow> do {
                 (r, out, w') \<leftarrow> config_loop k m b delim methods w;
                 Some (r, Unknown ms # out, w') }) } }) }"

definition config_parse ::
  "buf \<Rightarrow> nat \<Rightarrow> u8 \<Rightarrow> 'w cfg_method list \<Rightarrow> 'w \<Rightarrow> (int \<times> cfg_msg list \<times> 'w) option" where
  "config_parse m b delim methods w = config_loop (length m + 1) m b delim methods w"

section \<open>Specification\<close>

text \<open>What a configuration file means: its lines, each without its comment and
  surrounding white space, and the method and argument string of a line.\<close>

function cfg_lines :: "cstring \<Rightarrow> cstring list" where
  "cfg_lines [] = []"
| "cfg_lines (x # xs) =
     takeWhile (\<lambda>c. c \<noteq> 10) (x # xs) #
     cfg_lines (drop (Suc (length (takeWhile (\<lambda>c. c \<noteq> 10) (x # xs)))) (x # xs))"
  by pat_completeness auto
termination by (relation "measure length") auto

definition blank :: "u8 \<Rightarrow> bool" where
  "blank c = isspace (uint c)"

definition rtrim :: "cstring \<Rightarrow> cstring" where
  "rtrim xs = rev (dropWhile blank (rev xs))"

definition cfg_trim :: "cstring \<Rightarrow> cstring" where
  "cfg_trim l = rtrim (takeWhile (\<lambda>c. c \<noteq> 35) (dropWhile blank l))"

definition cfg_method :: "u8 \<Rightarrow> cstring \<Rightarrow> cstring" where
  "cfg_method d l = takeWhile (\<lambda>c. c \<noteq> d) (dropWhile (\<lambda>c. c = d) l)"

definition cfg_args :: "u8 \<Rightarrow> cstring \<Rightarrow> cstring" where
  "cfg_args d l = dropWhile (\<lambda>c. c = d) (dropWhile (\<lambda>c. c \<noteq> d) (dropWhile (\<lambda>c. c = d) l))"

fun cfg_run ::
  "u8 \<Rightarrow> 'w cfg_method list \<Rightarrow> 'w \<Rightarrow> cstring list \<Rightarrow> int \<times> cfg_msg list \<times> 'w" where
  "cfg_run d methods w [] = (0, [], w)"
| "cfg_run d methods w (l # ls) =
     (let t = cfg_trim l; meth = cfg_method d t in
      if meth = [] then cfg_run d methods w ls
      else (case run_method methods (map lower_byte meth) (cfg_args d t) w of
              Some (r, w') \<Rightarrow>
                if r \<noteq> 0 then (r, [Failed (takeWhile (\<lambda>c. c = d) t @ meth) r], w')
                else cfg_run d methods w' ls
            | None \<Rightarrow> (case cfg_run d methods w ls of (r, out, w') \<Rightarrow> (r, Unknown meth # out, w'))))"

section \<open>Each function meets its part of the specification\<close>

lemma string_at_iff: "string_at m p = Some xs \<longleftrightarrow> cstr_at m p xs"
proof
  show "string_at m p = Some xs \<Longrightarrow> cstr_at m p xs"
  proof (induction m p arbitrary: xs rule: string_at.induct)
    case (1 m p)
    then show ?case
      by (subst (asm) (2) string_at.simps) (auto split: if_splits)
  qed
  show "cstr_at m p xs \<Longrightarrow> string_at m p = Some xs"
  proof (induction xs arbitrary: p)
    case (Cons x xs)
    then show ?case
      by (subst string_at.simps) simp
  qed (simp add: string_at.simps)
qed

lemma line_end_cstr:
  "cstr_at m p xs \<Longrightarrow> line_end m p = Some (p + length (takeWhile (\<lambda>c. c \<noteq> 10) xs))"
proof (induction xs arbitrary: p)
  case (Cons x xs)
  then show ?case
    by (subst line_end.simps) auto
qed (simp add: line_end.simps)

lemma takeWhile_take: "takeWhile P xs = take (length (takeWhile P xs)) xs"
  by (metis takeWhile_eq_take)

lemma read_line_cstr:
  assumes "cstr_at m b xs" "xs \<noteq> []" "l = takeWhile (\<lambda>c. c \<noteq> 10) xs"
  shows "\<exists>m' n. read_line m b = Some (Some (b, n), m') \<and> cstr_at m' b l
    \<and> cstr_at m' n (drop (Suc (length l)) xs) \<and> b + length l \<le> n \<and> length m' = length m"
proof -
  have x: "\<exists>c. get_byte m b = Some c \<and> c \<noteq> 0"
    using assms by (cases xs) auto
  have le: "line_end m b = Some (b + length l)" "length l \<le> length xs"
    using assms by (simp_all add: line_end_cstr length_takeWhile_le)
  have rest: "cstr_at m (b + length l) (drop (length l) xs)"
    using assms(1) le by (intro cstr_at_drop) auto
  show ?thesis
  proof (cases "drop (length l) xs")
    case Nil
    then have "l = xs"
      using assms(3) le by (metis takeWhile_take drop_eq_Nil take_all)
    then show ?thesis
      using x rest Nil le assms(1) by (auto simp: read_line_def)
  next
    case (Cons y ys)
    have nz: "y \<noteq> 0" "get_byte m (b + length l) = Some y" "cstr_at m (b + length l + 1) ys"
      using rest Cons by auto
    have "cstr_at (m[b + length l := 0]) b (take (length l) xs)"
      using assms(1) le by (intro cstr_at_cut) auto
    moreover have "take (length l) xs = l"
      using assms(3) takeWhile_take by metis
    moreover have "cstr_at (m[b + length l := 0]) (b + length l + 1) ys"
      using nz by (intro cstr_at_put_other) auto
    moreover have "drop (Suc (length l)) xs = ys"
      using Cons by (metis drop_Suc list.sel(3) tl_drop)
    ultimately show ?thesis
      using x nz le by (auto simp: read_line_def get_byte_eq_Some)
  qed
qed

lemma skip_blank_cstr: "cstr_at m p xs \<Longrightarrow> skip_blank m p = Some (p + length (takeWhile blank xs))"
proof (induction xs arbitrary: p)
  case Nil
  then show ?case
    by (simp add: skip_blank.simps isspace_def)
next
  case (Cons x xs)
  then show ?case
    by (subst skip_blank.simps) (auto simp: blank_def [symmetric])
qed

lemma cut_comment_cstr:
  assumes "cstr_at m p xs" "t = takeWhile (\<lambda>c. c \<noteq> 35) xs"
  shows "\<exists>m'. cut_comment m p = Some (p + length t, m') \<and> cstr_at m' p t
    \<and> same_outside m m' p (p + length xs)"
  using assms
proof (induction xs arbitrary: p t)
  case Nil
  then show ?case
    by (simp add: cut_comment.simps)
next
  case (Cons x xs)
  show ?case
  proof (cases "x = 35")
    case True
    then show ?thesis
      using Cons.prems cstr_at_cut [OF Cons.prems(1), of 0]
      by (subst cut_comment.simps) (auto simp: get_byte_eq_Some intro: same_outside_upd)
  next
    case False
    obtain m' where m': "cut_comment m (p + 1) = Some (p + 1 + length (tl t), m')"
      "cstr_at m' (p + 1) (tl t)" "same_outside m m' (p + 1) (p + 1 + length xs)"
      using Cons.IH [of "p + 1" "tl t"] Cons.prems False by auto
    have "same_outside m m' p (p + length (x # xs))"
      using m'(3) by (rule same_outside_mono) auto
    then show ?thesis
      using m' Cons.prems False
      by (subst cut_comment.simps) (auto simp: same_outside_def get_byte_def split: if_splits)
  qed
qed

lemma rtrim_snoc: "rtrim (xs @ [x]) = (if blank x then rtrim xs else xs @ [x])"
  by (simp add: rtrim_def)

lemma rtrim_Nil [simp]: "rtrim [] = []"
  by (simp add: rtrim_def)

lemma cut_blank_cstr:
  assumes "cstr_at m b xs" "xs \<noteq> [] \<longrightarrow> \<not> blank (hd xs)"
  shows "\<exists>m'. cut_blank m b (int (b + length xs) - 1) = Some m' \<and> cstr_at m' b (rtrim xs)
    \<and> same_outside m m' b (b + length xs)"
  using assms
proof (induction xs arbitrary: m rule: rev_induct)
  case Nil
  then show ?case
    by (simp add: cut_blank.simps)
next
  case (snoc x xs)
  have get: "get_byte m (b + length xs) = Some x"
    using cstr_at_drop [OF snoc.prems(1), of "length xs"] by simp
  show ?case
  proof (cases "xs = [] \<or> \<not> blank x")
    case True
    then show ?thesis
      using snoc.prems get by (subst cut_blank.simps) (auto simp: rtrim_snoc blank_def nat_int_add)
  next
    case False
    have cut: "cstr_at (m[b + length xs := 0]) b xs"
      using cstr_at_cut [OF snoc.prems(1), of "length xs"] by simp
    then obtain m' where m': "cut_blank (m[b + length xs := 0]) b (int (b + length xs) - 1) = Some m'"
      "cstr_at m' b (rtrim xs)" "same_outside (m[b + length xs := 0]) m' b (b + length xs)"
      using snoc.IH [OF cut] snoc.prems(2) False by (auto simp: hd_append)
    have "same_outside m m' b (b + length (xs @ [x]))"
      using m'(3) by (intro same_outside_trans [OF same_outside_upd m'(3)]) auto
    then show ?thesis
      using m' False get
      by (subst cut_blank.simps) (auto simp: rtrim_snoc blank_def nat_int_add get_byte_eq_Some)
  qed
qed

lemma length_rtrim: "length (rtrim xs) \<le> length xs"
  using length_dropWhile_le [of blank "rev xs"] by (simp add: rtrim_def)

lemma strip_comments_cstr:
  assumes "cstr_at m b l"
  shows "\<exists>b' m'. strip_comments m b = Some (b', m') \<and> cstr_at m' b' (cfg_trim l)
    \<and> same_outside m m' b (b + length l) \<and> b \<le> b' \<and> b' + length (cfg_trim l) \<le> b + length l"
proof -
  let ?n = "length (takeWhile blank l)" and ?l = "dropWhile blank l"
  let ?t = "takeWhile (\<lambda>c. c \<noteq> 35) ?l"
  have n: "?n + length ?l = length l" "drop ?n l = ?l"
    by (metis length_append takeWhile_dropWhile_id) (metis dropWhile_eq_drop)
  have "cstr_at m (b + ?n) ?l"
    using cstr_at_drop [OF assms, of ?n] n by simp
  then obtain m1 where m1: "cut_comment m (b + ?n) = Some (b + ?n + length ?t, m1)"
    "cstr_at m1 (b + ?n) ?t" "same_outside m m1 (b + ?n) (b + ?n + length ?l)"
    using cut_comment_cstr by blast
  have "?t \<noteq> [] \<longrightarrow> \<not> blank (hd ?t)"
    using hd_dropWhile [of blank l] by (cases ?l) (auto simp del: dropWhile_eq_Nil_conv split: if_splits)
  then obtain m2 where m2: "cut_blank m1 (b + ?n) (int (b + ?n + length ?t) - 1) = Some m2"
    "cstr_at m2 (b + ?n) (rtrim ?t)" "same_outside m1 m2 (b + ?n) (b + ?n + length ?t)"
    using cut_blank_cstr [OF m1(2)] by blast
  have len: "length ?t \<le> length ?l" "length (rtrim ?t) \<le> length ?t"
    by (simp_all add: length_takeWhile_le length_rtrim)
  have "same_outside m m1 b (b + length l)"
    using m1(3) n by (intro same_outside_mono [OF m1(3)]) auto
  then have "same_outside m m2 b (b + length l)"
    using n len by (intro same_outside_trans [OF _ m2(3)]) auto
  moreover have "strip_comments m b = Some (b + ?n, m2)"
    using m1 m2 assms by (simp add: strip_comments_def skip_blank_cstr)
  ultimately show ?thesis
    using m2(2) n len by (auto simp: cfg_trim_def)
qed

lemma split_args_cstr:
  "cstr_at m p l \<Longrightarrow> split_loop m p d Before_Args meth =
     Some (meth, if dropWhile (\<lambda>c. c = d) l = [] then None
                 else Some (p + length (takeWhile (\<lambda>c. c = d) l)), m)"
proof (induction l arbitrary: p)
  case (Cons x l)
  then show ?case
    by (subst split_loop.simps) auto
qed (simp add: split_loop.simps)

lemma split_method_cstr:
  assumes "cstr_at m p l"
  shows "split_loop m p d In_Method meth =
    (if dropWhile (\<lambda>c. c \<noteq> d) l = [] then Some (meth, None, m)
     else let n = length (takeWhile (\<lambda>c. c \<noteq> d) l)
          in split_loop (m[p + n := 0]) (p + n + 1) d Before_Args meth)"
  using assms
proof (induction l arbitrary: p)
  case (Cons x l)
  then show ?case
    by (subst split_loop.simps) (auto simp: Let_def get_byte_eq_Some)
qed (simp add: split_loop.simps)

lemma split_skip_cstr:
  assumes "cstr_at m p l"
  shows "split_loop m p d Before_Method None =
    (if dropWhile (\<lambda>c. c = d) l = [] then Some (None, None, m)
     else let q = p + length (takeWhile (\<lambda>c. c = d) l) in split_loop m (q + 1) d In_Method (Some q))"
  using assms
proof (induction l arbitrary: p)
  case (Cons x l)
  then show ?case
    by (subst split_loop.simps) (auto simp: Let_def)
qed (simp add: split_loop.simps)

lemma cstr_at_dropWhile:
  "cstr_at m p l \<Longrightarrow> cstr_at m (p + length (takeWhile P l)) (dropWhile P l)"
  by (metis cstr_at_drop dropWhile_eq_drop length_takeWhile_le)

lemma split_string_cstr:
  assumes "cstr_at m p l" and d: "d = (if delim = 0 then 32 else delim)"
  shows "\<exists>q a m'. split_string m p delim = Some (q, a, m') \<and> string_of m' q = Some (cfg_method d l)
    \<and> string_of m' a = Some (cfg_args d l) \<and> same_outside m m' p (p + length l)
    \<and> (cfg_method d l \<noteq> [] \<longrightarrow> string_at m' p = Some (takeWhile (\<lambda>c. c = d) l @ cfg_method d l))"
proof (cases "dropWhile (\<lambda>c. c = d) l")
  case Nil
  then show ?thesis
    using split_skip_cstr [OF assms(1), of d]
    by (simp add: split_string_def d [symmetric] string_of_def cfg_method_def cfg_args_def
        del: dropWhile_eq_Nil_conv)
next
  case (Cons x r)
  let ?pre = "takeWhile (\<lambda>c. c = d) l"
  let ?t = "takeWhile (\<lambda>c. c \<noteq> d) r" and ?u = "dropWhile (\<lambda>c. c \<noteq> d) r"
  let ?q = "p + length ?pre"
  have x: "x \<noteq> d"
    using hd_dropWhile [of "\<lambda>c. c = d" l] Cons by auto
  have l: "l = ?pre @ x # ?t @ ?u"
    using Cons takeWhile_dropWhile_id [of "\<lambda>c. c = d" l] by simp
  have meth: "cfg_method d l = x # ?t" and args: "cfg_args d l = dropWhile (\<lambda>c. c = d) ?u"
    using Cons x by (simp_all add: cfg_method_def cfg_args_def)
  have q: "cstr_at m ?q (x # r)" "cstr_at m (?q + 1) r"
    using cstr_at_dropWhile [OF assms(1), of "\<lambda>c. c = d"] Cons by auto
  have run: "split_string m p delim = split_loop m (?q + 1) d In_Method (Some ?q)"
    using split_skip_cstr [OF assms(1), of d] Cons by (simp add: split_string_def d [symmetric] Let_def)
  show ?thesis
  proof (cases ?u)
    case Nil
    then have "r = ?t"
      by (metis dropWhile_eq_Nil_conv takeWhile_eq_all_conv)
    moreover from this have "l = ?pre @ x # ?t"
      using l Nil by simp
    ultimately show ?thesis
      using run split_method_cstr [OF q(2), of d] Nil q(1) assms(1) meth args
      by (auto simp: string_of_def string_at_iff simp del: dropWhile_eq_Nil_conv)
  next
    case (Cons y us)
    then have y: "y = d"
      using hd_dropWhile [of "\<lambda>c. c \<noteq> d" r] by auto
    let ?e = "?q + 1 + length ?t"
    let ?m' = "m[?e := 0]"
    have rt: "r = ?t @ y # us"
      using Cons takeWhile_dropWhile_id [of "\<lambda>c. c \<noteq> d" r] by simp
    have us: "cstr_at m (?e + 1) us"
      using cstr_at_dropWhile [OF q(2), of "\<lambda>c. c \<noteq> d"] Cons by simp
    have us': "cstr_at ?m' (?e + 1) us"
      using us by (rule cstr_at_put_other) simp
    have "split_loop m (?q + 1) d In_Method (Some ?q) =
        Some (Some ?q, if dropWhile (\<lambda>c. c = d) us = [] then None
                 else Some (?e + 1 + length (takeWhile (\<lambda>c. c = d) us)), ?m')"
      using split_method_cstr [OF q(2), of d "Some ?q"] split_args_cstr [OF us', of d] Cons
      by (simp add: Let_def)
    moreover have "cstr_at ?m' ?q (x # ?t)"
    proof -
      have "cstr_at (m[?q + Suc (length ?t) := 0]) ?q (take (Suc (length ?t)) (x # r))"
        using length_takeWhile_le [of "\<lambda>c. c \<noteq> d" r] by (intro cstr_at_cut q(1)) simp
      then show ?thesis
        by (simp add: takeWhile_take [symmetric])
    qed
    moreover have "cstr_at ?m' p (?pre @ x # ?t)"
    proof -
      have "cstr_at (m[p + length (?pre @ x # ?t) := 0]) p (take (length (?pre @ x # ?t)) l)"
        using l by (intro cstr_at_cut assms(1)) (metis length_append le_add1 append_assoc append_Cons)
      moreover have "take (length (?pre @ x # ?t)) l = ?pre @ x # ?t"
        using l by (metis append_eq_conv_conj append_assoc append_Cons)
      ultimately show ?thesis
        by (simp add: add_ac)
    qed
    moreover have "dropWhile (\<lambda>c. c = d) us \<noteq> [] \<longrightarrow>
        cstr_at ?m' (?e + 1 + length (takeWhile (\<lambda>c. c = d) us)) (dropWhile (\<lambda>c. c = d) us)"
      using cstr_at_dropWhile [OF us'] by blast
    moreover have "same_outside m ?m' p (p + length l)"
    proof (rule same_outside_upd)
      have "length l = length (?pre @ x # ?t @ ?u)"
        using l by (rule arg_cong)
      also have "\<dots> = length ?pre + Suc (length ?t + length ?u)"
        by (simp only: length_append list.size)
      finally have "length l = length ?pre + Suc (length ?t + length ?u)" .
      then show "?e < p + length l"
        using Cons by simp
    qed simp
    ultimately show ?thesis
      using run Cons y
      by (auto simp: string_of_def string_at_iff meth args simp del: dropWhile_eq_Nil_conv)
  qed
qed

section \<open>The parser meets the specification\<close>

lemma drop_lines: "xs \<noteq> [] \<Longrightarrow> cfg_lines xs =
    takeWhile (\<lambda>c. c \<noteq> 10) xs # cfg_lines (drop (Suc (length (takeWhile (\<lambda>c. c \<noteq> 10) xs))) xs)"
  by (cases xs) simp_all

declare cfg_lines.simps(2) [simp del]

lemma config_loop_cstr:
  assumes "cstr_at m b xs" "length xs < k" and d: "d = (if delim = 0 then 32 else delim)"
  shows "config_loop k m b delim methods w = Some (cfg_run d methods w (cfg_lines xs))"
  using assms(1,2)
proof (induction k arbitrary: m b xs w)
  case (Suc k)
  show ?case
  proof (cases "xs = []")
    case True
    then show ?thesis
      using Suc.prems by (simp add: read_line_def)
  next
    case False
    let ?l = "takeWhile (\<lambda>c. c \<noteq> 10) xs"
    let ?rest = "drop (Suc (length ?l)) xs"
    obtain m1 n where 1: "read_line m b = Some (Some (b, n), m1)" "cstr_at m1 b ?l"
      "cstr_at m1 n ?rest" "b + length ?l \<le> n"
      using read_line_cstr [OF Suc.prems(1) False refl] by blast
    obtain b' m2 where 2: "strip_comments m1 b = Some (b', m2)" "cstr_at m2 b' (cfg_trim ?l)"
      "same_outside m1 m2 b (b + length ?l)" "b' + length (cfg_trim ?l) \<le> b + length ?l"
      using strip_comments_cstr [OF 1(2)] by blast
    obtain q a m3 where 3: "split_string m2 b' delim = Some (q, a, m3)"
      "string_of m3 q = Some (cfg_method d (cfg_trim ?l))"
      "string_of m3 a = Some (cfg_args d (cfg_trim ?l))"
      "same_outside m2 m3 b' (b' + length (cfg_trim ?l))"
      "cfg_method d (cfg_trim ?l) \<noteq> [] \<Longrightarrow> string_at m3 b' =
         Some (takeWhile (\<lambda>c. c = d) (cfg_trim ?l) @ cfg_method d (cfg_trim ?l))"
      using split_string_cstr [OF 2(2) d] by blast
    have "cstr_at m2 n ?rest"
      using 1 by (intro cstr_at_outside [OF 1(3) 2(3)]) auto
    then have rest: "cstr_at m3 n ?rest"
      using 1 2 by (intro cstr_at_outside [OF _ 3(4)]) auto
    have IH: "config_loop k m3 n delim methods w = Some (cfg_run d methods w (cfg_lines ?rest))" for w
      using Suc.prems(2) False by (intro Suc.IH [OF rest]) (cases xs; simp)
    show ?thesis
      using 1 2 3 IH False
      by (auto simp: drop_lines Let_def split: option.splits prod.splits)
  qed
qed simp

section \<open>Properties\<close>

text \<open>C6: \<open>config_parse\<close> on any NUL-terminated text stays inside the text, ends,
  and does what the file means: for each line in order, after cutting the
  comment and the white space, the first method of the table whose name equals
  the lower-cased first word is called on the rest; empty lines do nothing,
  unknown methods are reported and skipped, and the first non-zero result ends
  the run and is returned.\<close>

theorem config_parse_correct:
  assumes "cstr_at m b txt"
  shows "config_parse m b delim methods w =
    Some (cfg_run (if delim = 0 then 32 else delim) methods w (cfg_lines txt))"
  unfolding config_parse_def
  using cstr_at_length [OF assms] by (intro config_loop_cstr [OF assms _ refl]) simp

theorem config_parse_correct_witness:
  "config_parse [32, 65, 32, 32, 55, 32, 35, 120, 10, 10, 98, 10, 97, 0] 0 0
     [([97], \<lambda>args w. (0, w @ [args]))] [] = Some (0, [Unknown [98]], [[55], []])"
  using config_parse_correct [of "[32, 65, 32, 32, 55, 32, 35, 120, 10, 10, 98, 10, 97, 0]" 0
      "[32, 65, 32, 32, 55, 32, 35, 120, 10, 10, 98, 10, 97]" 0 "[([97], \<lambda>args w. (0, w @ [args]))]" "[]"]
  by (simp add: drop_lines cfg_trim_def rtrim_def blank_def isspace_def cfg_method_def cfg_args_def
      lower_byte_def tolower_def)

end
