(* ===== verification/MemChunk.thy ===== *)
theory MemChunk
  imports CPrelude
begin

text \<open>
  The physical memory allocator of memchunk.c: a list of free regions reported
  by the firmware, a list of regions handed out, and the page-stepping search.
  All address arithmetic is on 32-bit words and wraps as it does in the code.
  The lists grow at the head and nothing is ever removed from them.
\<close>

section \<open>Model\<close>

record chunk =
  chunk_start :: u32
  chunk_len :: u32

record chunk_state =
  free_list :: "chunk list"
  used :: "chunk list"
  max_free :: u32

definition chunk_init :: chunk_state where
  "chunk_init = \<lparr>free_list = [], used = [], max_free = 0\<rparr>"

definition chunk_add :: "u32 \<Rightarrow> u32 \<Rightarrow> chunk list \<Rightarrow> chunk list" where
  "chunk_add s l cs = \<lparr>chunk_start = s, chunk_len = l\<rparr> # cs"

primrec chunk_overlaps :: "u32 \<Rightarrow> u32 \<Rightarrow> chunk list \<Rightarrow> bool" where
  "chunk_overlaps s l [] = False"
| "chunk_overlaps s l (c # cs) =
     (let l_start = chunk_start c; l_end = l_start + chunk_len c; e = s + l
      in if s < l_end \<and> e > l_start then True else chunk_overlaps s l cs)"

primrec chunk_contains :: "u32 \<Rightarrow> u32 \<Rightarrow> chunk list \<Rightarrow> bool" where
  "chunk_contains s l [] = False"
| "chunk_contains s l (c # cs) =
     (let l_start = chunk_start c; l_end = l_start + chunk_len c; e = s + l
      in if s \<ge> l_start \<and> e \<le> l_end then True else chunk_contains s l cs)"

definition chunk_can_allocate :: "u32 \<Rightarrow> u32 \<Rightarrow> chunk_state \<Rightarrow> bool" where
  "chunk_can_allocate s l st =
     (if \<not> chunk_contains s l (free_list st) then False
      else if chunk_overlaps s l (used st) then False
      else True)"

definition chunk_register_free :: "u32 \<Rightarrow> u32 \<Rightarrow> chunk_state \<Rightarrow> chunk_state" where
  "chunk_register_free s l st =
     (let st = st\<lparr>free_list := chunk_add s l (free_list st)\<rparr>
      in if s + l > max_free st then st\<lparr>max_free := s + l\<rparr> else st)"

text \<open>The search may run for ever: with \<open>max_free\<close> in the last page the test
  address wraps to zero.\<close>

partial_function (option) chunk_search :: "u32 \<Rightarrow> u32 \<Rightarrow> chunk_state \<Rightarrow> (u32 \<times> chunk_state) option" where
  "chunk_search test_address l st =
     (if test_address < max_free st then
        if chunk_can_allocate test_address l st
        then Some (test_address, st\<lparr>used := chunk_add test_address l (used st)\<rparr>)
        else chunk_search (test_address + 0x1000) l st
      else Some (0, st))"

definition chunk_get_any_chunk :: "u32 \<Rightarrow> chunk_state \<Rightarrow> (u32 \<times> chunk_state) option" where
  "chunk_get_any_chunk l st = chunk_search 0 l st"

definition chunk_get_chunk :: "u32 \<Rightarrow> u32 \<Rightarrow> chunk_state \<Rightarrow> u32 \<times> chunk_state" where
  "chunk_get_chunk s l st =
     (if chunk_can_allocate s l st then (s, st\<lparr>used := chunk_add s l (used st)\<rparr>) else (0, st))"

declare chunk_search.simps [code]

section \<open>Regions as sets of addresses\<close>

text \<open>A region that does not wrap is the set of its addresses; \<open>fits\<close> says so.\<close>

definition fits :: "u32 \<Rightarrow> u32 \<Rightarrow> bool" where
  "fits s l \<longleftrightarrow> unat s + unat l < 2 ^ 32"

definition addrs :: "chunk \<Rightarrow> nat set" where
  "addrs c = {unat (chunk_start c) ..< unat (chunk_start c) + unat (chunk_len c)}"

definition fit_list :: "chunk list \<Rightarrow> bool" where
  "fit_list cs \<longleftrightarrow> (\<forall>c \<in> set cs. fits (chunk_start c) (chunk_len c))"

lemma unat_plus_fits: "fits s l \<Longrightarrow> unat (s + l) = unat s + unat l"
  by (simp add: fits_def unat_plus_if_u32)

lemma chunk_contains_iff:
  "chunk_contains s l cs \<longleftrightarrow> (\<exists>c \<in> set cs. chunk_start c \<le> s \<and> s + l \<le> chunk_start c + chunk_len c)"
  by (induction cs) (auto simp: Let_def)

lemma chunk_overlaps_iff:
  "chunk_overlaps s l cs \<longleftrightarrow> (\<exists>c \<in> set cs. s < chunk_start c + chunk_len c \<and> chunk_start c < s + l)"
  by (induction cs) (auto simp: Let_def)

lemma chunk_contains_addrs:
  assumes "fit_list cs" "fits s l"
  shows "chunk_contains s l cs \<longleftrightarrow>
    (\<exists>c \<in> set cs. unat (chunk_start c) \<le> unat s \<and> unat s + unat l \<le> unat (chunk_start c) + unat (chunk_len c))"
  unfolding chunk_contains_iff
  using assms by (intro bex_cong refl) (auto simp: word_le_nat_alt unat_plus_fits fit_list_def)

lemma chunk_overlaps_addrs:
  assumes "fit_list cs" "fits s l"
  shows "chunk_overlaps s l cs \<longleftrightarrow>
    (\<exists>c \<in> set cs. unat s < unat (chunk_start c) + unat (chunk_len c) \<and> unat (chunk_start c) < unat s + unat l)"
  unfolding chunk_overlaps_iff
  using assms by (intro bex_cong refl) (auto simp: word_less_nat_alt unat_plus_fits fit_list_def)

section \<open>The invariant of the allocator\<close>

definition chunk_inv :: "chunk_state \<Rightarrow> bool" where
  "chunk_inv st \<longleftrightarrow> fit_list (free_list st) \<and> fit_list (used st)
     \<and> (\<forall>u \<in> set (used st). \<exists>f \<in> set (free_list st). addrs u \<subseteq> addrs f)
     \<and> sorted_wrt (\<lambda>u v. addrs u \<inter> addrs v = {}) (used st)
     \<and> (\<forall>f \<in> set (free_list st). unat (chunk_start f) + unat (chunk_len f) \<le> unat (max_free st))"

lemma can_allocate_inside:
  assumes "chunk_inv st" "fits s l" "chunk_can_allocate s l st"
  obtains f where "f \<in> set (free_list st)" "addrs \<lparr>chunk_start = s, chunk_len = l\<rparr> \<subseteq> addrs f"
    "unat s + unat l \<le> unat (chunk_start f) + unat (chunk_len f)"
proof -
  have "chunk_contains s l (free_list st)"
    using assms(3) by (simp add: chunk_can_allocate_def split: if_splits)
  moreover have "fit_list (free_list st)"
    using assms(1) by (simp add: chunk_inv_def)
  ultimately obtain f where "f \<in> set (free_list st)" "unat (chunk_start f) \<le> unat s"
    "unat s + unat l \<le> unat (chunk_start f) + unat (chunk_len f)"
    using assms(2) chunk_contains_addrs by blast
  then show thesis
    by (intro that) (auto simp: addrs_def)
qed

lemma can_allocate_disjoint:
  assumes "chunk_inv st" "fits s l" "chunk_can_allocate s l st" "u \<in> set (used st)"
  shows "addrs \<lparr>chunk_start = s, chunk_len = l\<rparr> \<inter> addrs u = {}"
proof -
  have "\<not> chunk_overlaps s l (used st)"
    using assms(3) by (simp add: chunk_can_allocate_def split: if_splits)
  moreover have "fit_list (used st)"
    using assms(1) by (simp add: chunk_inv_def)
  ultimately have "\<not> (unat s < unat (chunk_start u) + unat (chunk_len u) \<and> unat (chunk_start u) < unat s + unat l)"
    using assms(2,4) chunk_overlaps_addrs by blast
  then show ?thesis
    by (auto simp: addrs_def)
qed

lemma chunk_inv_init: "chunk_inv chunk_init"
  by (simp add: chunk_inv_def chunk_init_def fit_list_def)

lemma chunk_inv_register:
  assumes "chunk_inv st" "fits s l"
  shows "chunk_inv (chunk_register_free s l st)"
  using assms
  by (auto simp: chunk_inv_def chunk_register_free_def Let_def chunk_add_def fit_list_def
      unat_plus_fits word_less_nat_alt)

lemma chunk_inv_use:
  assumes "chunk_inv st" "fits s l" "chunk_can_allocate s l st"
  shows "chunk_inv (st\<lparr>used := chunk_add s l (used st)\<rparr>)"
proof -
  have "\<exists>f \<in> set (free_list st). addrs \<lparr>chunk_start = s, chunk_len = l\<rparr> \<subseteq> addrs f"
    using can_allocate_inside [OF assms] by blast
  then show ?thesis
    using assms can_allocate_disjoint [OF assms]
    by (auto simp: chunk_inv_def chunk_add_def fit_list_def)
qed

lemma can_allocate_below:
  assumes "chunk_inv st" "fits s l" "chunk_can_allocate s l st"
  shows "unat s + unat l \<le> unat (max_free st)"
  using can_allocate_inside [OF assms] assms(1) by (metis chunk_inv_def le_trans)

section \<open>The search\<close>

lemma chunk_search_unfold:
  "chunk_search t l st =
     (if t < max_free st then
        if chunk_can_allocate t l st then Some (t, st\<lparr>used := chunk_add t l (used st)\<rparr>)
        else chunk_search (t + 0x1000) l st
      else Some (0, st))"
  by (rule chunk_search.simps)

text \<open>The pages the search visits from an address up to \<open>max_free\<close>.\<close>

definition pages :: "nat \<Rightarrow> nat \<Rightarrow> u32 list" where
  "pages a n = map (\<lambda>i. word_of_nat (a + i * 4096)) [0..<n]"

lemma pages_Suc: "pages a (Suc n) = word_of_nat a # pages (a + 4096) n"
  by (simp add: pages_def upt_conv_Cons map_Suc_upt [symmetric] del: upt_Suc)

definition chunk_find :: "u32 list \<Rightarrow> u32 \<Rightarrow> chunk_state \<Rightarrow> u32 \<times> chunk_state" where
  "chunk_find ps l st =
     (case find (\<lambda>a. chunk_can_allocate a l st) ps of
        None \<Rightarrow> (0, st)
      | Some a \<Rightarrow> (a, st\<lparr>used := chunk_add a l (used st)\<rparr>))"

lemma chunk_search_pages:
  assumes "max_free st \<le> 0xfffff000" "a < 2 ^ 32" "unat (max_free st) \<le> a + n * 4096"
    and "\<forall>i < n. a + i * 4096 < unat (max_free st)"
  shows "chunk_search (word_of_nat a) l st = Some (chunk_find (pages a n) l st)"
  using assms(2-)
proof (induction n arbitrary: a)
  case 0
  then show ?case
    by (subst chunk_search_unfold)
      (simp add: pages_def chunk_find_def word_less_nat_alt unat_of_nat_u32)
next
  case (Suc n)
  have a: "a < unat (max_free st)" "unat (max_free st) \<le> 4294963200"
    using Suc.prems(3) assms(1) by (auto simp: word_le_nat_alt dest: spec [of _ 0])
  have "word_of_nat a + 0x1000 = (word_of_nat (a + 4096) :: u32)"
    by simp
  moreover have "chunk_search (word_of_nat (a + 4096)) l st = Some (chunk_find (pages (a + 4096) n) l st)"
    using Suc.prems a by (intro Suc.IH) (auto dest: spec [of _ "Suc _"])
  ultimately show ?case
    using a Suc.prems(1)
    by (subst chunk_search_unfold)
      (auto simp: pages_Suc chunk_find_def word_less_nat_alt unat_of_nat_u32)
qed

lemma chunk_search_never:
  assumes "0xfffff000 < max_free st" "\<And>a. 4096 dvd unat a \<Longrightarrow> \<not> chunk_can_allocate a l st"
    and "chunk_search t l st = Some r" "4096 dvd unat t"
  shows False
proof -
  have "0xfffff000 < max_free st \<longrightarrow> (\<forall>a. 4096 dvd unat a \<longrightarrow> \<not> chunk_can_allocate a l st)
      \<longrightarrow> \<not> 4096 dvd unat t"
    using assms(3)
  proof (rule chunk_search.raw_induct [rotated])
    fix search t l st and r :: "u32 \<times> chunk_state"
    assume IH: "\<And>t l st r. search t l st = Some r \<Longrightarrow> 0xfffff000 < max_free st \<longrightarrow>
        (\<forall>a. 4096 dvd unat a \<longrightarrow> \<not> chunk_can_allocate a l st) \<longrightarrow> \<not> 4096 dvd unat t"
      and step: "(if t < max_free st then
          if chunk_can_allocate t l st then Some (t, st\<lparr>used := chunk_add t l (used st)\<rparr>)
          else search (t + 0x1000) l st else Some (0, st)) = Some r"
    have "t \<le> 0xfffff000" "4096 dvd unat (t + 0x1000)" if "4096 dvd unat t"
    proof -
      have "unat t \<le> 4294963200"
        using that unat_u32_less [of t] by (elim dvdE) simp
      then show "t \<le> 0xfffff000"
        by (simp add: word_le_nat_alt)
      show "4096 dvd unat (t + 0x1000)"
        using that by (auto simp: unat_plus_if_u32 intro: dvd_diff_nat dvd_add)
    qed
    then show "0xfffff000 < max_free st \<longrightarrow> (\<forall>a. 4096 dvd unat a \<longrightarrow> \<not> chunk_can_allocate a l st)
        \<longrightarrow> \<not> 4096 dvd unat t"
      using IH [of "t + 0x1000" l st r] step by (auto split: if_splits)
  qed
  then show False
    using assms by blast
qed

lemma chunk_search_result:
  assumes "chunk_search t l st = Some (a, st')"
  shows "st' = st \<or> a < max_free st \<and> chunk_can_allocate a l st
    \<and> st' = st\<lparr>used := chunk_add a l (used st)\<rparr>"
proof -
  have "snd (a, st') = st \<or> fst (a, st') < max_free st \<and> chunk_can_allocate (fst (a, st')) l st
      \<and> snd (a, st') = st\<lparr>used := chunk_add (fst (a, st')) l (used st)\<rparr>"
    using assms
    by (rule chunk_search.raw_induct [rotated]) (auto split: if_splits)
  then show ?thesis
    by simp
qed

lemma ceil_page: "x \<le> (x + 4095) div 4096 * 4096 \<and> (\<forall>i < (x + 4095) div 4096. i * 4096 < (x :: nat))"
proof -
  define n where "n = (x + 4095) div 4096"
  have "n * 4096 + (x + 4095) mod 4096 = x + 4095" "(x + 4095) mod 4096 < 4096"
    by (simp_all add: n_def)
  then have "x \<le> n * 4096" "\<forall>i < n. i * 4096 < x"
    by auto
  then show ?thesis
    by (simp add: n_def)
qed

section \<open>Histories of the allocator\<close>

text \<open>One step is one call of an interface function.  The guards exclude the
  requests whose arithmetic wraps; \<open>chunk_get_chunk_wraps\<close> below shows what
  such a request does.\<close>

inductive chunk_step :: "chunk_state \<Rightarrow> chunk_state \<Rightarrow> bool" where
  register: "fits s l \<Longrightarrow> chunk_step st (chunk_register_free s l st)"
| get: "fits s l \<Longrightarrow> chunk_get_chunk s l st = (r, st') \<Longrightarrow> chunk_step st st'"
| get_any: "unat (max_free st) + unat l \<le> 4294967296 \<Longrightarrow> chunk_get_any_chunk l st = Some (r, st')
    \<Longrightarrow> chunk_step st st'"

inductive_cases chunk_stepE: "chunk_step st st'"

lemma chunk_step_inv: "chunk_step st st' \<Longrightarrow> chunk_inv st \<Longrightarrow> chunk_inv st'"
proof (erule chunk_stepE)
  fix s l
  assume "st' = chunk_register_free s l st" "fits s l" "chunk_inv st"
  then show "chunk_inv st'"
    by (simp add: chunk_inv_register)
next
  fix s l r
  assume "chunk_get_chunk s l st = (r, st')" "fits s l" "chunk_inv st"
  then show "chunk_inv st'"
    by (auto simp: chunk_get_chunk_def chunk_inv_use split: if_splits)
next
  fix l r
  assume a: "unat (max_free st) + unat l \<le> 4294967296" "chunk_get_any_chunk l st = Some (r, st')"
    "chunk_inv st"
  then consider "st' = st" | "r < max_free st" "chunk_can_allocate r l st"
      "st' = st\<lparr>used := chunk_add r l (used st)\<rparr>"
    unfolding chunk_get_any_chunk_def using chunk_search_result by blast
  then show "chunk_inv st'"
  proof cases
    case 2
    then have "fits r l"
      using a(1) by (simp add: fits_def word_less_nat_alt)
    then show ?thesis
      using 2 a(3) by (simp add: chunk_inv_use)
  qed (use a in simp)
qed

lemma chunk_reach_inv: "chunk_step\<^sup>*\<^sup>* chunk_init st \<Longrightarrow> chunk_inv st"
  by (induction rule: rtranclp_induct) (auto intro: chunk_inv_init chunk_step_inv)

section \<open>Properties\<close>



text \<open>C10: \<open>chunk_get_any_chunk\<close> returns whenever no registered region reaches
  into the last page of the address space, and then it is first fit: it takes
  the lowest page boundary below \<open>max_free\<close> at which the length can be
  allocated, and leaves the state as it was, returning 0, when there is none.\<close>

theorem chunk_get_any_first_fit:
  assumes "max_free st \<le> 0xfffff000"
  shows "chunk_get_any_chunk l st =
    Some (chunk_find (pages 0 ((unat (max_free st) + 4095) div 4096)) l st)"
proof -
  let ?n = "(unat (max_free st) + 4095) div 4096"
  have "unat (max_free st) \<le> ?n * 4096" "\<forall>i < ?n. i * 4096 < unat (max_free st)"
    using ceil_page by blast+
  then show ?thesis
    using chunk_search_pages [OF assms, of 0 ?n l] by (simp add: chunk_get_any_chunk_def)
qed

theorem chunk_get_any_first_fit_witness:
  "\<exists>st. chunk_get_any_chunk 0x100 (chunk_register_free 0x1800 0x1000 chunk_init) = Some (0x2000, st)"
proof -
  let ?s = "chunk_register_free 0x1800 0x1000 chunk_init"
  have m: "max_free ?s = 0x2800"
    by (simp add: chunk_register_free_def chunk_init_def Let_def)
  have "chunk_find (pages 0 3) 0x100 ?s = (0x2000, ?s\<lparr>used := [\<lparr>chunk_start = 0x2000, chunk_len = 0x100\<rparr>]\<rparr>)"
    by (simp add: pages_def upt_rec chunk_find_def chunk_can_allocate_def chunk_register_free_def
        chunk_add_def chunk_init_def Let_def)
  then show ?thesis
    using chunk_get_any_first_fit [of ?s "0x100"] m by simp
qed

text \<open>When a registered region does reach into the last page and no page
  boundary can take the length, the test address wraps to zero and the search never returns.\<close>

theorem chunk_get_any_diverges:
  assumes "0xfffff000 < max_free st" "\<forall>a. 4096 dvd unat a \<longrightarrow> \<not> chunk_can_allocate a l st"
  shows "chunk_get_any_chunk l st = None"
proof (rule ccontr)
  assume "chunk_get_any_chunk l st \<noteq> None"
  then obtain r where "chunk_search 0 l st = Some r"
    by (auto simp: chunk_get_any_chunk_def)
  then show False
    using chunk_search_never [of st l 0 r] assms by simp
qed

theorem chunk_get_any_diverges_witness:
  "chunk_get_any_chunk 0x100 (chunk_register_free 0xfffff800 0x700 chunk_init) = None"
proof -
  have "unat a \<le> 0xfffff000" if "4096 dvd unat a" for a :: u32
    using that unat_u32_less [of a] by (elim dvdE) simp
  then have "\<not> 0xfffff800 \<le> a" if "4096 dvd unat a" for a :: u32
    using that by (fastforce simp: word_le_nat_alt)
  then show ?thesis
    by (intro chunk_get_any_diverges)
      (auto simp: chunk_register_free_def chunk_init_def Let_def chunk_can_allocate_def chunk_add_def)
qed

text \<open>A request whose end wraps past the top of the address space is granted
  although it covers memory outside every free region and regions already
  handed out: the wrapped end passes both comparisons.\<close>

theorem chunk_get_chunk_wraps:
  assumes "f \<in> set (free_list st)" "chunk_start f \<le> s" "s + l \<le> chunk_start f + chunk_len f"
    and "\<forall>u \<in> set (used st). s + l \<le> chunk_start u"
  shows "chunk_get_chunk s l st = (s, st\<lparr>used := \<lparr>chunk_start = s, chunk_len = l\<rparr> # used st\<rparr>)"
proof -
  have "chunk_contains s l (free_list st)"
    using assms(1-3) chunk_contains_iff by blast
  moreover have "\<not> chunk_overlaps s l (used st)"
    using assms(4) by (force simp: chunk_overlaps_iff not_less)
  ultimately show ?thesis
    by (simp add: chunk_get_chunk_def chunk_can_allocate_def chunk_add_def)
qed

theorem chunk_get_chunk_wraps_witness:
  "chunk_get_chunk 0x2000 0xffffe800
     \<lparr>free_list = [\<lparr>chunk_start = 0x1000, chunk_len = 0x8000\<rparr>], used = [\<lparr>chunk_start = 0x3000, chunk_len = 0x1000\<rparr>],
      max_free = 0x9000\<rparr>
   = (0x2000, \<lparr>free_list = [\<lparr>chunk_start = 0x1000, chunk_len = 0x8000\<rparr>],
      used = [\<lparr>chunk_start = 0x2000, chunk_len = 0xffffe800\<rparr>, \<lparr>chunk_start = 0x3000, chunk_len = 0x1000\<rparr>],
      max_free = 0x9000\<rparr>)"
  using chunk_get_chunk_wraps [of "\<lparr>chunk_start = 0x1000, chunk_len = 0x8000\<rparr>"
     "\<lparr>free_list = [\<lparr>chunk_start = 0x1000, chunk_len = 0x8000\<rparr>], used = [\<lparr>chunk_start = 0x3000, chunk_len = 0x1000\<rparr>],
      max_free = 0x9000\<rparr>" "0x2000" "0xffffe800"]
  by simp

end
