(* ===== verification/Strstr.thy ===== *)
theory Strstr
  imports CString
begin

text \<open>
  Substring search (strstr.c): a rolling comparison for needles of two, three and four
  bytes, the two-way algorithm with a shift table for longer ones.  The haystack and the
  needle are two buffers with NUL-terminated strings, the needle at the start of its own.  The
  unsigned wrap of the code at minus one is the integer; the set of bytes of the needle is the
  domain of the shift table, whose other entries the code leaves unset.
\<close>

section \<open>Short needles\<close>

function roll_loop :: "('a::len word \<Rightarrow> u8 \<Rightarrow> 'a word) \<Rightarrow> buf \<Rightarrow> nat \<Rightarrow> 'a word \<Rightarrow> 'a word \<Rightarrow> (u8 \<times> nat) option" where
  "roll_loop step hs h hw nw = do {
     c \<leftarrow> get_byte hs h;
     if c \<noteq> 0 \<and> hw \<noteq> nw then do {
       d \<leftarrow> get_byte hs (h + 1);
       roll_loop step hs (h + 1) (step hw d) nw }
     else Some (c, h) }"
  by pat_completeness auto
termination by (relation "measure (\<lambda>(step, hs, h, hw, nw). length hs - h)") (auto simp: get_byte_eq_Some)

declare roll_loop.simps [simp del]

definition twobyte_strstr :: "buf \<Rightarrow> nat \<Rightarrow> buf \<Rightarrow> nat option option" where
  "twobyte_strstr hs h n = do {
     n0 \<leftarrow> get_byte n 0; n1 \<leftarrow> get_byte n 1;
     h0 \<leftarrow> get_byte hs h; h1 \<leftarrow> get_byte hs (h + 1);
     let nw = (push_bit 8 (ucast n0) OR ucast n1 :: u16);
     let hw = push_bit 8 (ucast h0) OR ucast h1;
     (c, h) \<leftarrow> roll_loop (\<lambda>hw d. push_bit 8 hw OR ucast d) hs (h + 1) hw nw;
     Some (if c \<noteq> 0 then Some (h - 1) else None) }"

definition threebyte_strstr :: "buf \<Rightarrow> nat \<Rightarrow> buf \<Rightarrow> nat option option" where
  "threebyte_strstr hs h n = do {
     n0 \<leftarrow> get_byte n 0; n1 \<leftarrow> get_byte n 1; n2 \<leftarrow> get_byte n 2;
     h0 \<leftarrow> get_byte hs h; h1 \<leftarrow> get_byte hs (h + 1); h2 \<leftarrow> get_byte hs (h + 2);
     let nw = (push_bit 24 (ucast n0) OR push_bit 16 (ucast n1) OR push_bit 8 (ucast n2) :: u32);
     let hw = push_bit 24 (ucast h0) OR push_bit 16 (ucast h1) OR push_bit 8 (ucast h2);
     (c, h) \<leftarrow> roll_loop (\<lambda>hw d. push_bit 8 (hw OR ucast d)) hs (h + 2) hw nw;
     Some (if c \<noteq> 0 then Some (h - 2) else None) }"

definition fourbyte_strstr :: "buf \<Rightarrow> nat \<Rightarrow> buf \<Rightarrow> nat option option" where
  "fourbyte_strstr hs h n = do {
     n0 \<leftarrow> get_byte n 0; n1 \<leftarrow> get_byte n 1; n2 \<leftarrow> get_byte n 2; n3 \<leftarrow> get_byte n 3;
     h0 \<leftarrow> get_byte hs h; h1 \<leftarrow> get_byte hs (h + 1); h2 \<leftarrow> get_byte hs (h + 2); h3 \<leftarrow> get_byte hs (h + 3);
     let nw = (push_bit 24 (ucast n0) OR push_bit 16 (ucast n1) OR push_bit 8 (ucast n2) OR ucast n3 :: u32);
     let hw = push_bit 24 (ucast h0) OR push_bit 16 (ucast h1) OR push_bit 8 (ucast h2) OR ucast h3;
     (c, h) \<leftarrow> roll_loop (\<lambda>hw d. push_bit 8 hw OR ucast d) hs (h + 3) hw nw;
     Some (if c \<noteq> 0 then Some (h - 3) else None) }"

section \<open>The two-way algorithm\<close>

text \<open>The length of the needle, the shift table, and the byte at which the scan stopped.\<close>

function needle_scan :: "buf \<Rightarrow> buf \<Rightarrow> nat \<Rightarrow> nat \<Rightarrow> (u8 \<rightharpoonup> nat) \<Rightarrow> (nat \<times> (u8 \<rightharpoonup> nat) \<times> u8) option" where
  "needle_scan n hs h l shift = do {
     a \<leftarrow> get_byte n l;
     if a = 0 then Some (l, shift, a)
     else do {
       b \<leftarrow> get_byte hs (h + l);
       if b = 0 then Some (l, shift, a)
       else needle_scan n hs h (l + 1) (shift(a \<mapsto> l + 1)) } }"
  by pat_completeness auto
termination by (relation "measure (\<lambda>(n, hs, h, l, shift). length n - l)") (auto simp: get_byte_eq_Some)

declare needle_scan.simps [simp del]

text \<open>A maximal suffix and its period, for the order of bytes or its converse.\<close>

partial_function (option) suffix_loop :: "buf \<Rightarrow> nat \<Rightarrow> bool \<Rightarrow> int \<Rightarrow> nat \<Rightarrow> nat \<Rightarrow> nat \<Rightarrow> (int \<times> nat) option" where
  "suffix_loop n l gt ip jp k p =
     (if jp + k < l then do {
        a \<leftarrow> get_byte n (nat (ip + int k));
        b \<leftarrow> get_byte n (jp + k);
        if a = b then
          if k = p then suffix_loop n l gt ip (jp + p) 1 p else suffix_loop n l gt ip jp (k + 1) p
        else if (if gt then a > b else a < b) then
          let jp = jp + k in suffix_loop n l gt ip jp 1 (nat (int jp - ip))
        else suffix_loop n l gt (int jp) (jp + 1) 1 1 }
      else Some (ip, p))"

declare suffix_loop.simps [code]

definition factorize :: "buf \<Rightarrow> nat \<Rightarrow> (int \<times> nat \<times> nat) option" where
  "factorize n l = do {
     (ms, p0) \<leftarrow> suffix_loop n l True (-1) 0 1 1;
     (ip, p) \<leftarrow> suffix_loop n l False (-1) 0 1 1;
     let (ms, p) = (if ip + 1 > ms + 1 then (ip, p) else (ms, p0));
     c \<leftarrow> memcmp n 0 p (nat (ms + 1));
     Some (if c \<noteq> 0 then (ms, nat (max ms (int l - ms - 1) + 1), 0) else (ms, p, l - p)) }"

function right_match :: "buf \<Rightarrow> buf \<Rightarrow> nat \<Rightarrow> nat \<Rightarrow> nat option" where
  "right_match n hs h k = do {
     a \<leftarrow> get_byte n k;
     if a = 0 then Some k
     else do {
       b \<leftarrow> get_byte hs (h + k);
       if a = b then right_match n hs h (k + 1) else Some k } }"
  by pat_completeness auto
termination by (relation "measure (\<lambda>(n, hs, h, k). length n - k)") (auto simp: get_byte_eq_Some)

declare right_match.simps [simp del]

primrec left_match :: "buf \<Rightarrow> buf \<Rightarrow> nat \<Rightarrow> nat \<Rightarrow> nat \<Rightarrow> nat option" where
  "left_match n hs h mem 0 = Some 0"
| "left_match n hs h mem (Suc k) =
     (if Suc k > mem then do {
        a \<leftarrow> get_byte n k;
        b \<leftarrow> get_byte hs (h + k);
        if a = b then left_match n hs h mem k else Some (Suc k) }
      else Some (Suc k))"

text \<open>The pointer to the end of the haystack as far as it is known; nothing is left when the end
  is closer than the length of the needle.\<close>

definition extend_end :: "buf \<Rightarrow> nat \<Rightarrow> nat \<Rightarrow> nat \<Rightarrow> nat option option" where
  "extend_end hs h l z =
     (if int z - int h < int l then do {
        let grow = unat ((word_of_nat l :: u32) OR 63);
        z2 \<leftarrow> memchr hs z 0 grow;
        Some (case z2 of Some z \<Rightarrow> if int z - int h < int l then None else Some z | None \<Rightarrow> Some (z + grow)) }
      else Some (Some z))"

partial_function (option) twoway_search ::
  "buf \<Rightarrow> buf \<Rightarrow> nat \<Rightarrow> int \<Rightarrow> nat \<Rightarrow> nat \<Rightarrow> (u8 \<rightharpoonup> nat) \<Rightarrow> nat \<Rightarrow> nat \<Rightarrow> nat \<Rightarrow> nat option option" where
  "twoway_search hs n l ms p mem0 shift h z mem = do {
     zr \<leftarrow> extend_end hs h l z;
     (case zr of None \<Rightarrow> Some None
      | Some z \<Rightarrow> do {
          c \<leftarrow> get_byte hs (h + l - 1);
          (case shift c of None \<Rightarrow> twoway_search hs n l ms p mem0 shift (h + l) z 0
           | Some s \<Rightarrow>
               let k = l - s in
               if k \<noteq> 0 then
                 let k = (if mem0 \<noteq> 0 \<and> mem \<noteq> 0 \<and> k < p then l - p else k)
                 in twoway_search hs n l ms p mem0 shift (h + k) z 0
               else do {
                 k \<leftarrow> right_match n hs h (max (nat (ms + 1)) mem);
                 a \<leftarrow> get_byte n k;
                 if a \<noteq> 0 then twoway_search hs n l ms p mem0 shift (nat (int h + int k - ms)) z 0
                 else do {
                   k \<leftarrow> left_match n hs h mem (nat (ms + 1));
                   if k \<le> mem then Some (Some h)
                   else twoway_search hs n l ms p mem0 shift (h + p) z mem0 } }) }) }"

definition twoway_strstr :: "buf \<Rightarrow> nat \<Rightarrow> buf \<Rightarrow> nat option option" where
  "twoway_strstr hs h n = do {
     (l, shift, a) \<leftarrow> needle_scan n hs h 0 Map.empty;
     if a \<noteq> 0 then Some None
     else do {
       (ms, p, mem0) \<leftarrow> factorize n l;
       twoway_search hs n l ms p mem0 shift h h 0 } }"

definition strstr :: "buf \<Rightarrow> nat \<Rightarrow> buf \<Rightarrow> nat option option" where
  "strstr hs h n = do {
     n0 \<leftarrow> get_byte n 0;
     if n0 = 0 then Some (Some h)
     else do {
       r \<leftarrow> strchr hs h (uint n0);
       (case r of None \<Rightarrow> Some None
        | Some h \<Rightarrow> do {
            n1 \<leftarrow> get_byte n 1;
            if n1 = 0 then Some (Some h)
            else do {
              h1 \<leftarrow> get_byte hs (h + 1);
              if h1 = 0 then Some None
              else do {
                n2 \<leftarrow> get_byte n 2;
                if n2 = 0 then twobyte_strstr hs h n
                else do {
                  h2 \<leftarrow> get_byte hs (h + 2);
                  if h2 = 0 then Some None
                  else do {
                    n3 \<leftarrow> get_byte n 3;
                    if n3 = 0 then threebyte_strstr hs h n
                    else do {
                      h3 \<leftarrow> get_byte hs (h + 3);
                      if h3 = 0 then Some None
                      else do {
                        n4 \<leftarrow> get_byte n 4;
                        if n4 = 0 then fourbyte_strstr hs h n
                        else twoway_strstr hs h n } } } } } } }) } }"

section \<open>The first occurrence\<close>

definition occurs :: "'a list \<Rightarrow> 'a list \<Rightarrow> nat \<Rightarrow> bool" where
  "occurs ns xs i \<longleftrightarrow> take (length ns) (drop i xs) = ns"

definition first_occ :: "'a list \<Rightarrow> 'a list \<Rightarrow> nat option" where
  "first_occ ns xs = find (occurs ns xs) [0..<Suc (length xs)]"

text \<open>That the split of the needle after ms and the shift p are right: after a mismatch at place k
  of the right half, and after one in the left half, no smaller shift can be an
  occurrence.  It can be computed for a given needle.\<close>

definition shift_right_ok :: "cstring \<Rightarrow> nat \<Rightarrow> nat \<Rightarrow> bool" where
  "shift_right_ok ns m k = list_all (\<lambda>s. list_ex (\<lambda>i. s \<le> i \<and> (if i < k then ns ! i \<noteq> ns ! (i - s) else ns ! k = ns ! (k - s))) [m..<Suc k]) [1..<Suc (k - m)]"

definition shift_left_ok :: "cstring \<Rightarrow> nat \<Rightarrow> nat \<Rightarrow> bool" where
  "shift_left_ok ns m p = list_all (\<lambda>s. list_ex (\<lambda>i. s \<le> i \<and> ns ! i \<noteq> ns ! (i - s)) [m..<length ns]) [1..<p]"

definition split_ok :: "cstring \<Rightarrow> int \<Rightarrow> nat \<Rightarrow> bool" where
  "split_ok ns ms p \<longleftrightarrow> -1 \<le> ms \<and> ms + 1 < int (length ns) \<and> 0 < p \<and> p \<le> length ns
     \<and> list_all (shift_right_ok ns (nat (ms + 1))) [nat (ms + 1)..<length ns] \<and> shift_left_ok ns (nat (ms + 1)) p"

definition factored :: "cstring \<Rightarrow> bool" where
  "factored ns \<longleftrightarrow> (case factorize (ns @ [0]) (length ns) of None \<Rightarrow> False
     | Some (ms, p, mem0) \<Rightarrow> mem0 = 0 \<and> split_ok ns ms p)"

section \<open>The search\<close>

text \<open>An occurrence at a place of the buffer whose string ends at e.\<close>

definition occ_at :: "buf \<Rightarrow> nat \<Rightarrow> cstring \<Rightarrow> nat \<Rightarrow> bool" where
  "occ_at hs e ns x \<longleftrightarrow> x + length ns \<le> e \<and> (\<forall>j < length ns. hs ! (x + j) = ns ! j)"

definition first_at :: "(nat \<Rightarrow> bool) \<Rightarrow> nat \<Rightarrow> nat option \<Rightarrow> bool" where
  "first_at P p r \<longleftrightarrow> (case r of None \<Rightarrow> \<forall>y \<ge> p. \<not> P y | Some x \<Rightarrow> p \<le> x \<and> P x \<and> (\<forall>y. p \<le> y \<and> y < x \<longrightarrow> \<not> P y))"

definition str_end :: "buf \<Rightarrow> nat \<Rightarrow> nat \<Rightarrow> bool" where
  "str_end hs p e \<longleftrightarrow> p \<le> e \<and> e < length hs \<and> hs ! e = 0 \<and> (\<forall>x. p \<le> x \<and> x < e \<longrightarrow> hs ! x \<noteq> 0)"

lemma str_end_later: "str_end hs p e \<Longrightarrow> p \<le> q \<Longrightarrow> q \<le> e \<Longrightarrow> str_end hs q e"
  by (auto simp: str_end_def)

lemma str_end_byte: "str_end hs h e \<Longrightarrow> get_byte hs h = Some (hs ! h) \<and> (hs ! h = 0 \<longleftrightarrow> h = e)"
  by (cases "h = e") (auto simp: str_end_def get_byte_def)

lemma cstr_at_str_end: "cstr_at hs p xs \<Longrightarrow> str_end hs p (p + length xs)"
proof -
  assume a: "cstr_at hs p xs"
  have "hs ! x \<noteq> 0" if "p \<le> x" "x < p + length xs" for x
  proof -
    have "hs ! x = xs ! (x - p)"
      using a that by (auto simp: cstr_at_iff dest: arg_cong [where f = "\<lambda>l. l ! (x - p)"])
    then show ?thesis
      using a that by (auto simp: cstr_at_iff in_set_conv_nth)
  qed
  with a show ?thesis
    by (simp add: str_end_def cstr_at_iff)
qed

lemma first_at_later:
  "first_at P q r \<Longrightarrow> p \<le> q \<Longrightarrow> (\<And>y. p \<le> y \<Longrightarrow> y < q \<Longrightarrow> \<not> P y) \<Longrightarrow> first_at P p r"
  unfolding first_at_def by (cases r) (auto, (metis not_le_imp_less)+)

lemma memchr_str_end:
  "str_end hs z e \<Longrightarrow> memchr hs z 0 n = Some (if e < z + n then Some e else None)"
proof (induction n arbitrary: z)
  case (Suc n)
  then show ?case
    using Suc.IH [OF str_end_later [OF Suc.prems, of "z + 1"]]
    by (cases "z = e") (auto simp: get_byte_def str_end_def uint_0_iff)
qed (simp add: str_end_def)

lemma unat_or_ge: "x < 2 ^ 32 \<Longrightarrow> x \<le> unat ((word_of_nat x :: u32) OR 63)"
proof -
  assume "x < 2 ^ 32"
  moreover have "(w :: u32) \<le> w OR 63" for w
    by (rule le_word_or2)
  ultimately show ?thesis
    using word_le_nat_alt [of "word_of_nat x :: u32" "word_of_nat x OR 63"] by (simp add: unat_of_nat)
qed

lemma extend_end_spec:
  assumes "str_end hs z e" "h \<le> z" "l < 2 ^ 32"
  shows "if h + l \<le> e then \<exists>z'. extend_end hs h l z = Some (Some z') \<and> h + l \<le> z' \<and> z \<le> z' \<and> z' \<le> e
         else extend_end hs h l z = Some None"
proof -
  have "z \<le> e"
    using assms(1) by (simp add: str_end_def)
  then show ?thesis
    using assms(2) unat_or_ge [OF assms(3)] memchr_str_end [OF assms(1), of "unat ((word_of_nat l :: u32) OR 63)"]
    unfolding extend_end_def Let_def by (auto split: if_splits)
qed

text \<open>The three kinds of step: a mismatch of the last byte, of the right half, of the left half.\<close>

definition shift_table :: "cstring \<Rightarrow> (u8 \<rightharpoonup> nat) \<Rightarrow> bool" where
  "shift_table ns sh \<longleftrightarrow> (\<forall>c. case sh c of None \<Rightarrow> c \<notin> set ns
     | Some s \<Rightarrow> 0 < s \<and> s \<le> length ns \<and> ns ! (s - 1) = c \<and> (\<forall>j. s \<le> j \<and> j < length ns \<longrightarrow> ns ! j \<noteq> c))"

lemma occ_at_nth: "occ_at hs e ns y \<Longrightarrow> y \<le> x \<Longrightarrow> x - y < length ns \<Longrightarrow> hs ! x = ns ! (x - y)"
  by (auto simp: occ_at_def dest: spec [where x = "x - y"])

lemma shift_table_none: "shift_table ns sh \<Longrightarrow> sh c = None \<Longrightarrow> c \<notin> set ns"
  unfolding shift_table_def by (erule allE [where x = c]) simp

lemma shift_table_some:
  "shift_table ns sh \<Longrightarrow> sh c = Some s \<Longrightarrow> s \<le> length ns"
  "shift_table ns sh \<Longrightarrow> sh c = Some s \<Longrightarrow> 0 < s \<and> ns ! (s - 1) = c"
  "shift_table ns sh \<Longrightarrow> sh c = Some s \<Longrightarrow> s \<le> j \<Longrightarrow> j < length ns \<Longrightarrow> ns ! j \<noteq> c"
  unfolding shift_table_def by (erule allE [where x = c]; simp)+

lemma skip_last_none:
  assumes "shift_table ns sh" "sh (hs ! (h + length ns - 1)) = None" "h \<le> y" "y < h + length ns"
  shows "\<not> occ_at hs e ns y"
proof
  assume "occ_at hs e ns y"
  then have "hs ! (h + length ns - 1) \<in> set ns"
    using occ_at_nth [of hs e ns y "h + length ns - 1"] assms(3,4) by auto
  with shift_table_none [OF assms(1,2)] show False ..
qed

lemma skip_last_some:
  assumes "shift_table ns sh" "sh (hs ! (h + length ns - 1)) = Some s" "h \<le> y" "y < h + (length ns - s)"
  shows "\<not> occ_at hs e ns y"
proof
  assume "occ_at hs e ns y"
  then have "ns ! (h + length ns - 1 - y) = hs ! (h + length ns - 1)"
    using occ_at_nth [of hs e ns y "h + length ns - 1"] assms(3,4) by auto
  moreover have "s \<le> h + length ns - 1 - y" "h + length ns - 1 - y < length ns"
    using assms(3,4) by auto
  ultimately show False
    using shift_table_some(3) [OF assms(1,2)] by blast
qed

lemma skip_right:
  assumes "shift_right_ok ns m k" "m \<le> k" "k < length ns" "\<forall>i. m \<le> i \<and> i < k \<longrightarrow> ns ! i = hs ! (h + i)"
    "ns ! k \<noteq> hs ! (h + k)" "h \<le> y" "y < h + (k - m + 1)"
  shows "\<not> occ_at hs e ns y"
proof
  assume o: "occ_at hs e ns y"
  define s where "s = y - h"
  have y: "y = h + s" and s: "s \<le> k - m"
    using assms(6,7) by (auto simp: s_def)
  have at: "hs ! (h + i) = ns ! (i - s)" if "s \<le> i" "i \<le> k" for i
    using occ_at_nth [OF o, of "h + i"] that assms(3) y by simp
  show False
  proof (cases "s = 0")
    case True
    then show ?thesis
      using at [of k] assms(5) by simp
  next
    case False
    then have "s \<in> set [1..<Suc (k - m)]"
      using s by auto
    then obtain i where "m \<le> i" "i \<le> k" "s \<le> i" "if i < k then ns ! i \<noteq> ns ! (i - s) else ns ! k = ns ! (k - s)"
      using assms(1) unfolding shift_right_ok_def list_all_iff list_ex_iff by fastforce
    then show ?thesis
      using at [of i] assms(4,5) by (cases "i < k") auto
  qed
qed

lemma skip_left:
  assumes "shift_left_ok ns m p" "\<forall>i. m \<le> i \<and> i < length ns \<longrightarrow> ns ! i = hs ! (h + i)"
    "j < length ns" "ns ! j \<noteq> hs ! (h + j)" "h \<le> y" "y < h + p"
  shows "\<not> occ_at hs e ns y"
proof
  assume o: "occ_at hs e ns y"
  define s where "s = y - h"
  have y: "y = h + s" and s: "s < p"
    using assms(5,6) by (auto simp: s_def)
  have at: "hs ! (h + i) = ns ! (i - s)" if "s \<le> i" "i < length ns" for i
    using occ_at_nth [OF o, of "h + i"] that y by simp
  show False
  proof (cases "s = 0")
    case True
    then show ?thesis
      using at [of j] assms(3,4) by simp
  next
    case False
    then have "s \<in> set [1..<p]"
      using s by auto
    then obtain i where "m \<le> i" "i < length ns" "s \<le> i" "ns ! i \<noteq> ns ! (i - s)"
      using assms(1) unfolding shift_left_ok_def list_all_iff list_ex_iff by fastforce
    then show ?thesis
      using at [of i] assms(2) by auto
  qed
qed

text \<open>The comparisons of the two halves.\<close>

lemma right_match_spec:
  assumes "h + length ns \<le> length hs" "0 \<notin> set ns" "k \<le> length ns"
  shows "\<exists>k'. right_match (ns @ 0 # ys) hs h k = Some k' \<and> k \<le> k' \<and> k' \<le> length ns
    \<and> (\<forall>i. k \<le> i \<and> i < k' \<longrightarrow> ns ! i = hs ! (h + i)) \<and> (k' < length ns \<longrightarrow> ns ! k' \<noteq> hs ! (h + k'))"
  using assms(3)
proof (induction "length ns - k" arbitrary: k)
  case 0
  then show ?case
    by (subst right_match.simps) (auto simp: get_byte_def nth_append)
next
  case (Suc d)
  then have k: "k < length ns"
    by simp
  then have d: "d = length ns - (k + 1)" "k + 1 \<le> length ns"
    using Suc.hyps(2) by auto
  have nz: "ns ! k \<noteq> 0"
    using assms(2) nth_mem [OF k] by metis
  show ?case
  proof (cases "ns ! k = hs ! (h + k)")
    case True
    obtain k' where "right_match (ns @ 0 # ys) hs h (k + 1) = Some k'" "k + 1 \<le> k'" "k' \<le> length ns"
      "\<forall>i. k + 1 \<le> i \<and> i < k' \<longrightarrow> ns ! i = hs ! (h + i)" "k' < length ns \<longrightarrow> ns ! k' \<noteq> hs ! (h + k')"
      using Suc.hyps(1) [of "k + 1"] d by blast
    moreover have "\<forall>i. k \<le> i \<and> i < k' \<longrightarrow> ns ! i = hs ! (h + i)"
      using calculation(4) True by (metis Suc_eq_plus1 le_antisym not_less_eq_eq)
    moreover have "right_match (ns @ 0 # ys) hs h k = right_match (ns @ 0 # ys) hs h (k + 1)"
      by (subst right_match.simps) (use k nz True assms(1) in \<open>simp add: get_byte_def nth_append\<close>)
    ultimately show ?thesis
      by (intro exI [of _ k']) simp
  next
    case False
    then show ?thesis
      by (subst right_match.simps) (use k nz assms(1) in \<open>auto simp: get_byte_def nth_append\<close>)
  qed
qed

lemma left_match_spec:
  assumes "h + length ns \<le> length hs" "m \<le> length ns"
  shows "\<exists>k. left_match (ns @ ys) hs h 0 m = Some k \<and> k \<le> m \<and> (\<forall>i. k \<le> i \<and> i < m \<longrightarrow> ns ! i = hs ! (h + i))
    \<and> (0 < k \<longrightarrow> ns ! (k - 1) \<noteq> hs ! (h + k - 1))"
  using assms(2)
proof (induction m)
  case (Suc m)
  then obtain k where "left_match (ns @ ys) hs h 0 m = Some k" "k \<le> m" "\<forall>i. k \<le> i \<and> i < m \<longrightarrow> ns ! i = hs ! (h + i)"
      "0 < k \<longrightarrow> ns ! (k - 1) \<noteq> hs ! (h + k - 1)"
    by auto
  then show ?case
    using Suc.prems assms(1) by (auto simp: get_byte_def nth_append less_Suc_eq)
qed simp

lemma twoway_search_finds:
  assumes "0 \<notin> set ns" "length ns < 2 ^ 32" "shift_table ns sh" "split_ok ns ms p"
  shows "str_end hs z e \<Longrightarrow> h \<le> z \<Longrightarrow>
    \<exists>r. twoway_search hs (ns @ [0]) (length ns) ms p 0 sh h z 0 = Some r \<and> first_at (occ_at hs e ns) h r"
proof (induction "e - h" arbitrary: h z rule: less_induct)
  case less
  let ?l = "length ns" and ?n = "ns @ [0]" and ?m = "nat (ms + 1)"
  let ?go = "\<lambda>h z. twoway_search hs ?n ?l ms p 0 sh h z 0"
  have sp: "-1 \<le> ms" "?m < ?l" "0 < p" "p \<le> ?l" "shift_left_ok ns ?m p"
    using assms(4) by (auto simp: split_ok_def)
  have sr: "shift_right_ok ns ?m k" if "?m \<le> k" "k < ?l" for k
    using assms(4) that by (auto simp: split_ok_def list_all_iff)
  show ?case
  proof (cases "h + ?l \<le> e")
    case False
    then have "extend_end hs h ?l z = Some None"
      using extend_end_spec [OF less.prems assms(2)] by simp
    then have "?go h z = Some None"
      by (subst twoway_search.simps) simp
    with False show ?thesis
      by (auto simp: first_at_def occ_at_def)
  next
    case True
    then obtain z' where z': "extend_end hs h ?l z = Some (Some z')" "h + ?l \<le> z'" "z \<le> z'" "z' \<le> e"
      using extend_end_spec [OF less.prems assms(2)] by auto
    have e: "str_end hs z' e" "e < length hs"
      using less.prems(1) str_end_later z'(3,4) by (auto simp: str_end_def)
    have step: "\<exists>r. ?go q z' = Some r \<and> first_at (occ_at hs e ns) h r"
      if "h < q" "q \<le> h + ?l" "\<And>y. h \<le> y \<Longrightarrow> y < q \<Longrightarrow> \<not> occ_at hs e ns y" for q
    proof -
      have "\<exists>r. ?go q z' = Some r \<and> first_at (occ_at hs e ns) q r"
        using that(1,2) True z'(2) e(1) by (intro less.hyps) auto
      then show ?thesis
        using first_at_later [of "occ_at hs e ns" q _ h] that by fastforce
    qed
    let ?c = "hs ! (h + ?l - 1)"
    have gb: "get_byte hs (h + ?l - 1) = Some ?c"
      using True e(2) by (simp add: get_byte_def)
    show ?thesis
    proof (cases "sh ?c")
      case None
      then have "?go h z = ?go (h + ?l) z'"
        by (subst twoway_search.simps) (simp del: One_nat_def add: z'(1) gb None)
      then show ?thesis
        using step [of "h + ?l"] skip_last_none [OF assms(3) None] sp(2) by force
    next
      case (Some s)
      show ?thesis
      proof (cases "?l - s = 0")
        case False
        then have "?go h z = ?go (h + (?l - s)) z'"
          by (subst twoway_search.simps) (simp del: One_nat_def add: z'(1) gb Some)
        then show ?thesis
          using step [of "h + (?l - s)"] skip_last_some [OF assms(3) Some] False by force
      next
        case last: True
        obtain k where k: "right_match ?n hs h ?m = Some k" "?m \<le> k" "k \<le> ?l"
          "\<forall>i. ?m \<le> i \<and> i < k \<longrightarrow> ns ! i = hs ! (h + i)" "k < ?l \<longrightarrow> ns ! k \<noteq> hs ! (h + k)"
          using right_match_spec [of h ns hs ?m "[]"] True e(2) assms(1) sp(2) by auto
        have nb: "get_byte ?n k = Some (if k < ?l then ns ! k else 0)"
          using k(3) by (auto simp: get_byte_def nth_append)
        show ?thesis
        proof (cases "k < ?l")
          case short: True
          then have "ns ! k \<noteq> 0"
            using assms(1) nth_mem by metis
          then have "?go h z = ?go (nat (int h + int k - ms)) z'"
            by (subst twoway_search.simps) (use k(1,3) short last in \<open>simp del: One_nat_def add: z'(1) gb Some nb\<close>)
          moreover have "nat (int h + int k - ms) = h + (k - ?m + 1)"
            using sp(1) k(2) by auto
          ultimately show ?thesis
            using step [of "h + (k - ?m + 1)"] skip_right [OF sr [OF k(2) short] k(2) short k(4)] k(5) short by force
        next
          case False
          then have kl: "k = ?l"
            using k(3) by simp
          obtain j where j: "left_match ?n hs h 0 ?m = Some j" "j \<le> ?m" "\<forall>i. j \<le> i \<and> i < ?m \<longrightarrow> ns ! i = hs ! (h + i)"
            "0 < j \<longrightarrow> ns ! (j - 1) \<noteq> hs ! (h + j - 1)"
            using left_match_spec [of h ns hs ?m "[0]"] True e(2) sp(2) by auto
          have go: "?go h z = (if j = 0 then Some (Some h) else ?go (h + p) z')"
            by (subst twoway_search.simps) (use k(1) kl last j(1) in \<open>simp del: One_nat_def add: z'(1) gb Some nb\<close>)
          show ?thesis
          proof (cases "j = 0")
            case True
            have "\<forall>i < ?l. hs ! (h + i) = ns ! i"
              using j(3) k(4) kl True by (metis le_eq_less_or_eq not_le_imp_less zero_le)
            then show ?thesis
              using go True \<open>h + ?l \<le> e\<close> by (auto simp: first_at_def occ_at_def)
          next
            case False
            then have "ns ! (j - 1) \<noteq> hs ! (h + (j - 1))"
              using j(4) by simp
            then show ?thesis
              using go step [of "h + p"] skip_left [OF sp(5) _ _ \<open>ns ! (j - 1) \<noteq> _\<close>] False j(2) sp k(4) kl by force
          qed
        qed
      qed
    qed
  qed
qed

text \<open>The scan of the needle.\<close>

lemma shift_table_snoc:
  assumes "shift_table xs sh"
  shows "shift_table (xs @ [c]) (sh(c \<mapsto> length xs + 1))"
  unfolding shift_table_def
proof
  fix d
  show "case (sh(c \<mapsto> length xs + 1)) d of None \<Rightarrow> d \<notin> set (xs @ [c])
     | Some s \<Rightarrow> 0 < s \<and> s \<le> length (xs @ [c]) \<and> (xs @ [c]) ! (s - 1) = d
         \<and> (\<forall>j. s \<le> j \<and> j < length (xs @ [c]) \<longrightarrow> (xs @ [c]) ! j \<noteq> d)"
    using shift_table_none [OF assms, of d] shift_table_some [OF assms, of d]
    by (cases "d = c"; cases "sh d") (auto simp: nth_append less_Suc_eq)
qed

lemma needle_scan_spec:
  assumes "0 \<notin> set ns" "str_end hs h e"
  shows "i \<le> length ns \<Longrightarrow> h + i \<le> e \<Longrightarrow> shift_table (take i ns) sh \<Longrightarrow>
    (if h + length ns \<le> e then \<exists>sh'. needle_scan (ns @ [0]) hs h i sh = Some (length ns, sh', 0) \<and> shift_table ns sh'
     else \<exists>l sh' a. needle_scan (ns @ [0]) hs h i sh = Some (l, sh', a) \<and> a \<noteq> 0)"
proof (induction "length ns - i" arbitrary: i sh)
  case 0
  then show ?case
    by (subst needle_scan.simps) (simp add: get_byte_def nth_append)
next
  case (Suc d)
  then have i: "i < length ns" "d = length ns - (i + 1)"
    by auto
  have a: "get_byte (ns @ [0]) i = Some (ns ! i)" "ns ! i \<noteq> 0"
    using i(1) assms(1) nth_mem [OF i(1)] by (simp add: get_byte_def nth_append, metis)
  have b: "get_byte hs (h + i) = Some (hs ! (h + i))" "hs ! (h + i) = 0 \<longleftrightarrow> h + i = e"
    using str_end_byte [OF str_end_later [OF assms(2)], of "h + i"] Suc.prems(2) by auto
  show ?case
  proof (cases "h + i = e")
    case True
    then show ?thesis
      using a b i(1) by (subst needle_scan.simps) simp
  next
    case False
    then have "needle_scan (ns @ [0]) hs h i sh = needle_scan (ns @ [0]) hs h (i + 1) (sh(ns ! i \<mapsto> i + 1))"
      by (subst needle_scan.simps) (simp add: a b)
    moreover have "shift_table (take (i + 1) ns) (sh(ns ! i \<mapsto> i + 1))"
      using shift_table_snoc [OF Suc.prems(3), of "ns ! i"] i(1) by (simp add: take_Suc_conv_app_nth)
    ultimately show ?thesis
      using Suc.hyps(1) [of "i + 1" "sh(ns ! i \<mapsto> i + 1)"] i False Suc.prems(2) by (simp del: One_nat_def)
  qed
qed

lemma twoway_strstr_finds:
  assumes "0 \<notin> set ns" "length ns < 2 ^ 32" "factored ns" "str_end hs h e"
  shows "\<exists>r. twoway_strstr hs h (ns @ [0]) = Some r \<and> first_at (occ_at hs e ns) h r"
proof (cases "h + length ns \<le> e")
  case True
  obtain sh where scan: "needle_scan (ns @ [0]) hs h 0 Map.empty = Some (length ns, sh, 0)" "shift_table ns sh"
    using needle_scan_spec [OF assms(1,4), of 0 Map.empty] True by (auto simp: shift_table_def)
  obtain ms p where f: "factorize (ns @ [0]) (length ns) = Some (ms, p, 0)" "split_ok ns ms p"
    using assms(3) by (auto simp: factored_def split: option.splits)
  show ?thesis
    using twoway_search_finds [OF assms(1,2) scan(2) f(2) assms(4), of h] by (simp add: twoway_strstr_def scan(1) f(1))
next
  case False
  then obtain l sh a where "needle_scan (ns @ [0]) hs h 0 Map.empty = Some (l, sh, a)" "a \<noteq> 0"
    using needle_scan_spec [OF assms(1,4), of 0 Map.empty] assms(4) by (auto simp: shift_table_def str_end_def)
  with False show ?thesis
    by (auto simp: twoway_strstr_def first_at_def occ_at_def)
qed

section \<open>Short needles, and the whole search\<close>

text \<open>The word of the code is an encoding of the last bytes read.\<close>

lemma occ_at_take:
  "y + length ns \<le> e \<Longrightarrow> e < length hs \<Longrightarrow> occ_at hs e ns y \<longleftrightarrow> take (length ns) (drop y hs) = ns"
  by (auto simp: occ_at_def list_eq_iff_nth_eq)

lemma roll_finds:
  assumes step: "\<And>x xs d. length xs = v \<Longrightarrow> step (enc (x # xs)) d = enc (xs @ [d])"
    and inj: "\<And>xs ys. length xs = Suc v \<Longrightarrow> length ys = Suc v \<Longrightarrow> enc xs = enc ys \<longleftrightarrow> xs = ys"
    and ns: "length ns = Suc v"
  shows "str_end hs (q + v) e \<Longrightarrow> \<exists>c h. roll_loop step hs (q + v) (enc (take (Suc v) (drop q hs))) (enc ns) = Some (c, h)
    \<and> first_at (occ_at hs e ns) q (if c \<noteq> 0 then Some (h - v) else None)"
proof (induction "e - q" arbitrary: q rule: less_induct)
  case less
  let ?w = "\<lambda>q. take (Suc v) (drop q hs)" and ?h = "q + v"
  have e: "?h \<le> e" "e < length hs" "hs ! e = 0" "?h < e \<Longrightarrow> hs ! ?h \<noteq> 0"
    using less.prems by (auto simp: str_end_def)
  have c: "get_byte hs ?h = Some (hs ! ?h)"
    using e by (simp add: get_byte_def)
  show ?case
  proof (cases "?h = e")
    case True
    then have "roll_loop step hs ?h (enc (?w q)) (enc ns) = Some (0, ?h)"
      using c e(3) by (subst roll_loop.simps) simp
    with True show ?thesis
      by (auto simp: first_at_def occ_at_def ns)
  next
    case False
    with e have lt: "?h < e" and nz: "hs ! ?h \<noteq> 0"
      by auto
    have occ: "occ_at hs e ns q \<longleftrightarrow> enc (?w q) = enc ns"
      using occ_at_take [of q ns e hs] lt e(2) ns by (subst inj) auto
    show ?thesis
    proof (cases "enc (?w q) = enc ns")
      case True
      then have "roll_loop step hs ?h (enc (?w q)) (enc ns) = Some (hs ! ?h, ?h)"
        using c nz by (subst roll_loop.simps) simp
      with occ True nz show ?thesis
        by (auto simp: first_at_def)
    next
      case neq: False
      have d: "get_byte hs (?h + 1) = Some (hs ! (?h + 1))"
        using lt e(2) by (simp add: get_byte_def)
      have "?w q = hs ! q # take v (drop (q + 1) hs)"
        using lt e(2) by (simp add: Cons_nth_drop_Suc [symmetric])
      moreover have "?w (q + 1) = take v (drop (q + 1) hs) @ [hs ! (?h + 1)]"
        using lt e(2) by (simp add: take_Suc_conv_app_nth)
      ultimately have "step (enc (?w q)) (hs ! (?h + 1)) = enc (?w (q + 1))"
        using lt e(2) by (simp add: step)
      then have go: "roll_loop step hs ?h (enc (?w q)) (enc ns) = roll_loop step hs (q + 1 + v) (enc (?w (q + 1))) (enc ns)"
        by (subst roll_loop.simps) (use c d nz neq in \<open>simp add: add.commute\<close>)
      have later: "e - (q + 1) < e - q" "str_end hs (q + 1 + v) e"
        using lt str_end_later [OF less.prems, of "q + 1 + v"] by auto
      obtain c' h' where r: "roll_loop step hs (q + 1 + v) (enc (?w (q + 1))) (enc ns) = Some (c', h')"
          "first_at (occ_at hs e ns) (q + 1) (if c' \<noteq> 0 then Some (h' - v) else None)"
        using less.hyps [OF later] by blast
      have "first_at (occ_at hs e ns) q (if c' \<noteq> 0 then Some (h' - v) else None)"
        using first_at_later [OF r(2), of q] occ neq by (simp add: less_Suc_eq)
      with go r(1) show ?thesis
        by (intro exI [of _ c'] exI [of _ h']) simp
    qed
  qed
qed

definition enc2 :: "cstring \<Rightarrow> u16" where
  "enc2 xs = push_bit 8 (ucast (xs ! 0)) OR ucast (xs ! 1)"

definition enc3 :: "cstring \<Rightarrow> u32" where
  "enc3 xs = push_bit 24 (ucast (xs ! 0)) OR push_bit 16 (ucast (xs ! 1)) OR push_bit 8 (ucast (xs ! 2))"

definition enc4 :: "cstring \<Rightarrow> u32" where
  "enc4 xs = push_bit 24 (ucast (xs ! 0)) OR push_bit 16 (ucast (xs ! 1)) OR push_bit 8 (ucast (xs ! 2)) OR ucast (xs ! 3)"

lemma enc2_step: "push_bit 8 (enc2 [a, b]) OR ucast d = enc2 [b, d]"
  by (rule bit_word_eqI) (auto simp: enc2_def bit_simps dest: bit_imp_le_length)

lemma enc3_step: "push_bit 8 (enc3 [a, b, c] OR ucast d) = enc3 [b, c, d]"
  by (rule bit_word_eqI) (auto simp: enc3_def bit_simps dest: bit_imp_le_length)

lemma enc4_step: "push_bit 8 (enc4 [a, b, c, d]) OR ucast e = enc4 [b, c, d, e]"
  by (rule bit_word_eqI) (auto simp: enc4_def bit_simps dest: bit_imp_le_length)

lemma enc2_bytes: "ucast (drop_bit 8 (enc2 [a, b])) = a" "ucast (enc2 [a, b]) = b"
  by (rule bit_word_eqI, auto simp: enc2_def bit_simps dest: bit_imp_le_length)+

lemma enc3_bytes: "ucast (drop_bit 24 (enc3 [a, b, c])) = a" "ucast (drop_bit 16 (enc3 [a, b, c])) = b"
  "ucast (drop_bit 8 (enc3 [a, b, c])) = c"
  by (rule bit_word_eqI, auto simp: enc3_def bit_simps dest: bit_imp_le_length)+

lemma enc4_bytes: "ucast (drop_bit 24 (enc4 [a, b, c, d])) = a" "ucast (drop_bit 16 (enc4 [a, b, c, d])) = b"
  "ucast (drop_bit 8 (enc4 [a, b, c, d])) = c" "ucast (enc4 [a, b, c, d]) = d"
  by (rule bit_word_eqI, auto simp: enc4_def bit_simps dest: bit_imp_le_length)+

lemma enc2_roll: "length xs = 1 \<Longrightarrow> push_bit 8 (enc2 (x # xs)) OR ucast d = enc2 (xs @ [d])"
  using enc2_step by (auto simp only: length_Suc_conv One_nat_def length_0_conv append.simps)

lemma enc3_roll:
  assumes "length xs = 2"
  shows "push_bit 8 (enc3 (x # xs) OR ucast d) = enc3 (xs @ [d])"
proof -
  obtain a b where "xs = [a, b]"
    using assms by (auto simp: numeral_2_eq_2 length_Suc_conv)
  then show ?thesis
    by (simp only: append.simps enc3_step)
qed

lemma enc4_roll:
  assumes "length xs = 3"
  shows "push_bit 8 (enc4 (x # xs)) OR ucast d = enc4 (xs @ [d])"
proof -
  obtain a b c where "xs = [a, b, c]"
    using assms by (auto simp: numeral_3_eq_3 length_Suc_conv)
  then show ?thesis
    by (simp only: append.simps enc4_step)
qed

lemma enc2_inj: "length xs = Suc 1 \<Longrightarrow> length ys = Suc 1 \<Longrightarrow> enc2 xs = enc2 ys \<longleftrightarrow> xs = ys"
  by (auto simp: length_Suc_conv) (metis enc2_bytes)+

lemma enc3_inj: "length xs = Suc 2 \<Longrightarrow> length ys = Suc 2 \<Longrightarrow> enc3 xs = enc3 ys \<longleftrightarrow> xs = ys"
  by (auto simp: numeral_2_eq_2 length_Suc_conv) (metis enc3_bytes)+

lemma enc4_inj: "length xs = Suc 3 \<Longrightarrow> length ys = Suc 3 \<Longrightarrow> enc4 xs = enc4 ys \<longleftrightarrow> xs = ys"
  by (auto simp: numeral_3_eq_3 length_Suc_conv) (metis enc4_bytes)+

lemma window_byte:
  assumes "str_end hs (h + v) e" "i \<le> v"
  shows "get_byte hs (h + i) = Some (take (Suc v) (drop h hs) ! i)"
  using assms by (simp add: get_byte_def str_end_def)

lemma needle_bytes:
  "i < length ns \<Longrightarrow> get_byte (ns @ [0]) i = Some (ns ! i)"
  "i = length ns \<Longrightarrow> get_byte (ns @ [0]) i = Some 0"
  by (simp_all add: get_byte_def nth_append)

lemma twobyte_finds:
  assumes "length ns = 2" "str_end hs (h + 1) e"
  shows "\<exists>r. twobyte_strstr hs h (ns @ [0]) = Some r \<and> first_at (occ_at hs e ns) h r"
proof -
  let ?w = "take (Suc 1) (drop h hs)"
  obtain c h' where r: "roll_loop (\<lambda>hw d. push_bit 8 hw OR ucast d) hs (h + 1) (enc2 ?w) (enc2 ns) = Some (c, h')"
      "first_at (occ_at hs e ns) h (if c \<noteq> 0 then Some (h' - 1) else None)"
    using roll_finds [of 1 "\<lambda>hw d. push_bit 8 hw OR ucast d", OF enc2_roll enc2_inj _ assms(2), of ns] assms(1) by auto
  have "twobyte_strstr hs h (ns @ [0]) = Some (if c \<noteq> 0 then Some (h' - 1) else None)"
    using r(1) window_byte [OF assms(2), of 0] window_byte [OF assms(2), of 1] assms(1)
    unfolding twobyte_strstr_def Let_def enc2_def by (simp add: needle_bytes nth_append)
  with r(2) show ?thesis
    by blast
qed

lemma threebyte_finds:
  assumes "length ns = 3" "str_end hs (h + 2) e"
  shows "\<exists>r. threebyte_strstr hs h (ns @ [0]) = Some r \<and> first_at (occ_at hs e ns) h r"
proof -
  let ?w = "take (Suc 2) (drop h hs)"
  obtain c h' where r: "roll_loop (\<lambda>hw d. push_bit 8 (hw OR ucast d)) hs (h + 2) (enc3 ?w) (enc3 ns) = Some (c, h')"
      "first_at (occ_at hs e ns) h (if c \<noteq> 0 then Some (h' - 2) else None)"
    using roll_finds [of 2 "\<lambda>hw d. push_bit 8 (hw OR ucast d)", OF enc3_roll enc3_inj _ assms(2), of ns] assms(1) by auto
  have "threebyte_strstr hs h (ns @ [0]) = Some (if c \<noteq> 0 then Some (h' - 2) else None)"
    using r(1) window_byte [OF assms(2), of 0] window_byte [OF assms(2), of 1] window_byte [OF assms(2), of 2] assms(1)
    unfolding threebyte_strstr_def Let_def enc3_def by (simp add: needle_bytes nth_append)
  with r(2) show ?thesis
    by blast
qed

lemma fourbyte_finds:
  assumes "length ns = 4" "str_end hs (h + 3) e"
  shows "\<exists>r. fourbyte_strstr hs h (ns @ [0]) = Some r \<and> first_at (occ_at hs e ns) h r"
proof -
  let ?w = "take (Suc 3) (drop h hs)"
  obtain c h' where r: "roll_loop (\<lambda>hw d. push_bit 8 hw OR ucast d) hs (h + 3) (enc4 ?w) (enc4 ns) = Some (c, h')"
      "first_at (occ_at hs e ns) h (if c \<noteq> 0 then Some (h' - 3) else None)"
    using roll_finds [of 3 "\<lambda>hw d. push_bit 8 hw OR ucast d", OF enc4_roll enc4_inj _ assms(2), of ns] assms(1) by auto
  have "fourbyte_strstr hs h (ns @ [0]) = Some (if c \<noteq> 0 then Some (h' - 3) else None)"
    using r(1) window_byte [OF assms(2), of 0] window_byte [OF assms(2), of 1] window_byte [OF assms(2), of 2]
      window_byte [OF assms(2), of 3] assms(1)
    unfolding fourbyte_strstr_def Let_def enc4_def by (simp add: needle_bytes nth_append)
  with r(2) show ?thesis
    by blast
qed

text \<open>The first byte, and the end of the haystack within the length of the needle.\<close>

lemma strchr_first:
  "c \<noteq> 0 \<Longrightarrow> str_end hs h e \<Longrightarrow>
    \<exists>r. strchr hs h (uint c) = Some r \<and> first_at (\<lambda>y. y < e \<and> hs ! y = c) h r"
proof (induction "e - h" arbitrary: h rule: less_induct)
  case less
  note b = str_end_byte [OF less.prems(2)]
  show ?case
  proof (cases "h = e \<or> hs ! h = c")
    case True
    then show ?thesis
      using b less.prems by (subst strchr.simps) (auto simp: first_at_def str_end_def)
  next
    case False
    then have m: "e - (h + 1) < e - h" "str_end hs (h + 1) e"
      using less.prems(2) by (auto simp: str_end_def)
    obtain r where r: "strchr hs (h + 1) (uint c) = Some r" "first_at (\<lambda>y. y < e \<and> hs ! y = c) (h + 1) r"
      using less.hyps [OF m(1) less.prems(1) m(2)] by blast
    have "strchr hs h (uint c) = strchr hs (h + 1) (uint c)"
      by (subst strchr.simps) (use b False in \<open>simp add: word_uint_eq_iff\<close>)
    then show ?thesis
      using r first_at_later [OF r(2), of h] False by (simp add: less_Suc_eq)
  qed
qed

lemma too_short: "e < h + length ns \<Longrightarrow> first_at (occ_at hs e ns) h None"
  by (auto simp: first_at_def occ_at_def)

definition strstr_ready :: "cstring \<Rightarrow> bool" where
  "strstr_ready ns \<longleftrightarrow> 0 \<notin> set ns \<and> int (length ns) < 2 ^ 32 \<and> (4 < length ns \<longrightarrow> factored ns)"

lemma strstr_first_at:
  assumes "strstr_ready ns" "str_end hs p e"
  shows "\<exists>r. strstr hs p (ns @ [0]) = Some r \<and> first_at (occ_at hs e ns) p r"
proof (cases ns)
  case Nil
  then show ?thesis
    using assms(2) by (auto simp: strstr_def get_byte_def first_at_def occ_at_def str_end_def)
next
  case (Cons c cs)
  have nz: "i < length ns \<Longrightarrow> ns ! i \<noteq> 0" for i
    using assms(1) nth_mem [of i ns] unfolding strstr_ready_def by metis
  note n = needle_bytes [of _ ns]
  have c: "ns ! 0 = c" "c \<noteq> 0" "ns \<noteq> []"
    using nz [of 0] Cons by auto
  obtain r where r: "strchr hs p (uint c) = Some r" "first_at (\<lambda>y. y < e \<and> hs ! y = c) p r"
    using strchr_first [OF c(2) assms(2)] by blast
  have occ: "occ_at hs e ns y \<Longrightarrow> y < e \<and> hs ! y = c" for y
    using occ_at_nth [of hs e ns y y] Cons by (auto simp: occ_at_def)
  show ?thesis
  proof (cases r)
    case None
    then show ?thesis
      using r occ n(1) [of 0] c by (auto simp: strstr_def first_at_def)
  next
    case (Some h)
    then have h: "p \<le> h" "h < e" "hs ! h = c" "\<And>y. p \<le> y \<Longrightarrow> y < h \<Longrightarrow> \<not> occ_at hs e ns y"
      using r(2) occ by (auto simp: first_at_def)
    have b: "str_end hs (h + i) e" "get_byte hs (h + i) = Some (hs ! (h + i))" "hs ! (h + i) = 0 \<longleftrightarrow> h + i = e"
      if "h + i \<le> e" for i
      using str_end_later [OF assms(2), of "h + i"] str_end_byte [of hs "h + i" e] h(1) that by auto
    have "\<exists>r. strstr hs p (ns @ [0]) = Some r \<and> first_at (occ_at hs e ns) h r"
    proof (cases "length ns = 1")
      case True
      then have "first_at (occ_at hs e ns) h (Some h)"
        using h c by (auto simp: first_at_def occ_at_def)
      then show ?thesis
        using r(1) Some True n(1) [of 0] n(2) [of 1] c by (simp add: strstr_def)
    next
      case l1: False
      have ni: "get_byte (ns @ [0]) i = Some (ns ! i)" "ns ! i \<noteq> 0" if "i < length ns" for i
        using n(1) nz that by auto
      have l2: "2 \<le> length ns"
        using l1 c(3) by (cases "length ns") auto
      note pre = ni(1) [of 0] ni(1) [of 1, simplified] ni(2) [of 0] ni(2) [of 1, simplified] c r(1) Some h(3)
      consider "h + 1 = e" | "h + 1 < e" "length ns = 2" | "h + 2 = e" "2 < length ns" | "h + 2 < e" "length ns = 3"
        | "h + 3 = e" "3 < length ns" | "h + 3 < e" "length ns = 4" | "h + 3 < e" "4 < length ns"
        using h(2) l2 by linarith
      then show ?thesis
      proof cases
        case 1
        then have "strstr hs p (ns @ [0]) = Some None"
          using pre l2 b [of 1] by (simp add: strstr_def nth_append)
        with 1 l2 show ?thesis
          using too_short [of e h ns hs] by simp
      next
        case 2
        then have "strstr hs p (ns @ [0]) = twobyte_strstr hs h (ns @ [0])"
          using pre b [of 1] n(2) [of 2] by (simp add: strstr_def nth_append)
        with 2 show ?thesis
          using twobyte_finds [OF _ b(1) [of 1]] by simp
      next
        case 3
        then have "strstr hs p (ns @ [0]) = Some None"
          using pre b [of 1] b [of 2] ni [of 2] by (simp add: strstr_def nth_append)
        with 3 show ?thesis
          using too_short [of e h ns hs] by simp
      next
        case 4
        then have "strstr hs p (ns @ [0]) = threebyte_strstr hs h (ns @ [0])"
          using pre b [of 1] b [of 2] ni [of 2] n(2) [of 3] by (simp add: strstr_def nth_append)
        with 4 show ?thesis
          using threebyte_finds [OF _ b(1) [of 2]] by simp
      next
        case 5
        then have "strstr hs p (ns @ [0]) = Some None"
          using pre b [of 1] b [of 2] b [of 3] ni [of 2] ni [of 3] by (simp add: strstr_def nth_append)
        with 5 show ?thesis
          using too_short [of e h ns hs] by simp
      next
        case 6
        then have "strstr hs p (ns @ [0]) = fourbyte_strstr hs h (ns @ [0])"
          using pre b [of 1] b [of 2] b [of 3] ni [of 2] ni [of 3] n(2) [of 4] by (simp add: strstr_def nth_append)
        with 6 show ?thesis
          using fourbyte_finds [OF _ b(1) [of 3]] by simp
      next
        case 7
        then have "strstr hs p (ns @ [0]) = twoway_strstr hs h (ns @ [0])"
          using pre b [of 1] b [of 2] b [of 3] ni [of 2] ni [of 3] ni [of 4] by (simp add: strstr_def nth_append)
        moreover have "0 \<notin> set ns" "length ns < 2 ^ 32" "factored ns"
          using assms(1) 7 by (auto simp: strstr_ready_def)
        ultimately show ?thesis
          using twoway_strstr_finds [of ns hs h e] b(1) [of 0] h(2) by simp
      qed
    qed
    then show ?thesis
      using first_at_later [where P = "occ_at hs e ns" and p = p and q = h] h(1,4) by blast
  qed
qed

lemma occ_at_occurs:
  assumes "cstr_at hs p xs"
  shows "occ_at hs (p + length xs) ns (p + i) \<longleftrightarrow> i \<le> length xs \<and> occurs ns xs i"
proof -
  have at: "hs ! (p + i) = xs ! i" if "i < length xs" for i
    using assms that by (auto simp: cstr_at_iff dest: arg_cong [where f = "\<lambda>l. l ! i"])
  show ?thesis
    unfolding occ_at_def occurs_def by (auto simp: list_eq_iff_nth_eq at add.assoc)
qed

lemma first_at_first_occ:
  assumes "cstr_at hs p xs" "first_at (occ_at hs (p + length xs) ns) p r"
  shows "r = map_option ((+) p) (first_occ ns xs)"
proof (cases r)
  case None
  then have "\<not> occurs ns xs i" if "i \<le> length xs" for i
    using assms(2) occ_at_occurs [OF assms(1), of ns i] that by (auto simp: first_at_def)
  then show ?thesis
    using None by (auto simp: first_occ_def find_None_iff)
next
  case (Some x)
  then obtain i where i: "x = p + i" "i \<le> length xs" "occurs ns xs i"
    using assms(2) occ_at_occurs [OF assms(1), of ns "x - p"] that [of "x - p"] by (auto simp: first_at_def)
  moreover have "\<not> occurs ns xs j" if "j < i" for j
    using assms(2) occ_at_occurs [OF assms(1), of ns j] that i Some by (auto simp: first_at_def)
  ultimately have "first_occ ns xs = Some i"
    unfolding first_occ_def find_Some_iff by (intro exI [of _ i]) (auto simp del: upt_Suc)
  with i Some show ?thesis
    by simp
qed

lemma strstr_first_occ:
  assumes "strstr_ready ns" "cstr_at hs p xs"
  shows "strstr hs p (ns @ [0]) = Some (map_option ((+) p) (first_occ ns xs))"
  using strstr_first_at [OF assms(1) cstr_at_str_end [OF assms(2)]] first_at_first_occ [OF assms(2)] by blast

text \<open>The substrings for which rpifdt.c looks.\<close>

lemma device_needles_ready:
  "list_all (\<lambda>s. strstr_ready (lit s)) [''pl011'', ''bcm2835-gpio'', ''bcm2835-system-timer'', ''bcm2835-mmc'', ''bcm2835-mbox'']"
  by code_simp

text \<open>C39: \<open>strstr\<close> ends, stays inside both strings, and returns a pointer to the first place of the
  haystack at which the needle occurs, or none when there is no such place: for every needle of
  up to four bytes, and for every longer one whose split and shift pass the check
  \<open>factored\<close>, which can be computed for a given needle.\<close>

theorem strstr_finds_first:
  assumes "strstr_ready ns" "cstr_at hs p xs"
  shows "strstr hs p (ns @ [0]) = Some (map_option ((+) p) (first_occ ns xs))"
  by (rule strstr_first_occ [OF assms])

theorem strstr_finds_first_witness:
  "strstr (lit ''arm,pl011 bcm2835-gpio'' @ [0]) 0 (lit ''bcm2835-gpio'' @ [0]) = Some (Some 10)"
proof -
  have "strstr_ready (lit ''bcm2835-gpio'')"
    unfolding strstr_ready_def by code_simp
  moreover have "cstr_at (lit ''arm,pl011 bcm2835-gpio'' @ [0]) 0 (lit ''arm,pl011 bcm2835-gpio'')"
    by code_simp
  moreover have "first_occ (lit ''bcm2835-gpio'') (lit ''arm,pl011 bcm2835-gpio'') = Some 10"
    by code_simp
  ultimately show ?thesis
    by (simp add: strstr_finds_first)
qed

end
