(* ===== verification/Timer.thy ===== *)
theory Timer
  imports CPrelude
begin

text \<open>
  The waits of timer.c.  The free-running counter of the hardware is a parameter:
  \<open>clk i\<close> is the value of the i-th reading.  A wait reads the counter until the
  comparison succeeds, which it may never do.
\<close>

section \<open>Model\<close>

record timer_wait =
  trigger_value :: u32
  rollover :: int

text \<open>\<open>register_timer\<close> returns the error of a negative time, and the number of
  readings it took.\<close>

definition register_timer :: "(nat \<Rightarrow> u32) \<Rightarrow> nat \<Rightarrow> int \<Rightarrow> timer_wait \<times> errno option \<times> nat" where
  "register_timer clk i usec =
     (if usec < 0 then (\<lparr>trigger_value = 0, rollover = 0\<rparr>, Some EINVAL, i)
      else
        let cur_timer = clk i;
            trig = cur_timer + word_of_int usec;
            trig = (if cur_timer = 0 then 0 else trig)
        in (\<lparr>trigger_value = trig, rollover = (if trig > cur_timer then 0 else 1)\<rparr>, None, i + 1))"

text \<open>\<open>compare_timer\<close> takes its structure by value: the update of \<open>rollover\<close> in it is
  lost.\<close>

definition compare_timer :: "u32 \<Rightarrow> timer_wait \<Rightarrow> int" where
  "compare_timer cur_timer tw =
     (if trigger_value tw = 0 then 1
      else if cur_timer < trigger_value tw then
        let tw = (if rollover tw \<noteq> 0 then tw\<lparr>rollover := 0\<rparr> else tw) in 0
      else if rollover tw = 0 then 1
      else 0)"

text \<open>The loops: the result is the number of the first reading that was not needed.\<close>

partial_function (option) timer_loop :: "(nat \<Rightarrow> u32) \<Rightarrow> timer_wait \<Rightarrow> nat \<Rightarrow> nat option" where
  "timer_loop clk tw i = (if compare_timer (clk i) tw = 0 then timer_loop clk tw (i + 1) else Some (i + 1))"

definition usleep :: "(nat \<Rightarrow> u32) \<Rightarrow> nat \<Rightarrow> int \<Rightarrow> nat option" where
  "usleep clk i usec = (case register_timer clk i usec of (tw, _, i) \<Rightarrow> timer_loop clk tw i)"

text \<open>The macro \<open>TIMEOUT_WAIT\<close>; \<open>stop k\<close> is its condition in the k-th round.\<close>

partial_function (option) timeout_loop :: "(nat \<Rightarrow> bool) \<Rightarrow> (nat \<Rightarrow> u32) \<Rightarrow> timer_wait \<Rightarrow> nat \<Rightarrow> nat \<Rightarrow> nat option" where
  "timeout_loop stop clk tw k i =
     (if stop k then Some i
      else if compare_timer (clk i) tw = 0 then timeout_loop stop clk tw (k + 1) (i + 1)
      else Some (i + 1))"

definition TIMEOUT_WAIT :: "(nat \<Rightarrow> bool) \<Rightarrow> (nat \<Rightarrow> u32) \<Rightarrow> nat \<Rightarrow> int \<Rightarrow> nat option" where
  "TIMEOUT_WAIT stop clk i usec = (case register_timer clk i usec of (tw, _, i) \<Rightarrow> timeout_loop stop clk tw 0 i)"

section \<open>When a wait ends\<close>

lemma compare_timer_iff:
  "compare_timer c tw \<noteq> 0 \<longleftrightarrow> trigger_value tw = 0 \<or> trigger_value tw \<le> c \<and> rollover tw = 0"
  by (auto simp: compare_timer_def)

lemma timer_loop_ends:
  assumes "compare_timer (clk j) tw \<noteq> 0" "i \<le> j"
  shows "\<exists>n. timer_loop clk tw i = Some n"
  using assms(2)
proof (induction "j - i" arbitrary: i)
  case 0
  then show ?case
    using assms(1) by (subst timer_loop.simps) simp
next
  case (Suc m)
  then have "\<exists>n. timer_loop clk tw (i + 1) = Some n"
    by (intro Suc(1)) auto
  then show ?case
    by (subst timer_loop.simps) simp
qed

lemma timer_loop_result:
  assumes "timer_loop clk tw i = Some n"
  shows "i < n \<and> compare_timer (clk (n - 1)) tw \<noteq> 0"
  using assms by (rule timer_loop.raw_induct [rotated]) (fastforce split: if_splits)

section \<open>Properties\<close>

text \<open>C35: A wait returns when its trigger does not pass the end of the counter and the
  counter is read at or above it; but a wait whose trigger wraps to a value that is
  not zero never returns, whatever the counter does, and neither does a wait of zero
  microseconds (unless the counter reads zero).\<close>

theorem usleep_returns_iff:
  "(\<exists>n. usleep clk i usec = Some n) \<longleftrightarrow>
     usec < 0 \<or> clk i = 0 \<or> clk i + word_of_int usec = 0
     \<or> clk i < clk i + word_of_int usec \<and> (\<exists>j > i. clk i + word_of_int usec \<le> clk j)"
proof -
  obtain tw e k where reg: "register_timer clk i usec = (tw, e, k)"
    by (metis prod_cases3)
  have "(\<exists>n. timer_loop clk tw k = Some n) \<longleftrightarrow> (\<exists>j \<ge> k. compare_timer (clk j) tw \<noteq> 0)"
    using timer_loop_ends [of clk _ tw k] timer_loop_result [of clk tw k]
    by (metis Suc_diff_1 Suc_leI gr_implies_not_zero less_Suc_eq_le not_less_zero zero_less_iff_neq_zero)
  then show ?thesis
    using reg
    by (auto simp: usleep_def register_timer_def compare_timer_iff Let_def Suc_le_eq split: if_splits)
qed

end
