(* ===== verification/Mmio.thy ===== *)
theory Mmio
  imports Timer ByteUtil
begin

text \<open>
  The hardware as the drivers see it: mmio.c, mbox.c, uart.c and the waits of timer.c
  on the registers.  What the hardware does is a parameter: a read of an address
  gives a value and changes the state of the hardware, a write changes it.  Buffers
  shared with the firmware (the mailbox messages, which are volatile) are accessed in the
  same way.  The base addresses are the static variables that the device tree sets.
\<close>

section \<open>Registers\<close>

record 'h hw =
  bus_read :: "u32 \<Rightarrow> 'h \<Rightarrow> u32 \<times> 'h"
  bus_write :: "u32 \<Rightarrow> u32 \<Rightarrow> 'h \<Rightarrow> 'h"
  base_adjust :: u32
  timer_base :: u32
  mbox_base :: u32
  uart_base :: u32
  gpio_base :: u32
  emmc_base :: u32

definition mmio_write :: "'h hw \<Rightarrow> u32 \<Rightarrow> u32 \<Rightarrow> 'h \<Rightarrow> 'h" where
  "mmio_write hw reg data h = bus_write hw (reg + base_adjust hw) data h"

definition mmio_read :: "'h hw \<Rightarrow> u32 \<Rightarrow> 'h \<Rightarrow> u32 \<times> 'h" where
  "mmio_read hw reg h = bus_read hw (reg + base_adjust hw) h"

definition timer_set_base :: "u32 \<Rightarrow> 'h hw \<Rightarrow> 'h hw" where "timer_set_base base hw = hw\<lparr>timer_base := base\<rparr>"
definition mbox_set_base :: "u32 \<Rightarrow> 'h hw \<Rightarrow> 'h hw" where "mbox_set_base base hw = hw\<lparr>mbox_base := base\<rparr>"
definition uart_set_base :: "u32 \<Rightarrow> 'h hw \<Rightarrow> 'h hw" where "uart_set_base base hw = hw\<lparr>uart_base := base\<rparr>"
definition gpio_set_base :: "u32 \<Rightarrow> 'h hw \<Rightarrow> 'h hw" where "gpio_set_base base hw = hw\<lparr>gpio_base := base\<rparr>"
definition emmc_set_base :: "u32 \<Rightarrow> 'h hw \<Rightarrow> 'h hw" where "emmc_set_base base hw = hw\<lparr>emmc_base := base\<rparr>"

section \<open>Waiting\<close>

text \<open>The functions of timer.c with the counter read from its register.\<close>

definition TIMER_CLO :: u32 where "TIMER_CLO = 4"

definition read_clock :: "'h hw \<Rightarrow> 'h \<Rightarrow> u32 \<times> 'h" where
  "read_clock hw h = mmio_read hw (timer_base hw + TIMER_CLO) h"

definition hw_register_timer :: "'h hw \<Rightarrow> int \<Rightarrow> 'h \<Rightarrow> timer_wait \<times> 'h" where
  "hw_register_timer hw usec h =
     (if usec < 0 then (fst (register_timer (\<lambda>_. 0) 0 usec), h)
      else let (c, h) = read_clock hw h in (fst (register_timer (\<lambda>_. c) 0 usec), h))"

partial_function (option) hw_timer_loop :: "'h hw \<Rightarrow> timer_wait \<Rightarrow> 'h \<Rightarrow> 'h option" where
  "hw_timer_loop hw tw h =
     (let (c, h) = read_clock hw h in if compare_timer c tw = 0 then hw_timer_loop hw tw h else Some h)"

definition hw_usleep :: "'h hw \<Rightarrow> int \<Rightarrow> 'h \<Rightarrow> 'h option" where
  "hw_usleep hw usec h = (let (tw, h) = hw_register_timer hw usec h in hw_timer_loop hw tw h)"

text \<open>\<open>TIMEOUT_WAIT\<close> until a register has one of the bits of a mask (or none of them).\<close>

partial_function (option) hw_timeout_loop :: "'h hw \<Rightarrow> u32 \<Rightarrow> (u32 \<Rightarrow> bool) \<Rightarrow> timer_wait \<Rightarrow> 'h \<Rightarrow> 'h option" where
  "hw_timeout_loop hw reg stop tw h =
     (let (x, h) = mmio_read hw reg h in
      if stop x then Some h
      else let (c, h) = read_clock hw h in
           if compare_timer c tw = 0 then hw_timeout_loop hw reg stop tw h else Some h)"

definition hw_timeout_wait :: "'h hw \<Rightarrow> u32 \<Rightarrow> (u32 \<Rightarrow> bool) \<Rightarrow> int \<Rightarrow> 'h \<Rightarrow> 'h option" where
  "hw_timeout_wait hw reg stop usec h =
     (let (tw, h) = hw_register_timer hw usec h in hw_timeout_loop hw reg stop tw h)"

text \<open>The loops that poll a register, with or without a pause.\<close>

partial_function (option) poll_clear :: "'h hw \<Rightarrow> u32 \<Rightarrow> u32 \<Rightarrow> int option \<Rightarrow> 'h \<Rightarrow> 'h option" where
  "poll_clear hw reg bits pause h =
     (let (x, h) = mmio_read hw reg h in
      if x AND bits \<noteq> 0 then do {
        h \<leftarrow> (case pause of None \<Rightarrow> Some h | Some t \<Rightarrow> hw_usleep hw t h);
        poll_clear hw reg bits pause h }
      else Some h)"

section \<open>The mailbox\<close>

definition MBOX_FULL :: u32 where "MBOX_FULL = 0x80000000"
definition MBOX_EMPTY :: u32 where "MBOX_EMPTY = 0x40000000"
definition MBOX_READ :: u32 where "MBOX_READ = 0"
definition MBOX_WRITE :: u32 where "MBOX_WRITE = 0x20"
definition MBOX_STATUS :: u32 where "MBOX_STATUS = 0x18"
definition MBOX_PROP :: u8 where "MBOX_PROP = 8"
definition MBOX_SUCCESS :: u32 where "MBOX_SUCCESS = 0x80000000"

partial_function (option) mbox_read :: "'h hw \<Rightarrow> u8 \<Rightarrow> 'h \<Rightarrow> (u32 \<times> 'h) option" where
  "mbox_read hw channel h = do {
     h \<leftarrow> poll_clear hw (mbox_base hw + MBOX_STATUS) MBOX_EMPTY None h;
     let (data, h) = mmio_read hw (mbox_base hw + MBOX_READ) h;
     let read_channel = (ucast (data AND 0xf) :: u8);
     if read_channel = channel then Some (data AND 0xfffffff0, h) else mbox_read hw channel h }"

definition mbox_write :: "'h hw \<Rightarrow> u8 \<Rightarrow> u32 \<Rightarrow> 'h \<Rightarrow> 'h option" where
  "mbox_write hw channel data h = do {
     h \<leftarrow> poll_clear hw (mbox_base hw + MBOX_STATUS) MBOX_FULL None h;
     Some (mmio_write hw (mbox_base hw + MBOX_WRITE) ((data AND 0xfffffff0) OR ucast (channel AND 0xf)) h) }"

text \<open>A message in the shared buffer: its words are stored, the firmware is asked, and the
  answer is read back word by word by the callers.\<close>

primrec mail_words :: "'h hw \<Rightarrow> u32 \<Rightarrow> u32 list \<Rightarrow> 'h \<Rightarrow> 'h" where
  "mail_words hw addr [] h = h"
| "mail_words hw addr (w # ws) h = mail_words hw (addr + 4) ws (bus_write hw addr w h)"

definition mail_word :: "'h hw \<Rightarrow> u32 \<Rightarrow> nat \<Rightarrow> 'h \<Rightarrow> u32 \<times> 'h" where
  "mail_word hw addr i h = bus_read hw (addr + 4 * word_of_nat i) h"

definition mail_call :: "'h hw \<Rightarrow> u32 \<Rightarrow> u32 list \<Rightarrow> 'h \<Rightarrow> 'h option" where
  "mail_call hw addr ws h = do {
     h \<leftarrow> mbox_write hw MBOX_PROP addr (mail_words hw addr ws h);
     (_, h) \<leftarrow> mbox_read hw MBOX_PROP h;
     Some h }"

section \<open>The serial port\<close>

definition GPPUD :: u32 where "GPPUD = 0x94"
definition GPPUDCLK0 :: u32 where "GPPUDCLK0 = 0x98"
definition UART0_DR :: u32 where "UART0_DR = 0"
definition UART0_FR :: u32 where "UART0_FR = 0x18"
definition UART0_CR :: u32 where "UART0_CR = 0x30"
definition UART0_IMSC :: u32 where "UART0_IMSC = 0x38"
definition UART0_ICR :: u32 where "UART0_ICR = 0x44"

definition uart_init :: "'h hw \<Rightarrow> 'h \<Rightarrow> 'h option" where
  "uart_init hw h = do {
     let h = mmio_write hw (uart_base hw + UART0_CR) 0 h;
     let h = mmio_write hw (gpio_base hw + GPPUD) 0 h;
     h \<leftarrow> hw_usleep hw 150000 h;
     let h = mmio_write hw (gpio_base hw + GPPUDCLK0) 0xc000 h;
     h \<leftarrow> hw_usleep hw 150000 h;
     let h = mmio_write hw (gpio_base hw + GPPUDCLK0) 0 h;
     let h = mmio_write hw (uart_base hw + UART0_ICR) 0x7ff h;
     let h = mmio_write hw (uart_base hw + UART0_IMSC) 0x7f2 h;
     Some (mmio_write hw (uart_base hw + UART0_CR) 0x301 h) }"

function uart_putc :: "'h hw \<Rightarrow> int \<Rightarrow> 'h \<Rightarrow> (int \<times> 'h) option" where
  "uart_putc hw byte h = do {
     h \<leftarrow> poll_clear hw (uart_base hw + UART0_FR) 0x20 (Some 2000) h;
     let h = mmio_write hw (uart_base hw + UART0_DR) (word_of_int byte AND 0xff) h;
     if byte = 10 then do {
       (_, h) \<leftarrow> uart_putc hw 13 h;
       Some (byte, h) }
     else Some (byte, h) }"
  by pat_completeness auto
termination by (relation "measure (\<lambda>(hw, byte, h). if byte = 10 then 1 else 0)") auto

declare uart_putc.simps [simp del]

definition uart_getc :: "'h hw \<Rightarrow> 'h \<Rightarrow> (int \<times> 'h) option" where
  "uart_getc hw h = do {
     h \<leftarrow> poll_clear hw (uart_base hw + UART0_FR) 0x10 (Some 2000) h;
     let (x, h) = mmio_read hw (uart_base hw + UART0_DR) h;
     Some (uint (x AND 0xff), h) }"

definition uart_getc_timeout :: "'h hw \<Rightarrow> int \<Rightarrow> 'h \<Rightarrow> (int \<times> 'h) option" where
  "uart_getc_timeout hw timeout h = do {
     h \<leftarrow> hw_timeout_wait hw (uart_base hw + UART0_FR) (\<lambda>x. x AND 0x10 = 0) timeout h;
     let (x, h) = mmio_read hw (uart_base hw + UART0_FR) h;
     if x AND 0x10 = 0
     then let (x, h) = mmio_read hw (uart_base hw + UART0_DR) h in Some (uint (x AND 0xff), h)
     else Some (-1, h) }"

primrec uart_puts :: "'h hw \<Rightarrow> cstring \<Rightarrow> 'h \<Rightarrow> 'h option" where
  "uart_puts hw [] h = Some h"
| "uart_puts hw (c # cs) h = do {
     (_, h) \<leftarrow> uart_putc hw (uint c) h;
     uart_puts hw cs h }"

end
