(* ===== verification/Rpifdt.thy ===== *)
theory Rpifdt
  imports Strstr Mmio "HOL-Library.Signed_Division"
begin

text \<open>
  The device tree (rpifdt.c).  libfdt is not part of the repository: its functions for one
  blob are a parameter, a record.  A property is a pointer into memory and a length, and the null
  pointer is the address 0, which can be read on the machine.  The callbacks with which the code
  walks the tree are functions on a state.  Debug output (\<open>dump_tree\<close>) is left out.
\<close>

section \<open>Model\<close>

record fdt =
  fdt_mem :: buf
  fdt_getprop :: "int \<Rightarrow> string \<Rightarrow> nat \<times> int"
  fdt_first_subnode :: "int \<Rightarrow> int"
  fdt_next_subnode :: "int \<Rightarrow> int"
  fdt_parent_offset :: "int \<Rightarrow> int"
  fdt_path_offset :: "string \<Rightarrow> int"
  fdt_address_cells :: "int \<Rightarrow> int"
  fdt_size_cells :: "int \<Rightarrow> int"
  fdt_node_offset_by_compatible :: "int \<Rightarrow> string \<Rightarrow> int"
  FDT_ERR_NOTFOUND :: int

record soc_range =
  soc_node :: int
  child_addr :: u32
  parent_addr :: u32
  range_len :: u32

text \<open>The last of n cells of four bytes, and the index behind them.\<close>

primrec read_cells :: "buf \<Rightarrow> nat \<Rightarrow> nat \<Rightarrow> nat \<Rightarrow> u32 \<Rightarrow> (u32 \<times> nat) option" where
  "read_cells m p idx 0 v = Some (v, idx)"
| "read_cells m p idx (Suc n) v = do { v \<leftarrow> read_wordbe m (p + idx); read_cells m p (idx + 4) n v }"

subsection \<open>Address translation\<close>

primrec apply_range :: "soc_range list \<Rightarrow> int \<Rightarrow> u32 \<Rightarrow> u32" where
  "apply_range [] node addr = addr"
| "apply_range (r # rs) node addr =
     (if soc_node r = node \<and> child_addr r \<le> addr \<and> addr < child_addr r + range_len r
      then addr - child_addr r + parent_addr r else apply_range rs node addr)"

partial_function (option) get_adjusted_address_int :: "fdt \<Rightarrow> soc_range list \<Rightarrow> int \<Rightarrow> u32 \<Rightarrow> u32 option" where
  "get_adjusted_address_int t sr node addr =
     (if node = fdt_path_offset t ''/'' then Some addr
      else let addr = apply_range sr node addr; node = fdt_parent_offset t node
        in if node \<ge> 0 then get_adjusted_address_int t sr node addr else Some addr)"

definition get_adjusted_address :: "fdt \<Rightarrow> soc_range list \<Rightarrow> int \<Rightarrow> u32 \<Rightarrow> u32 option" where
  "get_adjusted_address t sr node addr =
     (let node = fdt_parent_offset t node in if node \<ge> 0 then get_adjusted_address_int t sr node addr else Some addr)"

subsection \<open>The reg property\<close>

partial_function (option) parse_reg_loop ::
  "fdt \<Rightarrow> soc_range list \<Rightarrow> int \<Rightarrow> (u32 \<Rightarrow> u32 \<Rightarrow> 's \<Rightarrow> 's) \<Rightarrow> nat \<Rightarrow> int \<Rightarrow> int \<Rightarrow> int \<Rightarrow> nat \<Rightarrow> 's \<Rightarrow> 's option" where
  "parse_reg_loop t sr node cb regp plen acs scs idx st =
     (if int idx < plen then do {
        (addr, idx) \<leftarrow> read_cells (fdt_mem t) regp idx (nat acs) 0;
        (len, idx) \<leftarrow> read_cells (fdt_mem t) regp idx (nat scs) 0;
        adj_addr \<leftarrow> get_adjusted_address t sr node addr;
        parse_reg_loop t sr node cb regp plen acs scs idx (cb adj_addr len st) }
      else Some st)"

definition parse_reg :: "fdt \<Rightarrow> soc_range list \<Rightarrow> (u32 \<Rightarrow> u32 \<Rightarrow> 's \<Rightarrow> 's) \<Rightarrow> int \<Rightarrow> int \<Rightarrow> 's \<Rightarrow> 's option" where
  "parse_reg t sr cb node parent st =
     (let (regp, plen) = fdt_getprop t node ''reg'';
          ac = fst (fdt_getprop t parent ''#address-cells'');
          sc = fst (fdt_getprop t parent ''#size-cells'')
      in if ac \<noteq> 0 \<and> sc \<noteq> 0 \<and> regp \<noteq> 0 then do {
           acs \<leftarrow> read_wordbe (fdt_mem t) ac;
           scs \<leftarrow> read_wordbe (fdt_mem t) sc;
           parse_reg_loop t sr node cb regp plen (sint acs) (sint scs) 0 st }
         else Some st)"

subsection \<open>Walking the tree\<close>

text \<open>\<open>strcmp\<close> with a literal: the literal is put in front of memory.\<close>

definition strcmp_lit :: "buf \<Rightarrow> nat \<Rightarrow> string \<Rightarrow> int option" where
  "strcmp_lit m p s = strcmp (lit s @ 0 # m) (p + length s + 1) 0"

definition mem_node :: "fdt \<Rightarrow> soc_range list \<Rightarrow> (u32 \<Rightarrow> u32 \<Rightarrow> 's \<Rightarrow> 's) \<Rightarrow> int \<Rightarrow> int \<Rightarrow> 's \<Rightarrow> 's option" where
  "mem_node t sr mem_cb node parent st =
     (let dt = fst (fdt_getprop t node ''device_type'')
      in if dt \<noteq> 0 then do {
           c \<leftarrow> strcmp_lit (fdt_mem t) dt ''memory'';
           if c = 0 then parse_reg t sr mem_cb node parent st else Some st }
         else Some st)"

partial_function (option) mem_nodes ::
  "fdt \<Rightarrow> soc_range list \<Rightarrow> (u32 \<Rightarrow> u32 \<Rightarrow> 's \<Rightarrow> 's) \<Rightarrow> int \<Rightarrow> int \<Rightarrow> 's \<Rightarrow> 's option" where
  "mem_nodes t sr mem_cb node parent st =
     (if node \<ge> 0 then do {
        st \<leftarrow> mem_node t sr mem_cb node parent st;
        st \<leftarrow> mem_nodes t sr mem_cb (fdt_first_subnode t node) node st;
        mem_nodes t sr mem_cb (fdt_next_subnode t node) parent st }
      else Some st)"

definition parse_node :: "fdt \<Rightarrow> soc_range list \<Rightarrow> (u32 \<Rightarrow> u32 \<Rightarrow> 's \<Rightarrow> 's) \<Rightarrow> int \<Rightarrow> 's \<Rightarrow> 's option" where
  "parse_node t sr mem_cb node st = mem_nodes t sr mem_cb (fdt_first_subnode t node) node st"

text \<open>The test is on the pointer to the substring, which is never null, and not on the pointer to
  the property, which may be.\<close>

definition compatible_node ::
  "fdt \<Rightarrow> buf \<Rightarrow> (int \<Rightarrow> int \<Rightarrow> 's \<Rightarrow> 's option) \<Rightarrow> int \<Rightarrow> int \<Rightarrow> 's \<Rightarrow> 's option" where
  "compatible_node t needle cb node parent st = do {
     let haystack = fst (fdt_getprop t node ''compatible'');
     r \<leftarrow> strstr (fdt_mem t) haystack needle;
     (case r of None \<Rightarrow> Some st | Some q \<Rightarrow> if q \<noteq> 0 then cb node parent st else Some st) }"

partial_function (option) compatible_nodes ::
  "fdt \<Rightarrow> buf \<Rightarrow> (int \<Rightarrow> int \<Rightarrow> 's \<Rightarrow> 's option) \<Rightarrow> int \<Rightarrow> int \<Rightarrow> 's \<Rightarrow> 's option" where
  "compatible_nodes t needle cb node parent st =
     (if node \<ge> 0 then do {
        st \<leftarrow> compatible_node t needle cb node parent st;
        st \<leftarrow> compatible_nodes t needle cb (fdt_first_subnode t node) node st;
        compatible_nodes t needle cb (fdt_next_subnode t node) parent st }
      else Some st)"

definition parse_dtb_compatible :: "fdt \<Rightarrow> string \<Rightarrow> (int \<Rightarrow> int \<Rightarrow> 's \<Rightarrow> 's option) \<Rightarrow> 's \<Rightarrow> 's option" where
  "parse_dtb_compatible t needle cb st =
     (let root_offset = fdt_path_offset t ''/''
      in compatible_nodes t (lit needle @ [0]) cb (fdt_first_subnode t root_offset) root_offset st)"

subsection \<open>The ranges of the buses\<close>

text \<open>The number of ranges of a bus; a division by zero has no value.\<close>

definition range_count :: "int \<Rightarrow> int \<Rightarrow> int \<Rightarrow> int option" where
  "range_count ac sc plen = (let d = (2 * ac + sc) * 4 in if d = 0 then None else Some (plen sdiv d))"

partial_function (option) count_ranges :: "fdt \<Rightarrow> int \<Rightarrow> int \<Rightarrow> int option" where
  "count_ranges t soc items =
     (if soc \<noteq> - FDT_ERR_NOTFOUND t then do {
        let ac = fdt_address_cells t soc;
        let sc = fdt_size_cells t soc;
        let (ranges, ranges_plen) = fdt_getprop t soc ''ranges'';
        items \<leftarrow> (if ranges \<noteq> 0 then do { n \<leftarrow> range_count ac sc ranges_plen; Some (items + n) } else Some items);
        count_ranges t (fdt_node_offset_by_compatible t soc ''simple-bus'') items }
      else Some items)"

text \<open>The array has room for \<open>cap\<close> entries; a write behind it has no value.\<close>

primrec fill_bus :: "buf \<Rightarrow> nat \<Rightarrow> int \<Rightarrow> int \<Rightarrow> int \<Rightarrow> nat \<Rightarrow> nat \<Rightarrow> nat \<Rightarrow> soc_range list \<Rightarrow> soc_range list option" where
  "fill_bus m ranges soc ac sc cap 0 offset sr = Some sr"
| "fill_bus m ranges soc ac sc cap (Suc n) offset sr = do {
     (cur_child, offset) \<leftarrow> read_cells m ranges offset (nat ac) 0;
     (cur_parent, offset) \<leftarrow> read_cells m ranges offset (nat ac) 0;
     (cur_len, offset) \<leftarrow> read_cells m ranges offset (nat sc) 0;
     if length sr < cap
     then fill_bus m ranges soc ac sc cap n offset
            (sr @ [\<lparr>soc_node = soc, child_addr = cur_child, parent_addr = cur_parent, range_len = cur_len\<rparr>])
     else None }"

partial_function (option) fill_ranges :: "fdt \<Rightarrow> nat \<Rightarrow> int \<Rightarrow> soc_range list \<Rightarrow> soc_range list option" where
  "fill_ranges t cap soc sr =
     (if soc \<noteq> - FDT_ERR_NOTFOUND t then do {
        let ac = fdt_address_cells t soc;
        let sc = fdt_size_cells t soc;
        let (ranges, ranges_plen) = fdt_getprop t soc ''ranges'';
        sr \<leftarrow> (if ranges \<noteq> 0 then do {
            num_ranges \<leftarrow> range_count ac sc ranges_plen;
            fill_bus (fdt_mem t) ranges soc ac sc cap (nat num_ranges) 0 sr } else Some sr);
        fill_ranges t cap (fdt_node_offset_by_compatible t soc ''simple-bus'') sr }
      else Some sr)"

text \<open>Whether \<open>malloc\<close> has memory for a size is a parameter.\<close>

definition load_ranges :: "(u32 \<Rightarrow> bool) \<Rightarrow> fdt \<Rightarrow> soc_range list option" where
  "load_ranges malloc_ok t = do {
     let soc = fdt_node_offset_by_compatible t (-1) ''simple-bus'';
     sr_items \<leftarrow> count_ranges t soc 0;
     let bytes = (word_of_int (sr_items * 16) :: u32);
     fill_ranges t (if malloc_ok bytes then unat bytes div 16 else 0) soc [] }"

subsection \<open>Devices\<close>

definition mmc_reg_cb :: "u32 \<Rightarrow> u32 \<Rightarrow> 'h hw \<Rightarrow> 'h hw" where "mmc_reg_cb addr len = emmc_set_base addr"
definition uart_reg_cb :: "u32 \<Rightarrow> u32 \<Rightarrow> 'h hw \<Rightarrow> 'h hw" where "uart_reg_cb addr len = uart_set_base addr"
definition gpio_reg_cb :: "u32 \<Rightarrow> u32 \<Rightarrow> 'h hw \<Rightarrow> 'h hw" where "gpio_reg_cb addr len = gpio_set_base addr"
definition mbox_reg_cb :: "u32 \<Rightarrow> u32 \<Rightarrow> 'h hw \<Rightarrow> 'h hw" where "mbox_reg_cb addr len = mbox_set_base addr"
definition timer_reg_cb :: "u32 \<Rightarrow> u32 \<Rightarrow> 'h hw \<Rightarrow> 'h hw" where "timer_reg_cb addr len = timer_set_base addr"

definition mmc_cb :: "fdt \<Rightarrow> soc_range list \<Rightarrow> int \<Rightarrow> int \<Rightarrow> 'h hw \<Rightarrow> 'h hw option" where
  "mmc_cb t sr = parse_reg t sr mmc_reg_cb"
definition uart_cb :: "fdt \<Rightarrow> soc_range list \<Rightarrow> int \<Rightarrow> int \<Rightarrow> 'h hw \<Rightarrow> 'h hw option" where
  "uart_cb t sr = parse_reg t sr uart_reg_cb"
definition gpio_cb :: "fdt \<Rightarrow> soc_range list \<Rightarrow> int \<Rightarrow> int \<Rightarrow> 'h hw \<Rightarrow> 'h hw option" where
  "gpio_cb t sr = parse_reg t sr gpio_reg_cb"
definition mbox_cb :: "fdt \<Rightarrow> soc_range list \<Rightarrow> int \<Rightarrow> int \<Rightarrow> 'h hw \<Rightarrow> 'h hw option" where
  "mbox_cb t sr = parse_reg t sr mbox_reg_cb"
definition timer_cb :: "fdt \<Rightarrow> soc_range list \<Rightarrow> int \<Rightarrow> int \<Rightarrow> 'h hw \<Rightarrow> 'h hw option" where
  "timer_cb t sr = parse_reg t sr timer_reg_cb"

definition parse_dtb_devices :: "fdt \<Rightarrow> soc_range list \<Rightarrow> 'h hw \<Rightarrow> 'h \<Rightarrow> ('h hw \<times> 'h) option" where
  "parse_dtb_devices t sr hw h = do {
     hw \<leftarrow> parse_dtb_compatible t ''pl011'' (uart_cb t sr) hw;
     hw \<leftarrow> parse_dtb_compatible t ''bcm2835-gpio'' (gpio_cb t sr) hw;
     hw \<leftarrow> parse_dtb_compatible t ''bcm2835-system-timer'' (timer_cb t sr) hw;
     h \<leftarrow> uart_init hw h;
     hw \<leftarrow> parse_dtb_compatible t ''bcm2835-mmc'' (mmc_cb t sr) hw;
     hw \<leftarrow> parse_dtb_compatible t ''bcm2835-mbox'' (mbox_cb t sr) hw;
     Some (hw, h) }"

text \<open>The static variables of the file, and the command line, which is a pointer.\<close>

record dtb_state =
  runonce :: bool
  dtb_sr :: "soc_range list"
  dtb_cmd_line :: nat

definition dtb_start :: dtb_state where
  "dtb_start = \<lparr>runonce = False, dtb_sr = [], dtb_cmd_line = 0\<rparr>"

definition parse_dtb ::
  "(u32 \<Rightarrow> bool) \<Rightarrow> fdt \<Rightarrow> (u32 \<Rightarrow> u32 \<Rightarrow> 's \<Rightarrow> 's) \<Rightarrow> dtb_state \<Rightarrow> 'h hw \<Rightarrow> 'h \<Rightarrow> 's \<Rightarrow> (dtb_state \<times> 'h hw \<times> 'h \<times> 's) option" where
  "parse_dtb malloc_ok t mem_cb ds hw h st = do {
     (sr, hw, h) \<leftarrow> (if \<not> runonce ds then do {
          sr \<leftarrow> load_ranges malloc_ok t;
          (hw, h) \<leftarrow> parse_dtb_devices t sr hw h;
          Some (sr, hw, h) }
        else Some (dtb_sr ds, hw, h));
     let root_offset = fdt_path_offset t ''/'';
     let chosen_offset = fdt_path_offset t ''/chosen'';
     let bootargs = fst (fdt_getprop t chosen_offset ''bootargs'');
     st \<leftarrow> parse_node t sr mem_cb root_offset st;
     Some (\<lparr>runonce = True, dtb_sr = sr, dtb_cmd_line = bootargs\<rparr>, hw, h, st) }"

section \<open>The laid-out tree\<close>

text \<open>What the library shows of a tree: the nodes under a parent are linked by their first and
  next subnodes, and each knows its parent.  Nodes are named by their offsets.\<close>

datatype dnode = DNode (node_offset: int) (subnodes: "dnode list")

fun laid_out :: "fdt \<Rightarrow> int \<Rightarrow> int \<Rightarrow> dnode list \<Rightarrow> bool" where
  "laid_out t parent n [] \<longleftrightarrow> n < 0"
| "laid_out t parent n (DNode m cs # ds) \<longleftrightarrow> n = m \<and> 0 \<le> m \<and> m \<noteq> fdt_path_offset t ''/'' \<and> fdt_parent_offset t m = parent
     \<and> laid_out t m (fdt_first_subnode t m) cs \<and> laid_out t parent (fdt_next_subnode t m) ds"

text \<open>The nodes with their parents, in the order of the blob.\<close>

fun preorder :: "int \<Rightarrow> dnode list \<Rightarrow> (int \<times> int) list" where
  "preorder parent [] = []"
| "preorder parent (DNode m cs # ds) = (m, parent) # preorder m cs @ preorder parent ds"

definition device_tree :: "fdt \<Rightarrow> dnode list \<Rightarrow> bool" where
  "device_tree t ds \<longleftrightarrow> (let root = fdt_path_offset t ''/'' in 0 \<le> root \<and> laid_out t root (fdt_first_subnode t root) ds)"

definition all_nodes :: "fdt \<Rightarrow> dnode list \<Rightarrow> (int \<times> int) list" where
  "all_nodes t ds = preorder (fdt_path_offset t ''/'') ds"

primrec visit_all :: "('a \<Rightarrow> 's \<Rightarrow> 's option) \<Rightarrow> 'a list \<Rightarrow> 's \<Rightarrow> 's option" where
  "visit_all f [] st = Some st"
| "visit_all f (x # xs) st = do { st \<leftarrow> f x st; visit_all f xs st }"

lemma visit_all_append: "visit_all f (xs @ ys) st = do { st \<leftarrow> visit_all f xs st; visit_all f ys st }"
  by (induction xs arbitrary: st) (auto simp: bind_assoc)

lemma visit_all_fold:
  "(\<And>x st. x \<in> set xs \<Longrightarrow> f x st = Some (g x st)) \<Longrightarrow> visit_all f xs st = Some (fold g xs st)"
  by (induction xs arbitrary: st) auto

text \<open>Both walks of the code visit the nodes in this order.\<close>

locale tree_walk =
  fixes t :: fdt and visit walk :: "int \<Rightarrow> int \<Rightarrow> 's \<Rightarrow> 's option"
  assumes walk_step: "walk node parent st =
     (if node \<ge> 0 then do {
        st \<leftarrow> visit node parent st;
        st \<leftarrow> walk (fdt_first_subnode t node) node st;
        walk (fdt_next_subnode t node) parent st }
      else Some st)"
begin

lemma walk_preorder: "laid_out t parent n ds \<Longrightarrow> walk n parent st = visit_all (\<lambda>(m, p). visit m p) (preorder parent ds) st"
proof (induction parent ds arbitrary: n st rule: preorder.induct)
  case (1 parent)
  then show ?case
    by (subst walk_step) simp
next
  case (2 parent m cs ds)
  then have "walk (fdt_next_subnode t m) parent = visit_all (\<lambda>(m, p). visit m p) (preorder parent ds)"
    by (intro ext) simp
  with 2 show ?case
    by (subst walk_step) (simp add: visit_all_append)
qed

end

interpretation mem_walk: tree_walk t "mem_node t sr mem_cb" "mem_nodes t sr mem_cb" for t sr mem_cb
  by unfold_locales (rule mem_nodes.simps)

interpretation compatible_walk: tree_walk t "compatible_node t needle cb" "compatible_nodes t needle cb" for t needle cb
  by unfold_locales (rule compatible_nodes.simps)

text \<open>A node with the buses above it, the nearest first, the root left out.\<close>

fun places :: "int list \<Rightarrow> dnode list \<Rightarrow> (int \<times> int list) list" where
  "places path [] = []"
| "places path (DNode m cs # ds) = (m, path) # places (m # path) cs @ places path ds"

definition parent_of :: "fdt \<Rightarrow> int list \<Rightarrow> int" where
  "parent_of t path = hd (path @ [fdt_path_offset t ''/''])"

primrec upwards :: "fdt \<Rightarrow> int list \<Rightarrow> bool" where
  "upwards t [] \<longleftrightarrow> True"
| "upwards t (b # bs) \<longleftrightarrow> 0 \<le> b \<and> b \<noteq> fdt_path_offset t ''/'' \<and> fdt_parent_offset t b = parent_of t bs \<and> upwards t bs"

lemma parent_of_simps [simp]:
  "parent_of t [] = fdt_path_offset t ''/''" "parent_of t (b # bs) = b"
  by (simp_all add: parent_of_def)

lemma preorder_places:
  "preorder (parent_of t path) ds = map (\<lambda>(m, p). (m, parent_of t p)) (places path ds)"
proof (induction path ds rule: places.induct)
  case (2 path m cs ds)
  then show ?case
    using "2.IH"(1) by simp
qed simp

lemma places_upwards:
  "laid_out t (parent_of t path) n ds \<Longrightarrow> upwards t path \<Longrightarrow> (m, p) \<in> set (places path ds) \<Longrightarrow>
    upwards t (m # p)"
proof (induction path ds arbitrary: n rule: places.induct)
  case (2 path k cs ds)
  then show ?case
    using "2.IH"(1) [of "fdt_first_subnode t k"] "2.IH"(2) [of "fdt_next_subnode t k"] by auto
qed simp

text \<open>An address as the parent of a bus sees it: the first range of the bus around it counts.
  It is carried from bus to bus.\<close>

definition bus_translate :: "soc_range list \<Rightarrow> int \<Rightarrow> u32 \<Rightarrow> u32" where
  "bus_translate sr bus addr =
     (case find (\<lambda>r. soc_node r = bus \<and> child_addr r \<le> addr \<and> addr < child_addr r + range_len r) sr of
        None \<Rightarrow> addr | Some r \<Rightarrow> parent_addr r + (addr - child_addr r))"

definition translate :: "soc_range list \<Rightarrow> int list \<Rightarrow> u32 \<Rightarrow> u32" where
  "translate sr path addr = fold (bus_translate sr) path addr"

lemma apply_range_translate: "apply_range sr bus addr = bus_translate sr bus addr"
  by (induction sr) (auto simp: bus_translate_def)

lemma get_adjusted_address_int_translate:
  assumes "0 \<le> fdt_path_offset t ''/''"
  shows "upwards t path \<Longrightarrow> get_adjusted_address_int t sr (parent_of t path) addr = Some (translate sr path addr)"
proof (induction path arbitrary: addr)
  case Nil
  then show ?case
    by (subst get_adjusted_address_int.simps) (simp add: translate_def)
next
  case (Cons b bs)
  moreover have "0 \<le> parent_of t bs"
    using Cons.prems assms by (cases bs) auto
  ultimately show ?case
    by (subst get_adjusted_address_int.simps) (simp add: translate_def apply_range_translate Let_def)
qed

lemma get_adjusted_address_translate:
  assumes "0 \<le> fdt_path_offset t ''/''" "upwards t (m # path)"
  shows "get_adjusted_address t sr m addr = Some (translate sr path addr)"
proof -
  have "0 \<le> parent_of t path"
    using assms by (cases path) auto
  then show ?thesis
    using assms get_adjusted_address_int_translate by (simp add: get_adjusted_address_def Let_def)
qed

section \<open>What the properties say\<close>

primrec words_be :: "buf \<Rightarrow> nat \<Rightarrow> nat \<Rightarrow> u32 list option" where
  "words_be m p 0 = Some []"
| "words_be m p (Suc n) = do { w \<leftarrow> read_wordbe m p; ws \<leftarrow> words_be m (p + 4) n; Some (w # ws) }"

definition last_cell :: "u32 list \<Rightarrow> u32" where
  "last_cell ws = (if ws = [] then 0 else last ws)"

lemma words_be_length: "words_be m p n = Some ws \<Longrightarrow> length ws = n"
  by (induction n arbitrary: p ws) (auto split: Option.bind_splits)

lemma words_be_append:
  "words_be m p (i + n) = Some ws \<Longrightarrow>
    words_be m p i = Some (take i ws) \<and> words_be m (p + 4 * i) n = Some (drop i ws)"
proof (induction i arbitrary: p ws)
  case 0
  then show ?case
    using words_be_length by simp
next
  case (Suc i)
  then obtain w vs where "read_wordbe m p = Some w" "words_be m (p + 4) (i + n) = Some vs" "ws = w # vs"
    by (auto split: Option.bind_splits)
  with Suc.IH [of "p + 4" vs] show ?case
    by (simp add: algebra_simps)
qed

lemma read_cells_words:
  "words_be m (p + i) n = Some ws \<Longrightarrow> read_cells m p i n v = Some (if n = 0 then v else last ws, i + 4 * n)"
proof (induction n arbitrary: i ws v)
  case (Suc n)
  then obtain w vs where w: "read_wordbe m (p + i) = Some w" "words_be m (p + (i + 4)) n = Some vs" "ws = w # vs"
    by (auto simp: add.assoc split: Option.bind_splits)
  then show ?case
    using Suc.IH [of "i + 4" vs w] words_be_length [OF w(2)] by auto
qed simp

lemma read_cells_last:
  "words_be m (p + i) n = Some ws \<Longrightarrow> read_cells m p i n 0 = Some (last_cell ws, i + 4 * n)"
  using words_be_length [of m "p + i" n ws] by (auto simp: read_cells_words last_cell_def)

text \<open>A reg property is cut into entries of a address cells and s size cells.\<close>

function reg_entries :: "nat \<Rightarrow> nat \<Rightarrow> u32 list \<Rightarrow> (u32 \<times> u32) list" where
  "reg_entries a s ws =
     (if ws = [] \<or> a + s = 0 then []
      else (last_cell (take a ws), last_cell (take s (drop a ws))) # reg_entries a s (drop (a + s) ws))"
  by pat_completeness auto
termination by (relation "measure (\<lambda>(a, s, ws). length ws)") auto

declare reg_entries.simps [simp del]

definition reg_list :: "fdt \<Rightarrow> int \<Rightarrow> int \<Rightarrow> (u32 \<times> u32) list option" where
  "reg_list t node parent =
     (let (regp, plen) = fdt_getprop t node ''reg'';
          ac = fst (fdt_getprop t parent ''#address-cells'');
          sc = fst (fdt_getprop t parent ''#size-cells'')
      in if ac = 0 \<or> sc = 0 \<or> regp = 0 then Some []
         else do {
           a \<leftarrow> read_wordbe (fdt_mem t) ac;
           s \<leftarrow> read_wordbe (fdt_mem t) sc;
           let a = nat (sint a);
           let s = nat (sint s);
           ws \<leftarrow> words_be (fdt_mem t) regp (nat plen div 4);
           if 0 < a + s \<and> nat plen mod 4 = 0 \<and> length ws mod (a + s) = 0 then Some (reg_entries a s ws) else None })"

lemma parse_reg_loop_entries:
  assumes "\<And>addr. get_adjusted_address t sr node addr = Some (f addr)" "0 < nat acs + nat scs"
  shows "words_be (fdt_mem t) (regp + 4 * i) (length ws) = Some ws \<Longrightarrow> length ws mod (nat acs + nat scs) = 0 \<Longrightarrow>
    plen = int (4 * i + 4 * length ws) \<Longrightarrow>
    parse_reg_loop t sr node cb regp plen acs scs (4 * i) st
      = Some (fold (\<lambda>(a, l). cb (f a) l) (reg_entries (nat acs) (nat scs) ws) st)"
proof (induction "length ws" arbitrary: ws i st rule: less_induct)
  case less
  let ?a = "nat acs" and ?s = "nat scs"
  show ?case
  proof (cases "ws = []")
    case True
    with less.prems(3) show ?thesis
      by (subst parse_reg_loop.simps) (simp add: reg_entries.simps)
  next
    case False
    then have k: "?a + ?s \<le> length ws"
      using less.prems(2) assms(2) by (metis length_0_conv mod_less not_le_imp_less)
    then obtain n where n: "length ws = ?a + (?s + n)"
      by (auto simp: le_iff_add add.assoc)
    note w = words_be_append [OF less.prems(1) [unfolded n]]
    note v = words_be_append [OF conjunct2 [OF w]]
    have c1: "read_cells (fdt_mem t) regp (4 * i) ?a 0 = Some (last_cell (take ?a ws), 4 * (i + ?a))"
      using read_cells_last [OF conjunct1 [OF w]] by simp
    have c2: "read_cells (fdt_mem t) regp (4 * (i + ?a)) ?s 0
        = Some (last_cell (take ?s (drop ?a ws)), 4 * (i + (?a + ?s)))"
      using read_cells_last [of "fdt_mem t" regp "4 * (i + ?a)" ?s] v by (simp add: algebra_simps)
    have "parse_reg_loop t sr node cb regp plen acs scs (4 * (i + (?a + ?s))) st'
        = Some (fold (\<lambda>(a, l). cb (f a) l) (reg_entries ?a ?s (drop (?a + ?s) ws)) st')" for st'
    proof (rule less.hyps)
      show "length (drop (?a + ?s) ws) < length ws"
        using assms(2) False by simp
      show "words_be (fdt_mem t) (regp + 4 * (i + (?a + ?s))) (length (drop (?a + ?s) ws)) = Some (drop (?a + ?s) ws)"
        using v n by (simp add: algebra_simps)
      show "length (drop (?a + ?s) ws) mod (?a + ?s) = 0"
        using less.prems(2) k by (simp add: le_mod_geq [symmetric])
      show "plen = int (4 * (i + (?a + ?s)) + 4 * length (drop (?a + ?s) ws))"
        using less.prems(3) k by simp
    qed
    moreover have "int (4 * i) < plen"
      using less.prems(3) False by simp
    ultimately show ?thesis
      using assms(2) False
      by (subst parse_reg_loop.simps, subst reg_entries.simps) (simp only: c1 c2 assms(1) if_True bind.bind_lunit prod.case, auto)
  qed
qed

lemma parse_reg_list:
  assumes "\<And>addr. get_adjusted_address t sr node addr = Some (f addr)" "reg_list t node parent = Some es"
  shows "parse_reg t sr cb node parent st = Some (fold (\<lambda>(a, l). cb (f a) l) es st)"
proof (cases "fst (fdt_getprop t parent ''#address-cells'') = 0 \<or> fst (fdt_getprop t parent ''#size-cells'') = 0
    \<or> fst (fdt_getprop t node ''reg'') = 0")
  case True
  then show ?thesis
    using assms(2) by (auto simp: parse_reg_def reg_list_def Let_def split: prod.splits)
next
  case False
  obtain regp plen where reg: "fdt_getprop t node ''reg'' = (regp, plen)"
    by fastforce
  obtain a s ws where r: "read_wordbe (fdt_mem t) (fst (fdt_getprop t parent ''#address-cells'')) = Some a"
      "read_wordbe (fdt_mem t) (fst (fdt_getprop t parent ''#size-cells'')) = Some s"
      "words_be (fdt_mem t) regp (nat plen div 4) = Some ws" "0 < nat (sint a) + nat (sint s)" "nat plen mod 4 = 0"
      "length ws mod (nat (sint a) + nat (sint s)) = 0" "es = reg_entries (nat (sint a)) (nat (sint s)) ws"
    using assms(2) False by (auto simp: reg_list_def reg Let_def bind_eq_Some_conv split: if_split_asm)
  have len: "length ws = nat plen div 4"
    using words_be_length [OF r(3)] .
  have "parse_reg_loop t sr node cb regp plen (sint a) (sint s) 0 st = Some (fold (\<lambda>(a, l). cb (f a) l) es st)"
  proof (cases "plen \<le> 0")
    case True
    then show ?thesis
      using len r(7) by (subst parse_reg_loop.simps) (simp add: reg_entries.simps)
  next
    case False
    then have plen: "plen = int (4 * 0 + 4 * length ws)"
      using len r(5) div_mult_mod_eq [of "nat plen" 4] by simp
    have "words_be (fdt_mem t) (regp + 4 * 0) (length ws) = Some ws"
      using r(3) len by simp
    from parse_reg_loop_entries [OF assms(1) r(4) this r(6) plen] show ?thesis
      by (simp only: mult_zero_right r(7))
  qed
  then show ?thesis
    using False reg r(1,2) by (simp add: parse_reg_def Let_def)
qed

text \<open>The string at a place.\<close>

definition text_at :: "buf \<Rightarrow> nat \<Rightarrow> cstring" where
  "text_at m p = takeWhile (\<lambda>c. c \<noteq> 0) (drop p m)"

lemma takeWhile_stops: "c \<in> set xs \<Longrightarrow> length (takeWhile (\<lambda>x. x \<noteq> c) xs) < length xs"
  by (induction xs) auto

lemma cstr_at_text:
  assumes "0 \<in> set (drop p m)"
  shows "cstr_at m p (text_at m p)"
proof -
  let ?d = "drop p m" and ?n = "length (takeWhile (\<lambda>c. c \<noteq> 0) (drop p m))"
  have n: "?n < length ?d"
    using takeWhile_stops [OF assms] .
  then have "?d ! ?n = 0"
    using nth_length_takeWhile [of "\<lambda>c. c \<noteq> 0" ?d] by simp
  then show ?thesis
    using n takeWhile_eq_take [of "\<lambda>c. c \<noteq> 0" ?d] by (auto simp: cstr_at_iff text_at_def dest: set_takeWhileD)
qed

lemma cstr_at_shift: "cstr_at m p xs \<Longrightarrow> cstr_at (ys @ m) (p + length ys) xs"
proof (induction xs arbitrary: p)
  case (Cons x xs)
  then show ?case
    using Cons.IH [of "p + 1"] by (auto simp: get_byte_def nth_append split: if_split_asm)
qed (auto simp: get_byte_def nth_append split: if_split_asm)

lemma strcmp_lit_text:
  assumes "cstr_at m p xs" "0 \<notin> set (lit s)" "length (lit s) = length s"
  shows "\<exists>c. strcmp_lit m p s = Some c \<and> (c = 0 \<longleftrightarrow> xs = lit s)"
proof -
  have "cstr_at (lit s @ 0 # m) (p + length s + 1) xs"
    using cstr_at_shift [OF assms(1), of "lit s @ [0]"] assms(3) by simp
  moreover have "cstr_at (lit s @ 0 # m) 0 (lit s)"
    using assms(2) by (simp add: cstr_at_iff nth_append)
  ultimately show ?thesis
    unfolding strcmp_lit_def using strcmp_cstr by blast
qed

definition is_memory :: "fdt \<Rightarrow> int \<Rightarrow> bool" where
  "is_memory t node \<longleftrightarrow> (let dt = fst (fdt_getprop t node ''device_type'') in dt \<noteq> 0 \<and> text_at (fdt_mem t) dt = lit ''memory'')"

definition is_compatible :: "fdt \<Rightarrow> string \<Rightarrow> int \<Rightarrow> bool" where
  "is_compatible t needle node \<longleftrightarrow> (let p = fst (fdt_getprop t node ''compatible'') in
     case first_occ (lit needle) (text_at (fdt_mem t) p) of None \<Rightarrow> False | Some i \<Rightarrow> p + i \<noteq> 0)"

text \<open>Properties that can be read: strings with an end, and whole entries of reg.\<close>

definition node_ok :: "fdt \<Rightarrow> int \<times> int list \<Rightarrow> bool" where
  "node_ok t = (\<lambda>(node, path). let dt = fst (fdt_getprop t node ''device_type'') in
     0 \<in> set (drop (fst (fdt_getprop t node ''compatible'')) (fdt_mem t))
     \<and> (dt \<noteq> 0 \<longrightarrow> 0 \<in> set (drop dt (fdt_mem t))) \<and> reg_list t node (parent_of t path) \<noteq> None)"

definition tree_ok :: "fdt \<Rightarrow> dnode list \<Rightarrow> bool" where
  "tree_ok t ds \<longleftrightarrow> device_tree t ds \<and> list_all (node_ok t) (places [] ds)"

text \<open>The translated entries of a node, and those of all nodes of a kind.\<close>

definition node_regs :: "fdt \<Rightarrow> soc_range list \<Rightarrow> int \<times> int list \<Rightarrow> (u32 \<times> u32) list" where
  "node_regs t sr = (\<lambda>(node, path). map (\<lambda>(a, l). (translate sr path a, l)) (the (reg_list t node (parent_of t path))))"

definition regs_of :: "(int \<Rightarrow> bool) \<Rightarrow> fdt \<Rightarrow> soc_range list \<Rightarrow> dnode list \<Rightarrow> (u32 \<times> u32) list" where
  "regs_of P t sr ds = concat (map (node_regs t sr) (filter (P \<circ> fst) (places [] ds)))"

lemma fold_concat_map: "fold g (concat (map h (filter P xs))) st = fold (\<lambda>x st. if P x then fold g (h x) st else st) xs st"
  by (induction xs arbitrary: st) auto

lemma visit_all_map: "visit_all f (map g xs) st = visit_all (f \<circ> g) xs st"
  by (induction xs arbitrary: st) auto

lemma visit_places:
  assumes "\<And>x st. x \<in> set (places [] ds) \<Longrightarrow>
      visit (fst x) (parent_of t (snd x)) st = Some (if P (fst x) then fold (\<lambda>(a, l). cb a l) (node_regs t sr x) st else st)"
  shows "visit_all (\<lambda>(m, p). visit m p) (preorder (fdt_path_offset t ''/'') ds) st = Some (fold (\<lambda>(a, l). cb a l) (regs_of P t sr ds) st)"
proof -
  have pre: "preorder (fdt_path_offset t ''/'') ds = map (\<lambda>(m, p). (m, parent_of t p)) (places [] ds)"
    using preorder_places [of t "[]" ds] by simp
  have "visit_all (\<lambda>(m, p). visit m p) (preorder (fdt_path_offset t ''/'') ds) st
      = visit_all (\<lambda>x. visit (fst x) (parent_of t (snd x))) (places [] ds) st"
    unfolding pre visit_all_map by (simp add: comp_def case_prod_beta')
  also have "\<dots> = Some (fold (\<lambda>x st. if P (fst x) then fold (\<lambda>(a, l). cb a l) (node_regs t sr x) st else st) (places [] ds) st)"
    using assms by (intro visit_all_fold) simp
  finally show ?thesis
    by (simp add: regs_of_def fold_concat_map comp_def)
qed

lemma parse_reg_place:
  assumes "tree_ok t ds" "x \<in> set (places [] ds)"
  shows "parse_reg t sr cb (fst x) (parent_of t (snd x)) st = Some (fold (\<lambda>(a, l). cb a l) (node_regs t sr x) st)"
proof -
  obtain m path where x: "x = (m, path)"
    by (cases x)
  have root: "0 \<le> fdt_path_offset t ''/''" and lay: "laid_out t (parent_of t []) (fdt_first_subnode t (fdt_path_offset t ''/'')) ds"
    using assms(1) by (auto simp: tree_ok_def device_tree_def Let_def)
  have up: "upwards t (m # path)"
    using places_upwards [OF lay, of m path] assms(2) x by simp
  obtain es where es: "reg_list t m (parent_of t path) = Some es"
    using assms x by (fastforce simp: tree_ok_def list_all_iff node_ok_def Let_def)
  show ?thesis
    by (simp add: x parse_reg_list [OF get_adjusted_address_translate [OF root up] es] node_regs_def es fold_map comp_def case_prod_beta')
qed

lemma mem_nodes_regs:
  assumes "tree_ok t ds"
  shows "parse_node t sr mem_cb (fdt_path_offset t ''/'') st = Some (fold (\<lambda>(a, l). mem_cb a l) (regs_of (is_memory t) t sr ds) st)"
proof -
  have "mem_node t sr mem_cb (fst x) (parent_of t (snd x)) st
      = Some (if is_memory t (fst x) then fold (\<lambda>(a, l). mem_cb a l) (node_regs t sr x) st else st)"
    if "x \<in> set (places [] ds)" for x st
  proof (cases "fst (fdt_getprop t (fst x) ''device_type'') = 0")
    case True
    then show ?thesis
      by (simp add: mem_node_def is_memory_def)
  next
    case False
    then have "0 \<in> set (drop (fst (fdt_getprop t (fst x) ''device_type'')) (fdt_mem t))"
      using assms that by (fastforce simp: tree_ok_def list_all_iff node_ok_def Let_def)
    then obtain c where "strcmp_lit (fdt_mem t) (fst (fdt_getprop t (fst x) ''device_type'')) ''memory'' = Some c"
        "c = 0 \<longleftrightarrow> text_at (fdt_mem t) (fst (fdt_getprop t (fst x) ''device_type'')) = lit ''memory''"
      using strcmp_lit_text [OF cstr_at_text, of "fst (fdt_getprop t (fst x) ''device_type'')" "fdt_mem t" "''memory''"]
      by (auto simp: lit_def)
    then show ?thesis
      using False by (simp add: mem_node_def is_memory_def parse_reg_place [OF assms that] Let_def)
  qed
  note visits = visit_places [of ds "mem_node t sr mem_cb", OF this]
  show ?thesis
    using assms by (auto simp: parse_node_def tree_ok_def device_tree_def Let_def mem_walk.walk_preorder visits)
qed

lemma compatible_nodes_regs:
  assumes "tree_ok t ds" "strstr_ready (lit needle)"
  shows "parse_dtb_compatible t needle (parse_reg t sr cb) st
    = Some (fold (\<lambda>(a, l). cb a l) (regs_of (is_compatible t needle) t sr ds) st)"
proof -
  have "compatible_node t (lit needle @ [0]) (parse_reg t sr cb) (fst x) (parent_of t (snd x)) st
      = Some (if is_compatible t needle (fst x) then fold (\<lambda>(a, l). cb a l) (node_regs t sr x) st else st)"
    if "x \<in> set (places [] ds)" for x st
  proof -
    let ?p = "fst (fdt_getprop t (fst x) ''compatible'')"
    have "0 \<in> set (drop ?p (fdt_mem t))"
      using assms(1) that by (fastforce simp: tree_ok_def list_all_iff node_ok_def Let_def)
    then have "strstr (fdt_mem t) ?p (lit needle @ [0])
        = Some (map_option ((+) ?p) (first_occ (lit needle) (text_at (fdt_mem t) ?p)))"
      by (intro strstr_first_occ [OF assms(2)] cstr_at_text)
    then show ?thesis
      by (cases "first_occ (lit needle) (text_at (fdt_mem t) ?p)")
        (auto simp: compatible_node_def is_compatible_def parse_reg_place [OF assms(1) that] Let_def)
  qed
  note visits = visit_places [of ds "compatible_node t (lit needle @ [0]) (parse_reg t sr cb)", OF this]
  show ?thesis
    using assms(1)
    by (auto simp: parse_dtb_compatible_def tree_ok_def device_tree_def Let_def compatible_walk.walk_preorder visits)
qed

section \<open>The ranges\<close>

primrec bus_chain :: "fdt \<Rightarrow> int \<Rightarrow> int list \<Rightarrow> bool" where
  "bus_chain t n [] \<longleftrightarrow> n = - FDT_ERR_NOTFOUND t"
| "bus_chain t n (b # bs) \<longleftrightarrow> n = b \<and> n \<noteq> - FDT_ERR_NOTFOUND t \<and> bus_chain t (fdt_node_offset_by_compatible t b ''simple-bus'') bs"

text \<open>The ranges of a bus: entries of two addresses and a size.\<close>

primrec range_entries :: "int \<Rightarrow> nat \<Rightarrow> nat \<Rightarrow> nat \<Rightarrow> u32 list \<Rightarrow> soc_range list" where
  "range_entries b a s 0 ws = []"
| "range_entries b a s (Suc n) ws =
     \<lparr>soc_node = b, child_addr = last_cell (take a ws), parent_addr = last_cell (take a (drop a ws)),
      range_len = last_cell (take s (drop (a + a) ws))\<rparr> # range_entries b a s n (drop (a + a + s) ws)"

definition bus_ranges :: "fdt \<Rightarrow> int \<Rightarrow> soc_range list option" where
  "bus_ranges t b =
     (let ac = fdt_address_cells t b; sc = fdt_size_cells t b; (p, plen) = fdt_getprop t b ''ranges'';
          n = plen div (4 * (2 * ac + sc))
      in if p = 0 then Some []
         else if 0 \<le> ac \<and> 0 \<le> sc \<and> 0 < 2 * ac + sc \<and> 0 \<le> plen
         then do {
           ws \<leftarrow> words_be (fdt_mem t) p (nat n * (2 * nat ac + nat sc));
           Some (range_entries b (nat ac) (nat sc) (nat n) ws) }
         else None)"

lemma range_entries_length [simp]: "length (range_entries b a s n ws) = n"
  by (induction n arbitrary: ws) auto

lemma fill_bus_entries:
  "words_be m (p + 4 * i) (n * (2 * nat ac + nat sc)) = Some ws \<Longrightarrow> length sr + n \<le> cap \<Longrightarrow>
    fill_bus m p soc ac sc cap n (4 * i) sr = Some (sr @ range_entries soc (nat ac) (nat sc) n ws)"
proof (induction n arbitrary: i ws sr)
  case (Suc n)
  let ?a = "nat ac" and ?s = "nat sc"
  have "Suc n * (2 * ?a + ?s) = ?a + (?a + (?s + n * (2 * ?a + ?s)))"
    by simp
  note w = words_be_append [OF Suc.prems(1) [unfolded this]]
  note v = words_be_append [OF conjunct2 [OF w]]
  note u = words_be_append [OF conjunct2 [OF v]]
  have c: "read_cells m p (4 * i) ?a 0 = Some (last_cell (take ?a ws), 4 * (i + ?a))"
      "read_cells m p (4 * (i + ?a)) ?a 0 = Some (last_cell (take ?a (drop ?a ws)), 4 * (i + 2 * ?a))"
      "read_cells m p (4 * (i + 2 * ?a)) ?s 0 = Some (last_cell (take ?s (drop (?a + ?a) ws)), 4 * (i + (2 * ?a + ?s)))"
    using read_cells_last [OF conjunct1 [OF w]] read_cells_last [of m p "4 * (i + ?a)" ?a] v
      read_cells_last [of m p "4 * (i + 2 * ?a)" ?s] u by (simp_all add: algebra_simps)
  have "words_be m (p + 4 * (i + (2 * ?a + ?s))) (n * (2 * ?a + ?s)) = Some (drop (?a + ?a + ?s) ws)"
    using u by (simp add: algebra_simps)
  from Suc.IH [OF this] show ?case
    using Suc.prems(2) by (simp add: c [simplified])
qed simp

lemma range_count_bus:
  assumes "bus_ranges t b = Some rs" "fdt_getprop t b ''ranges'' = (p, plen)" "p \<noteq> 0"
  shows "range_count (fdt_address_cells t b) (fdt_size_cells t b) plen = Some (int (length rs))"
proof -
  have "0 \<le> plen" "0 < 2 * fdt_address_cells t b + fdt_size_cells t b"
      "length rs = nat (plen div (4 * (2 * fdt_address_cells t b + fdt_size_cells t b)))"
    using assms by (auto simp: bus_ranges_def Let_def bind_eq_Some_conv split: if_split_asm)
  then show ?thesis
    by (cases "plen = 0") (simp_all add: range_count_def Let_def signed_divide_int_def mult.commute pos_imp_zdiv_nonneg_iff)
qed

lemma count_ranges_chain:
  "bus_chain t n bs \<Longrightarrow> list_all (\<lambda>b. bus_ranges t b \<noteq> None) bs \<Longrightarrow>
    count_ranges t n k = Some (k + int (length (concat (map (\<lambda>b. the (bus_ranges t b)) bs))))"
proof (induction bs arbitrary: n k)
  case Nil
  then show ?case
    by (subst count_ranges.simps) simp
next
  case (Cons b bs)
  obtain p plen where r: "fdt_getprop t b ''ranges'' = (p, plen)"
    by fastforce
  obtain rs where rs: "bus_ranges t b = Some rs"
    using Cons.prems(2) by auto
  show ?case
  proof (cases "p = 0")
    case True
    then have "rs = []"
      using rs r by (simp add: bus_ranges_def Let_def)
    then show ?thesis
      using Cons True by (subst count_ranges.simps) (simp add: r rs)
  next
    case False
    then show ?thesis
      using Cons by (subst count_ranges.simps) (simp add: r rs range_count_bus [OF rs r])
  qed
qed

lemma fill_ranges_chain:
  "bus_chain t n bs \<Longrightarrow> list_all (\<lambda>b. bus_ranges t b \<noteq> None) bs \<Longrightarrow>
    length sr + length (concat (map (\<lambda>b. the (bus_ranges t b)) bs)) \<le> cap \<Longrightarrow>
    fill_ranges t cap n sr = Some (sr @ concat (map (\<lambda>b. the (bus_ranges t b)) bs))"
proof (induction bs arbitrary: n sr)
  case Nil
  then show ?case
    by (subst fill_ranges.simps) simp
next
  case (Cons b bs)
  obtain p plen where r: "fdt_getprop t b ''ranges'' = (p, plen)"
    by fastforce
  obtain rs where rs: "bus_ranges t b = Some rs"
    using Cons.prems(2) by auto
  show ?case
  proof (cases "p = 0")
    case True
    then have "rs = []"
      using rs r by (simp add: bus_ranges_def Let_def)
    then show ?thesis
      using Cons True by (subst fill_ranges.simps) (simp add: r rs)
  next
    case False
    let ?ac = "fdt_address_cells t b" and ?sc = "fdt_size_cells t b"
    obtain ws where ws: "words_be (fdt_mem t) p (length rs * (2 * nat ?ac + nat ?sc)) = Some ws"
        "rs = range_entries b (nat ?ac) (nat ?sc) (length rs) ws"
      using rs r False by (auto simp: bus_ranges_def Let_def bind_eq_Some_conv split: if_split_asm)
    have "fill_bus (fdt_mem t) p b ?ac ?sc cap (length rs) (4 * 0) sr = Some (sr @ rs)"
      using fill_bus_entries [of "fdt_mem t" p 0 "length rs" ?ac ?sc ws sr cap b] ws Cons.prems(3) rs by simp
    then show ?thesis
      using Cons False by (subst fill_ranges.simps) (simp add: r rs range_count_bus [OF rs r])
  qed
qed

lemma load_ranges_chain:
  assumes "bus_chain t (fdt_node_offset_by_compatible t (-1) ''simple-bus'') bs"
    "list_all (\<lambda>b. bus_ranges t b \<noteq> None) bs" "sr = concat (map (\<lambda>b. the (bus_ranges t b)) bs)"
    "length sr < 2 ^ 28" "malloc_ok (word_of_nat (length sr * 16))"
  shows "load_ranges malloc_ok t = Some sr"
proof -
  have len32: "LENGTH(32) = 32"
    by simp
  have "length sr * 16 < 2 ^ 32"
    using assms(4) by simp
  then have "unat (word_of_nat (length sr * 16) :: u32) div 16 = length sr"
    by (simp only: unat_of_nat len32 mod_less)
  moreover have "(word_of_int (int (length sr) * 16) :: u32) = word_of_nat (length sr * 16)"
    by simp
  ultimately show ?thesis
    using fill_ranges_chain [OF assms(1,2), of "[]" "length sr"] count_ranges_chain [OF assms(1,2), of 0] assms(3,5)
    by (simp add: load_ranges_def Let_def)
qed

section \<open>The whole tree\<close>

definition last_base :: "u32 \<Rightarrow> (u32 \<times> u32) list \<Rightarrow> u32" where
  "last_base old es = last (old # map fst es)"

lemma fold_bases:
  "fold (\<lambda>(a, l). uart_reg_cb a l) es hw = hw\<lparr>uart_base := last_base (uart_base hw) es\<rparr>"
  "fold (\<lambda>(a, l). gpio_reg_cb a l) es hw = hw\<lparr>gpio_base := last_base (gpio_base hw) es\<rparr>"
  "fold (\<lambda>(a, l). timer_reg_cb a l) es hw = hw\<lparr>timer_base := last_base (timer_base hw) es\<rparr>"
  "fold (\<lambda>(a, l). mmc_reg_cb a l) es hw = hw\<lparr>emmc_base := last_base (emmc_base hw) es\<rparr>"
  "fold (\<lambda>(a, l). mbox_reg_cb a l) es hw = hw\<lparr>mbox_base := last_base (mbox_base hw) es\<rparr>"
  by (induction es arbitrary: hw)
    (auto simp: last_base_def uart_reg_cb_def uart_set_base_def gpio_reg_cb_def gpio_set_base_def timer_reg_cb_def
      timer_set_base_def mmc_reg_cb_def emmc_set_base_def mbox_reg_cb_def mbox_set_base_def)

definition device_base :: "fdt \<Rightarrow> soc_range list \<Rightarrow> dnode list \<Rightarrow> string \<Rightarrow> u32 \<Rightarrow> u32" where
  "device_base t sr ds needle old = last_base old (regs_of (is_compatible t needle) t sr ds)"

lemma parse_dtb_devices_bases:
  assumes "tree_ok t ds"
    and "uart_init (hw\<lparr>uart_base := device_base t sr ds ''pl011'' (uart_base hw),
      gpio_base := device_base t sr ds ''bcm2835-gpio'' (gpio_base hw),
      timer_base := device_base t sr ds ''bcm2835-system-timer'' (timer_base hw)\<rparr>) h = Some h'"
  shows "parse_dtb_devices t sr hw h = Some
    (hw\<lparr>uart_base := device_base t sr ds ''pl011'' (uart_base hw),
      gpio_base := device_base t sr ds ''bcm2835-gpio'' (gpio_base hw),
      timer_base := device_base t sr ds ''bcm2835-system-timer'' (timer_base hw),
      emmc_base := device_base t sr ds ''bcm2835-mmc'' (emmc_base hw),
      mbox_base := device_base t sr ds ''bcm2835-mbox'' (mbox_base hw)\<rparr>, h')"
proof -
  have r: "strstr_ready (lit ''pl011'')" "strstr_ready (lit ''bcm2835-gpio'')" "strstr_ready (lit ''bcm2835-system-timer'')"
    "strstr_ready (lit ''bcm2835-mmc'')" "strstr_ready (lit ''bcm2835-mbox'')"
    using device_needles_ready by simp_all
  note regs = compatible_nodes_regs [OF assms(1)]
  show ?thesis
    using assms(2)
    by (simp add: parse_dtb_devices_def uart_cb_def gpio_cb_def timer_cb_def mmc_cb_def mbox_cb_def
        regs [OF r(1)] regs [OF r(2)] regs [OF r(3)] regs [OF r(4)] regs [OF r(5)] fold_bases device_base_def)
qed

section \<open>A sample tree\<close>

text \<open>A root with the cells of its buses, a memory node, and a bus at \<open>0x7e000000\<close> that
  the processor sees at \<open>0x3f000000\<close>, with a serial port and a card controller.\<close>

definition sample_blob :: buf where
  "sample_blob = [0, 0, 0, 0] @ [0, 0, 0, 1] @ [0, 0, 0, 0, 0x3c, 0, 0, 0]
     @ [0x7e, 0, 0, 0, 0x3f, 0, 0, 0, 1, 0, 0, 0] @ [0x7e, 0x30, 0, 0, 0, 0, 1, 0] @ [0x7e, 0x20, 0x10, 0, 0, 0, 2, 0]
     @ lit ''memory'' @ [0] @ lit ''arm,pl011'' @ [0] @ lit ''brcm,bcm2835-mmc'' @ [0]"

definition sample_props :: "((int \<times> string) \<times> nat \<times> int) list" where
  "sample_props =
     [((0, ''#address-cells''), 4, 4), ((0, ''#size-cells''), 4, 4), ((200, ''device_type''), 44, 7), ((200, ''reg''), 8, 8),
      ((100, ''#address-cells''), 4, 4), ((100, ''#size-cells''), 4, 4), ((100, ''ranges''), 16, 12),
      ((120, ''reg''), 28, 8), ((120, ''compatible''), 61, 17), ((140, ''reg''), 36, 8), ((140, ''compatible''), 51, 10)]"

definition sample_fdt :: fdt where
  "sample_fdt = \<lparr>fdt_mem = sample_blob,
     fdt_getprop = (\<lambda>node name. case map_of sample_props (node, name) of Some v \<Rightarrow> v | None \<Rightarrow> (0, -1)),
     fdt_first_subnode = (\<lambda>n. if n = 0 then 100 else if n = 100 then 120 else -1),
     fdt_next_subnode = (\<lambda>n. if n = 100 then 200 else if n = 120 then 140 else -1),
     fdt_parent_offset = (\<lambda>n. if n = 120 \<or> n = 140 then 100 else if n = 0 then -1 else 0),
     fdt_path_offset = (\<lambda>s. if s = ''/'' then 0 else -1),
     fdt_address_cells = (\<lambda>_. 1), fdt_size_cells = (\<lambda>_. 1),
     fdt_node_offset_by_compatible = (\<lambda>n s. if n = -1 then 100 else -1),
     FDT_ERR_NOTFOUND = 1\<rparr>"

definition sample_nodes :: "dnode list" where
  "sample_nodes = [DNode 100 [DNode 120 [], DNode 140 []], DNode 200 []]"

definition sample_ranges :: "soc_range list" where
  "sample_ranges = [\<lparr>soc_node = 100, child_addr = 0x7e000000, parent_addr = 0x3f000000, range_len = 0x1000000\<rparr>]"

definition sample_board :: "u32 hw" where
  "sample_board = \<lparr>bus_read = (\<lambda>a h. (h, h + 200000)), bus_write = (\<lambda>a d h. h), base_adjust = 0, timer_base = 0x20003000,
     mbox_base = 0x2000b880, uart_base = 0x20201000, gpio_base = 0x20200000, emmc_base = 0x20300000\<rparr>"

lemma sample_tree_ok: "tree_ok sample_fdt sample_nodes"
  by code_simp

lemma sample_bases:
  "device_base sample_fdt sample_ranges sample_nodes ''pl011'' b = 0x3f201000"
  "device_base sample_fdt sample_ranges sample_nodes ''bcm2835-mmc'' b = 0x3f300000"
  "device_base sample_fdt sample_ranges sample_nodes ''bcm2835-gpio'' b = b"
  "device_base sample_fdt sample_ranges sample_nodes ''bcm2835-system-timer'' b = b"
  "device_base sample_fdt sample_ranges sample_nodes ''bcm2835-mbox'' b = b"
  by code_simp+

lemma sample_memory: "regs_of (is_memory sample_fdt) sample_fdt sample_ranges sample_nodes = [(0, 0x3c000000)]"
  by code_simp

lemma sample_chain:
  "bus_chain sample_fdt (fdt_node_offset_by_compatible sample_fdt (-1) ''simple-bus'') [100]"
  "list_all (\<lambda>b. bus_ranges sample_fdt b \<noteq> None) [100]"
  "sample_ranges = concat (map (\<lambda>b. the (bus_ranges sample_fdt b)) [100])"
  by code_simp+

lemma sample_board_uart: "uart_init (sample_board\<lparr>uart_base := a, gpio_base := b, timer_base := c\<rparr>) 0 = Some 800000"
  by (simp add: uart_init_def hw_usleep_def hw_register_timer_def read_clock_def mmio_read_def mmio_write_def sample_board_def
      hw_timer_loop.simps register_timer_def compare_timer_def)

section \<open>Properties\<close>



text \<open>C38: On its first call for a tree whose properties can be read, \<open>parse_dtb\<close> sets the base of each
  driver to the translated address of the last entry of the last device whose compatible
  string contains the name of the driver (and keeps it when there is none), initialises the
  serial port when the bases of port, pins and timer are known, calls back for the entries of
  every memory node, in order, and takes the command line from the chosen node.\<close>

theorem parse_dtb_reads_tree:
  assumes "tree_ok t ds" "load_ranges malloc_ok t = Some sr" "\<not> runonce d"
    and "uart_init (hw\<lparr>uart_base := device_base t sr ds ''pl011'' (uart_base hw),
      gpio_base := device_base t sr ds ''bcm2835-gpio'' (gpio_base hw),
      timer_base := device_base t sr ds ''bcm2835-system-timer'' (timer_base hw)\<rparr>) h = Some h'"
  shows "parse_dtb malloc_ok t mem_cb d hw h st = Some
    (\<lparr>runonce = True, dtb_sr = sr, dtb_cmd_line = fst (fdt_getprop t (fdt_path_offset t ''/chosen'') ''bootargs'')\<rparr>,
     hw\<lparr>uart_base := device_base t sr ds ''pl011'' (uart_base hw),
      gpio_base := device_base t sr ds ''bcm2835-gpio'' (gpio_base hw),
      timer_base := device_base t sr ds ''bcm2835-system-timer'' (timer_base hw),
      emmc_base := device_base t sr ds ''bcm2835-mmc'' (emmc_base hw),
      mbox_base := device_base t sr ds ''bcm2835-mbox'' (mbox_base hw)\<rparr>,
     h', fold (\<lambda>(a, l). mem_cb a l) (regs_of (is_memory t) t sr ds) st)"
  using assms(2,3) by (simp add: parse_dtb_def parse_dtb_devices_bases [OF assms(1,4)] mem_nodes_regs [OF assms(1)] Let_def)

theorem parse_dtb_reads_tree_witness:
  "parse_dtb (\<lambda>_. True) sample_fdt (\<lambda>a l rs. rs @ [(a, l)]) dtb_start sample_board 0 [] = Some
    (\<lparr>runonce = True, dtb_sr = sample_ranges, dtb_cmd_line = 0\<rparr>,
     sample_board\<lparr>uart_base := 0x3f201000, emmc_base := 0x3f300000\<rparr>, 800000, [(0, 0x3c000000)])"
proof -
  have l: "load_ranges (\<lambda>_. True) sample_fdt = Some sample_ranges"
    by (rule load_ranges_chain [OF sample_chain]) (simp_all add: sample_ranges_def)
  have c: "fst (fdt_getprop sample_fdt (fdt_path_offset sample_fdt ''/chosen'') ''bootargs'') = 0"
    by code_simp
  have "\<not> runonce dtb_start"
    by (simp add: dtb_start_def)
  from parse_dtb_reads_tree [OF sample_tree_ok l this sample_board_uart, where mem_cb = "\<lambda>a l rs. rs @ [(a, l)]" and st = "[]"]
  show ?thesis
    by (simp add: sample_bases sample_memory c sample_board_def)
qed

end
