(* ===== verification/BlockDev.thy ===== *)
theory BlockDev
  imports ByteUtil
begin

text \<open>
  Block devices (block.h, block.c): the device structure with its operations,
  and the loops \<open>block_read\<close> and \<open>block_write\<close> that cut a transfer into blocks.

  The world behind a device is a type variable.  A read operation takes the
  world, a size and a block number and gives the int it returns, the bytes it
  stored from the start of the caller's buffer, and the new world; a write takes
  the caller's buffer as well.  \<open>None\<close> is a memory error or a call that does not
  return.

  The locales \<open>disk\<close> and \<open>rw_disk\<close> are the contract of a device that holds a flat
  image of its blocks; everything above the devices rests on it.
\<close>

section \<open>Model\<close>

type_synonym 'w bd_read_op = "'w \<Rightarrow> u32 \<Rightarrow> u32 \<Rightarrow> (int \<times> buf \<times> 'w) option"
type_synonym 'w bd_write_op = "'w \<Rightarrow> buf \<Rightarrow> u32 \<Rightarrow> u32 \<Rightarrow> (int \<times> 'w) option"

text \<open>An operation that is NULL is \<open>None\<close>.  The back pointer to the file system
  is kept by the file system layer.\<close>

record 'w block_device =
  driver_name :: cstring
  device_name :: cstring
  device_id :: buf
  dev_id_len :: u32
  supports_multiple_block_read :: bool
  supports_multiple_block_write :: bool
  bd_read :: "'w bd_read_op option"
  bd_write :: "'w bd_write_op option"
  block_size :: u32
  num_blocks :: u32

text \<open>The do-while loop of \<open>block_read\<close>.  MAX_TRIES is 1, so the first negative
  result ends it.  It does not end when the block size is zero.\<close>

partial_function (option) block_read_loop ::
  "'w bd_read_op \<Rightarrow> u32 \<Rightarrow> u32 \<Rightarrow> 'w \<Rightarrow> buf \<Rightarrow> int \<Rightarrow> u32 \<Rightarrow> u32 \<Rightarrow> (u32 \<times> buf \<times> 'w) option" where
  "block_read_loop rd bs starting w b buf_offset block_offset buf_size = do {
     let to_read = (if buf_size > bs then bs else buf_size);
     (ret, data, w) \<leftarrow> rd w to_read (starting + block_offset);
     b \<leftarrow> (if buf_offset < 0 then None else store b (nat buf_offset) data);
     if ret < 0 then Some (word_of_int ret, b, w)
     else do {
       let buf_offset = buf_offset + sint to_read;
       let block_offset = block_offset + 1;
       let buf_size = (if buf_size < bs then 0 else buf_size - bs);
       if buf_size > 0
       then block_read_loop rd bs starting w b buf_offset block_offset buf_size
       else Some (word_of_int buf_offset, b, w) } }"

definition block_read ::
  "'w block_device \<Rightarrow> 'w \<Rightarrow> buf \<Rightarrow> u32 \<Rightarrow> u32 \<Rightarrow> (u32 \<times> buf \<times> 'w) option" where
  "block_read dev w b buf_size starting_block =
     (case bd_read dev of
        None \<Rightarrow> Some (0, b, w)
      | Some rd \<Rightarrow>
          if supports_multiple_block_read dev \<and> block_size dev = 0 then None
          else if supports_multiple_block_read dev \<and> buf_size div block_size dev > 1 then do {
            (ret, data, w) \<leftarrow> rd w buf_size starting_block;
            b \<leftarrow> store b 0 data;
            Some (word_of_int ret, b, w) }
          else block_read_loop rd (block_size dev) starting_block w b 0 0 buf_size)"

partial_function (option) block_write_loop ::
  "'w bd_write_op \<Rightarrow> u32 \<Rightarrow> u32 \<Rightarrow> 'w \<Rightarrow> buf \<Rightarrow> int \<Rightarrow> u32 \<Rightarrow> u32 \<Rightarrow> (u32 \<times> 'w) option" where
  "block_write_loop wr bs starting w b buf_offset block_offset buf_size = do {
     let to_write = (if buf_size > bs then bs else buf_size);
     (ret, w) \<leftarrow> (if buf_offset < 0 then None
                  else wr w (drop (nat buf_offset) b) to_write (starting + block_offset));
     if ret < 0 then Some (word_of_int ret, w)
     else do {
       let buf_offset = buf_offset + sint to_write;
       let block_offset = block_offset + 1;
       let buf_size = (if buf_size < bs then 0 else buf_size - bs);
       if buf_size > 0
       then block_write_loop wr bs starting w b buf_offset block_offset buf_size
       else Some (word_of_int buf_offset, w) } }"

definition block_write ::
  "'w block_device \<Rightarrow> 'w \<Rightarrow> buf \<Rightarrow> u32 \<Rightarrow> u32 \<Rightarrow> (u32 \<times> 'w) option" where
  "block_write dev w b buf_size starting_block =
     (case bd_write dev of
        None \<Rightarrow> Some (0, w)
      | Some wr \<Rightarrow> block_write_loop wr (block_size dev) starting_block w b 0 0 buf_size)"

section \<open>The contract of a device\<close>

text \<open>A device with a flat image: a read of a positive whole number of blocks
  inside the image returns its size and stores the bytes of the image, and
  neither the image nor the device's own invariant is disturbed.  The image is
  short enough that the block number 0xffffffff is never valid.\<close>

locale disk =
  fixes rd :: "'w bd_read_op" and bs :: u32 and img :: "'w \<Rightarrow> buf" and inv :: "'w \<Rightarrow> bool"
  assumes bs_pos: "0 < bs"
    and img_bound: "inv w \<Longrightarrow> length (img w) \<le> 4294967295 * unat bs"
    and rd_ok: "inv w \<Longrightarrow> 0 < n \<Longrightarrow> unat n < 2147483648 \<Longrightarrow> unat bs dvd unat n \<Longrightarrow>
      unat blk * unat bs + unat n \<le> length (img w) \<Longrightarrow>
      \<exists>w'. rd w n blk = Some (int (unat n), take (unat n) (drop (unat blk * unat bs) (img w)), w')
        \<and> inv w' \<and> img w' = img w"

locale rw_disk = disk rd bs img inv
  for rd :: "'w bd_read_op" and bs and img :: "'w \<Rightarrow> buf" and inv +
  fixes wr :: "'w bd_write_op"
  assumes wr_ok: "inv w \<Longrightarrow> 0 < n \<Longrightarrow> unat n < 2147483648 \<Longrightarrow> unat bs dvd unat n \<Longrightarrow>
      unat blk * unat bs + unat n \<le> length (img w) \<Longrightarrow> unat n \<le> length b \<Longrightarrow>
      \<exists>w'. wr w b n blk = Some (int (unat n), w') \<and> inv w'
        \<and> img w' = blit (img w) (unat blk * unat bs) (take (unat n) b)"

section \<open>Sequences of transfers\<close>

datatype dev_op = Read_op u32 u32 | Write_op buf u32 u32

text \<open>What a client of a device sees: the result and the data of each transfer.\<close>

fun run_ops :: "'w block_device \<Rightarrow> 'w \<Rightarrow> dev_op list \<Rightarrow> ((u32 \<times> buf) list \<times> 'w) option" where
  "run_ops dev w [] = Some ([], w)"
| "run_ops dev w (Read_op n blk # ops) = do {
     (r, b, w) \<leftarrow> block_read dev w (replicate (unat n) 0) n blk;
     (rs, w) \<leftarrow> run_ops dev w ops;
     Some ((r, b) # rs, w) }"
| "run_ops dev w (Write_op b n blk # ops) = do {
     (r, w) \<leftarrow> block_write dev w b n blk;
     (rs, w) \<leftarrow> run_ops dev w ops;
     Some ((r, []) # rs, w) }"

text \<open>The abstract device: an array of bytes.\<close>

fun run_image :: "nat \<Rightarrow> buf \<Rightarrow> dev_op list \<Rightarrow> (u32 \<times> buf) list \<times> buf" where
  "run_image bs m [] = ([], m)"
| "run_image bs m (Read_op n blk # ops) =
     (case run_image bs m ops of (rs, m') \<Rightarrow> ((n, take (unat n) (drop (unat blk * bs) m)) # rs, m'))"
| "run_image bs m (Write_op b n blk # ops) =
     (case run_image bs (blit m (unat blk * bs) (take (unat n) b)) ops of (rs, m') \<Rightarrow> ((n, []) # rs, m'))"

text \<open>Transfers of a positive whole number of blocks inside the device.\<close>

definition valid_range :: "u32 \<Rightarrow> nat \<Rightarrow> u32 \<Rightarrow> u32 \<Rightarrow> bool" where
  "valid_range bs sz n blk \<longleftrightarrow> 0 < n \<and> unat bs dvd unat n \<and> unat n < 2147483648
     \<and> unat blk * unat bs + unat n \<le> sz"

fun valid_op :: "u32 \<Rightarrow> nat \<Rightarrow> dev_op \<Rightarrow> bool" where
  "valid_op bs sz (Read_op n blk) = valid_range bs sz n blk"
| "valid_op bs sz (Write_op b n blk) \<longleftrightarrow> valid_range bs sz n blk \<and> unat n \<le> length b"

section \<open>The transfer loops on such a device\<close>

context disk
begin

lemma next_block:
  assumes "inv w" "unat blk * unat bs + unat n \<le> length (img w)" "unat bs \<le> unat n"
  shows "unat (blk + 1) = unat (blk :: u32) + 1"
proof (rule unat_Suc_u32)
  have "(unat blk + 1) * unat bs = unat blk * unat bs + unat bs"
    by simp
  then have "(unat blk + 1) * unat bs \<le> 4294967295 * unat bs"
    using img_bound [OF assms(1)] assms(2,3) by linarith
  moreover have "0 < unat bs"
    using bs_pos by (simp add: word_less_nat_alt)
  ultimately have "unat blk + 1 \<le> 4294967295"
    by (rule mult_right_le_imp_le)
  then show "unat blk + 1 < 4294967296"
    by simp
qed

lemma block_read_loop_image:
  assumes "inv w" "0 < n" "unat bs dvd unat n" "off + unat n < 2147483648" "off + unat n \<le> length b"
    and "unat (starting + boff) * unat bs + unat n \<le> length (img w)"
  shows "\<exists>w'. block_read_loop rd bs starting w b (int off) boff n =
      Some (word_of_nat (off + unat n),
        blit b off (take (unat n) (drop (unat (starting + boff) * unat bs) (img w))), w')
    \<and> inv w' \<and> img w' = img w"
  using assms
proof (induction "unat n" arbitrary: n w b off boff rule: less_induct)
  case less
  let ?B = "unat bs" and ?blk = "starting + boff"
  let ?at = "unat ?blk * ?B"
  have B: "0 < ?B" "0 < unat n" "?B \<le> unat n"
    using bs_pos less.prems by (auto simp: word_less_nat_alt dvd_imp_le)
  have to_read: "(if n > bs then bs else n) = bs"
    using B by (auto simp: word_less_nat_alt word_unat_eq_iff)
  obtain w1 where w1: "rd w bs ?blk = Some (int ?B, take ?B (drop ?at (img w)), w1)"
    "inv w1" "img w1 = img w"
    using rd_ok [OF less.prems(1) bs_pos, of ?blk] less.prems B by auto
  let ?data = "take ?B (drop ?at (img w))"
  have data: "length ?data = ?B"
    using less.prems B by simp
  have len: "off + length ?data \<le> length b"
    using data less.prems B by simp
  have neg: "\<not> n < bs"
    using B by (simp add: word_less_nat_alt)
  have sB: "sint bs = int ?B"
    using B less.prems by (intro sint_small_u32) simp
  show ?case
  proof (cases "n = bs")
    case True
    then show ?thesis
      using w1 len sB by (subst block_read_loop.simps) (simp add: Let_def)
  next
    case False
    then have n': "unat (n - bs) = unat n - ?B" "?B < unat n"
      using neg B by (auto simp: unat_sub word_le_nat_alt not_less word_unat_eq_iff)
    have dvd: "?B dvd unat n - ?B"
      using less.prems(3) by (simp add: dvd_diff_nat)
    have blk': "starting + (boff + 1) = ?blk + 1" "unat (?blk + 1) = unat ?blk + 1"
      using next_block [OF less.prems(1,6) B(3)] by (simp_all add: add.assoc)
    let ?b1 = "blit b off ?data"
    obtain w2 where w2: "block_read_loop rd bs starting w1 ?b1 (int (off + ?B)) (boff + 1) (n - bs) =
        Some (word_of_nat (off + ?B + unat (n - bs)),
          blit ?b1 (off + ?B) (take (unat (n - bs)) (drop (unat (?blk + 1) * ?B) (img w1))), w2)"
      "inv w2" "img w2 = img w1"
      using less.hyps [of "n - bs" w1 "off + ?B" ?b1 "boff + 1"] w1 n' dvd B less.prems len blk'
      by (auto simp: word_less_nat_alt)
    have "take (unat n) (drop ?at (img w)) = ?data @ take (unat n - ?B) (drop (?at + ?B) (img w))"
      using n' take_add [of ?B "unat n - ?B" "drop ?at (img w)"] by (simp add: add.commute)
    then have "blit ?b1 (off + ?B) (take (unat (n - bs)) (drop (unat (?blk + 1) * ?B) (img w1))) =
        blit b off (take (unat n) (drop ?at (img w)))"
      using blit_append [of off ?data "take (unat n - ?B) (drop (?at + ?B) (img w))" b]
        data less.prems n' blk' w1(3) B by (simp add: add.commute)
    then show ?thesis
      using w1 w2 len sB neg n' B
      by (subst block_read_loop.simps) (simp add: Let_def to_read word_less_nat_alt add.assoc)
  qed
qed

lemma block_read_image:
  assumes "bd_read dev = Some rd" "block_size dev = bs" "inv w" "0 < n" "unat bs dvd unat n"
    and "unat n < 2147483648" "unat n \<le> length b" "unat blk * unat bs + unat n \<le> length (img w)"
  shows "\<exists>w'. block_read dev w b n blk =
      Some (n, blit b 0 (take (unat n) (drop (unat blk * unat bs) (img w))), w')
    \<and> inv w' \<and> img w' = img w"
  using block_read_loop_image [of w n 0 b blk 0] rd_ok [of w n blk] assms bs_pos
  by (auto simp: block_read_def)

end

context rw_disk
begin

lemma block_write_loop_image:
  assumes "inv w" "0 < n" "unat bs dvd unat n" "off + unat n < 2147483648" "off + unat n \<le> length b"
    and "unat (starting + boff) * unat bs + unat n \<le> length (img w)"
  shows "\<exists>w'. block_write_loop wr bs starting w b (int off) boff n =
      Some (word_of_nat (off + unat n), w') \<and> inv w'
    \<and> img w' = blit (img w) (unat (starting + boff) * unat bs) (take (unat n) (drop off b))"
  using assms
proof (induction "unat n" arbitrary: n w off boff rule: less_induct)
  case less
  let ?B = "unat bs" and ?blk = "starting + boff"
  let ?at = "unat ?blk * ?B"
  have B: "0 < ?B" "0 < unat n" "?B \<le> unat n"
    using bs_pos less.prems by (auto simp: word_less_nat_alt dvd_imp_le)
  have to_write: "(if n > bs then bs else n) = bs"
    using B by (auto simp: word_less_nat_alt word_unat_eq_iff)
  let ?data = "take ?B (drop off b)"
  obtain w1 where w1: "wr w (drop off b) bs ?blk = Some (int ?B, w1)"
    "inv w1" "img w1 = blit (img w) ?at ?data"
    using wr_ok [OF less.prems(1) bs_pos, of ?blk "drop off b"] less.prems B by fastforce
  have data: "length ?data = ?B" "?at + length ?data \<le> length (img w)"
    using less.prems B by simp_all
  then have img1: "length (img w1) = length (img w)"
    using w1(3) by simp
  have neg: "\<not> n < bs"
    using B by (simp add: word_less_nat_alt)
  have sB: "sint bs = int ?B"
    using B less.prems by (intro sint_small_u32) simp
  show ?case
  proof (cases "n = bs")
    case True
    then show ?thesis
      using w1 sB by (subst block_write_loop.simps) (simp add: Let_def)
  next
    case False
    then have n': "unat (n - bs) = unat n - ?B" "?B < unat n"
      using neg B by (auto simp: unat_sub word_le_nat_alt not_less word_unat_eq_iff)
    have dvd: "?B dvd unat n - ?B"
      using less.prems(3) by (simp add: dvd_diff_nat)
    have blk': "starting + (boff + 1) = ?blk + 1" "unat (?blk + 1) = unat ?blk + 1"
      using next_block [OF less.prems(1,6) B(3)] by (simp_all add: add.assoc)
    obtain w2 where w2: "block_write_loop wr bs starting w1 b (int (off + ?B)) (boff + 1) (n - bs) =
        Some (word_of_nat (off + ?B + unat (n - bs)), w2)" "inv w2"
      "img w2 = blit (img w1) (unat (?blk + 1) * ?B) (take (unat (n - bs)) (drop (off + ?B) b))"
      using less.hyps [of "n - bs" w1 "off + ?B" "boff + 1"] w1(2) n' dvd B less.prems img1 blk'
      by (auto simp: word_less_nat_alt)
    have "take (unat n) (drop off b) = ?data @ take (unat n - ?B) (drop (off + ?B) b)"
      using n' take_add [of ?B "unat n - ?B" "drop off b"] by (simp add: add.commute)
    then have "img w2 = blit (img w) ?at (take (unat n) (drop off b))"
      using blit_append [of ?at ?data "take (unat n - ?B) (drop (off + ?B) b)" "img w"]
        data less.prems n' blk' w1(3) w2(3) B by (simp add: add.commute)
    then show ?thesis
      using w1 w2 sB neg n' B
      by (subst block_write_loop.simps) (simp add: Let_def to_write word_less_nat_alt add.assoc)
  qed
qed

lemma block_write_image:
  assumes "bd_write dev = Some wr" "block_size dev = bs" "inv w" "0 < n" "unat bs dvd unat n"
    and "unat n < 2147483648" "unat n \<le> length b" "unat blk * unat bs + unat n \<le> length (img w)"
  shows "\<exists>w'. block_write dev w b n blk = Some (n, w') \<and> inv w'
    \<and> img w' = blit (img w) (unat blk * unat bs) (take (unat n) b)"
  using block_write_loop_image [of w n 0 b blk 0] assms by (auto simp: block_write_def)

text \<open>What is written is read back, and blocks elsewhere are untouched.\<close>

lemma block_write_read:
  assumes "bd_write dev = Some wr" "bd_read dev = Some rd" "block_size dev = bs" "inv w"
    and "0 < n" "unat bs dvd unat n" "unat n < 2147483648" "unat n \<le> length b" "unat n \<le> length b'"
    and "unat blk * unat bs + unat n \<le> length (img w)"
  shows "\<exists>w1 w2. block_write dev w b n blk = Some (n, w1)
    \<and> block_read dev w1 b' n blk = Some (n, blit b' 0 (take (unat n) b), w2)
    \<and> inv w2 \<and> img w2 = blit (img w) (unat blk * unat bs) (take (unat n) b)"
proof -
  obtain w1 where w1: "block_write dev w b n blk = Some (n, w1)" "inv w1"
    "img w1 = blit (img w) (unat blk * unat bs) (take (unat n) b)"
    using block_write_image assms by blast
  have "take (unat n) (drop (unat blk * unat bs) (img w1)) = take (unat n) b"
    using blit_here [of "unat blk * unat bs" "take (unat n) b" "img w"] w1(3) assms
    by (simp add: min_absorb2)
  moreover have "\<exists>w2. block_read dev w1 b' n blk =
      Some (n, blit b' 0 (take (unat n) (drop (unat blk * unat bs) (img w1))), w2)
      \<and> inv w2 \<and> img w2 = img w1"
    using assms w1(2,3) by (intro block_read_image) (auto simp: min_def)
  ultimately show ?thesis
    using w1 by auto
qed

lemma run_ops_image:
  assumes "bd_write dev = Some wr" "bd_read dev = Some rd" "block_size dev = bs" "inv w"
    and "\<forall>q \<in> set ops. valid_op bs (length (img w)) q"
  shows "\<exists>w'. run_ops dev w ops = Some (fst (run_image (unat bs) (img w) ops), w')
    \<and> inv w' \<and> img w' = snd (run_image (unat bs) (img w) ops)"
  using assms(4,5)
proof (induction ops arbitrary: w)
  case (Cons q ops)
  show ?case
  proof (cases q)
    case (Read_op n blk)
    then have v: "valid_range bs (length (img w)) n blk"
      using Cons.prems by simp
    obtain w1 where w1: "block_read dev w (replicate (unat n) 0) n blk =
        Some (n, blit (replicate (unat n) 0) 0 (take (unat n) (drop (unat blk * unat bs) (img w))), w1)"
      "inv w1" "img w1 = img w"
      using block_read_image [OF assms(2,3) Cons.prems(1), of n "replicate (unat n) 0" blk] v
      by (auto simp: valid_range_def)
    moreover have "blit (replicate (unat n) 0) 0 (take (unat n) (drop (unat blk * unat bs) (img w))) =
        take (unat n) (drop (unat blk * unat bs) (img w))"
    proof -
      have "unat n \<le> length (img w) - unat blk * unat bs"
        using v unfolding valid_range_def by linarith
      then show ?thesis
        by (simp add: blit_def)
    qed
    moreover obtain w2 where "run_ops dev w1 ops = Some (fst (run_image (unat bs) (img w1) ops), w2)"
      "inv w2" "img w2 = snd (run_image (unat bs) (img w1) ops)"
      using Cons.IH [OF w1(2)] Cons.prems(2) w1(3) by auto
    ultimately show ?thesis
      by (auto simp: Read_op split: prod.splits)
  next
    case (Write_op b n blk)
    then have v: "valid_range bs (length (img w)) n blk" "unat n \<le> length b"
      using Cons.prems by simp_all
    obtain w1 where w1: "block_write dev w b n blk = Some (n, w1)" "inv w1"
      "img w1 = blit (img w) (unat blk * unat bs) (take (unat n) b)"
      using block_write_image [OF assms(1,3) Cons.prems(1), of n b blk] v
      by (auto simp: valid_range_def)
    moreover have "length (img w1) = length (img w)"
      using w1(3) v by (simp add: valid_range_def min_absorb2)
    moreover from this obtain w2 where
      "run_ops dev w1 ops = Some (fst (run_image (unat bs) (img w1) ops), w2)"
      "inv w2" "img w2 = snd (run_image (unat bs) (img w1) ops)"
      using Cons.IH [OF w1(2)] Cons.prems(2) by auto
    ultimately show ?thesis
      by (auto simp: Write_op split: prod.splits)
  qed
qed (use assms in simp)

end

section \<open>Properties\<close>

text \<open>\<open>block_read\<close> of at most one block believes any non-negative result of
  the device: it reports the whole request as read even when the device
  returned fewer bytes, or none.\<close>

theorem block_read_ignores_short_reads:
  assumes "bd_read dev = Some rd" "n \<le> block_size dev" "0 < block_size dev" "unat n < 2147483648"
    and "rd w n blk = Some (r, data, w')" "0 \<le> r" "length data \<le> length b"
  shows "block_read dev w b n blk = Some (n, blit b 0 data, w')"
proof -
  have "unat n div unat (block_size dev) \<le> 1"
  proof (cases "n = block_size dev")
    case False
    then have "unat n < unat (block_size dev)"
      using assms(2) by (simp add: word_less_nat_alt [symmetric])
    then show ?thesis
      by simp
  qed (cases "unat (block_size dev) = 0"; simp)
  then have "\<not> n div block_size dev > 1"
    by (simp add: word_less_nat_alt unat_div)
  moreover have "\<not> block_size dev < n" "block_size dev \<noteq> 0"
    using assms(2,3) by auto
  moreover have "(if n < block_size dev then 0 else n - block_size dev) = 0"
    using assms(2) by auto
  moreover have "\<not> r < 0"
    using assms(6) by simp
  ultimately show ?thesis
    using assms(1,5,7) sint_small_u32 [OF assms(4)]
    by (subst block_read_def, subst block_read_loop.simps) (simp add: Let_def)
qed

theorem block_read_ignores_short_reads_witness:
  "block_read \<lparr>driver_name = [], device_name = [], device_id = [], dev_id_len = 0,
      supports_multiple_block_read = False, supports_multiple_block_write = False,
      bd_read = Some (\<lambda>w n blk. Some (0, [], w)), bd_write = None, block_size = 512, num_blocks = 0\<rparr>
     () [1, 2, 3] 3 0 = Some (3, [1, 2, 3], ())"
  using block_read_ignores_short_reads [of "\<lparr>driver_name = [], device_name = [], device_id = [],
      dev_id_len = 0, supports_multiple_block_read = False, supports_multiple_block_write = False,
      bd_read = Some (\<lambda>w n blk. Some (0, [], w)), bd_write = None, block_size = 512, num_blocks = 0\<rparr>"
      "\<lambda>w n blk. Some (0, [], w)" 3 "()" 0 0 "[]" "()" "[1, 2, 3]"]
  by simp

end
