(* ===== verification/Ramdisk.thy ===== *)
theory Ramdisk
  imports BlockDev MemChunk
begin

text \<open>
  The ramdisk block device of ramdisk.c: its world is the flat physical memory,
  in which an address is an index.  The locale contract \<open>rw_disk\<close> is
  interpreted on it, for a device whose address and size have been filled in;
  \<open>ramdisk_init\<close> does not fill them in.
\<close>

section \<open>Model\<close>

record ramdisk_dev =
  rd_address :: u32
  rd_size :: u32
  rd_block_size :: u32

text \<open>The number of bytes transferred after clamping the request to the end of
  the disk; the subtraction is unsigned and wraps.\<close>

definition ramdisk_start :: "ramdisk_dev \<Rightarrow> u32 \<Rightarrow> u32" where
  "ramdisk_start rdev block_no = rd_address rdev + rd_block_size rdev * block_no"

definition ramdisk_clamp :: "ramdisk_dev \<Rightarrow> u32 \<Rightarrow> u32 \<Rightarrow> u32" where
  "ramdisk_clamp rdev buf_size block_no =
     (let start_address = ramdisk_start rdev block_no;
          ramdisk_end = rd_address rdev + rd_size rdev
      in if buf_size > ramdisk_end - start_address then ramdisk_end - start_address else buf_size)"

text \<open>The bytes the chosen copy routine moves.\<close>

definition ramdisk_moved :: "u32 \<Rightarrow> u32 \<Rightarrow> nat" where
  "ramdisk_moved start_address n =
     (if start_address AND 0xf = 0 \<and> n AND 0xf = 0 then quick_len (unat n) else unat n)"

definition ramdisk_read :: "ramdisk_dev \<Rightarrow> buf bd_read_op" where
  "ramdisk_read rdev mem buf_size block_no = do {
     let start_address = ramdisk_start rdev block_no;
     let n = ramdisk_clamp rdev buf_size block_no;
     data \<leftarrow> load mem (unat start_address) (ramdisk_moved start_address n);
     Some (sint n, data, mem) }"

definition ramdisk_write :: "ramdisk_dev \<Rightarrow> buf bd_write_op" where
  "ramdisk_write rdev mem b buf_size block_no = do {
     let start_address = ramdisk_start rdev block_no;
     let n = ramdisk_clamp rdev buf_size block_no;
     data \<leftarrow> load b 0 (ramdisk_moved start_address n);
     mem \<leftarrow> store mem (unat start_address) data;
     Some (sint n, mem) }"

definition ramdisk_device :: "ramdisk_dev \<Rightarrow> cstring \<Rightarrow> buf block_device" where
  "ramdisk_device rdev name =
     \<lparr>driver_name = lit ''ramdisk'', device_name = name, device_id = [], dev_id_len = 0,
      supports_multiple_block_read = True, supports_multiple_block_write = True,
      bd_read = Some (ramdisk_read rdev), bd_write = Some (ramdisk_write rdev),
      block_size = 512, num_blocks = 0\<rparr>"

text \<open>\<open>ramdisk_init\<close>: the device structure is cleared and then given a block size
  and a name.  \<open>register_fs\<close> is an argument here; \<open>alloc\<close> answers the two
  allocations (device, name).  The result carries the error number set.\<close>

definition ramdisk_init ::
  "(buf block_device \<Rightarrow> int \<Rightarrow> 's \<Rightarrow> (int \<times> 's) option) \<Rightarrow> bool \<times> bool \<Rightarrow>
   u32 \<Rightarrow> u32 \<Rightarrow> int \<Rightarrow> cstring \<Rightarrow> chunk_state \<Rightarrow> 's \<Rightarrow>
   (int \<times> errno option \<times> chunk_state \<times> 's) option" where
  "ramdisk_init register_fs alloc address sz fs_type name cs s = do {
     (address, cs) \<leftarrow> (if address = 0 then chunk_get_any_chunk sz cs else Some (address, cs));
     if address = 0 then Some (-1, Some ENOMEM, cs, s)
     else if \<not> fst alloc then Some (-1, None, cs, s)
     else if \<not> snd alloc then Some (-1, None, cs, s)
     else do {
       let rdev = \<lparr>rd_address = 0, rd_size = 0, rd_block_size = 512\<rparr>;
       (ret, s) \<leftarrow> register_fs (ramdisk_device rdev name) fs_type s;
       Some (ret, None, cs, s) } }"

section \<open>The device inside its range\<close>

definition ramdisk_img :: "ramdisk_dev \<Rightarrow> buf \<Rightarrow> buf" where
  "ramdisk_img rdev mem = take (unat (rd_size rdev)) (drop (unat (rd_address rdev)) mem)"

definition ramdisk_inv :: "ramdisk_dev \<Rightarrow> buf \<Rightarrow> bool" where
  "ramdisk_inv rdev mem \<longleftrightarrow> rd_block_size rdev = 512
     \<and> unat (rd_address rdev) + unat (rd_size rdev) < 4294967296
     \<and> unat (rd_address rdev) + unat (rd_size rdev) \<le> length mem"

lemma length_ramdisk_img: "ramdisk_inv rdev mem \<Longrightarrow> length (ramdisk_img rdev mem) = unat (rd_size rdev)"
  by (simp add: ramdisk_inv_def ramdisk_img_def min_absorb2 le_diff_conv2)

lemma ramdisk_start_eq:
  assumes "ramdisk_inv rdev mem" "unat block_no * 512 \<le> unat (rd_size rdev)"
  shows "unat (ramdisk_start rdev block_no) = unat (rd_address rdev) + unat block_no * 512"
proof -
  have "unat (512 * block_no :: u32) = unat block_no * 512"
    using assms unat_mult_u32 [of 512 block_no] by (simp add: ramdisk_inv_def mult.commute)
  then show ?thesis
    using assms by (simp add: ramdisk_start_def ramdisk_inv_def unat_plus_if_u32)
qed

lemma ramdisk_clamp_eq:
  assumes "ramdisk_inv rdev mem" "unat block_no * 512 + unat n \<le> unat (rd_size rdev)"
  shows "ramdisk_clamp rdev n block_no = n"
proof -
  have e: "unat (rd_address rdev + rd_size rdev) = unat (rd_address rdev) + unat (rd_size rdev)"
    using assms by (simp add: ramdisk_inv_def unat_plus_if_u32)
  moreover have s: "unat (ramdisk_start rdev block_no) = unat (rd_address rdev) + unat block_no * 512"
    using assms by (intro ramdisk_start_eq) auto
  ultimately have "unat (rd_address rdev + rd_size rdev - ramdisk_start rdev block_no) =
      unat (rd_size rdev) - unat block_no * 512"
    using assms by (subst unat_sub_u32) (simp_all add: word_le_nat_alt)
  then have "\<not> n > rd_address rdev + rd_size rdev - ramdisk_start rdev block_no"
    using assms by (simp add: word_less_nat_alt)
  then show ?thesis
    by (simp add: ramdisk_clamp_def Let_def)
qed

lemma ramdisk_moved_eq: "0 < n \<Longrightarrow> ramdisk_moved a n = unat n"
  by (auto simp: ramdisk_moved_def and_15_mod quick_len_multiple word_less_nat_alt)

interpretation ramdisk: rw_disk "ramdisk_read rdev" 512 "ramdisk_img rdev" "ramdisk_inv rdev"
    "ramdisk_write rdev" for rdev
proof unfold_locales
  fix mem b :: buf and n blk :: u32
  show "(0 :: u32) < 512"
    by simp
  show "ramdisk_inv rdev mem \<Longrightarrow> length (ramdisk_img rdev mem) \<le> 4294967295 * unat (512 :: u32)"
    using length_ramdisk_img [of rdev mem] unat_u32_less [of "rd_size rdev"]
    by (simp del: unat_u32_less)
  assume a: "ramdisk_inv rdev mem" "0 < n" "unat n < 2147483648"
    "unat blk * unat (512 :: u32) + unat n \<le> length (ramdisk_img rdev mem)"
  have range: "unat blk * 512 + unat n \<le> unat (rd_size rdev)"
    using a length_ramdisk_img by simp
  have eqs: "unat (ramdisk_start rdev blk) = unat (rd_address rdev) + unat blk * 512"
      "ramdisk_clamp rdev n blk = n" "ramdisk_moved (ramdisk_start rdev blk) n = unat n"
    using a range by (auto intro: ramdisk_start_eq ramdisk_clamp_eq ramdisk_moved_eq)
  have mem: "unat (rd_address rdev) + unat blk * 512 + unat n \<le> length mem"
    using a range by (simp add: ramdisk_inv_def)
  show "\<exists>w'. ramdisk_read rdev mem n blk = Some (int (unat n),
        take (unat n) (drop (unat blk * unat (512 :: u32)) (ramdisk_img rdev mem)), w')
      \<and> ramdisk_inv rdev w' \<and> ramdisk_img rdev w' = ramdisk_img rdev mem"
  proof -
    have "unat n \<le> unat (rd_size rdev) - unat blk * 512"
      using range by simp
    then have "take (unat n) (drop (unat blk * 512) (ramdisk_img rdev mem)) =
        take (unat n) (drop (unat (rd_address rdev) + unat blk * 512) mem)"
      by (simp add: ramdisk_img_def drop_take min_absorb1 add.commute)
    then show ?thesis
      using a range mem eqs sint_small_u32 [OF a(3)] by (simp add: ramdisk_read_def Let_def)
  qed
  show "\<exists>w'. ramdisk_write rdev mem b n blk = Some (int (unat n), w') \<and> ramdisk_inv rdev w'
      \<and> ramdisk_img rdev w' =
        blit (ramdisk_img rdev mem) (unat blk * unat (512 :: u32)) (take (unat n) b)"
    if "unat n \<le> length b"
  proof -
    let ?m = "blit mem (unat (rd_address rdev) + unat blk * 512) (take (unat n) b)"
    have len: "length ?m = length mem"
      using mem that by simp
    have "ramdisk_write rdev mem b n blk = Some (int (unat n), ?m)"
      using a mem eqs sint_small_u32 [OF a(3)] that by (simp add: ramdisk_write_def Let_def)
    moreover have "ramdisk_img rdev ?m =
        blit (ramdisk_img rdev mem) (unat blk * unat (512 :: u32)) (take (unat n) b)"
      using a range mem that len
      by (intro nth_equalityI) (auto simp: ramdisk_img_def nth_blit ramdisk_inv_def)
    ultimately show ?thesis
      using a len by (simp add: ramdisk_inv_def)
  qed
qed

section \<open>Properties\<close>



text \<open>\<open>ramdisk_init\<close> loses its address and size: the device it registers is
  the same for all of them, a read of its block 0 transfers no data, and a read
  of block k > 0 returns absolute memory from 512 k on instead of the ramdisk.\<close>

theorem ramdisk_init_ignores_address:
  assumes "address1 \<noteq> 0" "address2 \<noteq> 0" "k > 0" "unat k * 512 + unat n \<le> length mem"
    and "unat k * 512 + unat n < 4294967296" "unat n < 2147483648" "0 < n" "16 \<le> length mem"
  shows "ramdisk_init reg alloc address1 size1 ty name cs s = ramdisk_init reg alloc address2 size2 ty name cs s
    \<and> (\<exists>dev rd. ramdisk_init (\<lambda>d ty s. Some (0, Some d)) (True, True) address1 size1 ty name cs None
          = Some (0, None, cs, Some dev)
        \<and> bd_read dev = Some rd
        \<and> rd mem n 0 = Some (0, take 16 mem, mem)
        \<and> rd mem n k = Some (int (unat n), take (unat n) (drop (unat k * 512) mem), mem))"
proof -
  let ?rdev = "\<lparr>rd_address = 0, rd_size = 0, rd_block_size = 512\<rparr>"
  have "unat (512 * k :: u32) = unat k * 512"
    using assms unat_mult_u32 [of 512 k] by (simp add: mult.commute)
  then have start: "unat (ramdisk_start ?rdev k) = unat k * 512"
    by (simp add: ramdisk_start_def)
  have "unat n \<le> 4294967296 - unat (ramdisk_start ?rdev k)" "ramdisk_start ?rdev k \<noteq> 0"
    using assms start by (auto simp: word_less_nat_alt word_unat_eq_iff)
  moreover from this have "unat (- ramdisk_start ?rdev k) = 4294967296 - unat (ramdisk_start ?rdev k)"
    using unat_sub_if' [of 0 "ramdisk_start ?rdev k"] by (simp add: word_unat_eq_iff)
  ultimately have "\<not> n > 0 - ramdisk_start ?rdev k"
    by (simp add: word_less_nat_alt)
  then have clamp: "ramdisk_clamp ?rdev n k = n"
    by (simp add: ramdisk_clamp_def)
  have 0: "ramdisk_clamp ?rdev n 0 = 0" "ramdisk_start ?rdev 0 = 0"
    using assms by (simp_all add: ramdisk_clamp_def ramdisk_start_def)
  have "ramdisk_read ?rdev mem n 0 = Some (0, take 16 mem, mem)"
    using assms 0 by (simp add: ramdisk_read_def ramdisk_moved_def)
  moreover have "ramdisk_read ?rdev mem n k = Some (int (unat n), take (unat n) (drop (unat k * 512) mem), mem)"
    using assms start clamp ramdisk_moved_eq [of n] sint_small_u32 [of n]
    by (simp add: ramdisk_read_def)
  ultimately show ?thesis
    using assms by (simp add: ramdisk_init_def ramdisk_device_def Let_def)
qed

theorem ramdisk_init_ignores_address_witness:
  "ramdisk_init (\<lambda>d ty s. Some (0, s)) (True, True) 0x8000 0x1000 0 [] chunk_init ()
     = ramdisk_init (\<lambda>d ty s. Some (0, s)) (True, True) 0x9000 0x2000 0 [] chunk_init ()"
  using ramdisk_init_ignores_address [of "0x8000" "0x9000" 1 512 "replicate 2048 0"
      "\<lambda>d ty s. Some (0, s)" "(True, True)" "0x1000" 0 "[]" chunk_init "()" "0x2000"]
  by simp

text \<open>The clamp does not stop a request that starts past the end: the
  difference end - start wraps, so the read returns memory outside the disk.\<close>

theorem ramdisk_read_past_end:
  assumes "ramdisk_inv rdev mem" "unat (rd_size rdev) < unat blk * 512" "0 < n" "unat n < 2147483648"
    and "unat (rd_address rdev) + unat blk * 512 + unat n < 4294967296"
    and "unat (rd_address rdev) + unat blk * 512 + unat n \<le> length mem"
  shows "ramdisk_read rdev mem n blk =
    Some (int (unat n), take (unat n) (drop (unat (rd_address rdev) + unat blk * 512) mem), mem)"
proof -
  have "unat (512 * blk :: u32) = unat blk * 512"
    using assms unat_mult_u32 [of 512 blk] by (simp add: mult.commute)
  then have start: "unat (ramdisk_start rdev blk) = unat (rd_address rdev) + unat blk * 512"
    using assms by (simp add: ramdisk_start_def ramdisk_inv_def unat_plus_if_u32)
  have e: "unat (rd_address rdev + rd_size rdev) = unat (rd_address rdev) + unat (rd_size rdev)"
    using assms by (simp add: ramdisk_inv_def unat_plus_if_u32)
  have "unat (rd_address rdev + rd_size rdev - ramdisk_start rdev blk) =
      unat (rd_address rdev) + unat (rd_size rdev) + 4294967296 - (unat (rd_address rdev) + unat blk * 512)"
    using assms start e by (simp add: unat_sub_if')
  then have "\<not> n > rd_address rdev + rd_size rdev - ramdisk_start rdev blk"
    using assms by (simp add: word_less_nat_alt)
  then have "ramdisk_clamp rdev n blk = n"
    by (simp add: ramdisk_clamp_def)
  then show ?thesis
    using assms start ramdisk_moved_eq [of n] sint_small_u32 [of n] by (simp add: ramdisk_read_def)
qed

theorem ramdisk_read_past_end_witness:
  "ramdisk_read \<lparr>rd_address = 512, rd_size = 512, rd_block_size = 512\<rparr>
     (replicate 1536 0 @ replicate 512 42) 512 2 = Some (512, replicate 512 42, replicate 1536 0 @ replicate 512 42)"
  using ramdisk_read_past_end [of "\<lparr>rd_address = 512, rd_size = 512, rd_block_size = 512\<rparr>"
      "replicate 1536 0 @ replicate 512 42" 2 512]
  by (simp add: ramdisk_inv_def)

end
