(* ===== verification/BlockCache.thy ===== *)
theory BlockCache
  imports BlockDev Ramdisk
begin

text \<open>
  The write-through block cache of block_cache.c: a direct-mapped cache in a
  memory region, indexed by the low bits of the block number, in front of a
  parent device.  The world of the cached device is the parent's world together
  with the cache.  Transparency (the cached device honours the contract
  \<open>rw_disk\<close> with the image of its parent) is a sublocale, and is interpreted on
  the cache in front of a ramdisk.
\<close>

section \<open>Model\<close>

record 'w cache_dev =
  cache_parent :: "'w block_device"
  cache_block_size :: u32
  cache_start :: u32
  cache_entries :: int
  cache_mask :: u32

text \<open>The contents: the memory from \<open>cache_start\<close> on, and the block held by each
  slot, 0xffffffff for an empty one.\<close>

record cache_state =
  cache_mem :: buf
  cached_blocks :: "u32 list"

definition cache_idx :: "'w cache_dev \<Rightarrow> u32 \<Rightarrow> nat" where
  "cache_idx cd block_no = unat (block_no AND cache_mask cd)"

text \<open>\<open>cache_read\<close>; its first argument says whether the caller's buffer is
  16-aligned, which decides between the two copy routines.\<close>

definition cache_read :: "bool \<Rightarrow> 'w cache_dev \<Rightarrow> ('w \<times> cache_state) bd_read_op" where
  "cache_read al cd s buf_size starting_block = do {
     let w = fst s;
     let c = snd s;
     rd \<leftarrow> bd_read (cache_parent cd);
     if buf_size > cache_block_size cd then do {
       (ret, data, w) \<leftarrow> rd w buf_size starting_block;
       Some (ret, data, (w, c)) }
     else do {
       let idx = cache_idx cd starting_block;
       let at = unat (cache_block_size cd * word_of_nat idx);
       (if idx < length (cached_blocks c) then do {
          (n, s) \<leftarrow>
            (if cached_blocks c ! idx \<noteq> starting_block then do {
               (bytes_read, data, w) \<leftarrow> rd w buf_size starting_block;
               cm \<leftarrow> store (cache_mem c) at data;
               let b = (if bytes_read = sint (cache_block_size cd) then starting_block else 0xffffffff);
               Some (word_of_int bytes_read,
                 (w, c\<lparr>cache_mem := cm, cached_blocks := (cached_blocks c)[idx := b]\<rparr>)) }
             else Some (buf_size, s));
          out \<leftarrow> load (cache_mem (snd s)) at (qcopy_len al (cache_start cd + word_of_nat at) n);
          Some (sint n, out, s) }
        else None) } }"

text \<open>The loop of \<open>cache_write\<close> over the blocks written, from block \<open>i\<close> on.\<close>

primrec cache_update :: "'w cache_dev \<Rightarrow> buf \<Rightarrow> u32 \<Rightarrow> cache_state \<Rightarrow> nat \<Rightarrow> nat \<Rightarrow> cache_state option" where
  "cache_update cd b starting_block c i 0 = Some c"
| "cache_update cd b starting_block c i (Suc k) = do {
     let blk = starting_block + word_of_nat i;
     let idx = cache_idx cd blk;
     c \<leftarrow>
       (if idx < length (cached_blocks c) then
          if cached_blocks c ! idx = blk then do {
            data \<leftarrow> load b (unat (word_of_nat i * cache_block_size cd)) (unat (cache_block_size cd));
            cm \<leftarrow> store (cache_mem c) (unat (word_of_nat idx * cache_block_size cd)) data;
            Some (c\<lparr>cache_mem := cm\<rparr>) }
          else Some c
        else None);
     cache_update cd b starting_block c (i + 1) k }"

definition cache_write :: "'w cache_dev \<Rightarrow> ('w \<times> cache_state) bd_write_op" where
  "cache_write cd s b buf_size starting_block =
     (if cache_block_size cd = 0 then None
      else if buf_size mod cache_block_size cd \<noteq> 0 then Some (-1, s)
      else do {
        wr \<leftarrow> bd_write (cache_parent cd);
        (ret, w) \<leftarrow> wr (fst s) b buf_size starting_block;
        let n = (word_of_int ret :: u32);
        let block_count = sint (n div cache_block_size cd);
        c \<leftarrow> cache_update cd b starting_block (snd s) 0 (nat block_count);
        Some (sint n, (w, c)) })"

text \<open>The loop that counts \<open>lg2\<close>; the shift is arithmetic, so it does not end on a
  negative count.\<close>

partial_function (option) cache_lg2 :: "int \<Rightarrow> nat \<Rightarrow> nat option" where
  "cache_lg2 n lg2 = (if n div 2 \<noteq> 0 then cache_lg2 (n div 2) (lg2 + 1) else Some lg2)"

definition cache_device :: "bool \<Rightarrow> 'w cache_dev \<Rightarrow> ('w \<times> cache_state) block_device" where
  "cache_device al cd = (let parent = cache_parent cd in
     \<lparr>driver_name = lit ''block_cache'', device_name = device_name parent @ lit '''',
      device_id = [], dev_id_len = 0,
      supports_multiple_block_read = supports_multiple_block_read parent,
      supports_multiple_block_write = supports_multiple_block_write parent,
      bd_read = (if bd_read parent \<noteq> None then Some (cache_read al cd) else None),
      bd_write = (if bd_write parent \<noteq> None then Some (cache_write cd) else None),
      block_size = block_size parent, num_blocks = num_blocks parent\<rparr>)"

text \<open>\<open>cache_init\<close>: \<open>alloc\<close> answers the three allocations (device, name, block
  table), \<open>mem\<close> is what the cache region holds, \<open>dev_ok\<close> says that the result
  pointer is not NULL.\<close>

definition cache_init ::
  "bool \<times> bool \<times> bool \<Rightarrow> 'w block_device option \<Rightarrow> bool \<Rightarrow> u32 \<Rightarrow> u32 \<Rightarrow> buf \<Rightarrow>
   (int \<times> ('w cache_dev \<times> cache_state) option) option" where
  "cache_init alloc parent dev_ok start_addr cache_length mem =
     (case parent of
        None \<Rightarrow> Some (-1, None)
      | Some p \<Rightarrow>
          if \<not> dev_ok then Some (-1, None)
          else if \<not> fst alloc then Some (-1, None)
          else if \<not> fst (snd alloc) then Some (-1, None)
          else if block_size p = 0 then None
          else do {
            let entries = sint (cache_length div block_size p);
            if entries = 0 then Some (-1, None)
            else do {
              lg2 \<leftarrow> cache_lg2 entries 0;
              let entries = (2 ^ lg2 :: int);
              if \<not> snd (snd alloc) then Some (-1, None)
              else Some (0, Some
                (\<lparr>cache_parent = p, cache_block_size = block_size p, cache_start = start_addr,
                  cache_entries = entries, cache_mask = word_of_int (entries - 1)\<rparr>,
                 \<lparr>cache_mem = mem, cached_blocks = replicate (nat entries) 0xffffffff\<rparr>)) } })"

section \<open>Coherence\<close>

text \<open>The geometry: every block number has a slot, and every slot is inside the
  cache memory.\<close>

definition cache_geom :: "'w cache_dev \<Rightarrow> cache_state \<Rightarrow> bool" where
  "cache_geom cd c \<longleftrightarrow> (\<forall>b. cache_idx cd b < length (cached_blocks c))
     \<and> length (cached_blocks c) * unat (cache_block_size cd) \<le> length (cache_mem c)
     \<and> length (cached_blocks c) * unat (cache_block_size cd) < 4294967296"

definition cache_coherent :: "'w cache_dev \<Rightarrow> cache_state \<Rightarrow> buf \<Rightarrow> bool" where
  "cache_coherent cd c img \<longleftrightarrow>
     (\<forall>idx < length (cached_blocks c). let b = cached_blocks c ! idx; bs = unat (cache_block_size cd) in
        b \<noteq> 0xffffffff \<longrightarrow> idx = cache_idx cd b \<and> blk_of bs (cache_mem c) idx = blk_of bs img (unat b))"

definition cache_inv ::
  "'w cache_dev \<Rightarrow> 'w bd_read_op \<Rightarrow> 'w bd_write_op \<Rightarrow> u32 \<Rightarrow> ('w \<Rightarrow> buf) \<Rightarrow> ('w \<Rightarrow> bool) \<Rightarrow>
   'w \<times> cache_state \<Rightarrow> bool" where
  "cache_inv cd rd wr bs img ok s \<longleftrightarrow>
     ok (fst s) \<and> bd_read (cache_parent cd) = Some rd \<and> bd_write (cache_parent cd) = Some wr
     \<and> cache_block_size cd = bs \<and> cache_geom cd (snd s) \<and> cache_coherent cd (snd s) (img (fst s))"

lemma slot_in:
  assumes "cache_geom cd c" "idx < length (cached_blocks c)"
  shows "idx * unat (cache_block_size cd) + unat (cache_block_size cd) \<le> length (cache_mem c)"
    and "unat (cache_block_size cd * word_of_nat idx) = idx * unat (cache_block_size cd)"
    and "unat (word_of_nat idx * cache_block_size cd) = idx * unat (cache_block_size cd)"
proof -
  let ?B = "unat (cache_block_size cd)"
  have "Suc idx * ?B \<le> length (cached_blocks c) * ?B"
    using assms(2) by (intro mult_right_mono) auto
  then show *: "idx * ?B + ?B \<le> length (cache_mem c)"
    using assms(1) by (simp add: cache_geom_def)
  have lt: "idx * ?B < 4294967296"
    using \<open>Suc idx * ?B \<le> _\<close> assms(1) by (simp add: cache_geom_def)
  then show "unat (word_of_nat idx * cache_block_size cd) = idx * ?B"
    by (cases "?B = 0") (auto simp: unat_word_ariths unat_of_nat mod_mult_left_eq)
  then show "unat (cache_block_size cd * word_of_nat idx) = idx * ?B"
    by (simp add: mult.commute)
qed

lemma blit_slot:
  assumes "j * bs + bs \<le> length m" "i * bs + bs \<le> length m" "length xs = bs"
  shows "blk_of bs (blit m (j * bs) xs) i = (if i = j then xs else blk_of bs m i)"
proof (cases "i = j")
  case True
  then show ?thesis
    using assms blit_here [of "j * bs" xs m] by (simp add: blk_of_def)
next
  case False
  then have "i * bs + bs \<le> j * bs \<or> j * bs + bs \<le> i * bs"
    using mult_le_mono1 [of "Suc i" j bs] mult_le_mono1 [of "Suc j" i bs] by (cases "i < j") auto
  then show ?thesis
    using False assms by (simp add: blk_of_def take_drop_blit)
qed

lemma cache_update_coherent:
  assumes "cache_geom cd c" "0 < cache_block_size cd"
    and "\<forall>idx < length (cached_blocks c). cached_blocks c ! idx \<noteq> 0xffffffff \<longrightarrow>
      idx = cache_idx cd (cached_blocks c ! idx) \<and>
      ((\<exists>j < k. cached_blocks c ! idx = starting + word_of_nat (i + j)) \<or>
       blk_of (unat (cache_block_size cd)) (cache_mem c) idx =
         blk_of (unat (cache_block_size cd)) img (unat (cached_blocks c ! idx)))"
    and "\<forall>j < k. blk_of (unat (cache_block_size cd)) b (i + j) =
      blk_of (unat (cache_block_size cd)) img (unat (starting + word_of_nat (i + j)))"
    and "(i + k) * unat (cache_block_size cd) \<le> length b" "(i + k) * unat (cache_block_size cd) < 4294967296"
  shows "\<exists>c'. cache_update cd b starting c i k = Some c' \<and> cache_geom cd c' \<and> cache_coherent cd c' img"
  using assms
proof (induction k arbitrary: c i)
  case 0
  then show ?case
    by (simp add: cache_coherent_def Let_def)
next
  case (Suc k)
  let ?B = "unat (cache_block_size cd)"
  let ?blk = "starting + word_of_nat i"
  let ?idx = "cache_idx cd ?blk"
  have in_range: "?idx < length (cached_blocks c)"
    using Suc.prems(1) by (simp add: cache_geom_def)
  note slot = slot_in [OF Suc.prems(1) in_range]
  have at: "unat (word_of_nat i * cache_block_size cd) = i * ?B" "i * ?B + ?B \<le> length b"
    "(i + 1 + k) * ?B \<le> length b" "(i + 1 + k) * ?B < 4294967296"
  proof -
    have le: "i * ?B \<le> (i + Suc k) * ?B" "Suc i * ?B \<le> (i + Suc k) * ?B"
      by (intro mult_right_mono; simp)+
    then have "i * ?B < 4294967296"
      using Suc.prems(6) by linarith
    then show "unat (word_of_nat i * cache_block_size cd) = i * ?B"
      by (cases "?B = 0") (auto simp: unat_word_ariths unat_of_nat mod_mult_left_eq)
    show "i * ?B + ?B \<le> length b"
      using le(2) Suc.prems(5) unfolding mult_Suc by linarith
    show "(i + 1 + k) * ?B \<le> length b" "(i + 1 + k) * ?B < 4294967296"
      using Suc.prems(5,6) by simp_all
  qed
  have data: "load b (i * ?B) ?B = Some (blk_of ?B b i)"
    using at by (simp add: blk_of_def)
  have len: "length (blk_of ?B b i) = ?B"
    using at by (intro length_blk_of) simp
  have img: "\<forall>j < k. blk_of ?B b (i + 1 + j) = blk_of ?B img (unat (starting + word_of_nat (i + 1 + j)))"
    using Suc.prems(4) by (metis Suc_less_eq add.assoc add_Suc plus_1_eq_Suc)
  define c1 where "c1 = (if cached_blocks c ! ?idx = ?blk
      then c\<lparr>cache_mem := blit (cache_mem c) (?idx * ?B) (blk_of ?B b i)\<rparr> else c)"
  have step: "cache_update cd b starting c i (Suc k) = cache_update cd b starting c1 (i + 1) k"
    using in_range slot at data len by (simp add: c1_def Let_def)
  have geom: "cache_geom cd c1"
    using Suc.prems(1) slot(1) len by (auto simp: c1_def cache_geom_def)
  have slots: "blk_of ?B (cache_mem c1) x =
      (if x = ?idx \<and> cached_blocks c ! ?idx = ?blk then blk_of ?B b i else blk_of ?B (cache_mem c) x)"
    if "x < length (cached_blocks c)" for x
    using slot_in(1) [OF Suc.prems(1) that] slot(1) len by (auto simp: c1_def blit_slot)
  have "\<forall>x < length (cached_blocks c1). cached_blocks c1 ! x \<noteq> 0xffffffff \<longrightarrow>
      x = cache_idx cd (cached_blocks c1 ! x) \<and>
      ((\<exists>j < k. cached_blocks c1 ! x = starting + word_of_nat (i + 1 + j)) \<or>
       blk_of ?B (cache_mem c1) x = blk_of ?B img (unat (cached_blocks c1 ! x)))"
  proof (intro allI impI)
    fix x
    assume x: "x < length (cached_blocks c1)" "cached_blocks c1 ! x \<noteq> 0xffffffff"
    have same: "cached_blocks c1 = cached_blocks c"
      by (simp add: c1_def)
    have old: "x = cache_idx cd (cached_blocks c ! x)"
      "(\<exists>j < Suc k. cached_blocks c ! x = starting + word_of_nat (i + j)) \<or>
       blk_of ?B (cache_mem c) x = blk_of ?B img (unat (cached_blocks c ! x))"
      using Suc.prems(3) x same by auto
    have "(\<exists>j < k. cached_blocks c ! x = starting + word_of_nat (i + 1 + j)) \<or>
       blk_of ?B (cache_mem c1) x = blk_of ?B img (unat (cached_blocks c ! x))"
    proof (cases "cached_blocks c ! x = ?blk")
      case True
      then have "x = ?idx"
        using old(1) by simp
      then show ?thesis
        using slots [of x] x(1) same True Suc.prems(4) by (auto dest: spec [of _ 0])
    next
      case False
      then have no: "\<not> (x = ?idx \<and> cached_blocks c ! ?idx = ?blk)"
        by auto
      have keep: "blk_of ?B (cache_mem c1) x = blk_of ?B (cache_mem c) x"
        using slots [of x] x(1) same no by metis
      from old(2) show ?thesis
      proof
        assume "\<exists>j < Suc k. cached_blocks c ! x = starting + word_of_nat (i + j)"
        then obtain j where j: "j < Suc k" "cached_blocks c ! x = starting + word_of_nat (i + j)"
          by blast
        then obtain j' where "j = Suc j'"
          using False by (cases j) auto
        then show ?thesis
          using j by (metis Suc_less_eq add.assoc plus_1_eq_Suc)
      qed (use keep in metis)
    qed
    then show "x = cache_idx cd (cached_blocks c1 ! x) \<and>
      ((\<exists>j < k. cached_blocks c1 ! x = starting + word_of_nat (i + 1 + j)) \<or>
       blk_of ?B (cache_mem c1) x = blk_of ?B img (unat (cached_blocks c1 ! x)))"
      using old(1) same by simp
  qed
  then show ?case
    unfolding step using img geom Suc.prems(2) at by (intro Suc.IH) auto
qed

section \<open>Transparency\<close>

locale cached_disk = rw_disk rd bs img inv wr
  for rd :: "'w bd_read_op" and bs and img :: "'w \<Rightarrow> buf" and inv and wr +
  fixes al :: bool and cd :: "'w cache_dev"
begin

lemma cache_read_ok:
  assumes "cache_inv cd rd wr bs img inv s" "0 < n" "unat n < 2147483648" "unat bs dvd unat n"
    and "unat blk * unat bs + unat n \<le> length (img (fst s))"
  shows "\<exists>s'. cache_read al cd s n blk =
      Some (int (unat n), take (unat n) (drop (unat blk * unat bs) (img (fst s))), s')
    \<and> cache_inv cd rd wr bs img inv s' \<and> img (fst s') = img (fst s)"
proof -
  obtain w c where s: "s = (w, c)"
    by (cases s)
  have inv: "inv w" "bd_read (cache_parent cd) = Some rd" "bd_write (cache_parent cd) = Some wr"
    "cache_block_size cd = bs" "cache_geom cd c" "cache_coherent cd c (img w)"
    using assms(1) by (simp_all add: cache_inv_def s)
  have range: "unat blk * unat bs + unat n \<le> length (img w)"
    using assms(5) by (simp add: s)
  obtain w' where w': "rd w n blk = Some (int (unat n), take (unat n) (drop (unat blk * unat bs) (img w)), w')"
    "inv w'" "img w' = img w"
    using rd_ok [OF inv(1) assms(2-4) range] by blast
  show ?thesis
  proof (cases "n > bs")
    case True
    then show ?thesis
      using w' inv by (auto simp: s cache_read_def cache_inv_def)
  next
    case False
    have n: "n = bs"
      using False assms(2,4) dvd_imp_le [of "unat bs" "unat n"]
      by (auto simp: word_less_nat_alt word_unat_eq_iff)
    have sB: "sint bs = int (unat bs)"
      using assms(3) n by (intro sint_small_u32) simp
    let ?idx = "cache_idx cd blk"
    have idx: "?idx < length (cached_blocks c)"
      using inv(5) by (simp add: cache_geom_def)
    note slot = slot_in [OF inv(5) idx, unfolded inv(4)]
    have blk: "blk \<noteq> 0xffffffff"
    proof
      assume "blk = 0xffffffff"
      then have "4294967295 * unat bs + unat bs \<le> 4294967295 * unat bs"
        using range img_bound [OF inv(1)] n by simp
      then show False
        using bs_pos by (simp add: word_less_nat_alt)
    qed
    have q: "qcopy_len al a bs = unat bs" for a
      using bs_pos by (rule qcopy_len_eq)
    let ?data = "blk_of (unat bs) (img w) (unat blk)"
    have len: "length ?data = unat bs"
      using range n by (intro length_blk_of) simp
    show ?thesis
    proof (cases "cached_blocks c ! ?idx = blk")
      case True
      then have "blk_of (unat bs) (cache_mem c) ?idx = ?data"
        using inv(6) idx blk by (auto simp: cache_coherent_def inv(4) Let_def)
      then show ?thesis
        using True assms(1) inv idx slot q sB n False
        by (auto simp: s cache_read_def Let_def blk_of_def)
    next
      case miss: False
      let ?c = "c\<lparr>cache_mem := blit (cache_mem c) (?idx * unat bs) ?data,
        cached_blocks := (cached_blocks c)[?idx := blk]\<rparr>"
      have "cache_geom cd ?c"
        using inv(4,5) slot(1) len by (simp add: cache_geom_def)
      moreover have "cache_coherent cd ?c (img w)"
        unfolding cache_coherent_def
      proof (intro allI impI)
        fix x
        assume x: "x < length (cached_blocks ?c)"
        then have "blk_of (unat bs) (cache_mem ?c) x =
            (if x = ?idx then ?data else blk_of (unat bs) (cache_mem c) x)"
          using slot_in(1) [OF inv(5), of x] slot(1) len inv(4) by (auto simp: blit_slot)
        then show "let b = cached_blocks ?c ! x; bs = unat (cache_block_size cd) in
            b \<noteq> 0xffffffff \<longrightarrow> x = cache_idx cd b \<and> blk_of bs (cache_mem ?c) x = blk_of bs (img w) (unat b)"
          using inv(6) x by (auto simp: Let_def inv(4) cache_coherent_def nth_list_update)
      qed
      moreover have "cache_read al cd s n blk = Some (int (unat n), ?data, (w', ?c))"
        using miss inv idx slot q sB n w' len False blit_here [of "?idx * unat bs" ?data "cache_mem c"]
        by (simp add: s cache_read_def Let_def blk_of_def)
      ultimately show ?thesis
        using w' inv n by (auto simp: s cache_inv_def blk_of_def)
    qed
  qed
qed

lemma cache_write_ok:
  assumes "cache_inv cd rd wr bs img inv s" "0 < n" "unat n < 2147483648" "unat bs dvd unat n"
    and "unat blk * unat bs + unat n \<le> length (img (fst s))" "unat n \<le> length b"
  shows "\<exists>s'. cache_write cd s b n blk = Some (int (unat n), s') \<and> cache_inv cd rd wr bs img inv s'
    \<and> img (fst s') = blit (img (fst s)) (unat blk * unat bs) (take (unat n) b)"
proof -
  obtain w c where s: "s = (w, c)"
    by (cases s)
  have inv: "inv w" "bd_read (cache_parent cd) = Some rd" "bd_write (cache_parent cd) = Some wr"
    "cache_block_size cd = bs" "cache_geom cd c" "cache_coherent cd c (img w)"
    using assms(1) by (simp_all add: cache_inv_def s)
  have range: "unat blk * unat bs + unat n \<le> length (img w)"
    using assms(5) by (simp add: s)
  let ?img = "blit (img w) (unat blk * unat bs) (take (unat n) b)"
  obtain w' where w': "wr w b n blk = Some (int (unat n), w')" "inv w'" "img w' = ?img"
    using wr_ok [OF inv(1) assms(2-4) range assms(6)] by blast
  define k where "k = unat n div unat bs"
  have B: "0 < unat bs" "bs \<noteq> 0"
    using bs_pos by (auto simp: word_less_nat_alt)
  have k: "k * unat bs = unat n"
    using assms(4) by (simp add: k_def)
  have "unat (n div bs) = k"
    by (simp add: unat_div k_def)
  moreover have "k \<le> unat n"
    by (simp add: k_def)
  ultimately have count: "sint (n div bs) = int k"
    using assms(3) sint_small_u32 [of "n div bs"] by linarith
  have mod: "n mod bs = 0"
    using assms(4) by (simp add: word_unat_eq_iff unat_mod)
  have blks: "unat blk + k \<le> 4294967295"
  proof -
    have "(unat blk + k) * unat bs \<le> 4294967295 * unat bs"
      using range img_bound [OF inv(1)] k by (simp add: distrib_right)
    then show ?thesis
      using B by simp
  qed
  have blkj: "unat (blk + word_of_nat j) = unat blk + j" if "j < k" for j
    using that blks by (simp add: unat_plus_if_u32 unat_of_nat_u32)
  have len: "length (take (unat n) b) = unat n"
    using assms(6) by simp
  have "\<exists>c'. cache_update cd b blk c 0 k = Some c' \<and> cache_geom cd c' \<and> cache_coherent cd c' ?img"
  proof (rule cache_update_coherent)
    show "\<forall>x < length (cached_blocks c). cached_blocks c ! x \<noteq> 0xffffffff \<longrightarrow>
      x = cache_idx cd (cached_blocks c ! x) \<and>
      ((\<exists>j < k. cached_blocks c ! x = blk + word_of_nat (0 + j)) \<or>
       blk_of (unat (cache_block_size cd)) (cache_mem c) x =
         blk_of (unat (cache_block_size cd)) ?img (unat (cached_blocks c ! x)))"
    proof (intro allI impI)
      fix x
      assume x: "x < length (cached_blocks c)" "cached_blocks c ! x \<noteq> 0xffffffff"
      let ?b = "cached_blocks c ! x"
      have old: "x = cache_idx cd ?b"
        "blk_of (unat bs) (cache_mem c) x = blk_of (unat bs) (img w) (unat ?b)"
        using inv(4,6) x by (auto simp: cache_coherent_def Let_def)
      consider "unat blk \<le> unat ?b" "unat ?b < unat blk + k" | "unat ?b < unat blk" | "unat blk + k \<le> unat ?b"
        by linarith
      then show "x = cache_idx cd ?b \<and>
        ((\<exists>j < k. ?b = blk + word_of_nat (0 + j)) \<or>
         blk_of (unat (cache_block_size cd)) (cache_mem c) x =
           blk_of (unat (cache_block_size cd)) ?img (unat ?b))"
      proof cases
        case 1
        then have "?b = blk + word_of_nat (unat ?b - unat blk)"
          by (simp add: word_unat_eq_iff blkj less_diff_conv2)
        then show ?thesis
          using 1 old(1) by (metis add_0 less_diff_conv2 add.commute)
      next
        case 2
        then have "unat ?b * unat bs + unat bs \<le> unat blk * unat bs"
          using mult_le_mono1 [of "Suc (unat ?b)" "unat blk" "unat bs"] by simp
        then show ?thesis
          using old inv(4) range len by (simp add: blk_of_def take_drop_blit)
      next
        case 3
        then have "unat blk * unat bs + unat n \<le> unat ?b * unat bs"
          using mult_le_mono1 [OF 3, of "unat bs"] k by (simp add: distrib_right)
        then show ?thesis
          using old inv(4) range len by (simp add: blk_of_def take_drop_blit)
      qed
    qed
    show "\<forall>j < k. blk_of (unat (cache_block_size cd)) b (0 + j) =
      blk_of (unat (cache_block_size cd)) ?img (unat (blk + word_of_nat (0 + j)))"
    proof (intro allI impI)
      fix j
      assume j: "j < k"
      have jn: "j * unat bs + unat bs \<le> unat n"
        using mult_le_mono1 [of "Suc j" k "unat bs"] j k by simp
      have "take (unat bs) (drop ((unat blk + j) * unat bs) ?img) = take (unat bs) (drop (j * unat bs) (take (unat n) b))"
        unfolding distrib_right using jn range len by (intro take_drop_blit_inside) auto
      also have "\<dots> = take (unat bs) (drop (j * unat bs) b)"
        using jn by (simp add: drop_take min_absorb1)
      finally show "blk_of (unat (cache_block_size cd)) b (0 + j) =
          blk_of (unat (cache_block_size cd)) ?img (unat (blk + word_of_nat (0 + j)))"
        using j by (simp add: blk_of_def inv(4) blkj)
    qed
  qed (use inv bs_pos k assms in auto)
  then show ?thesis
    using w' inv B mod count sint_small_u32 [OF assms(3)]
    by (auto simp: s cache_write_def Let_def cache_inv_def)
qed

end

sublocale cached_disk \<subseteq> cached: rw_disk "cache_read al cd" bs "\<lambda>s. img (fst s)"
    "cache_inv cd rd wr bs img inv" "cache_write cd"
proof unfold_locales
  show "0 < bs"
    by (rule bs_pos)
  show "length (img (fst s)) \<le> 4294967295 * unat bs" if "cache_inv cd rd wr bs img inv s" for s
    using that img_bound by (simp add: cache_inv_def)
qed (use cache_read_ok cache_write_ok in blast)+

context cached_disk
begin

lemma cached_contract:
  "rw_disk (cache_read al cd) bs (\<lambda>s. img (fst s)) (cache_inv cd rd wr bs img inv) (cache_write cd)"
  by (rule cached.rw_disk_axioms)

end

interpretation ramdisk_cache: cached_disk "ramdisk_read rdev" 512 "ramdisk_img rdev"
    "ramdisk_inv rdev" "ramdisk_write rdev" al cd for rdev al cd
  by unfold_locales

section \<open>Initialisation\<close>

lemma cache_lg2_spec:
  assumes "0 < n"
  shows "\<exists>k. cache_lg2 n a = Some (a + k) \<and> 2 ^ k \<le> n \<and> n < 2 ^ Suc k"
  using assms
proof (induction "nat n" arbitrary: n a rule: less_induct)
  case less
  show ?case
  proof (cases "n div 2 = 0")
    case True
    then have "n = 1"
      using less.prems by auto
    then show ?thesis
      by (subst cache_lg2.simps) simp
  next
    case False
    then obtain k where k: "cache_lg2 (n div 2) (a + 1) = Some (a + 1 + k)" "2 ^ k \<le> n div 2"
      "n div 2 < 2 ^ Suc k"
    proof -
      have "nat (n div 2) < nat n" "0 < n div 2"
        using False less.prems by auto
      then show thesis
        using less.hyps [of "n div 2" "a + 1"] that by blast
    qed
    then have "2 ^ Suc k \<le> n" "n < 2 ^ Suc (Suc k)"
      by auto
    then show ?thesis
      using k False by (subst cache_lg2.simps) (auto intro!: exI [of _ "Suc k"])
  qed
qed

lemma and_mask_less: "k < 32 \<Longrightarrow> unat (b AND (word_of_int (2 ^ k - 1) :: u32)) < 2 ^ k"
proof -
  assume "k < 32"
  have "(word_of_int (2 ^ k - 1) :: u32) = mask k"
    by (simp add: mask_eq_exp_minus_1)
  then have "b AND (word_of_int (2 ^ k - 1) :: u32) = take_bit k b"
    by (simp add: take_bit_eq_mask)
  then show ?thesis
    by (simp add: unsigned_take_bit_eq)
qed

lemma cache_init_inv:
  assumes "bd_read p = Some rd" "bd_write p = Some wr" "0 < block_size p"
    and "block_size p \<le> len" "unat len < 2147483648" "unat len \<le> length mem" "ok w"
  shows "\<exists>cd c. cache_init (True, True, True) (Some p) True start_addr len mem = Some (0, Some (cd, c))
    \<and> cache_inv cd rd wr (block_size p) img ok (w, c)
    \<and> cache_parent cd = p \<and> cache_block_size cd = block_size p"
proof -
  let ?B = "unat (block_size p)"
  define e where "e = unat len div ?B"
  have B: "0 < ?B" "block_size p \<noteq> 0" "?B \<le> unat len"
    using assms by (auto simp: word_less_nat_alt word_le_nat_alt)
  have e: "0 < e" "e * ?B \<le> unat len" "e \<le> unat len"
    using B by (auto simp: e_def div_greater_zero_iff)
  then have sint_e: "sint (len div block_size p) = int e"
    using assms(5) sint_small_u32 [of "len div block_size p"] unat_div [of len "block_size p"]
    unfolding e_def by linarith
  obtain k where k: "cache_lg2 (int e) 0 = Some k" "2 ^ k \<le> int e"
    using cache_lg2_spec [of "int e" 0] e by auto
  have "2 ^ k \<le> e"
    using k(2) by (metis of_nat_le_iff of_nat_numeral of_nat_power)
  then have kB: "2 ^ k * ?B \<le> unat len" "(2::nat) ^ k < 2147483648"
    using e(2,3) assms(5) mult_le_mono1 [of "2 ^ k" e ?B] by linarith+
  have k32: "k < 32"
  proof (rule ccontr)
    assume "\<not> k < 32"
    then show False
      using kB(2) power_increasing [of 32 k "2::nat"] by simp
  qed
  let ?cd = "\<lparr>cache_parent = p, cache_block_size = block_size p, cache_start = start_addr,
      cache_entries = 2 ^ k, cache_mask = word_of_int (2 ^ k - 1)\<rparr>"
  let ?c = "\<lparr>cache_mem = mem, cached_blocks = replicate (2 ^ k) 0xffffffff\<rparr>"
  have "cache_init (True, True, True) (Some p) True start_addr len mem = Some (0, Some (?cd, ?c))"
    using B e k sint_e by (simp add: cache_init_def Let_def nat_power_eq)
  moreover have "cache_geom ?cd ?c"
    using k32 kB assms(5,6) and_mask_less [OF k32] by (simp add: cache_geom_def cache_idx_def)
  moreover have "cache_coherent ?cd ?c (img w)"
    by (simp add: cache_coherent_def Let_def)
  ultimately show ?thesis
    using assms by (auto simp: cache_inv_def)
qed

section \<open>Properties\<close>

text \<open>C5: Put in front of any device that honours the contract \<open>rw_disk\<close>, the
  cache built by \<open>cache_init\<close> is transparent: every sequence of whole-block reads
  and writes inside the device returns exactly the results, and leaves the
  device with exactly the contents, that it would have had without the cache.\<close>

theorem cache_transparent:
  assumes "rw_disk rd bs img ok wr" "bd_read p = Some rd" "bd_write p = Some wr" "block_size p = bs"
    and "bs \<le> clen" "unat clen < 2147483648" "unat clen \<le> length mem" "ok w"
    and "\<forall>q \<in> set ops. valid_op bs (length (img w)) q"
  shows "\<exists>cd c rs w1 w2 c2. cache_init (True, True, True) (Some p) True addr clen mem = Some (0, Some (cd, c))
    \<and> run_ops p w ops = Some (rs, w1) \<and> run_ops (cache_device al cd) (w, c) ops = Some (rs, (w2, c2))
    \<and> img w2 = img w1"
proof -
  obtain cd c where init: "cache_init (True, True, True) (Some p) True addr clen mem = Some (0, Some (cd, c))"
    and inv: "cache_inv cd rd wr bs img ok (w, c)" and cd: "cache_parent cd = p" "cache_block_size cd = bs"
    using cache_init_inv [of p rd wr clen mem ok w addr img] assms disk.bs_pos [OF rw_disk.axioms(1)] by blast
  have cached: "rw_disk (cache_read al cd) bs (\<lambda>s. img (fst s)) (cache_inv cd rd wr bs img ok) (cache_write cd)"
    using assms(1) by (intro cached_disk.cached_contract cached_disk.intro)
  obtain w1 where 1: "run_ops p w ops = Some (fst (run_image (unat bs) (img w) ops), w1)"
    "img w1 = snd (run_image (unat bs) (img w) ops)"
    using rw_disk.run_ops_image [OF assms(1,3,2,4,8)] assms(9) by blast
  have "bd_write (cache_device al cd) = Some (cache_write cd)"
    "bd_read (cache_device al cd) = Some (cache_read al cd)" "block_size (cache_device al cd) = bs"
    using assms cd by (simp_all add: cache_device_def Let_def)
  then obtain w2 c2 where
    "run_ops (cache_device al cd) (w, c) ops = Some (fst (run_image (unat bs) (img w) ops), (w2, c2))"
    "img w2 = snd (run_image (unat bs) (img w) ops)"
    using rw_disk.run_ops_image [OF cached, of "cache_device al cd" "(w, c)" ops] inv assms(9) by auto
  then show ?thesis
    using init 1 by auto
qed

theorem cache_transparent_witness:
  "\<exists>cd c rs w1 w2 c2. cache_init (True, True, True)
      (Some (ramdisk_device \<lparr>rd_address = 0, rd_size = 2048, rd_block_size = 512\<rparr> [])) True 0 2000 (replicate 2000 0)
      = Some (0, Some (cd, c))
    \<and> run_ops (ramdisk_device \<lparr>rd_address = 0, rd_size = 2048, rd_block_size = 512\<rparr> []) (replicate 2048 5)
        [Read_op 512 2, Write_op (replicate 512 3) 512 2, Read_op 1024 1] = Some (rs, w1)
    \<and> run_ops (cache_device True cd) (replicate 2048 5, c)
        [Read_op 512 2, Write_op (replicate 512 3) 512 2, Read_op 1024 1] = Some (rs, (w2, c2))"
proof -
  let ?r = "\<lparr>rd_address = 0, rd_size = 2048, rd_block_size = 512\<rparr>"
  let ?ops = "[Read_op 512 2, Write_op (replicate 512 3) 512 2, Read_op 1024 1]"
  have "\<exists>cd c rs w1 w2 c2. cache_init (True, True, True) (Some (ramdisk_device ?r [])) True 0 2000 (replicate 2000 0)
      = Some (0, Some (cd, c))
    \<and> run_ops (ramdisk_device ?r []) (replicate 2048 5) ?ops = Some (rs, w1)
    \<and> run_ops (cache_device True cd) (replicate 2048 5, c) ?ops = Some (rs, (w2, c2))
    \<and> ramdisk_img ?r w2 = ramdisk_img ?r w1"
    by (rule cache_transparent [OF ramdisk.rw_disk_axioms])
      (auto simp: ramdisk_device_def ramdisk_inv_def ramdisk_img_def valid_range_def)
  then show ?thesis
    by blast
qed

text \<open>A failed read of the parent is not caught: the result -1 becomes the
  count of the copy to the caller, which then leaves the cache memory (a memory
  error in the model, a 4 GB copy in the program).\<close>

theorem cache_read_error_overruns:
  assumes "bd_read (cache_parent cd) = Some rd" "n \<le> cache_block_size cd"
    and "cached_blocks c ! cache_idx cd blk \<noteq> blk" "rd w n blk = Some (-1, data, w')"
    and "length (cache_mem c) < 4294967295"
  shows "cache_read al cd (w, c) n blk = None"
proof -
  have "(word_of_int (- 1) :: u32) = 0xffffffff"
    by simp
  then have "unat (word_of_int (- 1) :: u32) = 4294967295"
    by (simp only:) simp
  then have "qcopy_len al a (word_of_int (- 1)) = 4294967295" for a
    by (subst qcopy_len_eq) (simp_all add: word_gt_0)
  moreover have "load m i 4294967295 = None" if "length m < 4294967295" for m i
    using that by (simp add: load_def)
  moreover have "store (cache_mem c) i data = Some m \<Longrightarrow> length m < 4294967295" for i m
    using assms(5) by (auto simp: store_eq_Some)
  ultimately show ?thesis
    using assms by (auto simp: cache_read_def Let_def not_less split: bind_splits)
qed

theorem cache_read_error_overruns_witness:
  "cache_read True \<lparr>cache_parent = \<lparr>driver_name = [], device_name = [], device_id = [], dev_id_len = 0,
      supports_multiple_block_read = False, supports_multiple_block_write = False,
      bd_read = Some (\<lambda>w n blk. Some (-1, [], w)), bd_write = None, block_size = 512, num_blocks = 8\<rparr>,
     cache_block_size = 512, cache_start = 0, cache_entries = 1, cache_mask = 0\<rparr>
   ((), \<lparr>cache_mem = replicate 512 0, cached_blocks = [0xffffffff]\<rparr>) 512 3 = None"
  by (rule cache_read_error_overruns [where rd = "\<lambda>w n blk. Some (-1, [], w)" and data = "[]" and w' = "()"])
    (simp_all add: cache_idx_def)

end
