(* ===== verification/Mbr.thy ===== *)
theory Mbr
  imports BlockCache
begin

text \<open>
  The master boot record of mbr.c: \<open>read_mbr\<close> parses block 0 of a device and
  registers a partition device for each entry in use, and \<open>mbr_read\<close> and
  \<open>mbr_write\<close> shift block numbers into the parent.  The partition honours the
  device contract inside its own blocks, and changes nothing outside them.
  \<open>register_fs\<close> is an argument here; the file system layer supplies it.
\<close>

section \<open>Model\<close>

record 'w mbr_block_dev =
  mbr_parent :: "'w block_device"
  part_no :: nat
  start_block :: u32
  blocks :: u32
  part_id :: u8

definition mbr_read :: "'w mbr_block_dev \<Rightarrow> 'w bd_read_op" where
  "mbr_read d w buf_size starting_block = do {
     rd \<leftarrow> bd_read (mbr_parent d);
     rd w buf_size (starting_block + start_block d) }"

definition mbr_write :: "'w mbr_block_dev \<Rightarrow> 'w bd_write_op" where
  "mbr_write d w b buf_size starting_block = do {
     wr \<leftarrow> bd_write (mbr_parent d);
     wr w b buf_size (starting_block + start_block d) }"

definition mbr_device :: "'w mbr_block_dev \<Rightarrow> 'w block_device" where
  "mbr_device d = (let parent = mbr_parent d in
     \<lparr>driver_name = lit ''mbr'',
      device_name = device_name parent @ [95, 48 + word_of_nat (part_no d)],
      device_id = [word_of_nat (part_no d)], dev_id_len = 1,
      supports_multiple_block_read = supports_multiple_block_read parent,
      supports_multiple_block_write = supports_multiple_block_write parent,
      bd_read = Some (mbr_read d),
      bd_write = (if bd_write parent \<noteq> None then Some (mbr_write d) else None),
      block_size = block_size parent, num_blocks = blocks d\<rparr>)"

text \<open>One partition entry: \<open>None\<close> inside when it is unused, and an error when its
  bounds are not multiples of the parent's block size.\<close>

definition mbr_entry ::
  "'w block_device \<Rightarrow> buf \<Rightarrow> u32 \<Rightarrow> nat \<Rightarrow> (unit + 'w mbr_block_dev option) option" where
  "mbr_entry parent block_0 block_size_adjust i = do {
     let p_offset = 0x1be + i * 0x10;
     t \<leftarrow> get_byte block_0 (p_offset + 4);
     if t = 0 then Some (Inr None)
     else do {
       sb \<leftarrow> read_word block_0 (p_offset + 8);
       bl \<leftarrow> read_word block_0 (p_offset + 12);
       if sb mod block_size_adjust \<noteq> 0 then Some (Inl ())
       else if bl mod block_size_adjust \<noteq> 0 then Some (Inl ())
       else Some (Inr (Some \<lparr>mbr_parent = parent, part_no = i,
              start_block = sb div block_size_adjust, blocks = bl div block_size_adjust,
              part_id = t\<rparr>)) } }"

type_synonym ('w, 's) register = "'w block_device \<Rightarrow> int \<Rightarrow> 'w \<times> 's \<Rightarrow> (int \<times> 'w \<times> 's) option"

text \<open>The loop over the entries, in the order of the table; the result of
  \<open>register_fs\<close> is not looked at.\<close>

fun mbr_loop ::
  "('w, 's) register \<Rightarrow> 'w block_device \<Rightarrow> buf \<Rightarrow> u32 \<Rightarrow> nat list \<Rightarrow> 'w mbr_block_dev list \<Rightarrow>
   'w \<times> 's \<Rightarrow> (int \<times> 'w mbr_block_dev list \<times> 'w \<times> 's) option" where
  "mbr_loop register_fs parent block_0 adj [] parts s = Some (0, parts, s)"
| "mbr_loop register_fs parent block_0 adj (i # js) parts s =
     (case mbr_entry parent block_0 adj i of
        None \<Rightarrow> None
      | Some (Inl ()) \<Rightarrow> Some (-1, parts, s)
      | Some (Inr None) \<Rightarrow> mbr_loop register_fs parent block_0 adj js parts s
      | Some (Inr (Some d)) \<Rightarrow> do {
          (r, s) \<leftarrow> register_fs (mbr_device d) (uint (part_id d)) s;
          mbr_loop register_fs parent block_0 adj js (parts @ [d]) s })"

text \<open>\<open>block_0\<close> is the fresh 512-byte buffer with whatever it holds; \<open>alloc\<close> says
  whether it could be allocated.  The list of partitions (whose length is the
  part count) is stored through the caller's pointers on success only.\<close>

definition read_mbr ::
  "('w, 's) register \<Rightarrow> bool \<Rightarrow> buf \<Rightarrow> 'w block_device option \<Rightarrow> 'w \<times> 's \<Rightarrow>
   (int \<times> 'w mbr_block_dev list option \<times> 'w \<times> 's) option" where
  "read_mbr register_fs alloc block_0 parent ws =
     (case parent of
        None \<Rightarrow> Some (-1, None, ws)
      | Some p \<Rightarrow>
          if \<not> alloc then Some (-1, None, ws)
          else do {
            (r, block_0, w) \<leftarrow> block_read p (fst ws) block_0 512 0;
            let ret = sint r;
            let ws = (w, snd ws);
            if ret < 0 then Some (ret, None, ws)
            else if ret \<noteq> 512 then Some (-1, None, ws)
            else do {
              s0 \<leftarrow> get_byte block_0 0x1fe;
              s1 \<leftarrow> get_byte block_0 0x1ff;
              if s0 \<noteq> 0x55 \<or> s1 \<noteq> 0xaa then Some (-1, None, ws)
              else if block_size p < 512 then Some (-1, None, ws)
              else if block_size p mod 512 \<noteq> 0 then Some (-1, None, ws)
              else do {
                (ret, parts, ws) \<leftarrow>
                  mbr_loop register_fs p block_0 (block_size p div 512) [0, 1, 2, 3] [] ws;
                Some (ret, if ret = 0 then Some parts else None, ws) } } })"

section \<open>The partition as a device\<close>

definition part_img :: "'w mbr_block_dev \<Rightarrow> u32 \<Rightarrow> ('w \<Rightarrow> buf) \<Rightarrow> 'w \<Rightarrow> buf" where
  "part_img d bs img w = take (unat (blocks d) * unat bs) (drop (unat (start_block d) * unat bs) (img w))"

text \<open>The invariant says where the partition lies, and what is around it.\<close>

definition part_inv ::
  "'w mbr_block_dev \<Rightarrow> 'w bd_read_op \<Rightarrow> 'w bd_write_op \<Rightarrow> u32 \<Rightarrow> ('w \<Rightarrow> buf) \<Rightarrow> ('w \<Rightarrow> bool) \<Rightarrow>
   buf \<Rightarrow> buf \<Rightarrow> 'w \<Rightarrow> bool" where
  "part_inv d rd wr bs img ok pre post w \<longleftrightarrow>
     ok w \<and> bd_read (mbr_parent d) = Some rd \<and> bd_write (mbr_parent d) = Some wr
     \<and> length pre = unat (start_block d) * unat bs
     \<and> length (part_img d bs img w) = unat (blocks d) * unat bs
     \<and> img w = pre @ part_img d bs img w @ post"

locale partition = rw_disk rd bs img inv wr
  for rd :: "'w bd_read_op" and bs and img :: "'w \<Rightarrow> buf" and inv and wr +
  fixes d :: "'w mbr_block_dev" and pre post :: buf
begin

lemma part_block:
  assumes "part_inv d rd wr bs img inv pre post w" "0 < n" "unat bs dvd unat n"
    and "unat blk * unat bs + unat n \<le> length (part_img d bs img w)"
  shows "unat (blk + start_block d) = unat blk + unat (start_block d)"
    and "unat (blk + start_block d) * unat bs + unat n \<le> length (img w)"
proof -
  let ?s = "unat (start_block d)"
  have B: "0 < unat bs" "unat bs \<le> unat n"
    using bs_pos assms(2,3) by (auto simp: word_less_nat_alt dvd_imp_le)
  have len: "?s * unat bs + length (part_img d bs img w) \<le> length (img w)"
    using assms(1) unfolding part_inv_def by (metis add_le_cancel_left append_assoc le_add1 length_append)
  have "(unat blk + ?s + 1) * unat bs \<le> 4294967295 * unat bs"
    using img_bound [of w] len assms(1,4) B(2) by (simp add: part_inv_def distrib_right)
  then have "unat blk + ?s + 1 \<le> 4294967295"
    using B(1) by (meson mult_le_cancel2)
  then show *: "unat (blk + start_block d) = unat blk + ?s"
    by (simp add: unat_plus_if_u32)
  show "unat (blk + start_block d) * unat bs + unat n \<le> length (img w)"
    using len assms(4) by (simp add: * distrib_right)
qed

lemma part_read_ok:
  assumes "part_inv d rd wr bs img inv pre post w" "0 < n" "unat n < 2147483648" "unat bs dvd unat n"
    and "unat blk * unat bs + unat n \<le> length (part_img d bs img w)"
  shows "\<exists>w'. mbr_read d w n blk =
      Some (int (unat n), take (unat n) (drop (unat blk * unat bs) (part_img d bs img w)), w')
    \<and> part_inv d rd wr bs img inv pre post w' \<and> part_img d bs img w' = part_img d bs img w"
proof -
  note pb = part_block [OF assms(1,2,4,5)]
  obtain w' where w': "rd w n (blk + start_block d) =
      Some (int (unat n), take (unat n) (drop (unat (blk + start_block d) * unat bs) (img w)), w')"
    "inv w'" "img w' = img w"
    using rd_ok [OF _ assms(2-4) pb(2)] assms(1) unfolding part_inv_def by blast
  have "take (unat n) (drop (unat (blk + start_block d) * unat bs) (img w)) =
      take (unat n) (drop (unat blk * unat bs) (part_img d bs img w))"
    using assms(1,5) unfolding part_inv_def part_img_def pb(1) distrib_right
    by (simp add: drop_take min_absorb1 add.commute)
  then show ?thesis
    using w' assms(1) by (auto simp: mbr_read_def part_inv_def part_img_def)
qed

lemma part_write_ok:
  assumes "part_inv d rd wr bs img inv pre post w" "0 < n" "unat n < 2147483648" "unat bs dvd unat n"
    and "unat blk * unat bs + unat n \<le> length (part_img d bs img w)" "unat n \<le> length b"
  shows "\<exists>w'. mbr_write d w b n blk = Some (int (unat n), w')
    \<and> part_inv d rd wr bs img inv pre post w'
    \<and> part_img d bs img w' = blit (part_img d bs img w) (unat blk * unat bs) (take (unat n) b)"
proof -
  note pb = part_block [OF assms(1,2,4,5)]
  let ?p = "part_img d bs img w" and ?xs = "take (unat n) b"
  have inv: "inv w" "img w = pre @ ?p @ post" "length pre = unat (start_block d) * unat bs"
    "length ?p = unat (blocks d) * unat bs"
    "bd_write (mbr_parent d) = Some wr" "bd_read (mbr_parent d) = Some rd"
    using assms(1) by (simp_all add: part_inv_def)
  obtain w' where w': "wr w b n (blk + start_block d) = Some (int (unat n), w')"
    "inv w'" "img w' = blit (img w) (unat (blk + start_block d) * unat bs) ?xs"
    using wr_ok [OF inv(1) assms(2-4) pb(2) assms(6)] by blast
  have len: "length ?xs = unat n"
    using assms(6) by simp
  have "img w' = blit (pre @ ?p @ post) (length pre + unat blk * unat bs) ?xs"
    using w'(3) inv(2,3) pb(1) by (simp add: distrib_right add.commute)
  also have "\<dots> = pre @ blit ?p (unat blk * unat bs) ?xs @ post"
    using assms(5) len by (simp add: blit_def)
  finally have img': "img w' = pre @ blit ?p (unat blk * unat bs) ?xs @ post" .
  have "length (blit ?p (unat blk * unat bs) ?xs) = length ?p"
    using assms(5) len by simp
  then have "part_img d bs img w' = blit ?p (unat blk * unat bs) ?xs"
    using inv(3,4) by (simp add: part_img_def img')
  then show ?thesis
    using w' inv img' \<open>length (blit ?p (unat blk * unat bs) ?xs) = length ?p\<close>
    by (auto simp: mbr_write_def part_inv_def)
qed

end

sublocale partition \<subseteq> part: rw_disk "mbr_read d" bs "part_img d bs img"
    "part_inv d rd wr bs img inv pre post" "mbr_write d"
proof unfold_locales
  show "0 < bs"
    by (rule bs_pos)
  show "length (part_img d bs img w) \<le> 4294967295 * unat bs" if "part_inv d rd wr bs img inv pre post w" for w
  proof -
    have "length (part_img d bs img w) \<le> length (img w)"
      by (simp add: part_img_def)
    moreover have "inv w"
      using that by (simp add: part_inv_def)
    ultimately show ?thesis
      using img_bound [of w] by linarith
  qed
qed (use part_read_ok part_write_ok in blast)+

context partition
begin

lemma part_contract:
  "rw_disk (mbr_read d) bs (part_img d bs img) (part_inv d rd wr bs img inv pre post) (mbr_write d)"
  by (rule part.rw_disk_axioms)

end

interpretation cached_ramdisk_part: partition "cache_read al cd" 512 "\<lambda>s. ramdisk_img rdev (fst s)"
    "cache_inv cd (ramdisk_read rdev) (ramdisk_write rdev) 512 (ramdisk_img rdev) (ramdisk_inv rdev)"
    "cache_write cd" d pre post
  for al cd rdev d pre post
  by (intro partition.intro ramdisk_cache.cached_contract)

section \<open>What the table says\<close>

definition mbr_signature :: "buf \<Rightarrow> bool" where
  "mbr_signature b \<longleftrightarrow> b ! 0x1fe = 0x55 \<and> b ! 0x1ff = 0xaa"

definition mbr_used :: "buf \<Rightarrow> nat \<Rightarrow> bool" where
  "mbr_used b i \<longleftrightarrow> b ! (0x1be + i * 0x10 + 4) \<noteq> 0"

definition mbr_start :: "buf \<Rightarrow> nat \<Rightarrow> u32" where
  "mbr_start b i = the (read_word b (0x1be + i * 0x10 + 8))"

definition mbr_blocks :: "buf \<Rightarrow> nat \<Rightarrow> u32" where
  "mbr_blocks b i = the (read_word b (0x1be + i * 0x10 + 12))"

definition mbr_aligned :: "buf \<Rightarrow> u32 \<Rightarrow> nat \<Rightarrow> bool" where
  "mbr_aligned b adj i \<longleftrightarrow> mbr_start b i mod adj = 0 \<and> mbr_blocks b i mod adj = 0"

definition mbr_part :: "'w block_device \<Rightarrow> buf \<Rightarrow> u32 \<Rightarrow> nat \<Rightarrow> 'w mbr_block_dev" where
  "mbr_part p b adj i = \<lparr>mbr_parent = p, part_no = i, start_block = mbr_start b i div adj,
     blocks = mbr_blocks b i div adj, part_id = b ! (0x1be + i * 0x10 + 4)\<rparr>"

primrec register_all ::
  "('w, 's) register \<Rightarrow> 'w mbr_block_dev list \<Rightarrow> 'w \<times> 's \<Rightarrow> ('w \<times> 's) option" where
  "register_all reg [] s = Some s"
| "register_all reg (d # ds) s = do {
     (r, s) \<leftarrow> reg (mbr_device d) (uint (part_id d)) s;
     register_all reg ds s }"

lemma mbr_entry_spec:
  assumes "512 \<le> length b" "i < 4" "mbr_used b i \<longrightarrow> mbr_aligned b adj i"
  shows "mbr_entry p b adj i = Some (Inr (if mbr_used b i then Some (mbr_part p b adj i) else None))"
proof -
  obtain sb where "read_word b (0x1be + i * 0x10 + 8) = Some sb"
    using assms(1,2) read_word_eq [of "0x1be + i * 0x10 + 8" b] by auto
  moreover obtain bl where "read_word b (0x1be + i * 0x10 + 12) = Some bl"
    using assms(1,2) read_word_eq [of "0x1be + i * 0x10 + 12" b] by auto
  ultimately show ?thesis
    using assms
    by (auto simp: mbr_entry_def Let_def mbr_used_def mbr_aligned_def mbr_part_def mbr_start_def
        mbr_blocks_def)
qed

lemma mbr_loop_spec:
  assumes "512 \<le> length b" "\<forall>i \<in> set js. i < 4 \<and> (mbr_used b i \<longrightarrow> mbr_aligned b adj i)"
  shows "mbr_loop reg p b adj js parts s = do {
     s \<leftarrow> register_all reg (map (mbr_part p b adj) (filter (mbr_used b) js)) s;
     Some (0, parts @ map (mbr_part p b adj) (filter (mbr_used b) js), s) }"
  using assms(2)
proof (induction js arbitrary: parts s)
  case (Cons i js)
  then have e: "mbr_entry p b adj i = Some (Inr (if mbr_used b i then Some (mbr_part p b adj i) else None))"
    using assms(1) by (intro mbr_entry_spec) auto
  have part_id: "uint (part_id (mbr_part p b adj i)) = uint (b ! (0x1be + i * 0x10 + 4))"
    by (simp add: mbr_part_def)
  show ?case
    using Cons by (auto simp: e split: bind_splits prod.splits)
qed simp

lemma read_mbr_spec:
  assumes "block_read p w b0 512 0 = Some (512, b, w')" "512 \<le> length b"
    and "512 \<le> block_size p" "block_size p mod 512 = 0"
    and adj: "adj = block_size p div 512" and parts: "parts = map (mbr_part p b adj) (filter (mbr_used b) [0, 1, 2, 3])"
  shows "(\<not> mbr_signature b \<longrightarrow> read_mbr reg True b0 (Some p) (w, s) = Some (-1, None, w', s))
    \<and> (mbr_signature b \<and> (\<forall>i < 4. mbr_used b i \<longrightarrow> mbr_aligned b adj i) \<longrightarrow>
        read_mbr reg True b0 (Some p) (w, s) = do {
          s' \<leftarrow> register_all reg parts (w', s);
          Some (0, Some parts, s') })"
proof -
  have g: "get_byte b 0x1fe = Some (b ! 0x1fe)" "get_byte b 0x1ff = Some (b ! 0x1ff)"
    using assms(2) by simp_all
  have no: "\<not> block_size p < 512"
    using assms(3) by simp
  have 1: "read_mbr reg True b0 (Some p) (w, s) = Some (-1, None, w', s)" if "\<not> mbr_signature b"
    using that assms(1) g by (simp add: read_mbr_def Let_def mbr_signature_def)
  have 2: "read_mbr reg True b0 (Some p) (w, s) = do {
          s' \<leftarrow> register_all reg parts (w', s);
          Some (0, Some parts, s') }"
    if "mbr_signature b" and al: "\<forall>i < 4. mbr_used b i \<longrightarrow> mbr_aligned b adj i"
  proof -
    have "\<forall>i \<in> set [0, 1, 2, 3 :: nat]. i < 4 \<and> (mbr_used b i \<longrightarrow> mbr_aligned b adj i)"
      using al by simp
    then have "mbr_loop reg p b adj [0, 1, 2, 3] [] (w', s) = do {
        s' \<leftarrow> register_all reg parts (w', s); Some (0, parts, s') }"
      unfolding parts using mbr_loop_spec [OF assms(2)] by (metis append_Nil)
    then show ?thesis
      using that(1) assms(1,4) g no
      by (simp add: read_mbr_def Let_def mbr_signature_def adj [symmetric] split: bind_splits)
  qed
  from 1 2 show ?thesis
    by blast
qed

lemma part_inv_start:
  assumes "ok w" "bd_read (mbr_parent d) = Some rd" "bd_write (mbr_parent d) = Some wr"
    and "(unat (start_block d) + unat (blocks d)) * unat bs \<le> length (img w)"
  shows "part_inv d rd wr bs img ok (take (unat (start_block d) * unat bs) (img w))
    (drop ((unat (start_block d) + unat (blocks d)) * unat bs) (img w)) w"
proof -
  let ?s = "unat (start_block d) * unat bs" and ?n = "unat (blocks d) * unat bs"
  have le: "?s + ?n \<le> length (img w)"
    using assms(4) by (simp add: distrib_right)
  have "img w = take ?s (img w) @ take ?n (drop ?s (img w)) @ drop (?n + ?s) (img w)"
    by (metis append_take_drop_id drop_drop)
  then show ?thesis
    using assms(1-3) le by (auto simp: part_inv_def part_img_def distrib_right add.commute)
qed

section \<open>Properties\<close>

text \<open>C7: On a device that delivers its first 512 bytes and whose block size is a
  multiple of 512, \<open>read_mbr\<close> returns -1 and registers nothing when the signature
  55 aa is missing; otherwise, when the bounds of the entries in use are
  multiples of the block size, it registers exactly one partition device for
  each of the (at most four) entries with a non-zero type, in table order, with
  the start, length and type of the entry, and returns 0 with that list.\<close>

theorem read_mbr_registers:
  assumes "block_read p w b0 512 0 = Some (512, b, w')" "512 \<le> length b"
    and "512 \<le> block_size p" "block_size p mod 512 = 0"
    and adj: "adj = block_size p div 512" and parts: "parts = map (mbr_part p b adj) (filter (mbr_used b) [0, 1, 2, 3])"
  shows "(\<not> mbr_signature b \<longrightarrow> read_mbr reg True b0 (Some p) (w, s) = Some (-1, None, w', s))
    \<and> (mbr_signature b \<and> (\<forall>i < 4. mbr_used b i \<longrightarrow> mbr_aligned b adj i) \<longrightarrow>
        read_mbr reg True b0 (Some p) (w, s) = do {
          s' \<leftarrow> register_all reg parts (w', s);
          Some (0, Some parts, s') })"
  using assms by (rule read_mbr_spec)

theorem read_mbr_registers_witness:
  "\<exists>p parts. read_mbr (\<lambda>d ty s. Some (0, s)) True (replicate 512 0) (Some p) ((), ()) = Some (0, Some parts, (), ())
    \<and> map start_block parts = [2] \<and> map part_no parts = [1]"
proof -
  let ?b = "replicate 466 0 @ [6, 0, 0, 0, 2, 0, 0, 0, 8, 0, 0, 0] @ replicate 32 0 @ [0x55, 0xaa] :: buf"
  let ?p = "\<lparr>driver_name = [], device_name = [], device_id = [], dev_id_len = 0,
      supports_multiple_block_read = False, supports_multiple_block_write = False,
      bd_read = Some (\<lambda>w n blk. Some (512, ?b, w)), bd_write = None, block_size = 512, num_blocks = 0\<rparr>"
  let ?parts = "[mbr_part ?p ?b 1 1]"
  have read: "block_read ?p () (replicate 512 0) 512 0 = Some (512, ?b, ())"
    by (simp add: block_read_def block_read_loop.simps blit_def)
  have used: "mbr_signature ?b" "\<not> mbr_used ?b 0" "mbr_used ?b 1" "\<not> mbr_used ?b 2" "\<not> mbr_used ?b 3"
    by (simp_all add: mbr_signature_def mbr_used_def nth_append)
  have "mbr_aligned ?b 1 i" for i
    by (simp add: mbr_aligned_def)
  then have "read_mbr (\<lambda>d ty s. Some (0, s)) True (replicate 512 0) (Some ?p) ((), ()) = Some (0, Some ?parts, (), ())"
    using read_mbr_registers [OF read, of 1 ?parts "\<lambda>d ty s. Some (0, s)" "()"] used by simp
  moreover have "mbr_start ?b 1 = 2"
    by (simp add: mbr_start_def read_word_eq nth_append)
  ultimately show ?thesis
    by (intro exI [of _ ?p] exI [of _ ?parts]) (simp add: mbr_part_def)
qed



end
