(* ===== verification/FsCore.thy ===== *)
theory FsCore
  imports Mbr
begin

text \<open>
  The structures the file systems share (fs.h, vfs.h, dirent of multiboot.h)
  and the generic transfer functions \<open>fs_fread\<close> and \<open>fs_fwrite\<close> of libfs.c, which
  cut a byte range of a file into blocks and ask the file system for the device
  block of each.  A pointer that a file system keeps in \<open>opaque\<close> is the 32-bit
  integer stored in it.  The cursor that \<open>fs_fread\<close> passes by reference to the
  block lookup is threaded through the loop as a state of its own.  Fresh memory
  holds zeros; its address is an argument, because alignment selects the copy
  routine.
\<close>

section \<open>Structures\<close>

record vfs_file =
  f_fs :: nat
  f_pos :: int
  f_mode :: u32
  f_opaque :: u32
  f_len :: int
  f_flags :: u32

record dirent =
  de_name :: cstring
  de_byte_size :: u32
  de_is_dir :: bool
  de_opaque :: u32
  de_fs :: nat

definition VFS_MODE_R :: u32 where "VFS_MODE_R = 1"
definition VFS_MODE_W :: u32 where "VFS_MODE_W = 2"
definition VFS_MODE_RW :: u32 where "VFS_MODE_RW = 3"
definition VFS_MODE_APPEND :: u32 where "VFS_MODE_APPEND = 4"
definition VFS_MODE_CREATE :: u32 where "VFS_MODE_CREATE = 8"
definition VFS_FLAGS_EOF :: u32 where "VFS_FLAGS_EOF = 1"
definition VFS_FLAGS_ERROR :: u32 where "VFS_FLAGS_ERROR = 2"
definition FS_FLAG_SUPPORTS_EMPTY_FNAME :: u32 where "FS_FLAG_SUPPORTS_EMPTY_FNAME = 1"
definition SEEK_SET :: int where "SEEK_SET = 0x1000"
definition SEEK_CUR :: int where "SEEK_CUR = 0x1001"
definition SEEK_END :: int where "SEEK_END = 0x1002"

text \<open>The operations of a file system, each closed over the structure it
  belongs to; \<open>fs_id\<close> is the identity of that structure.  A pointer result is
  \<open>Inl\<close> for NULL, with the error number when one is set.  Read and write take
  the caller's buffer and its address.\<close>

record 'w fs =
  fs_id :: nat
  fs_parent :: "'w block_device"
  fs_name :: cstring
  fs_flags :: u32
  fs_block_size :: u32
  fs_fopen :: "dirent option \<Rightarrow> cstring \<Rightarrow> 'w \<Rightarrow> ((errno option + vfs_file) \<times> 'w) option"
  fs_fread_op :: "buf \<Rightarrow> u32 \<Rightarrow> u32 \<Rightarrow> vfs_file \<Rightarrow> 'w \<Rightarrow> (u32 \<times> buf \<times> vfs_file \<times> 'w) option"
  fs_fwrite_op :: "(buf \<Rightarrow> u32 \<Rightarrow> u32 \<Rightarrow> vfs_file \<Rightarrow> 'w \<Rightarrow> (u32 \<times> vfs_file \<times> 'w) option) option"
  fs_fclose :: "(vfs_file \<Rightarrow> 'w \<Rightarrow> 'w) option"
  fs_fsize :: "(vfs_file \<Rightarrow> int) option"
  fs_fseek :: "(vfs_file \<Rightarrow> int \<Rightarrow> int \<Rightarrow> int \<times> vfs_file) option"
  fs_ftell :: "(vfs_file \<Rightarrow> int) option"
  fs_fflush :: "(vfs_file \<Rightarrow> 'w \<Rightarrow> 'w) option"
  fs_read_directory :: "cstring list \<Rightarrow> 'w \<Rightarrow> ((errno option + dirent list) \<times> 'w) option"

definition fs_interpret_mode :: "cstring \<Rightarrow> u32" where
  "fs_interpret_mode mode =
     (if mode = lit ''r'' then VFS_MODE_R
      else if mode = lit ''r+'' then VFS_MODE_RW
      else if mode = lit ''w'' then VFS_MODE_W OR VFS_MODE_CREATE
      else if mode = lit ''w+'' then VFS_MODE_RW OR VFS_MODE_CREATE
      else if mode = lit ''a'' then VFS_MODE_W OR VFS_MODE_APPEND OR VFS_MODE_CREATE
      else if mode = lit ''a+'' then VFS_MODE_RW OR VFS_MODE_APPEND OR VFS_MODE_CREATE
      else 0)"

section \<open>Reading\<close>

text \<open>The block lookup: block index in the file, the open file, the cursor,
  whether blocks may be added; 0xffffffff is its failure.\<close>

type_synonym ('w, 'o) get_block =
  "u32 \<Rightarrow> vfs_file \<Rightarrow> 'o \<Rightarrow> bool \<Rightarrow> 'w \<Rightarrow> (u32 \<times> vfs_file \<times> 'o \<times> 'w) option"

text \<open>The byte range of the transfer in blocks.\<close>

record range =
  first_idx :: u32
  first_off :: u32
  last_idx :: u32
  last_off :: u32

definition block_range :: "u32 \<Rightarrow> u32 \<Rightarrow> u32 \<Rightarrow> range" where
  "block_range pos byte_size bs =
     \<lparr>first_idx = pos div bs, first_off = pos mod bs,
      last_idx = (pos + byte_size) div bs, last_off = (pos + byte_size) mod bs\<rparr>"

text \<open>The addresses of the caller's buffer and of the temporary buffer.\<close>

record addrs2 =
  ptr_addr :: u32
  temp_addr :: u32

partial_function (option) fs_fread_loop ::
  "('w, 'o) get_block \<Rightarrow> 'w block_device \<Rightarrow> u32 \<Rightarrow> range \<Rightarrow> addrs2 \<Rightarrow>
   u32 \<Rightarrow> int \<Rightarrow> int \<Rightarrow> buf \<Rightarrow> vfs_file \<Rightarrow> 'o \<Rightarrow> 'w \<Rightarrow> (u32 \<times> buf \<times> vfs_file \<times> 'w) option" where
  "fs_fread_loop get dev bs rg ad cur off tot b f opq w =
     (if \<not> cur \<le> last_idx rg then Some (word_of_int tot, b, f, w)
      else do {
        let so = (if cur = first_idx rg then first_off rg else 0);
        let lo = (if cur = last_idx rg then last_off rg else bs);
        let seg = lo - so;
        (blk, f, opq, w) \<leftarrow> get cur f opq False w;
        (if blk = 0xffffffff then Some (word_of_int tot, b, f, w)
         else if so = 0 \<and> seg = bs then do {
           sub \<leftarrow> (if off < 0 \<or> nat off > length b then None else Some (drop (nat off) b));
           (r, sub, w) \<leftarrow> block_read dev w sub bs blk;
           let bytes_read = sint r;
           let b = take (nat off) b @ sub;
           let tot = tot + bytes_read;
           let f = f\<lparr>f_pos := f_pos f + bytes_read\<rparr>;
           if r \<noteq> bs then Some (word_of_int tot, b, f, w)
           else fs_fread_loop get dev bs rg ad (cur + 1) (off + bytes_read) tot b f opq w }
         else do {
           (r, tmp, w) \<leftarrow> block_read dev w (replicate (unat bs) 0) bs blk;
           let lo = (if lo > r then r else lo);
           let seg = (if lo < so then 0 else lo - so);
           data \<leftarrow> load tmp (unat so)
             (qcopy_len ((ptr_addr ad + word_of_int off) AND 0xf = 0) (temp_addr ad + so) seg);
           b \<leftarrow> (if off < 0 then None else store b (nat off) data);
           let tot = sint (word_of_int tot + seg);
           let f = f\<lparr>f_pos := sint (word_of_int (f_pos f) + seg)\<rparr>;
           if r \<noteq> bs then Some (word_of_int tot, b, f, w)
           else fs_fread_loop get dev bs rg ad (cur + 1) (off + int (unat seg)) tot b f opq w }) })"

definition fs_fread ::
  "('w, 'o) get_block \<Rightarrow> 'w block_device \<Rightarrow> u32 \<Rightarrow> addrs2 \<Rightarrow> buf \<Rightarrow> u32 \<Rightarrow> vfs_file \<Rightarrow> 'o \<Rightarrow> 'w \<Rightarrow>
   (u32 \<times> buf \<times> vfs_file \<times> 'w) option" where
  "fs_fread get dev bs ad b byte_size f opq w =
     (if bs = 0 then None
      else let rg = block_range (word_of_int (f_pos f)) byte_size bs
           in fs_fread_loop get dev bs rg ad (first_idx rg) 0 0 b f opq w)"

section \<open>Writing\<close>

text \<open>After each segment the length follows the position.\<close>

definition advance :: "vfs_file \<Rightarrow> u32 \<Rightarrow> vfs_file" where
  "advance f n = (let f = f\<lparr>f_pos := sint (word_of_int (f_pos f) + n)\<rparr>
                  in if f_pos f > f_len f then f\<lparr>f_len := f_pos f\<rparr> else f)"

partial_function (option) fs_fwrite_loop ::
  "('w, 'o) get_block \<Rightarrow> 'w block_device \<Rightarrow> u32 \<Rightarrow> range \<Rightarrow> addrs2 \<Rightarrow>
   u32 \<Rightarrow> nat \<Rightarrow> int \<Rightarrow> buf \<Rightarrow> vfs_file \<Rightarrow> 'o \<Rightarrow> 'w \<Rightarrow> (u32 \<times> vfs_file \<times> 'w) option" where
  "fs_fwrite_loop get dev bs rg ad cur off tot b f opq w =
     (if \<not> cur \<le> last_idx rg then Some (word_of_int tot, f, w)
      else do {
        let so = (if cur = first_idx rg then first_off rg else 0);
        let lo = (if cur = last_idx rg then last_off rg else bs);
        let seg = lo - so;
        (blk, f, opq, w) \<leftarrow> get cur f opq True w;
        (if blk = 0xffffffff then Some (word_of_int tot, f, w)
         else if so = 0 \<and> seg = bs then do {
           (r, w) \<leftarrow> block_write dev w (drop off b) bs blk;
           let tot = sint (word_of_int tot + r);
           let f = advance f r;
           if r \<noteq> bs then Some (word_of_int tot, f, w)
           else fs_fwrite_loop get dev bs rg ad (cur + 1) (off + unat r) tot b f opq w }
         else do {
           (r, tmp, w) \<leftarrow> block_read dev w (replicate (unat bs) 0) bs blk;
           if r \<noteq> bs then Some (word_of_int tot, f, w)
           else do {
             data \<leftarrow> load b off
               (qcopy_len ((temp_addr ad + so) AND 0xf = 0) (ptr_addr ad + word_of_nat off) seg);
             tmp \<leftarrow> store tmp (unat so) data;
             (r, w) \<leftarrow> block_write dev w tmp bs blk;
             let lo = (if lo > r then r else lo);
             let seg = (if lo < so then 0 else lo - so);
             let tot = sint (word_of_int tot + seg);
             let f = advance f seg;
             if r \<noteq> bs then Some (word_of_int tot, f, w)
             else fs_fwrite_loop get dev bs rg ad (cur + 1) (off + unat seg) tot b f opq w } }) })"

definition fs_fwrite ::
  "('w, 'o) get_block \<Rightarrow> 'w block_device \<Rightarrow> u32 \<Rightarrow> addrs2 \<Rightarrow> buf \<Rightarrow> u32 \<Rightarrow> vfs_file \<Rightarrow> 'o \<Rightarrow> 'w \<Rightarrow>
   (u32 \<times> vfs_file \<times> 'w) option" where
  "fs_fwrite get dev bs ad b byte_size f opq w =
     (if bs = 0 then None
      else do {
        let f = (if f_mode f AND VFS_MODE_APPEND \<noteq> 0 \<and> f_mode f AND VFS_MODE_R \<noteq> 0
                 then f\<lparr>f_pos := f_len f\<rparr> else f);
        let rg = block_range (word_of_int (f_pos f)) byte_size bs;
        fs_fwrite_loop get dev bs rg ad (first_idx rg) 0 0 b f opq w })"

section \<open>The contract of a block lookup\<close>

text \<open>A file of \<open>nb\<close> blocks with the bytes \<open>content\<close>: looked up in ascending
  order, the block of every index below \<open>nb\<close> is found and reads as that part of
  the content; the index after the last one is refused, or names some readable
  block.  \<open>finv f c i w\<close> says that file, cursor and world are fit to look up
  index i, \<open>wok w\<close> that the world is sound.  A lookup changes nothing of the
  file but its flags.\<close>

definition same_file :: "vfs_file \<Rightarrow> vfs_file \<Rightarrow> bool" where
  "same_file f f' \<longleftrightarrow> f' = f\<lparr>f_flags := f_flags f'\<rparr>"

lemma same_file_refl [simp]: "same_file f f" "same_file f (f\<lparr>f_flags := x\<rparr>)"
  by (simp_all add: same_file_def)

lemma same_file_fields:
  "same_file f f' \<Longrightarrow> f_pos f' = f_pos f \<and> f_len f' = f_len f \<and> f_fs f' = f_fs f
    \<and> f_opaque f' = f_opaque f \<and> f_mode f' = f_mode f"
  unfolding same_file_def by (metis vfs_file.select_convs vfs_file.surjective vfs_file.update_convs(6))

lemma same_file_pos: "same_file f f' \<Longrightarrow> same_file (f\<lparr>f_pos := x\<rparr>) (f'\<lparr>f_pos := x\<rparr>)"
  unfolding same_file_def by (metis vfs_file.select_convs(6) vfs_file.surjective vfs_file.update_convs(2,6))

lemma same_file_trans: "same_file (f\<lparr>f_pos := x\<rparr>) g \<Longrightarrow> same_file (g\<lparr>f_pos := y\<rparr>) h \<Longrightarrow> same_file (f\<lparr>f_pos := y\<rparr>) h"
  unfolding same_file_def by (metis vfs_file.select_convs vfs_file.surjective vfs_file.update_convs(2,6))

locale file_reader =
  fixes get :: "('w, 'o) get_block" and dev :: "'w block_device" and bs :: u32
    and content :: buf and nb :: nat and finv :: "vfs_file \<Rightarrow> 'o \<Rightarrow> nat \<Rightarrow> 'w \<Rightarrow> bool" and wok :: "'w \<Rightarrow> bool"
  assumes bs_min: "16 \<le> unat bs"
    and content_len: "finv f c i w \<Longrightarrow> length content = nb * unat bs \<and> nb * unat bs < 2147483648"
    and finv_pos: "finv f c i w \<Longrightarrow> finv (f\<lparr>f_pos := x\<rparr>) c i w"
    and finv_wok: "finv f c i w \<Longrightarrow> wok w"
    and get_ok: "finv f c i w \<Longrightarrow> i < nb \<Longrightarrow> \<exists>blk f' c' w'.
      get (word_of_nat i) f c False w = Some (blk, f', c', w') \<and> blk \<noteq> 0xffffffff \<and> same_file f f'
      \<and> (\<forall>b. unat bs \<le> length b \<longrightarrow> (\<exists>w''. block_read dev w' b bs blk =
            Some (bs, blit b 0 (blk_of (unat bs) content i), w'') \<and> finv f' c' (Suc i) w''))"
    and get_end: "finv f c nb w \<Longrightarrow> \<exists>blk f' c' w'.
      get (word_of_nat nb) f c False w = Some (blk, f', c', w') \<and> same_file f f' \<and> wok w'
      \<and> (blk = 0xffffffff \<or> (\<forall>b. unat bs \<le> length b \<longrightarrow> (\<exists>data w''. block_read dev w' b bs blk =
            Some (bs, blit b 0 data, w'') \<and> length data = unat bs \<and> wok w'')))"
begin

abbreviation B :: nat where "B \<equiv> unat bs"

lemma div_le_nb: "p \<le> nb * B \<Longrightarrow> p div B \<le> nb"
  using bs_min by (metis div_le_mono nonzero_mult_div_cancel_right not_numeral_le_zero)

text \<open>The block index, offset and length of the segment at position p.\<close>

definition seg_end :: "nat \<Rightarrow> nat \<Rightarrow> nat" where
  "seg_end E p = (if p div B = E div B then E else (p div B + 1) * B)"

lemma seg_end_bounds:
  assumes "p \<le> E"
  shows "p \<le> seg_end E p" "seg_end E p \<le> E" "seg_end E p - p \<le> B"
    "p mod B + (seg_end E p - p) \<le> B"
    "p div B \<noteq> E div B \<Longrightarrow> seg_end E p mod B = 0 \<and> seg_end E p div B = Suc (p div B)"
proof -
  have B: "0 < B"
    using bs_min by simp
  have p: "p = p div B * B + p mod B" "p mod B < B" and E: "E = E div B * B + E mod B" "E mod B < B"
    using B by simp_all
  have le: "p div B \<le> E div B"
    using assms by (rule div_le_mono)
  have up: "p \<le> (p div B + 1) * B"
    using p unfolding distrib_right mult_1 by linarith
  then show "p \<le> seg_end E p"
    using assms by (simp add: seg_end_def)
  have nxt: "(p div B + 1) * B \<le> E" if "p div B \<noteq> E div B"
  proof -
    have "(p div B + 1) * B \<le> E div B * B"
      using le that by (intro mult_le_mono1) simp
    then show ?thesis
      using E by linarith
  qed
  then show "seg_end E p \<le> E"
    by (simp add: seg_end_def)
  show s: "p mod B + (seg_end E p - p) \<le> B"
  proof (cases "p div B = E div B")
    case True
    then have "E = p div B * B + E mod B"
      using E(1) by metis
    then have "p mod B + (E - p) = E mod B"
      using p(1) assms by linarith
    then show ?thesis
      using True E(2) by (simp add: seg_end_def)
  next
    case False
    have "p mod B + ((p div B + 1) * B - p) = B"
      using p(1) up unfolding distrib_right mult_1 by linarith
    then show ?thesis
      using False by (simp add: seg_end_def)
  qed
  then show "seg_end E p - p \<le> B"
    by simp
  show "seg_end E p mod B = 0 \<and> seg_end E p div B = Suc (p div B)" if "p div B \<noteq> E div B"
    using that B by (simp add: seg_end_def)
qed

lemma seg_end_stuck:
  assumes "p \<le> E" "seg_end E p = p"
  shows "p = E"
proof (cases "p div B = E div B")
  case False
  have "p = p div B * B + p mod B" "p mod B < B" "(p div B + 1) * B = p div B * B + B"
    using bs_min by simp_all
  then have "p < (p div B + 1) * B"
    by linarith
  then show ?thesis
    using assms(2) False by (simp add: seg_end_def)
qed (use assms(2) in \<open>simp add: seg_end_def\<close>)

text \<open>The segment of position p as the code computes it.\<close>

lemma block_range_fields:
  assumes "E < 2147483648" "pos \<le> E"
  defines "rg \<equiv> block_range (word_of_nat pos) (word_of_nat (E - pos)) bs"
  shows "unat (first_idx rg) = pos div B" "unat (first_off rg) = pos mod B"
    "unat (last_idx rg) = E div B" "unat (last_off rg) = E mod B"
proof -
  have u: "unat (word_of_nat pos :: u32) = pos" "unat (word_of_nat pos + word_of_nat (E - pos) :: u32) = E"
    using assms(1,2) by (simp_all add: unat_plus_if_u32 unat_of_nat_u32)
  then show "unat (first_idx rg) = pos div B" "unat (first_off rg) = pos mod B"
    "unat (last_idx rg) = E div B" "unat (last_off rg) = E mod B"
    by (simp_all add: rg_def block_range_def unat_div unat_mod)
qed

lemma segment_words:
  assumes "E < 2147483648" "pos \<le> p" "p \<le> E" "p = pos \<or> p mod B = 0"
  defines "rg \<equiv> block_range (word_of_nat pos) (word_of_nat (E - pos)) bs"
  shows "unat (if word_of_nat (p div B) = first_idx rg then first_off rg else 0) = p mod B"
    and "unat (if word_of_nat (p div B) = last_idx rg then last_off rg else bs) = p mod B + (seg_end E p - p)"
    and "word_of_nat (p div B) \<le> last_idx rg"
    and "word_of_nat (p div B) + 1 \<le> last_idx rg \<longleftrightarrow> p div B < E div B"
proof -
  have B: "0 < B"
    using bs_min by simp
  note rg = block_range_fields [of E pos, folded rg_def]
  have pd: "p div B \<le> E div B" "p div B \<le> p" "E div B \<le> E"
    using assms(3) by (simp_all add: div_le_mono)
  have small: "p div B < 2147483648"
    using pd assms(1,3) by linarith
  then have cur: "unat (word_of_nat (p div B) :: u32) = p div B"
    by (intro unat_of_nat_u32) simp
  have cur1: "unat (word_of_nat (p div B) + 1 :: u32) = p div B + 1"
    using small cur by (subst unat_Suc_u32) simp_all
  have ws: "p mod B = pos mod B" if "p div B = pos div B"
  proof (cases "p = pos")
    case False
    then have "p mod B = 0"
      using assms(4) by simp
    then have "p = pos div B * B"
      using that div_mult_mod_eq [of p B] by simp
    then show ?thesis
      using False assms(2) div_mult_mod_eq [of pos B] by linarith
  qed simp
  have wz: "p mod B = 0" if "p div B \<noteq> pos div B"
    using that assms(4) by auto
  show "unat (if word_of_nat (p div B) = first_idx rg then first_off rg else 0) = p mod B"
    using rg(1,2) assms(1-3) cur ws wz by (auto simp: word_unat_eq_iff)
  have "p mod B + (seg_end E p - p) = (if p div B = E div B then E mod B else B)"
  proof (cases "p div B = E div B")
    case True
    have "E = p div B * B + E mod B" "p = p div B * B + p mod B"
      using True div_mult_mod_eq [of E B] div_mult_mod_eq [of p B] by metis+
    then have "p mod B + (E - p) = E mod B"
      using assms(3) by linarith
    then show ?thesis
      using True by (simp add: seg_end_def)
  next
    case False
    have "(p div B + 1) * B = p div B * B + B" "p = p div B * B + p mod B" "p mod B < B"
      using B by simp_all
    then have "p mod B + ((p div B + 1) * B - p) = B"
      by linarith
    then show ?thesis
      using False by (simp add: seg_end_def)
  qed
  then show "unat (if word_of_nat (p div B) = last_idx rg then last_off rg else bs) = p mod B + (seg_end E p - p)"
    using rg(3,4) assms(1-3) cur by (auto simp: word_unat_eq_iff)
  show "word_of_nat (p div B) \<le> last_idx rg"
    using rg(3) assms(1-3) cur pd by (simp add: word_le_nat_alt)
  show "word_of_nat (p div B) + 1 \<le> last_idx rg \<longleftrightarrow> p div B < E div B"
    using rg(3) assms(1-3) cur1 by (simp add: word_le_nat_alt Suc_le_eq)
qed

lemma sint_add_seg:
  assumes "a + unat s < 2147483648"
  shows "sint (word_of_int (int a) + s :: u32) = int (a + unat s)"
proof -
  have "unat (word_of_nat a + s :: u32) = a + unat s"
    using assms by (simp add: unat_plus_if_u32 unat_of_nat_u32)
  then show ?thesis
    using sint_small_u32 [of "word_of_nat a + s"] assms by simp
qed

lemma load_segment:
  assumes "unat so + unat seg \<le> length tmp" "seg = 0 \<Longrightarrow> so = 0" "16 \<le> length tmp"
  shows "\<exists>data. load tmp (unat so) (qcopy_len al a seg) = Some data
    \<and> take (unat seg) data = take (unat seg) (drop (unat so) tmp)
    \<and> unat seg \<le> length data
    \<and> length data \<le> unat seg + (if seg = 0 \<and> al \<and> a AND 0xf = 0 then 16 else 0)"
proof (cases "seg = 0")
  case True
  then show ?thesis
    using assms by (auto simp: qcopy_len_def quick_len_0)
next
  case False
  then have "qcopy_len al a seg = unat seg"
    by (intro qcopy_len_eq) (simp add: word_gt_0)
  then show ?thesis
    using assms by simp
qed

lemma blit_prefix:
  assumes "off + length data \<le> length b" "n \<le> length data"
  shows "take (off + n) (blit b off data) = take off b @ take n data"
    and "off + length data \<le> k \<Longrightarrow> drop k (blit b off data) = drop k b"
  using assms by (simp_all add: blit_def)

lemma content_segment:
  assumes "p mod B + n \<le> B"
  shows "take n (drop (p mod B) (blk_of B content (p div B))) = take n (drop p content)"
proof -
  have "n \<le> B - p mod B"
    using assms by simp
  then show ?thesis
    by (simp add: blk_of_def drop_take min_absorb1 add.commute)
qed

lemma fread_step:
  assumes inv: "finv f c (p div B) w" "f_pos f = int p"
    and range: "pos \<le> p" "p \<le> E" "pos < E" "E \<le> nb * B" "p = pos \<or> p mod B = 0"
    and room: "E - pos + k \<le> length b"
    and slack: "E mod B = 0 \<and> (ptr_addr ad + word_of_nat (E - pos)) AND 0xf = 0 \<and> temp_addr ad AND 0xf = 0 \<longrightarrow> 16 \<le> k"
  defines "rg \<equiv> block_range (word_of_nat pos) (word_of_nat (E - pos)) bs"
    and "q \<equiv> seg_end E p"
  shows "\<exists>b1 f1 c1 w1.
    fs_fread_loop get dev bs rg ad (word_of_nat (p div B)) (int (p - pos)) (int (p - pos)) b f c w =
      (if p div B = E div B then Some (word_of_nat (E - pos), b1, f1, w1)
       else fs_fread_loop get dev bs rg ad (word_of_nat (p div B + 1)) (int (q - pos)) (int (q - pos)) b1 f1 c1 w1)
    \<and> length b1 = length b \<and> same_file (f\<lparr>f_pos := int q\<rparr>) f1 \<and> wok w1
    \<and> take (q - pos) b1 = take (p - pos) b @ take (q - p) (drop p content)
    \<and> drop (E - pos + k) b1 = drop (E - pos + k) b
    \<and> (p div B \<noteq> E div B \<longrightarrow> finv f1 c1 (p div B + 1) w1)"
proof -
  have size: "length content = nb * B" "nb * B < 2147483648"
    using content_len [OF inv(1)] by simp_all
  have E: "E < 2147483648"
    using range(4) size(2) by linarith
  note q = seg_end_bounds [OF range(2), folded q_def]
  define so where "so = (if word_of_nat (p div B) = first_idx rg then first_off rg else 0)"
  define lo where "lo = (if word_of_nat (p div B) = last_idx rg then last_off rg else bs)"
  define n where "n = q - p"
  note sw = segment_words [OF E range(1,2,5), folded rg_def q_def, folded so_def lo_def n_def]
  have n: "q = p + n" "p mod B + n \<le> B" "n \<le> B" "q \<le> E"
    using q by (auto simp: n_def)
  have seg: "unat (lo - so) = n" "\<not> lo > bs" "\<not> lo < so"
    using sw(1,2) n by (simp_all add: unat_sub word_le_nat_alt word_less_nat_alt)
  have zero: "so = 0 \<and> p = E \<and> E mod B = 0" if "lo - so = 0"
  proof -
    have "n = 0"
      using that seg(1) by simp
    then have "p = E"
      using n(1) seg_end_stuck [OF range(2)] by (simp add: q_def)
    then show "so = 0 \<and> p = E \<and> E mod B = 0"
      using range(3,5) sw(1) by (simp add: word_unat_eq_iff)
  qed
  have off: "p - pos + n = q - pos" "q - pos \<le> E - pos"
    using n range(1) by simp_all
  have loop_end: "fs_fread_loop get dev bs rg ad (word_of_nat (p div B) + 1) (int (q - pos)) (int (q - pos)) b' f' c' w' =
      Some (word_of_nat (E - pos), b', f', w')" if "p div B = E div B" for b' f' c' w'
  proof -
    have "\<not> word_of_nat (p div B) + 1 \<le> last_idx rg" "q = E"
      using that sw(4) by (simp_all add: q_def seg_end_def)
    then show ?thesis
      by (subst fs_fread_loop.simps) simp
  qed
  have finish: ?thesis
    if loop: "fs_fread_loop get dev bs rg ad (word_of_nat (p div B)) (int (p - pos)) (int (p - pos)) b f c w =
        fs_fread_loop get dev bs rg ad (word_of_nat (p div B) + 1) (int (q - pos)) (int (q - pos)) b1 f1 c1 w1"
      and b1: "b1 = blit b (p - pos) data" "p - pos + length data \<le> E - pos + k" "n \<le> length data"
        "take n data = take n (drop p content)"
      and "same_file (f\<lparr>f_pos := int q\<rparr>) f1" "wok w1" "p div B \<noteq> E div B \<longrightarrow> finv f1 c1 (p div B + 1) w1" for b1 f1 c1 w1 data
  proof -
    have "take (q - pos) b1 = take (p - pos) b @ take (q - p) (drop p content)"
      using blit_prefix(1) [of "p - pos" data b n] b1 off(1) room by (simp add: n_def)
    moreover have "drop (E - pos + k) b1 = drop (E - pos + k) b"
      using blit_prefix(2) [of "p - pos" data b n "E - pos + k"] b1 room by simp
    ultimately show ?thesis
      using that loop_end room by (intro exI [of _ b1] exI [of _ f1] exI [of _ c1] exI [of _ w1])
        (simp add: add.commute)
  qed
  have so: "unat so = p mod B"
    by (rule sw(1))
  have whole: "so = 0 \<and> lo - so = bs \<longleftrightarrow> p mod B = 0 \<and> n = B"
    using so seg(1) by (auto simp: word_unat_eq_iff)
  have pos_small: "p - pos + unat (lo - so) < 2147483648" "p + unat (lo - so) < 2147483648"
    using n(1,4) E seg(1) by simp_all
  have sums: "sint (word_of_int (int (p - pos)) + (lo - so) :: u32) = int (q - pos)"
    "sint (word_of_int (int p) + (lo - so) :: u32) = int q" "int (p - pos) + int n = int (q - pos)"
    using sint_add_seg [OF pos_small(1)] sint_add_seg [OF pos_small(2)] seg(1) off(1) n(1) by simp_all
  have partial: ?thesis
    if get: "get (word_of_nat (p div B)) f c False w = Some (blk, f', c', w1)" "blk \<noteq> 0xffffffff"
        "same_file f f'" "\<not> (p mod B = 0 \<and> n = B)"
      and rd: "block_read dev w1 (replicate B 0) bs blk = Some (bs, tmp, w2)" "length tmp = B"
        "take n (drop (p mod B) tmp) = take n (drop p content)"
      and w2: "wok w2" and fin: "p div B \<noteq> E div B \<longrightarrow> finv f' c' (p div B + 1) w2"
    for blk f' c' w1 tmp w2
  proof -
    let ?al = "(ptr_addr ad + word_of_int (int (p - pos))) AND 0xf = 0"
    obtain data where data: "load tmp (unat so) (qcopy_len ?al (temp_addr ad + so) (lo - so)) = Some data"
      "take n data = take n (drop (p mod B) tmp)" "n \<le> length data"
      and len: "length data \<le> n + (if lo - so = 0 \<and> ?al \<and> (temp_addr ad + so) AND 0xf = 0 then 16 else 0)"
      using load_segment [of so "lo - so" tmp ?al "temp_addr ad + so"] so seg(1) n(2) rd(2) zero bs_min by auto
    have room_data: "p - pos + length data \<le> E - pos + k"
    proof (cases "lo - so = 0 \<and> ?al \<and> (temp_addr ad + so) AND 0xf = 0")
      case True
      then have "16 \<le> k" "n = 0" "p = E"
        using zero slack seg(1) by auto
      then show ?thesis
        using len True by auto
    next
      case False
      then show ?thesis
        using len off unfolding if_not_P [OF False] by simp
    qed
    have not_whole: "\<not> (so = 0 \<and> lo - so = bs)"
      using whole get(4) by blast
    have st: "store b (p - pos) data = Some (blit b (p - pos) data)"
      using room_data room by simp
    have loop: "fs_fread_loop get dev bs rg ad (word_of_nat (p div B)) (int (p - pos)) (int (p - pos)) b f c w =
        fs_fread_loop get dev bs rg ad (word_of_nat (p div B) + 1) (int (q - pos)) (int (q - pos))
          (blit b (p - pos) data) (f'\<lparr>f_pos := int q\<rparr>) c' w2"
      by (subst fs_fread_loop.simps)
        (use get(1,2) same_file_fields [OF get(3)] rd(1) sw(3) seg sums data(1) st inv(2) not_whole in
          \<open>simp add: Let_def so_def [symmetric] lo_def [symmetric] cong: conj_cong\<close>)
    show ?thesis
      by (rule finish [OF loop refl]) (use data room_data rd(3) get(3) w2 fin finv_pos same_file_pos in auto)
  qed
  have k: "p div B \<le> nb"
    using range(2,4) by (intro div_le_nb) simp
  show ?thesis
  proof (cases "p div B < nb")
    case True
    obtain blk f' c' w1 where get: "get (word_of_nat (p div B)) f c False w = Some (blk, f', c', w1)"
      "blk \<noteq> 0xffffffff" "same_file f f'"
      and rd: "\<And>b. B \<le> length b \<Longrightarrow> \<exists>w''. block_read dev w1 b bs blk =
            Some (bs, blit b 0 (blk_of B content (p div B)), w'') \<and> finv f' c' (Suc (p div B)) w''"
      using get_ok [OF inv(1) True] by blast
    have len: "length (blk_of B content (p div B)) = B"
      using True size(1) mult_le_mono1 [of "Suc (p div B)" nb B]
      by (intro length_blk_of) simp
    show ?thesis
    proof (cases "p mod B = 0 \<and> n = B")
      case False
      obtain w2 where "block_read dev w1 (replicate B 0) bs blk =
            Some (bs, blit (replicate B 0) 0 (blk_of B content (p div B)), w2)"
          "finv f' c' (Suc (p div B)) w2"
        using rd [of "replicate B 0"] by auto
      then show ?thesis
        using len content_segment [OF n(2)] finv_wok by (intro partial [OF get False]) (auto simp add: blit_def)
    next
      case w: True
      have B_len: "B \<le> length (drop (p - pos) b)" "p - pos + B \<le> E - pos" "\<not> length b < p - pos"
        using room off w by simp_all
      obtain w2 where w2: "block_read dev w1 (drop (p - pos) b) bs blk =
            Some (bs, blit (drop (p - pos) b) 0 (blk_of B content (p div B)), w2)"
          "finv f' c' (Suc (p div B)) w2"
        using rd [OF B_len(1)] by auto
      have split: "take (p - pos) b @ blit (drop (p - pos) b) 0 (blk_of B content (p div B)) =
          blit b (p - pos) (blk_of B content (p div B))"
        using len by (simp add: blit_def add.commute)
      have sB: "sint bs = int B"
        using B_len(2) E by (intro sint_small_u32) simp
      have is_whole: "so = 0" "lo = bs"
        using whole w by auto
      have loop: "fs_fread_loop get dev bs rg ad (word_of_nat (p div B)) (int (p - pos)) (int (p - pos)) b f c w =
          fs_fread_loop get dev bs rg ad (word_of_nat (p div B) + 1) (int (q - pos)) (int (q - pos))
            (blit b (p - pos) (blk_of B content (p div B))) (f'\<lparr>f_pos := int q\<rparr>) c' w2"
        using get same_file_fields [OF get(3)] w2(1) sw(3) sums(3) sB inv(2) split is_whole B_len n(1) w
        by (subst fs_fread_loop.simps) (simp add: Let_def so_def [symmetric] lo_def [symmetric])
      show ?thesis
        by (rule finish [OF loop refl])
          (use w len B_len(2) w2(2) finv_pos finv_wok same_file_pos [OF get(3)] content_segment [OF n(2)] in auto)
    qed
  next
    case False
    then have k: "p div B = nb"
      using k by simp
    then have "nb * B \<le> p"
      using div_mult_mod_eq [of p B] by (metis le_add1)
    then have at_end: "p = E" "n = 0" "q = E"
      using range(2,4) n(1,4) by simp_all
    obtain blk f' c' w1 where get: "get (word_of_nat (p div B)) f c False w = Some (blk, f', c', w1)"
      "same_file f f'" "wok w1"
      and rd: "blk \<noteq> 0xffffffff \<Longrightarrow> B \<le> length b \<Longrightarrow> \<exists>data w''. block_read dev w1 b bs blk =
            Some (bs, blit b 0 data, w'') \<and> length data = B \<and> wok w''" for b
      using get_end inv(1) unfolding k by blast
    show ?thesis
    proof (cases "blk = 0xffffffff")
      case True
      then have "fs_fread_loop get dev bs rg ad (word_of_nat (p div B)) (int (p - pos)) (int (p - pos)) b f c w =
          Some (word_of_nat (E - pos), b, f', w1)"
        using get sw(3) at_end(1) by (subst fs_fread_loop.simps) (simp add: Let_def)
      moreover have "f\<lparr>f_pos := int q\<rparr> = f"
        using inv(2) at_end by (cases f) simp
      ultimately show ?thesis
        using get(2,3) at_end by auto
    next
      case False
      obtain data w2 where "block_read dev w1 (replicate B 0) bs blk =
            Some (bs, blit (replicate B 0) 0 data, w2)" "length data = B" "wok w2"
        using rd [OF False, of "replicate B 0"] by auto
      then show ?thesis
        using at_end bs_min by (intro partial [OF get(1) False get(2)]) (simp_all add: blit_def)
    qed
  qed
qed

lemma fread_loop:
  assumes "finv f c (p div B) w" "f_pos f = int p"
    and "pos \<le> p" "p \<le> E" "pos < E" "E \<le> nb * B" "p = pos \<or> p mod B = 0" "E - pos + k \<le> length b"
    and "E mod B = 0 \<and> (ptr_addr ad + word_of_nat (E - pos)) AND 0xf = 0 \<and> temp_addr ad AND 0xf = 0 \<longrightarrow> 16 \<le> k"
  shows "\<exists>b1 f1 w1.
    fs_fread_loop get dev bs (block_range (word_of_nat pos) (word_of_nat (E - pos)) bs) ad
      (word_of_nat (p div B)) (int (p - pos)) (int (p - pos)) b f c w = Some (word_of_nat (E - pos), b1, f1, w1)
    \<and> length b1 = length b \<and> same_file (f\<lparr>f_pos := int E\<rparr>) f1 \<and> wok w1
    \<and> take (E - pos) b1 = take (p - pos) b @ take (E - p) (drop p content)
    \<and> drop (E - pos + k) b1 = drop (E - pos + k) b"
  using assms
proof (induction "E div B - p div B" arbitrary: f c p b w)
  case 0
  have eq: "p div B = E div B"
    using 0(1) div_le_mono [OF 0(5), of B] by simp
  then have "seg_end E p = E"
    by (simp add: seg_end_def)
  then show ?case
    using fread_step [where ad = ad, OF 0(2-10), unfolded if_P [OF eq]] by auto
next
  case (Suc m)
  let ?q = "seg_end E p"
  have ne: "p div B \<noteq> E div B"
    using Suc(2) by auto
  note q = seg_end_bounds [OF \<open>p \<le> E\<close>]
  obtain b1 f1 c1 w1 where st: "fs_fread_loop get dev bs (block_range (word_of_nat pos) (word_of_nat (E - pos)) bs) ad
      (word_of_nat (p div B)) (int (p - pos)) (int (p - pos)) b f c w =
      fs_fread_loop get dev bs (block_range (word_of_nat pos) (word_of_nat (E - pos)) bs) ad
        (word_of_nat (p div B + 1)) (int (?q - pos)) (int (?q - pos)) b1 f1 c1 w1"
    and b1: "length b1 = length b" "same_file (f\<lparr>f_pos := int ?q\<rparr>) f1"
      "take (?q - pos) b1 = take (p - pos) b @ take (?q - p) (drop p content)"
      "drop (E - pos + k) b1 = drop (E - pos + k) b" "finv f1 c1 (p div B + 1) w1"
    using fread_step [where ad = ad, OF Suc(3-11)] ne by auto
  have qd: "?q div B = p div B + 1" "?q mod B = 0"
    using q(5) [OF ne] by simp_all
  have "\<exists>b2 f2 w2. fs_fread_loop get dev bs (block_range (word_of_nat pos) (word_of_nat (E - pos)) bs) ad
      (word_of_nat (?q div B)) (int (?q - pos)) (int (?q - pos)) b1 f1 c1 w1 = Some (word_of_nat (E - pos), b2, f2, w2)
    \<and> length b2 = length b1 \<and> same_file (f1\<lparr>f_pos := int E\<rparr>) f2 \<and> wok w2
    \<and> take (E - pos) b2 = take (?q - pos) b1 @ take (E - ?q) (drop ?q content)
    \<and> drop (E - pos + k) b2 = drop (E - pos + k) b1"
  proof (rule Suc(1))
    show "m = E div B - ?q div B"
      using Suc(2) qd by simp
    show "finv f1 c1 (?q div B) w1" "f_pos f1 = int ?q" "E - pos + k \<le> length b1" "?q = pos \<or> ?q mod B = 0"
      using b1(1,5) qd same_file_fields [OF b1(2)] Suc(10) by simp_all
    show "pos \<le> ?q" "?q \<le> E" "pos < E" "E \<le> nb * B"
      using Suc(5-8) q(1,2) by simp_all
    show "E mod B = 0 \<and> (ptr_addr ad + word_of_nat (E - pos)) AND 0xf = 0 \<and> temp_addr ad AND 0xf = 0 \<longrightarrow> 16 \<le> k"
      by (rule Suc(11))
  qed
  moreover have "take (?q - p) (drop p content) @ take (E - ?q) (drop ?q content) = take (E - p) (drop p content)"
    using q(1,2) take_add [of "?q - p" "E - ?q" "drop p content"] by simp
  ultimately show ?case
    using st b1(1,3,4) qd(1) same_file_trans [OF b1(2), of "int E"]
    by auto
qed

text \<open>Reading n bytes: they arrive, and nothing behind them changes, but for the
  sixteen bytes that a copy of length zero at the end of a block moves between
  aligned buffers; k is the room left for them.\<close>

lemma fs_fread_content:
  assumes "finv f c (pos div B) w" "f_pos f = int pos" "0 < n" "pos + n \<le> nb * B" "n + k \<le> length b"
    and "k = 16 \<or> (ptr_addr ad + word_of_nat n) AND 0xf \<noteq> 0 \<or> (pos + n) mod B \<noteq> 0"
  shows "\<exists>b' f' w'. fs_fread get dev bs ad b (word_of_nat n) f c w = Some (word_of_nat n, b', f', w')
    \<and> take n b' = take n (drop pos content) \<and> same_file (f\<lparr>f_pos := int (pos + n)\<rparr>) f' \<and> wok w'
    \<and> length b' = length b \<and> drop (n + k) b' = drop (n + k) b"
proof -
  have "bs \<noteq> 0"
    using bs_min by auto
  moreover have "first_idx (block_range (word_of_nat pos) (word_of_nat n) bs) = word_of_nat (pos div B)"
    using block_range_fields(1) [of "pos + n" pos] assms(4) content_len [OF assms(1)]
    by (intro word_unat_eq_iff [THEN iffD2])
      (simp add: unat_of_nat_u32 le_less_trans [OF div_le_dividend])
  ultimately show ?thesis
    using fread_loop [OF assms(1,2), of pos "pos + n" k b ad] assms(2-6)
    by (auto simp add: fs_fread_def)
qed

end

end
