(* ===== verification/NoFs.thy ===== *)
theory NoFs
  imports FsCore
begin

text \<open>
  The file system without files of nofs.c: a partition is one file of text
  behind a UTF-8 byte order mark.  Positions count from the start of the
  partition, so the text begins at position 3.  The contract of a block lookup is
  derived for it over any device with a flat image, and interpreted on the
  ramdisk.  An error number that a device leaves behind is not carried, so a failed
  open reports EFAULT, the number the code uses when there is none.
\<close>

section \<open>Model\<close>

definition EOF_CHAR :: u8 where "EOF_CHAR = 0xff"

definition eof_mark :: buf where "eof_mark = EOF_CHAR # replicate 8 0x7e"

definition utf_bom :: buf where "utf_bom = [0xef, 0xbb, 0xbf]"

definition nofs_get_next_bdev_block_num :: "'w block_device \<Rightarrow> u32 \<Rightarrow> ('w, unit) get_block" where
  "nofs_get_next_bdev_block_num parent bs f_block_idx s opq add_blocks w =
     (if block_size parent \<noteq> 0 \<and> f_block_idx \<ge> block_size parent then Some (0xffffffff, s, opq, w)
      else if bs = 0 then None
      else if f_block_idx > word_of_int (f_len s) div bs \<and> \<not> add_blocks then Some (0xffffffff, s, opq, w)
      else Some (f_block_idx, s, opq, w))"

text \<open>The inner loop of the search for the end: the first EOF byte among the
  next k bytes of the buffer from index i.\<close>

fun scan_eof :: "buf \<Rightarrow> nat \<Rightarrow> nat \<Rightarrow> nat option option" where
  "scan_eof b i 0 = Some None"
| "scan_eof b i (Suc k) = do { c \<leftarrow> get_byte b i; if c = EOF_CHAR then Some (Some i) else scan_eof b (Suc i) k }"

partial_function (option) nofs_search ::
  "'w block_device \<Rightarrow> u32 \<Rightarrow> buf \<Rightarrow> 'w \<Rightarrow> (int option \<times> 'w) option" where
  "nofs_search dev block_no b w =
     (if \<not> block_no < num_blocks dev then Some (None, w)
      else do {
        rd \<leftarrow> bd_read dev;
        (r, data, w) \<leftarrow> rd w (block_size dev) block_no;
        b \<leftarrow> store b 0 data;
        let bytes_read = (word_of_int r :: u32);
        if bytes_read = 0 then Some (None, w)
        else do {
          hit \<leftarrow> scan_eof b 0 (unat bytes_read);
          (case hit of
             Some i \<Rightarrow> Some (Some (sint (block_no * block_size dev + word_of_nat i)), w)
           | None \<Rightarrow> nofs_search dev block_no b w) } })"

definition nofs_fopen ::
  "'w block_device \<Rightarrow> u32 \<Rightarrow> nat \<Rightarrow> cstring \<Rightarrow> 'w \<Rightarrow> ((errno option + vfs_file) \<times> 'w) option" where
  "nofs_fopen parent bs fsid mode w = do {
     let m = fs_interpret_mode mode;
     (r, block_0, w) \<leftarrow> block_read parent w (replicate (unat bs) 0) bs 0;
     if r \<noteq> bs then Some (Inl (Some EFAULT), w)
     else do {
       head \<leftarrow> load block_0 0 3;
       let file = (\<lambda>p. \<lparr>f_fs = fsid, f_pos = p, f_mode = m, f_opaque = 0, f_len = p, f_flags = 0\<rparr>);
       if head = utf_bom
       then if m AND VFS_MODE_APPEND \<noteq> 0 \<and> num_blocks parent \<noteq> 0
            then do {
              (found, w) \<leftarrow> nofs_search parent 0 (replicate (unat (block_size parent)) 0) w;
              Some (Inr (file (case found of Some p \<Rightarrow> p | None \<Rightarrow> 3)), w) }
            else Some (Inr (file 3), w)
       else do {
         block_0 \<leftarrow> store block_0 0 (utf_bom @ eof_mark);
         (r, w) \<leftarrow> block_write parent w block_0 bs 0;
         if r \<noteq> bs then Some (Inl (Some EFAULT), w) else Some (Inr (file 3), w) } } }"

definition nofs_fread ::
  "'w block_device \<Rightarrow> u32 \<Rightarrow> u32 \<Rightarrow> buf \<Rightarrow> u32 \<Rightarrow> u32 \<Rightarrow> vfs_file \<Rightarrow> 'w \<Rightarrow>
   (u32 \<times> buf \<times> vfs_file \<times> 'w) option" where
  "nofs_fread parent bs temp b addr byte_size f w =
     fs_fread (nofs_get_next_bdev_block_num parent bs) parent bs \<lparr>ptr_addr = addr, temp_addr = temp\<rparr>
       b byte_size f () w"

text \<open>\<open>mark_addr\<close> is the address of the static end mark.\<close>

definition nofs_fwrite ::
  "'w block_device \<Rightarrow> u32 \<Rightarrow> u32 \<Rightarrow> u32 \<Rightarrow> buf \<Rightarrow> u32 \<Rightarrow> u32 \<Rightarrow> vfs_file \<Rightarrow> 'w \<Rightarrow>
   (u32 \<times> vfs_file \<times> 'w) option" where
  "nofs_fwrite parent bs temp mark_addr b addr byte_size f w = do {
     let old_len = f_len f;
     (ret, f, w) \<leftarrow> fs_fwrite (nofs_get_next_bdev_block_num parent bs) parent bs
        \<lparr>ptr_addr = addr, temp_addr = temp\<rparr> b byte_size f () w;
     if f_len f > old_len then do {
       let new_pos = f_len f;
       (_, f, w) \<leftarrow> fs_fwrite (nofs_get_next_bdev_block_num parent bs) parent bs
         \<lparr>ptr_addr = mark_addr, temp_addr = temp\<rparr> eof_mark (word_of_nat (length eof_mark)) f () w;
       Some (ret, f\<lparr>f_pos := new_pos, f_len := new_pos\<rparr>, w) }
     else Some (ret, f, w) }"

definition nofs_fsize :: "vfs_file \<Rightarrow> int" where "nofs_fsize f = f_len f - 3"

definition nofs_fseek :: "vfs_file \<Rightarrow> int \<Rightarrow> int \<Rightarrow> int \<times> vfs_file" where
  "nofs_fseek f offset whence =
     (let clamp = (\<lambda>p. let p = (if p < 3 then 3 else p) in if p > f_len f then f_len f else p) in
      if whence = SEEK_SET then (0, f\<lparr>f_pos := clamp (offset + 3)\<rparr>)
      else if whence = SEEK_END then (0, f\<lparr>f_pos := clamp (f_len f - offset)\<rparr>)
      else if whence = SEEK_CUR then (0, f\<lparr>f_pos := clamp (f_pos f + offset)\<rparr>)
      else (-1, f))"

definition nofs_ftell :: "vfs_file \<Rightarrow> int" where "nofs_ftell f = f_pos f - 3"

definition nofs_read_directory :: "cstring list \<Rightarrow> 'w \<Rightarrow> ((errno option + dirent list) \<times> 'w) option" where
  "nofs_read_directory name w = Some (Inl None, w)"

definition nofs_init :: "nat \<Rightarrow> u32 \<Rightarrow> u32 \<Rightarrow> 'w block_device \<Rightarrow> 'w fs" where
  "nofs_init fsid temp mark_addr parent =
     \<lparr>fs_id = fsid, fs_parent = parent, fs_name = lit ''nofs'', fs_flags = FS_FLAG_SUPPORTS_EMPTY_FNAME,
      fs_block_size = block_size parent,
      fs_fopen = (\<lambda>path. nofs_fopen parent (block_size parent) fsid),
      fs_fread_op = nofs_fread parent (block_size parent) temp,
      fs_fwrite_op = Some (nofs_fwrite parent (block_size parent) temp mark_addr),
      fs_fclose = Some (\<lambda>f w. w), fs_fsize = Some nofs_fsize, fs_fseek = Some nofs_fseek,
      fs_ftell = Some nofs_ftell, fs_fflush = None, fs_read_directory = nofs_read_directory\<rparr>"

section \<open>Reading\<close>

text \<open>A file whose length reaches block \<open>len div bs\<close> of an image that has it.\<close>

definition nofs_finv ::
  "'w bd_read_op \<Rightarrow> u32 \<Rightarrow> ('w \<Rightarrow> buf) \<Rightarrow> ('w \<Rightarrow> bool) \<Rightarrow> 'w block_device \<Rightarrow> buf \<Rightarrow> nat \<Rightarrow>
   vfs_file \<Rightarrow> unit \<Rightarrow> nat \<Rightarrow> 'w \<Rightarrow> bool" where
  "nofs_finv rd bs img ok parent content len f c i w \<longleftrightarrow>
     ok w \<and> f_len f = int len \<and> bd_read parent = Some rd \<and> block_size parent = bs
     \<and> len div unat bs < unat bs \<and> (len div unat bs + 1) * unat bs \<le> length (img w)
     \<and> (len div unat bs + 1) * unat bs < 2147483648
     \<and> content = take ((len div unat bs + 1) * unat bs) (img w)"

lemma div_Suc_bound: "(len div n + 1) * n < m \<Longrightarrow> 0 < n \<Longrightarrow> len < (m :: nat)"
  using dividend_less_times_div [of n len] by (simp add: mult.commute)

locale nofs_file = disk rd bs img inv
  for rd :: "'w bd_read_op" and bs and img :: "'w \<Rightarrow> buf" and inv +
  fixes parent :: "'w block_device" and content :: buf and len :: nat
  assumes bs_min: "16 \<le> unat bs"
begin

lemma lookup_ok:
  assumes "nofs_finv rd bs img inv parent content len f c i w" "i \<le> len div unat bs"
  shows "nofs_get_next_bdev_block_num parent bs (word_of_nat i) f c False w = Some (word_of_nat i, f, c, w)"
    and "(word_of_nat i :: u32) \<noteq> 0xffffffff" and "unat (word_of_nat i :: u32) = i"
proof -
  have a: "len div unat bs < unat bs" "f_len f = int len" "block_size parent = bs"
    "(len div unat bs + 1) * unat bs < 2147483648"
    using assms(1) by (simp_all add: nofs_finv_def)
  have "len < 2147483648"
    by (rule div_Suc_bound [OF a(4)]) (use bs_min in auto)
  then have len: "unat (word_of_nat len :: u32) = len"
    by (simp add: unat_of_nat_u32)
  have i: "i < unat bs" "i < 2147483648"
    using a(1) assms(2) unat_u32_less [of bs] \<open>len < 2147483648\<close> div_le_dividend [of len "unat bs"]
    by linarith+
  show u: "unat (word_of_nat i :: u32) = i"
    using i(2) by (simp add: unat_of_nat_u32)
  show "(word_of_nat i :: u32) \<noteq> 0xffffffff"
    using u i(2) by (auto simp: word_unat_eq_iff)
  show "nofs_get_next_bdev_block_num parent bs (word_of_nat i) f c False w = Some (word_of_nat i, f, c, w)"
    using i(1) u len a(2,3) assms(2) bs_min
    by (auto simp: nofs_get_next_bdev_block_num_def word_le_nat_alt word_less_nat_alt unat_div)
qed

lemma lookup_end:
  assumes "nofs_finv rd bs img inv parent content len f c i w" "i = len div unat bs + 1"
  shows "nofs_get_next_bdev_block_num parent bs (word_of_nat i) f c False w = Some (0xffffffff, f, c, w)"
proof -
  have a: "f_len f = int len" "block_size parent = bs" "(len div unat bs + 1) * unat bs < 2147483648"
    using assms(1) by (simp_all add: nofs_finv_def)
  have "len < 2147483648"
    by (rule div_Suc_bound [OF a(3)]) (use bs_min in auto)
  moreover have "i < 4294967296"
    using calculation assms(2) div_le_dividend [of len "unat bs"] by linarith
  ultimately have "unat (word_of_nat len :: u32) = len" "unat (word_of_nat i :: u32) = i"
    by (simp_all add: unat_of_nat_u32)
  then show ?thesis
    using a assms(2) bs_min
    by (auto simp: nofs_get_next_bdev_block_num_def word_le_nat_alt word_less_nat_alt unat_div)
qed

end

sublocale nofs_file \<subseteq> reader: file_reader "nofs_get_next_bdev_block_num parent bs" parent bs content
    "len div unat bs + 1" "nofs_finv rd bs img inv parent content len" inv
proof unfold_locales
  let ?nb = "len div unat bs + 1" and ?finv = "nofs_finv rd bs img inv parent content len"
  show "16 \<le> unat bs"
    by (rule bs_min)
  fix f c i w
  show "?finv (f\<lparr>f_pos := x\<rparr>) c i w" if "?finv f c i w" for x
    using that by (simp add: nofs_finv_def)
  show "length content = ?nb * unat bs \<and> ?nb * unat bs < 2147483648" if "?finv f c i w"
    using that by (auto simp add: nofs_finv_def)
  show "inv w" if "?finv f c i w"
    using that by (simp add: nofs_finv_def)
  show "\<exists>blk f' c' w'. nofs_get_next_bdev_block_num parent bs (word_of_nat ?nb) f c False w = Some (blk, f', c', w')
      \<and> same_file f f' \<and> inv w' \<and> (blk = 0xffffffff \<or> (\<forall>b. unat bs \<le> length b \<longrightarrow> (\<exists>data w''.
        block_read parent w' b bs blk = Some (bs, blit b 0 data, w'') \<and> length data = unat bs \<and> inv w'')))"
    if "?finv f c ?nb w"
    using lookup_end [OF that refl] that by (auto simp: nofs_finv_def)
  show "\<exists>blk f' c' w'. nofs_get_next_bdev_block_num parent bs (word_of_nat i) f c False w = Some (blk, f', c', w')
      \<and> blk \<noteq> 0xffffffff \<and> same_file f f' \<and> (\<forall>b. unat bs \<le> length b \<longrightarrow> (\<exists>w''.
        block_read parent w' b bs blk = Some (bs, blit b 0 (blk_of (unat bs) content i), w'')
        \<and> ?finv f' c' (Suc i) w''))"
    if f: "?finv f c i w" and i: "i < ?nb"
  proof -
    have *: "inv w" "bd_read parent = Some rd" "block_size parent = bs" "?nb * unat bs \<le> length (img w)"
      "?nb * unat bs < 2147483648" "content = take (?nb * unat bs) (img w)"
      using f by (simp_all add: nofs_finv_def)
    have i': "i \<le> len div unat bs" "i * unat bs + unat bs \<le> ?nb * unat bs"
      using i mult_le_mono1 [of "Suc i" ?nb "unat bs"] by simp_all
    note lk = lookup_ok [OF f i'(1)]
    have blk: "blk_of (unat bs) content i = take (unat bs) (drop (i * unat bs) (img w))"
    proof -
      have "unat bs \<le> ?nb * unat bs - i * unat bs"
        using i'(2) by linarith
      then show ?thesis
        unfolding blk_of_def *(6) drop_take by (simp add: min_absorb1)
    qed
    have "\<exists>w''. block_read parent w b bs (word_of_nat i) =
        Some (bs, blit b 0 (blk_of (unat bs) content i), w'') \<and> ?finv f c (Suc i) w''"
      if b: "unat bs \<le> length b" for b
    proof -
      have "unat bs < 2147483648" "unat (word_of_nat i :: u32) * unat bs + unat bs \<le> length (img w)"
        using i'(2) *(4,5) unfolding lk(3) by linarith+
      then obtain w' where "block_read parent w b bs (word_of_nat i) =
          Some (bs, blit b 0 (take (unat bs) (drop (i * unat bs) (img w))), w')" "inv w'" "img w' = img w"
        using block_read_image [OF *(2,3,1) bs_pos dvd_refl _ b, of "word_of_nat i"] lk(3) by auto
      then show ?thesis
        using f unfolding blk nofs_finv_def by auto
    qed
    then show ?thesis
      using lk same_file_refl(1) by blast
  qed
qed

context nofs_file
begin

lemma nofs_fread_image:
  assumes "nofs_finv rd bs img inv parent content len f () i w" "f_pos f = int pos" "0 < n"
    and "pos + n \<le> (len div unat bs + 1) * unat bs" "n + 16 \<le> length b"
  shows "\<exists>b' f' w'. nofs_fread parent bs temp b addr (word_of_nat n) f w = Some (word_of_nat n, b', f', w')
    \<and> take n b' = take n (drop pos content) \<and> f_pos f' = int (pos + n) \<and> drop (n + 16) b' = drop (n + 16) b"
proof -
  have "nofs_finv rd bs img inv parent content len f () (pos div unat bs) w"
    using assms(1) by (simp add: nofs_finv_def)
  from reader.fs_fread_content [OF this assms(2-5), of "\<lparr>ptr_addr = addr, temp_addr = temp\<rparr>"]
  show ?thesis
    unfolding nofs_fread_def by (auto dest: same_file_fields)
qed

end

interpretation ramdisk_nofs: nofs_file "ramdisk_read rdev" 512 "ramdisk_img rdev" "ramdisk_inv rdev" parent content len
  for rdev parent content len
  by unfold_locales simp

section \<open>The search for the end\<close>

lemma scan_eof_found:
  "i \<le> h \<Longrightarrow> h < i + k \<Longrightarrow> h < length b \<Longrightarrow> b ! h = EOF_CHAR \<Longrightarrow> (\<And>j. i \<le> j \<Longrightarrow> j < h \<Longrightarrow> b ! j \<noteq> EOF_CHAR)
    \<Longrightarrow> scan_eof b i k = Some (Some h)"
proof (induction b i k rule: scan_eof.induct)
  case (2 b i k)
  show ?case
  proof (cases "i = h")
    case False
    then have "scan_eof b (Suc i) k = Some (Some h)" "b ! i \<noteq> EOF_CHAR"
      using 2 by auto
    then show ?thesis
      using 2 by simp
  qed (use 2 in simp)
qed simp

lemma scan_eof_none:
  "i + k \<le> length b \<Longrightarrow> (\<And>j. i \<le> j \<Longrightarrow> j < i + k \<Longrightarrow> b ! j \<noteq> EOF_CHAR) \<Longrightarrow> scan_eof b i k = Some None"
  by (induction b i k rule: scan_eof.induct) auto

context disk
begin

lemma read_first_block:
  assumes "inv w" "unat bs < 2147483648" "unat bs \<le> length (img w)" "length b = unat bs"
  shows "\<exists>w'. rd w bs 0 = Some (int (unat bs), take (unat bs) (img w), w') \<and> inv w' \<and> img w' = img w
    \<and> store b 0 (take (unat bs) (img w)) = Some (take (unat bs) (img w))"
  using rd_ok [OF assms(1) bs_pos assms(2) dvd_refl, of 0] assms by (auto simp: blit_def min_absorb2)

lemma nofs_search_found:
  assumes "inv w" "bd_read parent = Some rd" "block_size parent = bs" "0 < num_blocks parent"
    and "unat bs < 2147483648" "unat bs \<le> length (img w)" "length b = unat bs"
    and "i < unat bs" "img w ! i = EOF_CHAR" "\<forall>j < i. img w ! j \<noteq> EOF_CHAR"
  shows "\<exists>w'. nofs_search parent 0 b w = Some (Some (int i), w')"
proof -
  obtain w' where "rd w bs 0 = Some (int (unat bs), take (unat bs) (img w), w')"
    "store b 0 (take (unat bs) (img w)) = Some (take (unat bs) (img w))"
    using read_first_block [OF assms(1,5-7)] by auto
  moreover have "scan_eof (take (unat bs) (img w)) 0 (unat bs) = Some (Some i)"
    using assms(6,8-10) by (intro scan_eof_found) auto
  moreover have "sint (word_of_nat i :: u32) = int i" "bs \<noteq> 0"
    using assms(5,8) sint_small_u32 [of "word_of_nat i"] by (auto simp: unat_of_nat_u32)
  ultimately show ?thesis
    using assms(2-4) by (subst nofs_search.simps) (simp add: Let_def)
qed

lemma nofs_search_diverges:
  assumes "inv w" "bd_read parent = Some rd" "block_size parent = bs" "0 < num_blocks parent"
    and "unat bs < 2147483648" "unat bs \<le> length (img w)" "length b = unat bs"
    and "\<forall>j < unat bs. img w ! j \<noteq> EOF_CHAR"
  shows "nofs_search parent 0 b w = None"
proof (rule ccontr)
  define P where "P dev block_no b w \<longleftrightarrow>
      bd_read dev = Some rd \<and> block_size dev = bs \<and> 0 < num_blocks dev \<and> block_no = 0
      \<and> inv w \<and> unat bs \<le> length (img w) \<and> length b = unat bs \<and> (\<forall>j < unat bs. img w ! j \<noteq> EOF_CHAR)"
    for dev :: "'w block_device" and block_no :: u32 and b :: buf and w
  assume "nofs_search parent 0 b w \<noteq> None"
  then obtain y where "nofs_search parent 0 b w = Some y"
    by auto
  then have "\<not> P parent 0 b w"
  proof (rule nofs_search.raw_induct [where P = "\<lambda>dev block_no b w r. \<not> P dev block_no b w", rotated])
    fix search :: "'w block_device \<Rightarrow> u32 \<Rightarrow> buf \<Rightarrow> 'w \<Rightarrow> (int option \<times> 'w) option"
      and dev block_no b w r
    assume IH: "\<And>dev block_no b w r. search dev block_no b w = Some r \<Longrightarrow> \<not> P dev block_no b w"
      and step: "(if \<not> block_no < num_blocks dev then Some (None, w)
        else do {
          rd \<leftarrow> bd_read dev;
          (r, data, w) \<leftarrow> rd w (block_size dev) block_no;
          b \<leftarrow> store b 0 data;
          let bytes_read = (word_of_int r :: u32);
          if bytes_read = 0 then Some (None, w)
          else do {
            hit \<leftarrow> scan_eof b 0 (unat bytes_read);
            (case hit of
               Some i \<Rightarrow> Some (Some (sint (block_no * block_size dev + word_of_nat i)), w)
             | None \<Rightarrow> search dev block_no b w) } }) = Some r"
    show "\<not> P dev block_no b w"
    proof
      assume "P dev block_no b w"
      then have d: "bd_read dev = Some rd" "block_size dev = bs" "0 < num_blocks dev" "block_no = 0"
        and w: "inv w" "unat bs \<le> length (img w)" "length b = unat bs" and no: "\<forall>j < unat bs. img w ! j \<noteq> EOF_CHAR"
        by (simp_all add: P_def)
      obtain w' where w': "rd w bs 0 = Some (int (unat bs), take (unat bs) (img w), w')" "inv w'" "img w' = img w"
        "store b 0 (take (unat bs) (img w)) = Some (take (unat bs) (img w))"
        using read_first_block [OF w(1) assms(5) w(2,3)] by auto
      have "scan_eof (take (unat bs) (img w)) 0 (unat bs) = Some None" "bs \<noteq> 0"
        using no w(2) bs_pos by (auto intro!: scan_eof_none)
      then have "search dev 0 (take (unat bs) (img w)) w' = Some r"
        using step d w' by (simp add: Let_def)
      then show False
        using IH [of dev 0 "take (unat bs) (img w)" w' r] d w w' no by (simp add: P_def)
    qed
  qed
  then show False
    using assms by (simp add: P_def)
qed

end

section \<open>Properties\<close>

text \<open>Reading a text partition gives its bytes: on any device with a flat image,
  n bytes from position pos are the bytes pos, ..., pos + n - 1 of the partition,
  whole and partial blocks alike, provided the caller's buffer has sixteen bytes
  more than it asks for (the last, empty segment of a read that ends on a block
  boundary is copied too).\<close>

lemma nofs_fread_reads_partition:
  assumes "disk rd bs img ok" "ok w" "16 \<le> unat bs" "bd_read parent = Some rd" "block_size parent = bs"
    and "f_len f = int len" "f_pos f = int pos" "0 < n" "pos + n \<le> len" "n + 16 \<le> length b"
    and "len div unat bs < unat bs" "(len div unat bs + 1) * unat bs \<le> length (img w)"
    and "(len div unat bs + 1) * unat bs < 2147483648"
  shows "\<exists>b' f' w'. fs_fread_op (nofs_init fsid temp mark parent) b addr (word_of_nat n) f w =
      Some (word_of_nat n, b', f', w')
    \<and> take n b' = take n (drop pos (img w)) \<and> f_pos f' = int (pos + n) \<and> drop (n + 16) b' = drop (n + 16) b"
proof -
  let ?m = "(len div unat bs + 1) * unat bs"
  have lay: "nofs_file rd bs img ok"
    using assms(1,3) by (simp add: nofs_file_def nofs_file_axioms_def)
  have len: "len \<le> ?m"
    using dividend_less_times_div [of "unat bs" len] assms(3) by (simp add: mult.commute)
  have "\<exists>b' f' w'. nofs_fread parent bs temp b addr (word_of_nat n) f w = Some (word_of_nat n, b', f', w')
    \<and> take n b' = take n (drop pos (take ?m (img w))) \<and> f_pos f' = int (pos + n) \<and> drop (n + 16) b' = drop (n + 16) b"
    by (rule nofs_file.nofs_fread_image [OF lay, of parent _ len _ 0])
      (use assms len in \<open>simp_all add: nofs_finv_def\<close>)
  moreover have "take n (drop pos (take ?m (img w))) = take n (drop pos (img w))"
    using assms(9) len by (simp add: drop_take min_absorb1)
  ultimately show ?thesis
    using assms(5) by (simp add: nofs_init_def)
qed

text \<open>C26: Appending to a partition that already carries the byte order mark looks for
  the end mark in its first block only, since the block number is never advanced:
  the position is the first EOF byte of block 0, and when block 0 has none the
  search reads it again for ever, so the open never returns.\<close>

theorem nofs_append_searches_first_block:
  assumes "disk rd bs img ok" "ok w" "16 \<le> unat bs" "unat bs < 2147483648" "bd_read parent = Some rd"
    and "block_size parent = bs" "0 < num_blocks parent" "mode = lit ''a'' \<or> mode = lit ''a+''"
    and "unat bs \<le> length (img w)" "take 3 (img w) = utf_bom"
  shows "if EOF_CHAR \<in> set (take (unat bs) (img w))
    then \<exists>i f w'. i < unat bs \<and> img w ! i = EOF_CHAR \<and> (\<forall>j < i. img w ! j \<noteq> EOF_CHAR)
      \<and> nofs_fopen parent bs fsid mode w = Some (Inr f, w') \<and> f_pos f = int i \<and> f_len f = int i
    else nofs_fopen parent bs fsid mode w = None"
proof -
  let ?blk = "take (unat bs) (img w)"
  have len: "length ?blk = unat bs"
    using assms(9) by simp
  have "(0 :: u32) < bs"
    using assms(3) by (auto simp: word_less_nat_alt)
  then obtain w1 where w1: "block_read parent w (replicate (unat bs) 0) bs 0 =
      Some (bs, blit (replicate (unat bs) 0) 0 ?blk, w1)" "ok w1" "img w1 = img w"
    using disk.block_read_image [OF assms(1,5,6,2) _ dvd_refl assms(4), of "replicate (unat bs) 0" 0] assms(9) by auto
  have blk: "blit (replicate (unat bs) 0) 0 ?blk = ?blk"
    using len by (simp add: blit_def)
  have "take 3 ?blk = utf_bom"
    using assms(3,10) by (simp add: min_def)
  moreover have "fs_interpret_mode mode AND VFS_MODE_APPEND \<noteq> 0"
    using assms(8) by (auto simp: fs_interpret_mode_def lit_def VFS_MODE_APPEND_def VFS_MODE_W_def
        VFS_MODE_RW_def VFS_MODE_CREATE_def VFS_MODE_R_def)
  ultimately have fopen: "nofs_fopen parent bs fsid mode w =
      map_option (\<lambda>(found, w). (Inr \<lparr>f_fs = fsid, f_pos = (case found of Some p \<Rightarrow> p | None \<Rightarrow> 3),
          f_mode = fs_interpret_mode mode, f_opaque = 0,
          f_len = (case found of Some p \<Rightarrow> p | None \<Rightarrow> 3), f_flags = 0\<rparr>, w))
        (nofs_search parent 0 (replicate (unat bs) 0) w1)"
    using w1(1) len assms(3,6,7) unfolding blk
    by (cases "nofs_search parent 0 (replicate (unat bs) 0) w1") (auto simp: nofs_fopen_def Let_def)
  show ?thesis
  proof (cases "EOF_CHAR \<in> set ?blk")
    case True
    then obtain i0 where "i0 < unat bs \<and> img w ! i0 = EOF_CHAR"
      using len by (auto simp: in_set_conv_nth)
    then have "\<exists>i. (i < unat bs \<and> img w ! i = EOF_CHAR) \<and> (\<forall>j < i. \<not> (j < unat bs \<and> img w ! j = EOF_CHAR))"
      using exists_least_iff [of "\<lambda>i. i < unat bs \<and> img w ! i = EOF_CHAR"] by blast
    then obtain i where i: "i < unat bs" "img w ! i = EOF_CHAR" "\<forall>j < i. img w ! j \<noteq> EOF_CHAR"
      by auto
    then obtain w2 where "nofs_search parent 0 (replicate (unat bs) 0) w1 = Some (Some (int i), w2)"
      using disk.nofs_search_found [OF assms(1) w1(2) assms(5,6,7,4), of "replicate (unat bs) 0" i] w1(3) assms(9)
      by auto
    then show ?thesis
      using True i fopen by auto
  next
    case False
    then have "\<forall>j < unat bs. img w ! j \<noteq> EOF_CHAR"
      using len by (auto simp: in_set_conv_nth)
    then have "nofs_search parent 0 (replicate (unat bs) 0) w1 = None"
      using disk.nofs_search_diverges [OF assms(1) w1(2) assms(5,6,7,4), of "replicate (unat bs) 0"] w1(3) assms(9)
      by auto
    then show ?thesis
      using False fopen by simp
  qed
qed

theorem nofs_append_searches_first_block_witness:
  "nofs_fopen (ramdisk_device \<lparr>rd_address = 0, rd_size = 1024, rd_block_size = 512\<rparr> [] \<lparr>num_blocks := 2\<rparr>)
     512 7 (lit ''a'') (utf_bom @ replicate 509 0x41 @ replicate 512 EOF_CHAR) = None"
proof -
  have "EOF_CHAR \<notin> set (take 512 (utf_bom @ replicate 509 0x41 @ replicate 512 EOF_CHAR))"
    by (simp add: utf_bom_def EOF_CHAR_def)
  then show ?thesis
    using nofs_append_searches_first_block [OF ramdisk.disk_axioms,
      of "\<lparr>rd_address = 0, rd_size = 1024, rd_block_size = 512\<rparr>" "utf_bom @ replicate 509 0x41 @ replicate 512 EOF_CHAR"
         "ramdisk_device \<lparr>rd_address = 0, rd_size = 1024, rd_block_size = 512\<rparr> [] \<lparr>num_blocks := 2\<rparr>" "lit ''a''" 7]
    by (simp add: ramdisk_inv_def ramdisk_img_def ramdisk_device_def utf_bom_def)
qed

text \<open>A seek followed by a tell returns the position sought, for every position of
  the text; a seek outside it stops at the nearer end.\<close>

theorem nofs_seek_tell:
  assumes "3 \<le> f_len f"
  shows "fst (nofs_fseek f offset SEEK_SET) = 0
    \<and> nofs_ftell (snd (nofs_fseek f offset SEEK_SET)) = max 0 (min offset (nofs_fsize f))"
  using assms by (auto simp: nofs_ftell_def nofs_fseek_def nofs_fsize_def Let_def)

theorem nofs_seek_tell_witness:
  "nofs_ftell (snd (nofs_fseek \<lparr>f_fs = 0, f_pos = 3, f_mode = 1, f_opaque = 0, f_len = 10, f_flags = 0\<rparr> 5 SEEK_SET)) = 5"
  using nofs_seek_tell [of "\<lparr>f_fs = 0, f_pos = 3, f_mode = 1, f_opaque = 0, f_len = 10, f_flags = 0\<rparr>" 5]
  by (simp add: nofs_fsize_def)

end
