(* ===== verification/Vfs.thy ===== *)
theory Vfs
  imports NoFs
begin

text \<open>
  The virtual file system of vfs.c: the list of mounted file systems, the parser
  of paths \<open>(device)/dir/name\<close>, directories, and the stdio-like operations that
  dispatch to the file system of a stream.  Strings are compared as values, which
  \<open>strcmp_decides_equality\<close> justifies.  Console messages and the release of memory
  have no effect on the state modelled here; positions are mathematical integers.
\<close>

section \<open>Mounted file systems\<close>

record 'w vfs_entry =
  ve_name :: cstring
  ve_fs :: "'w fs"

text \<open>The entries from the newest on, the default entry, and the names in the
  order of registration (a table of 256 pointers of which the last stays NULL).\<close>

record 'w vfs =
  v_entries :: "'w vfs_entry list"
  v_def :: "'w vfs_entry option"
  v_names :: "cstring list"

definition vfs_start :: "'w vfs" where
  "vfs_start = \<lparr>v_entries = [], v_def = None, v_names = []\<rparr>"

definition MAX_DEV_NAMES :: nat where "MAX_DEV_NAMES = 256"

definition vfs_add :: "'w vfs_entry \<Rightarrow> 'w vfs \<Rightarrow> 'w vfs" where
  "vfs_add ve v =
     (let v = v\<lparr>v_entries := ve # v_entries v\<rparr>
      in if length (v_names v) < MAX_DEV_NAMES - 1 then v\<lparr>v_names := v_names v @ [ve_name ve]\<rparr> else v)"

definition vfs_get_device_list :: "'w vfs \<Rightarrow> cstring list" where
  "vfs_get_device_list v = v_names v"

fun find_ve :: "'w vfs_entry list \<Rightarrow> cstring \<Rightarrow> 'w vfs_entry option" where
  "find_ve [] path = None"
| "find_ve (cur # rest) path = (if ve_name cur = path then Some cur else find_ve rest path)"

definition vfs_set_default :: "cstring \<Rightarrow> 'w vfs \<Rightarrow> int \<times> 'w vfs" where
  "vfs_set_default dev_name v =
     (case find_ve (v_entries v) dev_name of
        Some dev \<Rightarrow> (0, v\<lparr>v_def := Some dev\<rparr>)
      | None \<Rightarrow> (-1, v))"

text \<open>The NULL file system is \<open>None\<close>; the parent is part of the structure.\<close>

definition vfs_register :: "'w fs option \<Rightarrow> 'w vfs \<Rightarrow> int \<times> 'w vfs" where
  "vfs_register fs v =
     (case fs of
        None \<Rightarrow> (-1, v)
      | Some fs \<Rightarrow>
          let ve = \<lparr>ve_name = device_name (fs_parent fs), ve_fs = fs\<rparr>;
              v = vfs_add ve v
          in (0, if v_def v = None then v\<lparr>v_def := Some ve\<rparr> else v))"

definition vfs_list_devices :: "'w vfs \<Rightarrow> cstring" where
  "vfs_list_devices v =
     concat (map (\<lambda>ve. ve_name ve @ lit ''('' @ fs_name (ve_fs ve) @ lit '') '') (v_entries v))"

section \<open>Paths\<close>

record 'w split_locals =
  reading_dev :: bool
  split_ve :: "'w vfs_entry option"
  dir_start :: nat
  dir_count :: nat

text \<open>The first pass: \<open>cs\<close> is the part of the path from index i on.\<close>

fun split_scan :: "'w vfs \<Rightarrow> cstring \<Rightarrow> nat \<Rightarrow> cstring \<Rightarrow> 'w split_locals \<Rightarrow> 'w split_locals option" where
  "split_scan v path i [] st = Some st"
| "split_scan v path i (c # cs) st =
     (if c = 40 then
        (if i = 0 then split_scan v path (i + 1) cs (st\<lparr>reading_dev := True\<rparr>) else None)
      else if c = 41 then
        (if \<not> reading_dev st then None
         else let dev_name = take (i - 1) (drop 1 path) in
           split_scan v path (i + 1) cs
             (st\<lparr>split_ve := find_ve (v_entries v) dev_name, reading_dev := False, dir_start := i + 1\<rparr>))
      else if c = 47 then
        (if reading_dev st then None
         else if i \<noteq> dir_start st then split_scan v path (i + 1) cs (st\<lparr>dir_count := dir_count st + 1\<rparr>)
         else split_scan v path (i + 1) cs (st\<lparr>dir_start := dir_start st + 1\<rparr>))
      else if i + 1 = length path then split_scan v path (i + 1) cs (st\<lparr>dir_count := dir_count st + 1\<rparr>)
      else split_scan v path (i + 1) cs st)"

text \<open>The second pass works on the path with its NUL.\<close>

function piece_end :: "buf \<Rightarrow> nat \<Rightarrow> nat option" where
  "piece_end m i =
     (case get_byte m i of
        None \<Rightarrow> None
      | Some c \<Rightarrow> if c \<noteq> 47 \<and> c \<noteq> 0 then piece_end m (i + 1) else Some i)"
  by pat_completeness auto
termination
  by (relation "measure (\<lambda>(m, i). length m - i)") (auto simp: get_byte_eq_Some)

fun split_pieces :: "buf \<Rightarrow> nat \<Rightarrow> nat \<Rightarrow> cstring list option" where
  "split_pieces m cur 0 = Some []"
| "split_pieces m cur (Suc k) = do {
     e \<leftarrow> piece_end m cur;
     rest \<leftarrow> split_pieces m (e + 1) k;
     Some (take (e - cur) (drop cur m) # rest) }"

text \<open>\<open>Inl ()\<close> is the NULL of a path that does not parse or names no device.\<close>

definition split_dir :: "'w vfs \<Rightarrow> cstring \<Rightarrow> (unit + 'w vfs_entry \<times> cstring list) option" where
  "split_dir v path =
     (case split_scan v path 0 path
             \<lparr>reading_dev = False, split_ve = v_def v, dir_start = 0, dir_count = 0\<rparr> of
        None \<Rightarrow> Some (Inl ())
      | Some st \<Rightarrow>
          (case split_ve st of
             None \<Rightarrow> Some (Inl ())
           | Some ve \<Rightarrow> do {
               ps \<leftarrow> split_pieces (path @ [0]) (dir_start st) (dir_count st);
               Some (Inr (ve, ps)) }))"

section \<open>Directories\<close>

text \<open>The NULL list is the empty one.\<close>

definition read_directory :: "'w vfs \<Rightarrow> cstring \<Rightarrow> 'w \<Rightarrow> (dirent list \<times> 'w) option" where
  "read_directory v path w = do {
     p \<leftarrow> split_dir v path;
     (case p of
        Inl _ \<Rightarrow> Some ([], w)
      | Inr (ve, ps) \<Rightarrow> do {
          (r, w) \<leftarrow> fs_read_directory (ve_fs ve) ps w;
          Some (case r of Inl _ \<Rightarrow> [] | Inr ds \<Rightarrow> ds, w) }) }"

record dir_info =
  di_first :: "dirent list"
  di_next :: "dirent list"

definition opendir :: "'w vfs \<Rightarrow> cstring \<Rightarrow> 'w \<Rightarrow> (dir_info option \<times> 'w) option" where
  "opendir v name w = do {
     (ret, w) \<leftarrow> read_directory v name w;
     Some (if ret = [] then None else Some \<lparr>di_first = ret, di_next = ret\<rparr>, w) }"

definition readdir :: "dir_info option \<Rightarrow> dirent option \<times> dir_info option" where
  "readdir dirp =
     (case dirp of
        None \<Rightarrow> (None, None)
      | Some d \<Rightarrow> (case di_next d of
           [] \<Rightarrow> (None, Some d)
         | e # rest \<Rightarrow> (Some e, Some (d\<lparr>di_next := rest\<rparr>))))"

definition closedir :: "dir_info option \<Rightarrow> int" where
  "closedir dirp = (if dirp \<noteq> None then 0 else -1)"

section \<open>Streams\<close>

text \<open>A stream is NULL, one of stdout and stderr (which are no file
  structures: reading their fields is an error), or a file with the structure its
  \<open>fs\<close> field points to.\<close>

datatype 'w stream = Null_stream | Console_stream | File_stream "'w fs" vfs_file

definition fread :: "buf \<Rightarrow> u32 \<Rightarrow> u32 \<Rightarrow> u32 \<Rightarrow> 'w stream \<Rightarrow> 'w \<Rightarrow> (u32 \<times> buf \<times> 'w stream \<times> 'w) option" where
  "fread b addr sz nmemb stream w =
     (case stream of
        Null_stream \<Rightarrow> Some (0, b, stream, w)
      | Console_stream \<Rightarrow> None
      | File_stream fs f \<Rightarrow> do {
          let bytes_to_read = sz * nmemb;
          let avail = word_of_int (f_len f - f_pos f);
          let bytes_to_read = (if bytes_to_read > avail then avail else bytes_to_read);
          nmemb_to_read \<leftarrow> (if sz = 0 then None else Some (bytes_to_read div sz));
          (r, b, f, w) \<leftarrow> fs_fread_op fs b addr (nmemb_to_read * sz) f w;
          Some (r div sz, b, File_stream fs f, w) })"

text \<open>\<open>putc\<close> is the \<open>split_putc\<close> of the output component.\<close>

definition fwrite ::
  "(u8 \<Rightarrow> 'w \<Rightarrow> 'w) \<Rightarrow> buf \<Rightarrow> u32 \<Rightarrow> u32 \<Rightarrow> u32 \<Rightarrow> 'w stream \<Rightarrow> 'w \<Rightarrow>
   (u32 \<times> errno option \<times> 'w stream \<times> 'w) option" where
  "fwrite putc b addr sz nmemb stream w =
     (case stream of
        Null_stream \<Rightarrow> Some (0, Some EINVAL, stream, w)
      | Console_stream \<Rightarrow> do {
          data \<leftarrow> load b 0 (unat (sz * nmemb));
          n \<leftarrow> (if sz = 0 then None else Some (sz * nmemb div sz));
          Some (n, None, stream, fold putc data w) }
      | File_stream fs f \<Rightarrow> do {
          nmemb_to_write \<leftarrow> (if sz = 0 then None else Some (sz * nmemb div sz));
          (case fs_fwrite_op fs of
             None \<Rightarrow> Some (0, Some EROFS, stream, w)
           | Some wr \<Rightarrow> do {
               (r, f, w) \<leftarrow> wr b addr (nmemb_to_write * sz) f w;
               Some (r div sz, None, File_stream fs f, w) }) })"

text \<open>\<open>cb\<close> is the call back installed in the file, if there is one.\<close>

definition fflush ::
  "(vfs_file \<Rightarrow> 'w \<Rightarrow> 'w) option \<Rightarrow> 'w stream \<Rightarrow> 'w \<Rightarrow> (int \<times> errno option \<times> 'w) option" where
  "fflush cb stream w =
     (case stream of
        Null_stream \<Rightarrow> Some (-1, Some EINVAL, w)
      | Console_stream \<Rightarrow> None
      | File_stream fs f \<Rightarrow>
          let w = (case cb of None \<Rightarrow> w | Some c \<Rightarrow> c f w);
              w = (case fs_fflush fs of None \<Rightarrow> w | Some c \<Rightarrow> c f w)
          in Some (0, None, w))"

definition fclose ::
  "(vfs_file \<Rightarrow> 'w \<Rightarrow> 'w) option \<Rightarrow> 'w stream \<Rightarrow> 'w \<Rightarrow> (int \<times> errno option \<times> 'w) option" where
  "fclose cb stream w =
     (case stream of
        Null_stream \<Rightarrow> Some (-1, Some EINVAL, w)
      | Console_stream \<Rightarrow> None
      | File_stream fs f \<Rightarrow> do {
          (_, _, w) \<leftarrow> fflush cb stream w;
          Some (0, None, case fs_fclose fs of None \<Rightarrow> w | Some c \<Rightarrow> c f w) })"

definition with_file :: "'w stream \<Rightarrow> ('w fs \<Rightarrow> vfs_file \<Rightarrow> int) \<Rightarrow> (int \<times> errno option) option" where
  "with_file stream q =
     (case stream of
        Null_stream \<Rightarrow> Some (-1, Some EINVAL)
      | Console_stream \<Rightarrow> None
      | File_stream fs f \<Rightarrow> Some (q fs f, None))"

definition feof :: "'w stream \<Rightarrow> (int \<times> errno option) option" where
  "feof stream = with_file stream (\<lambda>fs f. if f_flags f AND VFS_FLAGS_EOF \<noteq> 0 then 1 else 0)"

definition ferror :: "'w stream \<Rightarrow> (int \<times> errno option) option" where
  "ferror stream = with_file stream (\<lambda>fs f. if f_flags f AND VFS_FLAGS_ERROR \<noteq> 0 then 1 else 0)"

definition fsize :: "'w stream \<Rightarrow> (int \<times> errno option) option" where
  "fsize stream = with_file stream (\<lambda>fs f. case fs_fsize fs of Some q \<Rightarrow> q f | None \<Rightarrow> f_len f)"

definition ftell :: "'w stream \<Rightarrow> (int \<times> errno option) option" where
  "ftell stream = with_file stream (\<lambda>fs f. case fs_ftell fs of Some q \<Rightarrow> q f | None \<Rightarrow> f_pos f)"

definition default_fseek :: "vfs_file \<Rightarrow> int \<Rightarrow> int \<Rightarrow> int \<times> vfs_file" where
  "default_fseek f offset whence =
     (let clamp = (\<lambda>p. let p = (if p < 0 then 0 else p) in if p > f_len f then f_len f else p) in
      if whence = SEEK_SET then (0, f\<lparr>f_pos := clamp offset\<rparr>)
      else if whence = SEEK_END then (0, f\<lparr>f_pos := clamp (f_len f - offset)\<rparr>)
      else if whence = SEEK_CUR then (0, f\<lparr>f_pos := clamp (f_pos f + offset)\<rparr>)
      else (-1, f))"

definition fseek :: "'w stream \<Rightarrow> int \<Rightarrow> int \<Rightarrow> (int \<times> errno option \<times> 'w stream) option" where
  "fseek stream offset whence =
     (case stream of
        Null_stream \<Rightarrow> Some (-1, Some EINVAL, stream)
      | Console_stream \<Rightarrow> None
      | File_stream fs f \<Rightarrow>
          let (r, f) = (case fs_fseek fs of
                          Some sk \<Rightarrow> sk f offset whence | None \<Rightarrow> default_fseek f offset whence)
          in Some (r, None, File_stream fs f))"

section \<open>Opening a file\<close>

fun find_dirent :: "dirent list \<Rightarrow> cstring \<Rightarrow> dirent option" where
  "find_dirent [] fname = None"
| "find_dirent (d # ds) fname = (if de_name d = fname then Some d else find_dirent ds fname)"

definition as_stream :: "'w fs \<Rightarrow> (errno option + vfs_file) \<times> 'w \<Rightarrow> (errno option + 'w stream) \<times> 'w" where
  "as_stream fs r = (case fst r of Inl e \<Rightarrow> Inl e | Inr f \<Rightarrow> Inr (File_stream fs f), snd r)"

definition fopen ::
  "'w vfs \<Rightarrow> cstring option \<Rightarrow> cstring \<Rightarrow> 'w \<Rightarrow> ((errno option + 'w stream) \<times> 'w) option" where
  "fopen v path mode w =
     (case path of
        None \<Rightarrow> Some (Inl (Some EFAULT), w)
      | Some path \<Rightarrow> do {
          sp \<leftarrow> split_dir v path;
          (case sp of
             Inl _ \<Rightarrow> Some (Inl (Some EFAULT), w)
           | Inr (ve, p) \<Rightarrow>
               let fs = ve_fs ve in
               if p = [] \<or> hd p = lit '':'' then
                 if fs_flags fs AND FS_FLAG_SUPPORTS_EMPTY_FNAME \<noteq> 0
                 then map_option (as_stream fs) (fs_fopen fs None mode w)
                 else Some (Inl (Some EFAULT), w)
               else do {
                 let fname = last p;
                 (r, w) \<leftarrow> fs_read_directory fs (butlast p) w;
                 (case r of
                    Inl e \<Rightarrow> Some (Inl e, w)
                  | Inr ds \<Rightarrow>
                      (case find_dirent ds fname of
                         None \<Rightarrow> Some (Inl None, w)
                       | Some d \<Rightarrow> map_option (as_stream fs) (fs_fopen fs (Some d) mode w))) }) })"

section \<open>Parsing of paths\<close>

declare piece_end.simps [simp del]

text \<open>A name without the bytes that mean something in a path.\<close>

definition plain_name :: "cstring \<Rightarrow> bool" where
  "plain_name c \<longleftrightarrow> set c \<inter> {0, 40, 41, 47} = {}"

definition comp_path :: "cstring list \<Rightarrow> cstring" where
  "comp_path cs = concat (map ((#) 47) cs)"

lemma comp_path_simps [simp]: "comp_path [] = []" "comp_path (c # cs) = 47 # c @ comp_path cs"
  by (simp_all add: comp_path_def)

lemma piece_end_at:
  assumes "47 \<notin> set c" "0 \<notin> set c" "e = 47 \<or> e = 0"
  shows "piece_end (pre @ c @ e # post) (length pre) = Some (length pre + length c)"
  using assms(1,2)
proof (induction c arbitrary: pre)
  case Nil
  then show ?case
    using assms(3) by (subst piece_end.simps) (auto simp: nth_append)
next
  case (Cons x c)
  have "piece_end ((pre @ [x]) @ c @ e # post) (length (pre @ [x])) = Some (length (pre @ [x]) + length c)"
    using Cons.prems by (intro Cons.IH) auto
  then show ?case
    using Cons.prems by (subst piece_end.simps) (simp add: nth_append)
qed

lemma split_pieces_comps:
  assumes "plain_name c" "list_all plain_name cs"
  shows "split_pieces (pre @ c @ comp_path cs @ [0]) (length pre) (Suc (length cs)) = Some (c # cs)"
  using assms
proof (induction cs arbitrary: pre c)
  case Nil
  then show ?case
    using piece_end_at [of c 0 pre "[]"] by (simp add: plain_name_def)
next
  case (Cons d cs)
  have "split_pieces ((pre @ c @ [47]) @ d @ comp_path cs @ [0]) (length (pre @ c @ [47])) (Suc (length cs)) =
      Some (d # cs)"
    using Cons.prems by (intro Cons.IH) simp_all
  moreover have "piece_end (pre @ c @ 47 # d @ comp_path cs @ [0]) (length pre) = Some (length pre + length c)"
    using Cons.prems by (intro piece_end_at) (auto simp: plain_name_def)
  ultimately show ?case
    by simp
qed

lemma split_scan_plain:
  assumes "plain_name c" "i + length c < length path"
  shows "split_scan v path i (c @ rest) st = split_scan v path (i + length c) rest st"
  using assms by (induction c arbitrary: i) (auto simp: plain_name_def)

lemma split_scan_comps:
  assumes "plain_name c" "c \<noteq> []" "list_all (\<lambda>d. plain_name d \<and> d \<noteq> []) cs" "dir_start st \<le> i" "\<not> reading_dev st"
    and "length path = i + length c + length (comp_path cs)"
  shows "split_scan v path i (c @ comp_path cs) st = Some (st\<lparr>dir_count := dir_count st + Suc (length cs)\<rparr>)"
  using assms
proof (induction cs arbitrary: i c st)
  case Nil
  obtain b x where c: "c = b @ [x]"
    using Nil(2) by (cases c rule: rev_cases) auto
  have "split_scan v path i (b @ [x]) st = split_scan v path (i + length b) [x] st"
    using Nil c by (intro split_scan_plain) (auto simp: plain_name_def)
  then show ?case
    using Nil c by (auto simp: plain_name_def)
next
  case (Cons d cs)
  have "split_scan v path i (c @ comp_path (d # cs)) st =
      split_scan v path (i + length c) (comp_path (d # cs)) st"
    using Cons.prems by (intro split_scan_plain) auto
  also have "\<dots> = split_scan v path (i + length c + 1) (d @ comp_path cs) (st\<lparr>dir_count := dir_count st + 1\<rparr>)"
    using Cons.prems by (auto simp: neq_Nil_conv)
  also have "\<dots> = Some (st\<lparr>dir_count := dir_count st + Suc (length (d # cs))\<rparr>)"
    using Cons.prems by (subst Cons.IH) auto
  finally show ?case .
qed

lemma split_dir_device:
  assumes "plain_name dev" "list_all (\<lambda>d. plain_name d \<and> d \<noteq> []) cs"
  shows "split_dir v (40 # dev @ 41 # comp_path cs) =
    Some (case find_ve (v_entries v) dev of None \<Rightarrow> Inl () | Some ve \<Rightarrow> Inr (ve, cs))"
proof -
  let ?path = "40 # dev @ 41 # comp_path cs"
  let ?st = "\<lparr>reading_dev = True, split_ve = v_def v, dir_start = 0, dir_count = 0\<rparr>"
  let ?st1 = "\<lparr>reading_dev = False, split_ve = find_ve (v_entries v) dev, dir_start = length dev + 2, dir_count = 0\<rparr>"
  have "split_scan v ?path 1 (dev @ 41 # comp_path cs) ?st = split_scan v ?path (1 + length dev) (41 # comp_path cs) ?st"
    using assms(1) by (intro split_scan_plain) simp_all
  also have "\<dots> = split_scan v ?path (length dev + 2) (comp_path cs) ?st1"
    by (simp add: add.commute)
  finally have dev: "split_scan v ?path 0 ?path (?st\<lparr>reading_dev := False\<rparr>) =
      split_scan v ?path (length dev + 2) (comp_path cs) ?st1"
    by simp
  show ?thesis
  proof (cases cs)
    case Nil
    then show ?thesis
      using dev by (auto simp: split_dir_def split: option.splits)
  next
    case (Cons c ds)
    have all: "list_all plain_name ds"
      using assms(2) Cons by (auto simp: list_all_iff)
    have "split_scan v ?path (length dev + 2) (comp_path cs) ?st1 =
        split_scan v ?path (length dev + 3) (c @ comp_path ds) (?st1\<lparr>dir_start := length dev + 3\<rparr>)"
      using Cons by (simp add: numeral_3_eq_3)
    also have "\<dots> = Some (?st1\<lparr>dir_start := length dev + 3, dir_count := Suc (length ds)\<rparr>)"
      using assms(2) Cons by (subst split_scan_comps) auto
    finally have scan: "split_scan v ?path 0 ?path (?st\<lparr>reading_dev := False\<rparr>) =
        Some (?st1\<lparr>dir_start := length dev + 3, dir_count := Suc (length ds)\<rparr>)"
      using dev by simp
    have "split_pieces ((40 # dev @ [41, 47]) @ c @ comp_path ds @ [0]) (length (40 # dev @ [41, 47])) (Suc (length ds)) =
        Some (c # ds)"
      using assms(2) Cons all by (intro split_pieces_comps) auto
    then have "split_pieces (?path @ [0]) (length dev + 3) (Suc (length ds)) = Some cs"
      using Cons by (simp add: numeral_3_eq_3)
    then show ?thesis
      using scan unfolding split_dir_def by (auto split: option.splits)
  qed
qed

text \<open>Without a device in brackets it is the default one.\<close>

lemma split_dir_default:
  assumes "list_all (\<lambda>d. plain_name d \<and> d \<noteq> []) cs"
  shows "split_dir v (comp_path cs) = Some (case v_def v of None \<Rightarrow> Inl () | Some ve \<Rightarrow> Inr (ve, cs))"
proof (cases cs)
  case Nil
  then show ?thesis
    by (auto simp: split_dir_def split: option.splits)
next
  case (Cons c ds)
  let ?st = "\<lparr>reading_dev = False, split_ve = v_def v, dir_start = 0, dir_count = 0\<rparr>"
  have all: "list_all plain_name ds"
    using assms Cons by (auto simp: list_all_iff)
  have "split_scan v (comp_path cs) 0 (comp_path cs) ?st =
      split_scan v (comp_path cs) 1 (c @ comp_path ds) (?st\<lparr>dir_start := 1\<rparr>)"
    using Cons by simp
  also have "\<dots> = Some (?st\<lparr>dir_start := 1, dir_count := Suc (length ds)\<rparr>)"
    using assms Cons by (subst split_scan_comps) auto
  finally have scan: "split_scan v (comp_path cs) 0 (comp_path cs) ?st =
      Some (?st\<lparr>dir_start := 1, dir_count := Suc (length ds)\<rparr>)" .
  have "split_pieces ([47] @ c @ comp_path ds @ [0]) (length [47 :: u8]) (Suc (length ds)) = Some (c # ds)"
    using assms Cons all by (intro split_pieces_comps) auto
  then have "split_pieces (comp_path cs @ [0]) 1 (Suc (length ds)) = Some cs"
    using Cons by simp
  then show ?thesis
    using scan unfolding split_dir_def by (auto split: option.splits)
qed

text \<open>Paths with and without a device.\<close>

definition path_of :: "cstring option \<Rightarrow> cstring list \<Rightarrow> cstring" where
  "path_of od cs = (case od of None \<Rightarrow> comp_path cs | Some dev \<Rightarrow> 40 # dev @ 41 # comp_path cs)"

definition dev_entry :: "'w vfs \<Rightarrow> cstring option \<Rightarrow> 'w vfs_entry option" where
  "dev_entry v od = (case od of None \<Rightarrow> v_def v | Some dev \<Rightarrow> find_ve (v_entries v) dev)"

definition dev_plain :: "cstring option \<Rightarrow> bool" where
  "dev_plain od \<longleftrightarrow> (case od of None \<Rightarrow> True | Some dev \<Rightarrow> plain_name dev)"

lemma split_dir_path:
  assumes "dev_plain od" "list_all (\<lambda>d. plain_name d \<and> d \<noteq> []) cs"
  shows "split_dir v (path_of od cs) = Some (case dev_entry v od of None \<Rightarrow> Inl () | Some ve \<Rightarrow> Inr (ve, cs))"
  using assms split_dir_default [OF assms(2)] split_dir_device [OF _ assms(2)]
  by (cases od) (auto simp: path_of_def dev_entry_def dev_plain_def)

text \<open>The two passes agree on the number of components, for every path.\<close>

lemma split_scan_bound:
  assumes "split_scan v path i cs st = Some st'" "path = pre @ cs" "length pre = i" "dir_start st \<le> i"
    and "dir_count st \<le> count_list (drop (dir_start st) pre) 47 + (if cs = [] then 1 else 0)"
    and "cs \<noteq> [] \<longrightarrow> reading_dev st \<longrightarrow> dir_count st = 0"
  shows "dir_start st' \<le> length path \<and> dir_count st' \<le> count_list (drop (dir_start st') path) 47 + 1"
  using assms
proof (induction cs arbitrary: i pre st)
  case (Cons c cs)
  have step: "dir_start st' \<le> length path \<and> dir_count st' \<le> count_list (drop (dir_start st') path) 47 + 1"
    if "split_scan v path (Suc i) cs st1 = Some st'" "dir_start st1 \<le> Suc i"
      "dir_count st1 \<le> count_list (drop (dir_start st1) (pre @ [c])) 47 + (if cs = [] then 1 else 0)"
      "cs \<noteq> [] \<longrightarrow> reading_dev st1 \<longrightarrow> dir_count st1 = 0" for st1
    using that Cons.prems by (intro Cons.IH [where pre = "pre @ [c]"]) auto
  have "i + 1 = length path \<longleftrightarrow> cs = []"
    using Cons.prems by auto
  note prems = Cons.prems this
  consider (op) "split_scan v path (Suc i) cs (st\<lparr>reading_dev := True\<rparr>) = Some st'" "i = 0" "c = 40"
    | (cl) "split_scan v path (Suc i) cs
         (st\<lparr>split_ve := find_ve (v_entries v) (take (i - 1) (drop 1 path)), reading_dev := False, dir_start := i + 1\<rparr>) = Some st'"
        "reading_dev st" "c = 41"
    | (sep) "split_scan v path (Suc i) cs (st\<lparr>dir_count := dir_count st + 1\<rparr>) = Some st'"
        "\<not> reading_dev st" "c = 47" "i \<noteq> dir_start st"
    | (skip) "split_scan v path (Suc i) cs (st\<lparr>dir_start := dir_start st + 1\<rparr>) = Some st'"
        "\<not> reading_dev st" "c = 47" "i = dir_start st"
    | (final) "split_scan v path (Suc i) cs (st\<lparr>dir_count := dir_count st + 1\<rparr>) = Some st'" "cs = []" "c \<noteq> 47"
    | (char) "split_scan v path (Suc i) cs st = Some st'" "cs \<noteq> []" "c \<noteq> 47"
    using prems(1,7) by (auto split: if_splits)
  then show ?case
    by cases (erule step; use prems in auto)+
qed simp

lemma split_pieces_safe:
  assumes "0 \<notin> set path" "cur \<le> length path" "k \<le> count_list (drop cur path) 47 + 1"
  shows "\<exists>ps. split_pieces (path @ [0]) cur k = Some ps \<and> length ps = k"
  using assms(2,3)
proof (induction k arbitrary: cur)
  case (Suc k)
  define c where "c = takeWhile (\<lambda>x. x \<noteq> 47) (drop cur path)"
  define post where "post = dropWhile (\<lambda>x. x \<noteq> 47) (drop cur path)"
  have split: "drop cur path = c @ post"
    by (simp add: c_def post_def)
  have path: "path @ [0] = take cur path @ c @ post @ [0]"
    using append_take_drop_id [of cur path] by (simp add: split)
  have c: "47 \<notin> set c" "0 \<notin> set c"
    using assms(1) set_takeWhileD in_set_dropD unfolding c_def by fast+
  have cur: "length (take cur path) = cur"
    using Suc.prems by simp
  show ?case
  proof (cases post)
    case Nil
    then have "count_list (drop cur path) 47 = 0"
      using c split by (simp add: count_list_0_iff)
    then have "k = 0"
      using Suc.prems by simp
    moreover have "piece_end (path @ [0]) cur = Some (cur + length c)"
      using piece_end_at [OF c, of 0 "take cur path" "[]"] Nil cur unfolding path by simp
    ultimately show ?thesis
      by simp
  next
    case (Cons x rest)
    then have x: "x = 47"
      using hd_dropWhile [of "\<lambda>x. x \<noteq> 47" "drop cur path"] unfolding post_def by simp
    have pe: "piece_end (path @ [0]) cur = Some (cur + length c)"
      using piece_end_at [OF c, of 47 "take cur path" "rest @ [0]"] Cons cur x unfolding path by simp
    have len: "cur + length c + 1 \<le> length path"
      using arg_cong [OF split, of length] Cons Suc.prems by simp
    have "drop (cur + length c + 1) path = rest"
      using arg_cong [OF split, of "drop (length c + 1)"] Cons by (simp add: add.commute)
    moreover have "count_list c 47 = 0"
      using c by (simp add: count_list_0_iff)
    ultimately have "k \<le> count_list (drop (cur + length c + 1) path) 47 + 1"
      using Suc.prems(2) split Cons x by simp
    from Suc.IH [OF len this] show ?thesis
      using pe by auto
  qed
qed simp

section \<open>Opening through a path\<close>

lemma fopen_path:
  assumes "dev_plain od" "list_all (\<lambda>d. plain_name d \<and> d \<noteq> []) dirs" "plain_name name" "name \<noteq> []"
    and "hd (dirs @ [name]) \<noteq> lit '':''"
  shows "fopen v (Some (path_of od (dirs @ [name]))) mode w =
    (case dev_entry v od of
       None \<Rightarrow> Some (Inl (Some EFAULT), w)
     | Some ve \<Rightarrow>
         (case fs_read_directory (ve_fs ve) dirs w of
            None \<Rightarrow> None
          | Some (Inl e, w') \<Rightarrow> Some (Inl e, w')
          | Some (Inr ds, w') \<Rightarrow>
              (case find (\<lambda>d. de_name d = name) ds of
                 None \<Rightarrow> Some (Inl None, w')
               | Some d \<Rightarrow> map_option (as_stream (ve_fs ve)) (fs_fopen (ve_fs ve) (Some d) mode w'))))"
proof -
  have find: "find_dirent ds name = find (\<lambda>d. de_name d = name) ds" for ds
    by (induction ds) auto
  have "split_dir v (path_of od (dirs @ [name])) =
      Some (case dev_entry v od of None \<Rightarrow> Inl () | Some ve \<Rightarrow> Inr (ve, dirs @ [name]))"
    using assms by (intro split_dir_path) auto
  then have "fopen v (Some (path_of od (dirs @ [name]))) mode w =
      (case dev_entry v od of
         None \<Rightarrow> Some (Inl (Some EFAULT), w)
       | Some ve \<Rightarrow> fs_read_directory (ve_fs ve) dirs w \<bind> (\<lambda>(r, w). case r of
            Inl e \<Rightarrow> Some (Inl e, w)
          | Inr ds \<Rightarrow> (case find (\<lambda>d. de_name d = name) ds of
              None \<Rightarrow> Some (Inl None, w)
            | Some d \<Rightarrow> map_option (as_stream (ve_fs ve)) (fs_fopen (ve_fs ve) (Some d) mode w))))"
    using assms(5) unfolding fopen_def
    by (cases "dev_entry v od") (simp_all add: Let_def find cong: sum.case_cong)
  then show ?thesis
    by (auto split: option.split sum.split simp: Option.bind_eq_None_conv bind_split)
qed

lemmas fopen_device = fopen_path [where od = "Some dev" for dev, unfolded path_of_def dev_entry_def dev_plain_def option.case]

text \<open>Bytes asked for inside the file are passed on as they are.\<close>

lemma fread_bytes:
  assumes "f_len f = int len" "f_pos f = int pos" "pos + n \<le> len" "len < 2147483648"
    and "fs_fread_op fs b addr (word_of_nat n) f w = Some (r, b', f', w')"
  shows "fread b addr 1 (word_of_nat n) (File_stream fs f) w = Some (r, b', File_stream fs f', w')"
proof -
  have "word_of_int (f_len f - f_pos f) = (word_of_nat (len - pos) :: u32)"
    using assms(1-3) by (metis add_leD1 of_nat_diff of_int_of_nat_eq)
  moreover have "\<not> (word_of_nat n :: u32) > word_of_nat (len - pos)"
  proof -
    have "unat (word_of_nat (len - pos) :: u32) = len - pos" "unat (word_of_nat n :: u32) = n"
      by (rule unat_of_nat_u32, use assms(3,4) in simp)+
    then show ?thesis
      using assms(3) unfolding word_less_nat_alt by linarith
  qed
  ultimately show ?thesis
    unfolding fread_def stream.case Let_def using assms(5) by simp
qed

section \<open>Properties\<close>

text \<open>C23: Parsing a path stays inside it and ends: whatever the path (any bytes,
  brackets and slashes in any order), both passes agree on the number of
  components, so the second one never reads past the terminating NUL.\<close>

theorem split_dir_safe:
  assumes "0 \<notin> set path"
  shows "\<exists>r. split_dir v path = Some r"
proof (cases "split_scan v path 0 path \<lparr>reading_dev = False, split_ve = v_def v, dir_start = 0, dir_count = 0\<rparr>")
  case (Some st)
  then have "dir_start st \<le> length path \<and> dir_count st \<le> count_list (drop (dir_start st) path) 47 + 1"
    by (rule split_scan_bound [where pre = "[]"]) auto
  then have "\<exists>ps. split_pieces (path @ [0]) (dir_start st) (dir_count st) = Some ps"
    using split_pieces_safe [OF assms] by blast
  then show ?thesis
    using Some by (auto simp: split_dir_def split: option.splits)
qed (simp add: split_dir_def)

theorem split_dir_safe_witness:
  "\<exists>r. split_dir (vfs_start :: unit vfs) (lit ''(d)//a/)b(/'') = Some r"
  by (rule split_dir_safe) (simp add: lit_def)

text \<open>C25: The registry: after any sequence of successful registrations a device name
  finds the file system registered last under it, the default is the first one
  registered, and the name table holds the first 255 names in their order.\<close>

theorem vfs_register_all:
  fixes fss :: "'w fs list"
  defines "v \<equiv> fold (\<lambda>f v. snd (vfs_register (Some f) v)) fss vfs_start"
  shows "find_ve (v_entries v) name =
      map_option (\<lambda>f. \<lparr>ve_name = name, ve_fs = f\<rparr>) (find (\<lambda>f. device_name (fs_parent f) = name) (rev fss))
    \<and> v_def v = (if fss = [] then None else Some \<lparr>ve_name = device_name (fs_parent (hd fss)), ve_fs = hd fss\<rparr>)
    \<and> vfs_get_device_list v = take 255 (map (\<lambda>f. device_name (fs_parent f)) fss)"
  unfolding v_def
proof (induction fss rule: rev_induct)
  case (snoc f fss)
  then show ?case
    by (auto simp: vfs_register_def vfs_add_def vfs_get_device_list_def Let_def MAX_DEV_NAMES_def min_def
        split: if_splits)
qed (simp add: vfs_start_def vfs_get_device_list_def)

text \<open>C22: Opening \<open>(device)/d1/.../dn/name\<close> reads the directory \<open>d1/.../dn\<close> of the file
  system registered for the device and opens the first entry called \<open>name\<close>; when
  the device is not known the open fails with EFAULT.\<close>

theorem fopen_resolves:
  assumes "plain_name dev" "list_all (\<lambda>d. plain_name d \<and> d \<noteq> []) dirs" "plain_name name" "name \<noteq> []"
    and "hd (dirs @ [name]) \<noteq> lit '':''"
  shows "fopen v (Some (40 # dev @ 41 # comp_path (dirs @ [name]))) mode w =
    (case find_ve (v_entries v) dev of
       None \<Rightarrow> Some (Inl (Some EFAULT), w)
     | Some ve \<Rightarrow>
         (case fs_read_directory (ve_fs ve) dirs w of
            None \<Rightarrow> None
          | Some (Inl e, w') \<Rightarrow> Some (Inl e, w')
          | Some (Inr ds, w') \<Rightarrow>
              (case find (\<lambda>d. de_name d = name) ds of
                 None \<Rightarrow> Some (Inl None, w')
               | Some d \<Rightarrow> map_option (as_stream (ve_fs ve)) (fs_fopen (ve_fs ve) (Some d) mode w'))))"
  using assms by (rule fopen_device)

theorem fopen_resolves_witness:
  "fopen (vfs_start :: unit vfs) (Some (lit ''(sd)/a/b'')) (lit ''r'') () = Some (Inl (Some EFAULT), ())"
  using fopen_resolves [of "lit ''sd''" "[lit ''a'']" "lit ''b''" "vfs_start :: unit vfs" "lit ''r''" "()"]
  by (simp add: plain_name_def lit_def vfs_start_def)



end
