(* ===== verification/Fat.thy ===== *)
theory Fat
  imports Vfs CString
begin

text \<open>
  The FAT file system of fat.c: the geometry read from the boot sector, the walk
  along a cluster chain, the directory reader and the file operations, over any
  block device.  The cursor of a transfer (the structure \<open>fat_fread\<close> keeps on its
  stack) is the state of the block lookup.  Chains may be cyclic on a damaged
  volume, so the walks are partial functions.  Fresh memory holds zeros.
\<close>

section \<open>Volume\<close>

definition FAT12 :: nat where "FAT12 = 0"
definition FAT16 :: nat where "FAT16 = 1"
definition FAT32 :: nat where "FAT32 = 2"

definition fat_names :: "cstring list" where
  "fat_names = [lit ''FAT12'', lit ''FAT16'', lit ''FAT32'', lit ''VFAT'']"

record 'w fat_fs =
  fat_id :: nat
  fat_parent :: "'w block_device"
  fat_block_size :: u32
  fat_type :: nat
  total_sectors :: u32
  sectors_per_cluster :: u32
  bytes_per_sector :: u32
  vol_label :: buf
  first_fat_sector :: u32
  first_data_sector :: u32
  sectors_per_fat :: u32
  root_dir_entries :: u32
  root_dir_sectors :: u32
  first_non_root_sector :: u32
  root_dir_cluster :: u32

text \<open>The fields of \<open>struct fat_BS\<close>, a packed little-endian structure.\<close>

record fat_bs =
  bs_bytes_per_sector :: u32
  bs_sectors_per_cluster :: u32
  bs_reserved :: u32
  bs_table_count :: u32
  bs_root_entries :: u32
  bs_total_16 :: u32
  bs_table_size_16 :: u32
  bs_total_32 :: u32
  bs_table_size_32 :: u32
  bs_root_cluster :: u32

definition fat_boot_sector :: "buf \<Rightarrow> fat_bs option" where
  "fat_boot_sector b = do {
     bps \<leftarrow> read_halfword b 11;
     spc \<leftarrow> get_byte b 13;
     res \<leftarrow> read_halfword b 14;
     tc \<leftarrow> get_byte b 16;
     re \<leftarrow> read_halfword b 17;
     t16 \<leftarrow> read_halfword b 19;
     ts16 \<leftarrow> read_halfword b 22;
     t32 \<leftarrow> read_word b 32;
     ts32 \<leftarrow> read_word b 36;
     rc \<leftarrow> read_word b 44;
     Some \<lparr>bs_bytes_per_sector = ucast bps, bs_sectors_per_cluster = ucast spc, bs_reserved = ucast res,
       bs_table_count = ucast tc, bs_root_entries = ucast re, bs_total_16 = ucast t16,
       bs_table_size_16 = ucast ts16, bs_total_32 = t32, bs_table_size_32 = ts32, bs_root_cluster = rc\<rparr> }"

text \<open>The volume that a boot sector describes; a division by zero is an error.\<close>

definition fat_geometry :: "nat \<Rightarrow> 'w block_device \<Rightarrow> fat_bs \<Rightarrow> 'w fat_fs option" where
  "fat_geometry fsid parent bs =
     (if bs_bytes_per_sector bs = 0 \<or> bs_sectors_per_cluster bs = 0 then None
      else
        let tot = (if bs_total_16 bs = 0 then bs_total_32 bs else bs_total_16 bs);
            bps = bs_bytes_per_sector bs;
            spc = bs_sectors_per_cluster bs;
            rds = (bs_root_entries bs * 32 + bps - 1) div bps;
            fat_size = (if bs_table_size_16 bs = 0 then bs_table_size_32 bs else bs_table_size_16 bs);
            data_sec = tot - (bs_reserved bs + bs_table_count bs * fat_size + rds);
            total_clusters = data_sec div spc;
            ft = (if total_clusters < 4085 then FAT12 else if total_clusters < 65525 then FAT16 else FAT32);
            spf = (if ft = FAT32 then bs_table_size_32 bs else bs_table_size_16 bs);
            fds = bs_reserved bs + bs_table_count bs * spf
        in Some \<lparr>fat_id = fsid, fat_parent = parent, fat_block_size = bps * spc, fat_type = ft,
             total_sectors = tot, sectors_per_cluster = spc, bytes_per_sector = bps, vol_label = [],
             first_fat_sector = bs_reserved bs, first_data_sector = fds, sectors_per_fat = spf,
             root_dir_entries = bs_root_entries bs, root_dir_sectors = rds,
             first_non_root_sector = (if ft = FAT32 then fds else fds + rds),
             root_dir_cluster = (if ft = FAT32 then bs_root_cluster bs else 2)\<rparr>)"

text \<open>The label is copied with \<open>strcpy\<close> into a buffer of twelve bytes, and then cut.\<close>

definition fat_copy_label :: "buf \<Rightarrow> nat \<Rightarrow> buf option" where
  "fat_copy_label b off = do {
     n \<leftarrow> strlen b off;
     s \<leftarrow> load b off n;
     label \<leftarrow> store (replicate 12 0) 0 (s @ [0]);
     put_byte label 11 0 }"

definition fat_init :: "nat \<Rightarrow> 'w block_device \<Rightarrow> 'w \<Rightarrow> (int \<times> 'w fat_fs option \<times> 'w) option" where
  "fat_init fsid parent w = do {
     (r, block_0, w) \<leftarrow> block_read parent w (replicate 512 0) 512 0;
     if sint r < 0 then Some (sint r, None, w)
     else if r \<noteq> 512 then Some (-1, None, w)
     else do {
       jmp \<leftarrow> get_byte block_0 0;
       if jmp \<noteq> 0xeb then Some (-1, None, w)
       else do {
         bs \<leftarrow> fat_boot_sector block_0;
         fat \<leftarrow> fat_geometry fsid parent bs;
         label \<leftarrow> fat_copy_label block_0 (if fat_type fat = FAT32 then 71 else 43);
         Some (0, Some (fat\<lparr>vol_label := label\<rparr>), w) } } }"

section \<open>Cluster chains\<close>

definition get_sector :: "'w fat_fs \<Rightarrow> u32 \<Rightarrow> u32" where
  "get_sector fat rel_cluster = first_non_root_sector fat + (rel_cluster - 2) * sectors_per_cluster fat"

text \<open>The marker 0x0ffffff7 stands for a table sector that cannot be read.\<close>

definition get_next_fat_entry :: "'w fat_fs \<Rightarrow> u32 \<Rightarrow> 'w \<Rightarrow> (u32 \<times> 'w) option" where
  "get_next_fat_entry fat current_cluster w =
     (if fat_type fat = FAT16 \<or> fat_type fat = FAT32 then
        if bytes_per_sector fat = 0 then None
        else do {
          let fat_offset = push_bit (if fat_type fat = FAT16 then 1 else 2) current_cluster;
          let fat_sector = first_fat_sector fat + fat_offset div bytes_per_sector fat;
          (r, b, w) \<leftarrow> block_read (fat_parent fat) w (replicate 512 0) 512 fat_sector;
          if sint r < 0 then Some (0x0ffffff7, w)
          else do {
            let fat_index = unat (fat_offset mod bytes_per_sector fat);
            if fat_type fat = FAT16 then do {
              h \<leftarrow> read_halfword b fat_index;
              let next_cluster = (ucast h :: u32);
              Some (if next_cluster \<ge> 0xfff7 then next_cluster OR 0x0fff0000 else next_cluster, w) }
            else do {
              x \<leftarrow> read_word b fat_index;
              Some (x AND 0x0fffffff, w) } } }
      else Some (0, w))"

section \<open>Files\<close>

record ffbo =
  f_block :: u32
  f_cluster :: u32

partial_function (option) fat_seek_cluster ::
  "'w fat_fs \<Rightarrow> u32 \<Rightarrow> ffbo \<Rightarrow> 'w \<Rightarrow> (ffbo \<times> 'w) option" where
  "fat_seek_cluster fat idx c w =
     (if f_block c \<noteq> idx \<and> f_cluster c < 0x0ffffff8 then do {
        (nxt, w) \<leftarrow> get_next_fat_entry fat (f_cluster c) w;
        fat_seek_cluster fat idx \<lparr>f_block = f_block c + 1, f_cluster = nxt\<rparr> w }
      else Some (c, w))"

definition fat_get_next_bdev_block_num :: "'w fat_fs \<Rightarrow> ('w, ffbo) get_block" where
  "fat_get_next_bdev_block_num fat idx s c add_blocks w = do {
     (c, w) \<leftarrow> fat_seek_cluster fat idx c w;
     if f_cluster c < 0x0ffffff8 then Some (get_sector fat (f_cluster c), s, c, w)
     else Some (0xffffffff, s\<lparr>f_flags := f_flags s OR VFS_FLAGS_EOF\<rparr>, c, w) }"

definition fat_fopen ::
  "nat \<Rightarrow> dirent option \<Rightarrow> cstring \<Rightarrow> 'w \<Rightarrow> ((errno option + vfs_file) \<times> 'w) option" where
  "fat_fopen fsid path mode w = do {
     d \<leftarrow> path;
     if fsid \<noteq> de_fs d then Some (Inl (Some EFAULT), w)
     else if mode \<noteq> lit ''r'' then Some (Inl (Some EROFS), w)
     else Some (Inr \<lparr>f_fs = fsid, f_pos = 0, f_mode = 0, f_opaque = de_opaque d,
                     f_len = sint (de_byte_size d), f_flags = 0\<rparr>, w) }"

definition fat_fread ::
  "'w fat_fs \<Rightarrow> u32 \<Rightarrow> buf \<Rightarrow> u32 \<Rightarrow> u32 \<Rightarrow> vfs_file \<Rightarrow> 'w \<Rightarrow> (u32 \<times> buf \<times> vfs_file \<times> 'w) option" where
  "fat_fread fat temp b addr byte_size f w =
     (if f_fs f \<noteq> fat_id fat then Some (-1, b, f, w)
      else if f_opaque f = 0 then Some (-1, b, f, w)
      else fs_fread (fat_get_next_bdev_block_num fat) (fat_parent fat) (fat_block_size fat)
             \<lparr>ptr_addr = addr, temp_addr = temp\<rparr> b byte_size f
             \<lparr>f_block = 0, f_cluster = f_opaque f\<rparr> w)"

section \<open>Directories\<close>

text \<open>The conversion of a name: the first eight characters, a dot, the other
  three, without blanks and in lower case; the dot is dropped when there is no
  extension.\<close>

fun fat_name_loop :: "nat \<Rightarrow> buf \<Rightarrow> cstring \<Rightarrow> bool \<Rightarrow> cstring \<times> bool" where
  "fat_name_loop i [] out has_ext = (out, has_ext)"
| "fat_name_loop i (v # vs) out has_ext =
     (let out = (if i = 8 then out @ [46] else out)
      in if v = 32 then fat_name_loop (i + 1) vs out has_ext
         else fat_name_loop (i + 1) vs
                (out @ [if 65 \<le> v \<and> v \<le> 90 then 97 + v - 65 else v]) (has_ext \<or> i \<ge> 8))"

definition fat_name :: "buf \<Rightarrow> cstring" where
  "fat_name v =
     (let (out, has_ext) = fat_name_loop 0 v [] False
      in takeWhile (\<lambda>c. c \<noteq> 0) (if has_ext then out else butlast out))"

text \<open>Is the entry at p skipped?\<close>

definition fat_skip :: "buf \<Rightarrow> nat \<Rightarrow> bool option" where
  "fat_skip b p = do {
     c0 \<leftarrow> get_byte b p;
     if c0 = 0 \<or> c0 = 0xe5 then Some True
     else do {
       dots \<leftarrow>
         (if c0 \<noteq> 46 then Some False
          else do {
            c1 \<leftarrow> get_byte b (p + 1);
            if c1 = 32 then Some True
            else if c1 \<noteq> 46 then Some False
            else map_option (\<lambda>c2. c2 = 32) (get_byte b (p + 2)) });
       if dots then Some True
       else map_option (\<lambda>att. att AND 0x08 \<noteq> 0) (get_byte b (p + 11)) } }"

definition fat_entry :: "nat \<Rightarrow> buf \<Rightarrow> nat \<Rightarrow> dirent option" where
  "fat_entry fsid b p = do {
     nm \<leftarrow> load b p 11;
     att \<leftarrow> get_byte b (p + 11);
     sz \<leftarrow> read_word b (p + 28);
     lo \<leftarrow> read_halfword b (p + 26);
     hi \<leftarrow> read_halfword b (p + 20);
     Some \<lparr>de_name = fat_name nm, de_byte_size = sz, de_is_dir = (att AND 0x10 \<noteq> 0),
           de_opaque = ucast lo OR push_bit 16 (ucast hi), de_fs = fsid\<rparr> }"

text \<open>The entries of one cluster, from offset p on; the fuel is the size of the
  cluster, which bounds the number of entries.\<close>

fun fat_entries :: "nat \<Rightarrow> nat \<Rightarrow> buf \<Rightarrow> nat \<Rightarrow> nat \<Rightarrow> dirent list option" where
  "fat_entries fsid sz b p 0 = (if p < sz then None else Some [])"
| "fat_entries fsid sz b p (Suc k) =
     (if p < sz then do {
        skip \<leftarrow> fat_skip b p;
        if skip then fat_entries fsid sz b (p + 32) k
        else do {
          e \<leftarrow> fat_entry fsid b p;
          es \<leftarrow> fat_entries fsid sz b (p + 32) k;
          Some (e # es) } }
      else Some [])"

text \<open>The loop over the clusters of a directory.  The list that was read before
  a failing cluster is dropped.\<close>

partial_function (option) fat_read_clusters ::
  "'w fat_fs \<Rightarrow> bool \<Rightarrow> u32 \<Rightarrow> u32 \<Rightarrow> dirent list \<Rightarrow> 'w \<Rightarrow> (dirent list \<times> 'w) option" where
  "fat_read_clusters fat is_root cur_cluster root_offset ret w = do {
     let cluster_size = bytes_per_sector fat * sectors_per_cluster fat;
     let base = (if is_root then first_data_sector fat else first_non_root_sector fat);
     (r, b, w) \<leftarrow> block_read (fat_parent fat) w (replicate (unat cluster_size) 0) cluster_size
        ((cur_cluster - 2) * sectors_per_cluster fat + base);
     if sint r < 0 then Some ([], w)
     else do {
       es \<leftarrow> fat_entries (fat_id fat) (unat cluster_size) b 0 (unat cluster_size);
       (nxt, off, w) \<leftarrow>
         (if is_root \<and> fat_type fat \<noteq> FAT32 then
            if sectors_per_cluster fat = 0 then None
            else Some (if root_offset + 1 < root_dir_sectors fat div sectors_per_cluster fat
                       then cur_cluster + 1 else 0x0ffffff8, root_offset + 1, w)
          else map_option (\<lambda>(n, w). (n, root_offset, w)) (get_next_fat_entry fat cur_cluster w));
       if nxt < 0x0ffffff7 then fat_read_clusters fat is_root nxt off (ret @ es) w
       else Some (ret @ es, w) } }"

definition fat_read_dir :: "'w fat_fs \<Rightarrow> dirent option \<Rightarrow> 'w \<Rightarrow> (dirent list \<times> 'w) option" where
  "fat_read_dir fat d w =
     fat_read_clusters fat (d = None)
       (case d of None \<Rightarrow> root_dir_cluster fat | Some d \<Rightarrow> de_opaque d) 0 [] w"

fun fat_walk ::
  "'w fat_fs \<Rightarrow> cstring list \<Rightarrow> dirent list \<Rightarrow> 'w \<Rightarrow> ((errno option + dirent list) \<times> 'w) option" where
  "fat_walk fat [] cur_dir w = Some (Inr cur_dir, w)"
| "fat_walk fat (n # ns) cur_dir w =
     (case find_dirent cur_dir n of
        None \<Rightarrow> Some (Inl (Some ENOENT), w)
      | Some d \<Rightarrow>
          if \<not> de_is_dir d then Some (Inl (Some ENOTDIR), w)
          else do {
            (cur_dir, w) \<leftarrow> fat_read_dir fat (Some d) w;
            fat_walk fat ns cur_dir w })"

definition fat_read_directory ::
  "'w fat_fs \<Rightarrow> cstring list \<Rightarrow> 'w \<Rightarrow> ((errno option + dirent list) \<times> 'w) option" where
  "fat_read_directory fat name w = do {
     (cur_dir, w) \<leftarrow> fat_read_dir fat None w;
     fat_walk fat name cur_dir w }"

text \<open>The structure handed to the virtual file system; \<open>flags\<close> stays zero.\<close>

definition fat_fs_of :: "u32 \<Rightarrow> 'w fat_fs \<Rightarrow> 'w fs" where
  "fat_fs_of temp fat =
     \<lparr>fs_id = fat_id fat, fs_parent = fat_parent fat, fs_name = fat_names ! fat_type fat, fs_flags = 0,
      fs_block_size = fat_block_size fat, fs_fopen = fat_fopen (fat_id fat),
      fs_fread_op = fat_fread fat temp, fs_fwrite_op = None, fs_fclose = Some (\<lambda>f w. w),
      fs_fsize = None, fs_fseek = None, fs_ftell = None, fs_fflush = None,
      fs_read_directory = fat_read_directory fat\<rparr>"

section \<open>The table and the clusters of an image\<close>

definition fat_entry_offset :: "'w fat_fs \<Rightarrow> u32 \<Rightarrow> nat" where
  "fat_entry_offset fat c =
     unat (first_fat_sector fat) * 512 + (if fat_type fat = FAT16 then 2 else 4) * unat c"

definition fat_link :: "'w fat_fs \<Rightarrow> buf \<Rightarrow> u32 \<Rightarrow> u32" where
  "fat_link fat m c =
     (if fat_type fat = FAT16
      then let x = (ucast (the (read_halfword m (fat_entry_offset fat c))) :: u32)
           in if x \<ge> 0xfff7 then x OR 0x0fff0000 else x
      else the (read_word m (fat_entry_offset fat c)) AND 0x0fffffff)"

definition fat_sector_of :: "'w fat_fs \<Rightarrow> u32 \<Rightarrow> nat" where
  "fat_sector_of fat c =
     unat (first_non_root_sector fat) + (unat c - 2) * unat (sectors_per_cluster fat)"

definition fat_data :: "'w fat_fs \<Rightarrow> buf \<Rightarrow> u32 \<Rightarrow> buf" where
  "fat_data fat m c =
     take (unat (fat_block_size fat)) (drop (fat_sector_of fat c * 512) m)"

text \<open>A cluster whose table sector and data lie inside the image.\<close>

definition fat_cluster_ok :: "'w fat_fs \<Rightarrow> buf \<Rightarrow> u32 \<Rightarrow> bool" where
  "fat_cluster_ok fat m c \<longleftrightarrow>
     2 \<le> unat c \<and> 4 * unat c < 4294967296
     \<and> (fat_entry_offset fat c div 512 + 1) * 512 \<le> length m
     \<and> fat_sector_of fat c * 512 + unat (fat_block_size fat) \<le> length m"

lemma length_fat_data: "fat_cluster_ok fat m c \<Longrightarrow> length (fat_data fat m c) = unat (fat_block_size fat)"
  unfolding fat_cluster_ok_def fat_data_def length_take length_drop by linarith

text \<open>A volume whose sectors are the 512-byte blocks of its device.\<close>

definition fat_layout ::
  "'w bd_read_op \<Rightarrow> ('w \<Rightarrow> buf) \<Rightarrow> ('w \<Rightarrow> bool) \<Rightarrow> 'w fat_fs \<Rightarrow> buf \<Rightarrow> 'w \<Rightarrow> bool" where
  "fat_layout rd img ok fat m w \<longleftrightarrow>
     ok w \<and> img w = m \<and> bd_read (fat_parent fat) = Some rd \<and> block_size (fat_parent fat) = 512
     \<and> bytes_per_sector fat = 512 \<and> (fat_type fat = FAT16 \<or> fat_type fat = FAT32)
     \<and> unat (fat_block_size fat) = 512 * unat (sectors_per_cluster fat)
     \<and> 0 < unat (sectors_per_cluster fat) \<and> unat (sectors_per_cluster fat) < 256"

text \<open>The clusters of a file, from c to the end mark.\<close>

primrec fat_chain :: "'w fat_fs \<Rightarrow> buf \<Rightarrow> u32 \<Rightarrow> u32 list \<Rightarrow> bool" where
  "fat_chain fat m c [] \<longleftrightarrow> \<not> c < 0x0ffffff8"
| "fat_chain fat m c (x # xs) \<longleftrightarrow>
     x = c \<and> c < 0x0ffffff8 \<and> fat_cluster_ok fat m c \<and> fat_chain fat m (fat_link fat m c) xs"

definition fat_content :: "'w fat_fs \<Rightarrow> buf \<Rightarrow> u32 list \<Rightarrow> buf" where
  "fat_content fat m cs = concat (map (fat_data fat m) cs)"

lemma fat_chain_nth:
  assumes "fat_chain fat m c cs" "i < length cs"
  shows "fat_cluster_ok fat m (cs ! i)" "cs ! i < 0x0ffffff8"
    and "Suc i < length cs \<Longrightarrow> fat_link fat m (cs ! i) = cs ! Suc i"
    and "Suc i = length cs \<Longrightarrow> \<not> fat_link fat m (cs ! i) < 0x0ffffff8"
  using assms
proof (induction cs arbitrary: c i)
  case (Cons x xs)
  {
    case 1 then show ?case using Cons.IH(1) by (cases i) auto
  next
    case 2 then show ?case using Cons.IH(2) by (cases i) auto
  next
    case 3 then show ?case using Cons.IH(3) [where c = "fat_link fat m c" and i = "i - 1"] by (cases i; cases xs) auto
  next
    case 4 then show ?case using Cons.IH(4) [where c = "fat_link fat m c" and i = "i - 1"] by (cases i; cases xs) auto
  }
qed simp_all

lemma fat_content_blocks:
  assumes "fat_chain fat m c cs"
  shows "length (fat_content fat m cs) = length cs * unat (fat_block_size fat)"
    and "i < length cs \<Longrightarrow> blk_of (unat (fat_block_size fat)) (fat_content fat m cs) i = fat_data fat m (cs ! i)"
proof -
  have "\<forall>d \<in> set (map (fat_data fat m) cs). length d = unat (fat_block_size fat)"
    using fat_chain_nth(1) [OF assms] by (auto simp: in_set_conv_nth intro!: length_fat_data)
  then show "length (fat_content fat m cs) = length cs * unat (fat_block_size fat)"
    "i < length cs \<Longrightarrow> blk_of (unat (fat_block_size fat)) (fat_content fat m cs) i = fat_data fat m (cs ! i)"
    using length_concat_blocks [of "map (fat_data fat m) cs"] blk_of_concat [of "map (fat_data fat m) cs"]
    by (simp_all add: fat_content_def)
qed

lemma get_sector_unat:
  assumes "fat_cluster_ok fat m c" "length m \<le> 4294967295 * 512" "0 < unat (fat_block_size fat)"
  shows "unat (get_sector fat c) = fat_sector_of fat c"
proof -
  have c: "unat (c - 2) = unat c - 2"
    using assms(1) by (subst unat_sub_u32) (simp_all add: fat_cluster_ok_def word_le_nat_alt)
  have "fat_sector_of fat c * 512 < 4294967296 * 512"
    using assms unfolding fat_cluster_ok_def by linarith
  then have "fat_sector_of fat c < 4294967296"
    by simp
  then have s: "(unat c - 2) * unat (sectors_per_cluster fat) + unat (first_non_root_sector fat) < 4294967296"
    by (simp add: fat_sector_of_def)
  then have "unat ((c - 2) * sectors_per_cluster fat) = (unat c - 2) * unat (sectors_per_cluster fat)"
    using c by (simp add: unat_mult_u32)
  then show ?thesis
    using s by (simp add: get_sector_def fat_sector_of_def unat_plus_if_u32)
qed

lemma read_halfword_window:
  "i + 2 \<le> n \<Longrightarrow> p + n \<le> length m \<Longrightarrow> read_halfword (take n (drop p m)) i = read_halfword m (p + i)"
  by (simp add: read_halfword_eq)

lemma read_word_window:
  "i + 4 \<le> n \<Longrightarrow> p + n \<le> length m \<Longrightarrow> read_word (take n (drop p m)) i = read_word m (p + i)"
  by (simp add: read_word_eq add.assoc)

section \<open>Lookups on such a volume\<close>

locale fat_device = disk rd 512 img inv
  for rd :: "'w bd_read_op" and img :: "'w \<Rightarrow> buf" and inv
begin

lemma layout_bound: "fat_layout rd img inv fat m w \<Longrightarrow> length m \<le> 4294967295 * 512"
  using img_bound [of w] by (auto simp: fat_layout_def)

lemma next_entry:
  assumes "fat_layout rd img inv fat m w" "fat_cluster_ok fat m c"
  shows "\<exists>w'. get_next_fat_entry fat c w = Some (fat_link fat m c, w') \<and> fat_layout rd img inv fat m w'"
proof -
  define s :: nat where "s = (if fat_type fat = FAT16 then 1 else 2)"
  define off where "off = push_bit s c"
  define sec where "sec = first_fat_sector fat + off div 512"
  have lay: "inv w" "img w = m" "bd_read (fat_parent fat) = Some rd" "block_size (fat_parent fat) = 512"
    "bytes_per_sector fat = 512" "fat_type fat = FAT16 \<or> fat_type fat = FAT32"
    using assms(1) by (simp_all add: fat_layout_def)
  have types: "FAT16 \<noteq> FAT32"
    by (simp add: FAT16_def FAT32_def)
  have e: "fat_entry_offset fat c = unat (first_fat_sector fat) * 512 + 2 ^ s * unat c"
    by (simp add: fat_entry_offset_def s_def)
  have fits: "2 ^ s * unat c < 4294967296" "(fat_entry_offset fat c div 512 + 1) * 512 \<le> length m"
    using assms(2) by (auto simp: fat_cluster_ok_def s_def)
  have off: "unat off = 2 ^ s * unat c"
    using fits(1) unat_mult_u32 [of c 2] unat_mult_u32 [of c 4]
    by (simp add: off_def push_bit_eq_mult s_def mult.commute split: if_splits)
  have q: "fat_entry_offset fat c div 512 = unat (first_fat_sector fat) + unat off div 512"
    "fat_entry_offset fat c mod 512 = unat off mod 512"
    using off e by simp_all
  have "(unat (first_fat_sector fat) + unat off div 512 + 1) * 512 \<le> 4294967295 * 512"
    using fits(2) layout_bound [OF assms(1)] unfolding q(1) by linarith
  then have sec: "unat sec = fat_entry_offset fat c div 512"
    using q(1) by (simp add: sec_def unat_plus_if_u32 unat_div)
  obtain w' where w': "block_read (fat_parent fat) w (replicate 512 0) 512 sec =
      Some (512, blit (replicate 512 0) 0 (take 512 (drop (unat sec * 512) (img w))), w')" "inv w'" "img w' = img w"
    using block_read_image [OF lay(3,4,1), of 512 "replicate 512 0" sec] fits(2) lay(2) sec by auto
  let ?b = "take 512 (drop (unat sec * 512) m)"
  have room: "unat sec * 512 + 512 \<le> length m"
    using fits(2) sec by simp
  then have b: "blit (replicate 512 0) 0 (take 512 (drop (unat sec * 512) (img w))) = ?b"
    by (simp add: blit_def lay(2))
  have idx: "unat (off mod 512) = unat off mod 512" "unat sec * 512 + unat off mod 512 = fat_entry_offset fat c"
    using q(2) sec div_mult_mod_eq [of "fat_entry_offset fat c" 512] by (simp_all add: unat_mod)
  have al: "unat off mod 512 + 2 ^ s \<le> 512"
  proof -
    have "2 ^ s dvd unat off mod 512"
      using off by (auto simp: s_def dvd_mod_iff)
    then obtain k where "unat off mod 512 = 2 ^ s * k"
      by (elim dvdE)
    moreover have "unat off mod 512 < 512"
      by simp
    ultimately show ?thesis
      by (auto simp: s_def split: if_splits)
  qed
  have "get_next_fat_entry fat c w = Some (fat_link fat m c, w')"
  proof (cases "fat_type fat = FAT16")
    case True
    then have "read_halfword ?b (unat off mod 512) = read_halfword m (fat_entry_offset fat c)"
      using read_halfword_window [OF _ room, of "unat off mod 512"] al idx(2) by (simp add: s_def)
    moreover have "fat_entry_offset fat c + 2 \<le> length m"
      using al room idx(2) True unfolding s_def by simp
    then obtain x where "read_halfword m (fat_entry_offset fat c) = Some x"
      using read_halfword_Some_iff by blast
    ultimately show ?thesis
      using True w'(1) lay(5,6) idx(1) unfolding b
      by (auto simp: get_next_fat_entry_def fat_link_def Let_def sec_def off_def s_def)
  next
    case False
    then have "read_word ?b (unat off mod 512) = read_word m (fat_entry_offset fat c)"
      using read_word_window [OF _ room, of "unat off mod 512"] al idx(2) by (simp add: s_def)
    moreover have "fat_entry_offset fat c + 4 \<le> length m"
      using al room idx(2) False unfolding s_def by simp
    then obtain x where "read_word m (fat_entry_offset fat c) = Some x"
      using read_word_Some_iff by blast
    ultimately show ?thesis
      using False w'(1) lay(5,6) idx(1) unfolding b
      by (auto simp: get_next_fat_entry_def fat_link_def Let_def sec_def off_def s_def)
  qed
  then show ?thesis
    using assms(1) w'(2,3) by (auto simp: fat_layout_def)
qed

lemma seek_cluster:
  assumes "fat_layout rd img inv fat m w" "fat_chain fat m c0 cs" "j \<le> i" "j < length cs" "i \<le> length cs"
    and "length cs < 4294967296"
  shows "\<exists>e w'. fat_seek_cluster fat (word_of_nat i) \<lparr>f_block = word_of_nat j, f_cluster = cs ! j\<rparr> w =
      Some (\<lparr>f_block = word_of_nat i, f_cluster = e\<rparr>, w') \<and> fat_layout rd img inv fat m w'
    \<and> (if i < length cs then e = cs ! i else \<not> e < 0x0ffffff8)"
  using assms(1,3,4)
proof (induction "i - j" arbitrary: j w)
  case 0
  then show ?case
    by (subst fat_seek_cluster.simps) auto
next
  case (Suc k)
  note ch = fat_chain_nth [OF assms(2) Suc.prems(3)]
  have ne: "(word_of_nat j :: u32) \<noteq> word_of_nat i"
    using Suc assms(5,6) by (auto simp: word_unat_eq_iff unat_of_nat_u32)
  obtain w1 where w1: "get_next_fat_entry fat (cs ! j) w = Some (fat_link fat m (cs ! j), w1)"
    "fat_layout rd img inv fat m w1"
    using next_entry [OF Suc.prems(1) ch(1)] by blast
  have step: "fat_seek_cluster fat (word_of_nat i) \<lparr>f_block = word_of_nat j, f_cluster = cs ! j\<rparr> w =
      fat_seek_cluster fat (word_of_nat i) \<lparr>f_block = word_of_nat (Suc j), f_cluster = fat_link fat m (cs ! j)\<rparr> w1"
    using w1(1) ne ch(2) by (subst fat_seek_cluster.simps) (simp add: add.commute)
  show ?case
  proof (cases "Suc j < length cs")
    case True
    then show ?thesis
      unfolding step ch(3) [OF True] using Suc by (intro Suc.hyps(1) w1(2)) auto
  next
    case False
    then have "i = Suc j" "Suc j = length cs"
      using Suc assms(5) by simp_all
    then show ?thesis
      using step ch(4) w1(2) by (subst (asm) (2) fat_seek_cluster.simps) auto
  qed
qed

end

section \<open>Reading a file\<close>

text \<open>The state in which block i of the chain can be looked up: the cursor stands
  on a cluster of the chain that is not behind i.\<close>

definition fat_finv ::
  "'w bd_read_op \<Rightarrow> ('w \<Rightarrow> buf) \<Rightarrow> ('w \<Rightarrow> bool) \<Rightarrow> 'w fat_fs \<Rightarrow> buf \<Rightarrow> u32 list \<Rightarrow>
   vfs_file \<Rightarrow> ffbo \<Rightarrow> nat \<Rightarrow> 'w \<Rightarrow> bool" where
  "fat_finv rd img ok fat m cs f c i w \<longleftrightarrow>
     fat_layout rd img ok fat m w \<and> fat_chain fat m (hd cs) cs
     \<and> length cs * unat (fat_block_size fat) < 2147483648
     \<and> (\<exists>j < length cs. j \<le> i \<and> c = \<lparr>f_block = word_of_nat j, f_cluster = cs ! j\<rparr>)"

locale fat_volume = fat_device rd img inv
  for rd :: "'w bd_read_op" and img :: "'w \<Rightarrow> buf" and inv +
  fixes fat :: "'w fat_fs"
  assumes bs_min: "16 \<le> unat (fat_block_size fat)"

locale fat_file = fat_volume rd img inv fat
  for rd :: "'w bd_read_op" and img :: "'w \<Rightarrow> buf" and inv and fat +
  fixes m :: buf and cs :: "u32 list"
begin

lemma finv_facts:
  assumes "fat_finv rd img inv fat m cs f c i w"
  shows "fat_layout rd img inv fat m w" "fat_chain fat m (hd cs) cs" "length cs < 4294967296"
    and "length cs * unat (fat_block_size fat) < 2147483648"
    and "length (fat_content fat m cs) = length cs * unat (fat_block_size fat)"
    and "\<And>i. i < length cs \<Longrightarrow> blk_of (unat (fat_block_size fat)) (fat_content fat m cs) i = fat_data fat m (cs ! i)"
proof -
  show lay: "fat_layout rd img inv fat m w" "fat_chain fat m (hd cs) cs"
    and sz: "length cs * unat (fat_block_size fat) < 2147483648"
    using assms by (simp_all add: fat_finv_def)
  have "length cs * 1 \<le> length cs * unat (fat_block_size fat)"
    using bs_min by (intro mult_le_mono) auto
  then show "length cs < 4294967296"
    using sz by linarith
  show "length (fat_content fat m cs) = length cs * unat (fat_block_size fat)"
    "\<And>i. i < length cs \<Longrightarrow> blk_of (unat (fat_block_size fat)) (fat_content fat m cs) i = fat_data fat m (cs ! i)"
    by (fact fat_content_blocks [OF lay(2)])+
qed

lemma read_cluster:
  assumes "fat_layout rd img inv fat m w" "fat_cluster_ok fat m c" "unat (fat_block_size fat) \<le> length b"
    and "unat (fat_block_size fat) < 2147483648"
  shows "\<exists>w'. block_read (fat_parent fat) w b (fat_block_size fat) (get_sector fat c) =
      Some (fat_block_size fat, blit b 0 (fat_data fat m c), w') \<and> fat_layout rd img inv fat m w'"
proof -
  have lay: "inv w" "img w = m" "bd_read (fat_parent fat) = Some rd" "block_size (fat_parent fat) = 512"
    "unat (fat_block_size fat) = 512 * unat (sectors_per_cluster fat)"
    using assms(1) by (simp_all add: fat_layout_def)
  have sec: "unat (get_sector fat c) = fat_sector_of fat c"
    using bs_min by (intro get_sector_unat [OF assms(2) layout_bound [OF assms(1)]]) simp
  have "0 < fat_block_size fat"
    using bs_min by (auto simp: word_less_nat_alt)
  moreover have "unat (512 :: u32) dvd unat (fat_block_size fat)"
    by (simp add: lay(5))
  moreover have "unat (get_sector fat c) * unat (512 :: u32) + unat (fat_block_size fat) \<le> length (img w)"
    using assms(2) by (simp add: sec lay(2) fat_cluster_ok_def)
  ultimately obtain w' where "block_read (fat_parent fat) w b (fat_block_size fat) (get_sector fat c) =
      Some (fat_block_size fat, blit b 0 (fat_data fat m c), w')" "inv w'" "img w' = img w"
    using block_read_image [OF lay(3,4,1) _ _ assms(4,3), of "get_sector fat c"]
    by (auto simp: sec fat_data_def lay(2))
  then show ?thesis
    using assms(1) by (auto simp: fat_layout_def)
qed

lemma lookup:
  assumes "fat_finv rd img inv fat m cs f c i w" "i \<le> length cs"
  shows "\<exists>e w'. fat_seek_cluster fat (word_of_nat i) c w = Some (\<lparr>f_block = word_of_nat i, f_cluster = e\<rparr>, w')
    \<and> fat_layout rd img inv fat m w' \<and> (if i < length cs then e = cs ! i else \<not> e < 0x0ffffff8)"
proof -
  obtain j where "j < length cs" "j \<le> i" "c = \<lparr>f_block = word_of_nat j, f_cluster = cs ! j\<rparr>"
    using assms(1) by (auto simp: fat_finv_def)
  then show ?thesis
    using seek_cluster [OF finv_facts(1,2) [OF assms(1)] _ _ assms(2) finv_facts(3) [OF assms(1)]] by simp
qed

end

sublocale fat_file \<subseteq> reader: file_reader "fat_get_next_bdev_block_num fat" "fat_parent fat" "fat_block_size fat"
    "fat_content fat m cs" "length cs" "fat_finv rd img inv fat m cs" "fat_layout rd img inv fat m"
proof unfold_locales
  let ?finv = "fat_finv rd img inv fat m cs" and ?B = "unat (fat_block_size fat)"
  show "16 \<le> ?B"
    by (rule bs_min)
  fix f c i w
  show "?finv (f\<lparr>f_pos := x\<rparr>) c i w" if "?finv f c i w" for x
    using that by (simp add: fat_finv_def)
  show "length (fat_content fat m cs) = length cs * ?B \<and> length cs * ?B < 2147483648" if "?finv f c i w"
    using finv_facts [OF that] by simp
  show "fat_layout rd img inv fat m w" if "?finv f c i w"
    by (rule finv_facts(1) [OF that])
  show "\<exists>blk f' c' w'. fat_get_next_bdev_block_num fat (word_of_nat (length cs)) f c False w = Some (blk, f', c', w')
      \<and> same_file f f' \<and> fat_layout rd img inv fat m w' \<and> (blk = 0xffffffff \<or> (\<forall>b. ?B \<le> length b \<longrightarrow> (\<exists>data w''.
        block_read (fat_parent fat) w' b (fat_block_size fat) blk =
          Some (fat_block_size fat, blit b 0 data, w'') \<and> length data = ?B \<and> fat_layout rd img inv fat m w'')))"
    if f: "?finv f c (length cs) w"
  proof -
    obtain e w' where "fat_seek_cluster fat (word_of_nat (length cs)) c w =
        Some (\<lparr>f_block = word_of_nat (length cs), f_cluster = e\<rparr>, w')" "\<not> e < 0x0ffffff8"
      "fat_layout rd img inv fat m w'"
      using lookup [OF f] by auto
    then show ?thesis
      by (simp add: fat_get_next_bdev_block_num_def)
  qed
  show "\<exists>blk f' c' w'. fat_get_next_bdev_block_num fat (word_of_nat i) f c False w = Some (blk, f', c', w')
      \<and> blk \<noteq> 0xffffffff \<and> same_file f f' \<and> (\<forall>b. ?B \<le> length b \<longrightarrow> (\<exists>w''.
        block_read (fat_parent fat) w' b (fat_block_size fat) blk =
          Some (fat_block_size fat, blit b 0 (blk_of ?B (fat_content fat m cs) i), w'')
        \<and> ?finv f' c' (Suc i) w''))"
    if f: "?finv f c i w" and i: "i < length cs"
  proof -
    let ?c = "\<lparr>f_block = word_of_nat i, f_cluster = cs ! i\<rparr>"
    note fx = finv_facts [OF f]
    note ch = fat_chain_nth [OF fx(2) i]
    obtain w1 where w1: "fat_seek_cluster fat (word_of_nat i) c w = Some (?c, w1)" "fat_layout rd img inv fat m w1"
      using lookup [OF f] i by auto
    have B: "?B < 2147483648"
    proof -
      have "1 * ?B \<le> length cs * ?B"
        using i by (intro mult_le_mono1) simp
      then show ?thesis
        using fx(4) by linarith
    qed
    have "fat_sector_of fat (cs ! i) * 512 + ?B \<le> 4294967295 * 512"
      using ch(1) layout_bound [OF fx(1)] by (simp add: fat_cluster_ok_def)
    then have "fat_sector_of fat (cs ! i) < 4294967295"
      using bs_min by linarith
    moreover have "unat (get_sector fat (cs ! i)) = fat_sector_of fat (cs ! i)"
      using bs_min by (intro get_sector_unat [OF ch(1) layout_bound [OF fx(1)]]) simp
    ultimately have "get_sector fat (cs ! i) \<noteq> 0xffffffff"
      by (auto simp: word_unat_eq_iff)
    moreover have "\<exists>w''. block_read (fat_parent fat) w1 b (fat_block_size fat) (get_sector fat (cs ! i)) =
        Some (fat_block_size fat, blit b 0 (blk_of ?B (fat_content fat m cs) i), w'') \<and> ?finv f ?c (Suc i) w''"
      if b: "?B \<le> length b" for b
    proof -
      have "?finv f ?c (Suc i) w''" if "fat_layout rd img inv fat m w''" for w''
        using fx i that by (auto simp: fat_finv_def)
      then show ?thesis
        using read_cluster [OF w1(2) ch(1) b B] unfolding fx(6) [OF i] by blast
    qed
    ultimately show ?thesis
      using w1 ch(2) by (auto simp: fat_get_next_bdev_block_num_def)
  qed
qed

context fat_file
begin

lemma fat_fread_content:
  assumes "fat_layout rd img inv fat m w" "fat_chain fat m c cs"
    and "length cs * unat (fat_block_size fat) < 2147483648"
    and "f_fs f = fat_id fat" "f_opaque f = c" "f_pos f = int pos" "0 < n"
    and "pos + n \<le> length cs * unat (fat_block_size fat)" "n + k \<le> length b"
    and "k = 16 \<or> (addr + word_of_nat n) AND 0xf \<noteq> 0 \<or> (pos + n) mod unat (fat_block_size fat) \<noteq> 0"
  shows "\<exists>b' f' w'. fat_fread fat temp b addr (word_of_nat n) f w = Some (word_of_nat n, b', f', w')
    \<and> take n b' = take n (drop pos (fat_content fat m cs)) \<and> same_file (f\<lparr>f_pos := int (pos + n)\<rparr>) f'
    \<and> fat_layout rd img inv fat m w' \<and> length b' = length b \<and> drop (n + k) b' = drop (n + k) b"
proof -
  have ne: "cs \<noteq> []"
    using assms(7,8) by auto
  then have c: "hd cs = c" "fat_cluster_ok fat m c" "cs ! 0 = c"
    using assms(2) by (cases cs; auto)+
  then have "c \<noteq> 0"
    by (auto simp: fat_cluster_ok_def)
  moreover have "fat_finv rd img inv fat m cs f \<lparr>f_block = 0, f_cluster = c\<rparr> (pos div unat (fat_block_size fat)) w"
    using assms(1-3) c ne by (auto simp: fat_finv_def intro!: exI [of _ 0])
  ultimately show ?thesis
    using reader.fs_fread_content [OF _ assms(6-9), of "\<lparr>f_block = 0, f_cluster = c\<rparr>" w
        "\<lparr>ptr_addr = addr, temp_addr = temp\<rparr>"] assms(4,5,10)
    unfolding fat_fread_def by auto
qed

end

text \<open>Every cluster size of the format, on a ramdisk.\<close>

interpretation ramdisk_fat: fat_file "ramdisk_read rdev" "ramdisk_img rdev" "ramdisk_inv rdev"
    "fat\<lparr>fat_block_size := push_bit (k mod 8) 512\<rparr>" m cs for rdev fat k m cs
proof unfold_locales
  have "k mod 8 \<in> {0, 1, 2, 3, 4, 5, 6, 7}"
    by auto
  then show "16 \<le> unat (fat_block_size (fat\<lparr>fat_block_size := push_bit (k mod 8) 512\<rparr>))"
    by (auto simp: push_bit_eq_mult)
qed

section \<open>Listing a directory\<close>

text \<open>What a directory holds: one entry for each record of 32 bytes that is in use.\<close>

definition fat_record :: "nat \<Rightarrow> buf \<Rightarrow> dirent list" where
  "fat_record fsid r = (if fat_skip r 0 = Some False then [the (fat_entry fsid r 0)] else [])"

function fat_listing :: "nat \<Rightarrow> buf \<Rightarrow> dirent list" where
  "fat_listing fsid c =
     (if length c < 32 then [] else fat_record fsid (take 32 c) @ fat_listing fsid (drop 32 c))"
  by pat_completeness auto
termination by (relation "measure (\<lambda>(fsid, c). length c)") auto

declare fat_listing.simps [simp del]

lemma fat_listing_append: "32 dvd length a \<Longrightarrow> fat_listing fsid (a @ b) = fat_listing fsid a @ fat_listing fsid b"
proof (induction fsid a rule: fat_listing.induct)
  case (1 fsid a)
  show ?case
  proof (cases "length a < 32")
    case True
    then have "a = []"
      using 1(2) nat_dvd_not_less by (cases a) auto
    then show ?thesis
      by (simp add: fat_listing.simps [of fsid "[]"])
  next
    case False
    then have "32 dvd length (drop 32 a)"
      using 1(2) by (simp add: dvd_diff_nat)
    then show ?thesis
      using 1(1) False fat_listing.simps [of fsid "a @ b"] fat_listing.simps [of fsid a] by simp
  qed
qed

lemma fat_record_window:
  assumes "p + 32 \<le> length b"
  shows "fat_skip b p = fat_skip (take 32 (drop p b)) 0" "fat_entry fsid b p = fat_entry fsid (take 32 (drop p b)) 0"
    and "\<exists>s. fat_skip b p = Some s" "\<exists>e. fat_entry fsid b p = Some e"
proof -
  have g: "get_byte b (p + i) = get_byte (take 32 (drop p b)) i" "get_byte b (p + i) = Some (b ! (p + i))"
    if "i < 32" for i
    using assms that by simp_all
  note g0 = g [of 0, simplified]
  show "fat_skip b p = fat_skip (take 32 (drop p b)) 0" "\<exists>s. fat_skip b p = Some s"
    using g0 g(2) [of 1] g(2) [of 2] g(2) [of 11] assms by (auto simp: fat_skip_def)
  show "fat_entry fsid b p = fat_entry fsid (take 32 (drop p b)) 0"
    using assms by (simp add: fat_entry_def read_halfword_window read_word_window)
  show "\<exists>e. fat_entry fsid b p = Some e"
    using assms by (simp add: fat_entry_def read_halfword_eq read_word_eq)
qed

lemma fat_entries_listing:
  assumes "length b = sz" "32 dvd sz - p" "sz - p \<le> k" "p \<le> sz"
  shows "fat_entries fsid sz b p k = Some (fat_listing fsid (drop p b))"
  using assms(2-4)
proof (induction k arbitrary: p)
  case 0
  then show ?case
    by (simp add: assms(1) fat_listing.simps)
next
  case (Suc k)
  show ?case
  proof (cases "p < sz")
    case True
    then have r: "p + 32 \<le> length b"
      using Suc.prems(1) assms(1) by (auto dest: dvd_imp_le)
    have "fat_entries fsid sz b (p + 32) k = Some (fat_listing fsid (drop (p + 32) b))"
      using Suc.prems r assms(1) dvd_diff_nat [OF Suc.prems(1), of 32] by (intro Suc.IH) auto
    moreover have "fat_listing fsid (drop p b) =
        fat_record fsid (take 32 (drop p b)) @ fat_listing fsid (drop (p + 32) b)"
    proof -
      have "\<not> length (drop p b) < 32"
        using r by simp
      then show ?thesis
        by (simp only: fat_listing.simps [of fsid "drop p b"] if_False drop_drop add.commute)
    qed
    moreover obtain sk e where "fat_skip b p = Some sk" "fat_entry fsid b p = Some e"
      using fat_record_window(3,4) [OF r] by metis
    moreover have "fat_record fsid (take 32 (drop p b)) = (if sk then [] else [e])"
      unfolding fat_record_def fat_record_window(1,2) [OF r, symmetric] calculation by simp
    ultimately show ?thesis
      using True by simp
  qed (use Suc.prems assms(1) in \<open>simp add: fat_listing.simps\<close>)
qed

context fat_volume
begin

text \<open>The parts of one turn of the loop.\<close>

lemma read_dir_parts:
  assumes "fat_layout rd img inv fat m w" "unat (fat_block_size fat) < 2147483648"
    and "unat blk * 512 + unat (fat_block_size fat) \<le> length m"
  defines "data \<equiv> take (unat (fat_block_size fat)) (drop (unat blk * 512) m)"
  shows "\<exists>w1. block_read (fat_parent fat) w (replicate (unat (bytes_per_sector fat * sectors_per_cluster fat)) 0)
      (bytes_per_sector fat * sectors_per_cluster fat) blk = Some (fat_block_size fat, data, w1)
    \<and> fat_layout rd img inv fat m w1"
    and "bytes_per_sector fat * sectors_per_cluster fat = fat_block_size fat"
    and "fat_entries (fat_id fat) (unat (fat_block_size fat)) data 0 (unat (fat_block_size fat)) =
      Some (fat_listing (fat_id fat) data)"
    and "\<not> sint (fat_block_size fat) < 0" "sectors_per_cluster fat \<noteq> 0"
proof -
  let ?B = "unat (fat_block_size fat)"
  have lay: "inv w" "img w = m" "bd_read (fat_parent fat) = Some rd" "block_size (fat_parent fat) = 512"
    "?B = 512 * unat (sectors_per_cluster fat)" "bytes_per_sector fat = 512"
    "0 < unat (sectors_per_cluster fat)" "unat (sectors_per_cluster fat) < 256"
    using assms(1) by (simp_all add: fat_layout_def)
  show cs: "bytes_per_sector fat * sectors_per_cluster fat = fat_block_size fat"
    using lay(5,6,8) by (simp add: word_unat_eq_iff unat_mult_u32)
  show "sectors_per_cluster fat \<noteq> 0"
    using lay(7) by auto
  show "\<not> sint (fat_block_size fat) < 0"
    using assms(2) by (simp add: sint_small_u32)
  have len: "length data = ?B"
    using assms(3) by (simp add: data_def)
  then show "fat_entries (fat_id fat) ?B data 0 ?B = Some (fat_listing (fat_id fat) data)"
    using fat_entries_listing [OF len, of 0 ?B "fat_id fat"] lay(5) by simp
  have "0 < fat_block_size fat" "unat (512 :: u32) dvd ?B"
    using bs_min lay(5) by (auto simp: word_less_nat_alt)
  then obtain w1 where w1: "block_read (fat_parent fat) w (replicate ?B 0) (fat_block_size fat) blk =
      Some (fat_block_size fat, blit (replicate ?B 0) 0 data, w1)" "inv w1" "img w1 = m"
    using block_read_image [OF lay(3,4,1) _ _ assms(2), of "replicate ?B 0" blk] assms(3) lay(2)
    by (auto simp: data_def)
  moreover have "blit (replicate ?B 0) 0 data = data"
    using len by (simp add: blit_def)
  moreover have "fat_layout rd img inv fat m w1"
    using assms(1) w1(2,3) by (simp add: fat_layout_def)
  ultimately show "\<exists>w1. block_read (fat_parent fat) w
      (replicate (unat (bytes_per_sector fat * sectors_per_cluster fat)) 0)
      (bytes_per_sector fat * sectors_per_cluster fat) blk = Some (fat_block_size fat, data, w1)
    \<and> fat_layout rd img inv fat m w1"
    unfolding cs by auto
qed

lemma read_dir_chain:
  assumes "fat_layout rd img inv fat m w" "fat_chain fat m c cs" "cs \<noteq> []" "0x0ffffff7 \<notin> set cs"
    and "unat (fat_block_size fat) < 2147483648"
    and "is_root \<longrightarrow> fat_type fat = FAT32 \<and> first_data_sector fat = first_non_root_sector fat"
  shows "\<exists>w'. fat_read_clusters fat is_root c off ret w =
      Some (ret @ fat_listing (fat_id fat) (fat_content fat m cs), w') \<and> fat_layout rd img inv fat m w'"
  using assms(1-4)
proof (induction cs arbitrary: c ret w)
  case (Cons x xs)
  have c: "x = c" "c < 0x0ffffff8" "fat_cluster_ok fat m c" "fat_chain fat m (fat_link fat m c) xs"
    using Cons.prems(2) by simp_all
  define base where "base = (if is_root then first_data_sector fat else first_non_root_sector fat)"
  have sec: "(c - 2) * sectors_per_cluster fat + base = get_sector fat c"
    using assms(6) by (auto simp: base_def get_sector_def)
  have us: "unat (get_sector fat c) = fat_sector_of fat c"
    using bs_min by (intro get_sector_unat [OF c(3) layout_bound [OF Cons.prems(1)]]) simp
  note parts = read_dir_parts [OF Cons.prems(1) assms(5), of "get_sector fat c", unfolded us]
  have fits: "fat_sector_of fat c * 512 + unat (fat_block_size fat) \<le> length m"
    using c(3) by (simp add: fat_cluster_ok_def)
  obtain w1 where w1: "block_read (fat_parent fat) w (replicate (unat (fat_block_size fat)) 0)
      (fat_block_size fat) (get_sector fat c) = Some (fat_block_size fat, fat_data fat m c, w1)"
      "fat_layout rd img inv fat m w1"
    using parts(1,2) [OF fits] by (auto simp: fat_data_def)
  obtain w2 where w2: "get_next_fat_entry fat c w1 = Some (fat_link fat m c, w2)" "fat_layout rd img inv fat m w2"
    using next_entry [OF w1(2) c(3)] by blast
  have nr: "\<not> (is_root \<and> fat_type fat \<noteq> FAT32)"
    using assms(6) by auto
  have step: "fat_read_clusters fat is_root c off ret w =
      (if fat_link fat m c < 0x0ffffff7
       then fat_read_clusters fat is_root (fat_link fat m c) off (ret @ fat_listing (fat_id fat) (fat_data fat m c)) w2
       else Some (ret @ fat_listing (fat_id fat) (fat_data fat m c), w2))"
    using w1(1) w2(1) nr sec parts(2-5) [OF fits]
    by (subst fat_read_clusters.simps) (simp add: Let_def base_def [symmetric] fat_data_def cong: conj_cong)
  have dvd: "32 dvd length (fat_data fat m c)"
    using length_fat_data [OF c(3)] Cons.prems(1) by (simp add: fat_layout_def)
  show ?case
  proof (cases "xs = []")
    case True
    then have "\<not> fat_link fat m c < 0x0ffffff7"
      using c(4) by (auto simp: word_less_nat_alt)
    then show ?thesis
      using step w2(2) True c(1) by (simp add: fat_content_def)
  next
    case False
    then obtain y ys where xs: "xs = y # ys" "y = fat_link fat m c" "y < 0x0ffffff8" "y \<noteq> 0x0ffffff7"
      using c(4) Cons.prems(4) by (cases xs) auto
    then have "fat_link fat m c < 0x0ffffff7"
      by (auto simp: word_less_nat_alt word_unat_eq_iff)
    then show ?thesis
      using step Cons.IH [OF w2(2) c(4) False, of "ret @ fat_listing (fat_id fat) (fat_data fat m c)"]
        Cons.prems(4) c(1) fat_listing_append [OF dvd, of "fat_id fat"]
      by (simp add: fat_content_def)
  qed
qed simp

end

section \<open>Names\<close>

definition fat_lower :: "u8 \<Rightarrow> u8" where
  "fat_lower v = (if 65 \<le> v \<and> v \<le> 90 then 97 + v - 65 else v)"

lemma fat_lower_eq_0: "fat_lower v = 0 \<longleftrightarrow> v = 0"
  by (auto simp: fat_lower_def word_le_nat_alt word_unat_eq_iff unat_word_ariths)

lemma fat_name_chars:
  "32 \<notin> set vs \<Longrightarrow> i + length vs \<le> 8 \<or> 9 \<le> i \<Longrightarrow>
    fat_name_loop i (vs @ rest) out h =
    fat_name_loop (i + length vs) rest (out @ map fat_lower vs) (h \<or> 8 \<le> i \<and> vs \<noteq> [])"
proof (induction vs arbitrary: i out h)
  case (Cons v vs)
  have i: "i \<noteq> 8"
    using Cons.prems(2) by auto
  have "fat_name_loop i ((v # vs) @ rest) out h =
      fat_name_loop (Suc i) (vs @ rest) (out @ [fat_lower v]) (h \<or> 8 \<le> i)"
    using Cons.prems(1) i by (simp add: Let_def fat_lower_def)
  also have "\<dots> = fat_name_loop (Suc i + length vs) rest ((out @ [fat_lower v]) @ map fat_lower vs)
      ((h \<or> 8 \<le> i) \<or> 8 \<le> Suc i \<and> vs \<noteq> [])"
    using Cons.prems by (intro Cons.IH) auto
  finally show ?case
    using i Cons.prems(2) by (cases vs) auto
qed simp

lemma fat_name_blanks:
  "i + k \<le> 8 \<or> 9 \<le> i \<Longrightarrow>
    fat_name_loop i (replicate k 32 @ rest) out h = fat_name_loop (i + k) rest out h"
  by (induction k arbitrary: i) (auto simp: Let_def)

lemma fat_name_8_3:
  assumes "1 \<le> length base" "length base \<le> 8" "length ext \<le> 3" "set (base @ ext) \<inter> {0, 32} = {}"
  shows "fat_name (base @ replicate (8 - length base) 32 @ ext @ replicate (3 - length ext) 32) =
    map fat_lower base @ (if ext = [] then [] else 46 # map fat_lower ext)"
proof -
  let ?e = "ext @ replicate (3 - length ext) 32"
  have nz: "\<forall>c \<in> set (map fat_lower base @ 46 # map fat_lower ext). c \<noteq> 0"
    using assms(4) by (auto simp: fat_lower_eq_0)
  have "fat_name_loop 0 (base @ replicate (8 - length base) 32 @ ?e) [] False =
      fat_name_loop 8 ?e (map fat_lower base) False"
    using assms by (subst fat_name_chars) (auto simp: fat_name_blanks)
  also have "\<dots> = (map fat_lower base @ 46 # map fat_lower ext, ext \<noteq> [])"
  proof (cases ext)
    case Nil
    then show ?thesis
      using fat_name_blanks [of 9 2 "[]"] by (simp add: numeral_3_eq_3 numeral_2_eq_2 Let_def)
  next
    case (Cons x xs)
    have "fat_name_loop 8 ?e (map fat_lower base) False =
        fat_name_loop 9 (xs @ replicate (3 - length ext) 32) (map fat_lower base @ [46, fat_lower x]) True"
      using Cons assms(4) by (simp add: Let_def fat_lower_def)
    also have "\<dots> = fat_name_loop (9 + length xs) (replicate (3 - length ext) 32 @ [])
        ((map fat_lower base @ [46, fat_lower x]) @ map fat_lower xs) True"
      using Cons assms(4) fat_name_chars [of xs 9 "replicate (3 - length ext) 32" _ True] by simp
    finally show ?thesis
      using Cons by (subst (asm) fat_name_blanks) auto
  qed
  finally show ?thesis
    using nz assms(1) unfolding fat_name_def
    by (auto simp: butlast_append takeWhile_eq_all_conv)
qed

section \<open>Paths\<close>

text \<open>The abstract tree of names: the listing reached from a listing along the
  names of a path.\<close>

inductive fat_path ::
  "'w fat_fs \<Rightarrow> buf \<Rightarrow> dirent list \<Rightarrow> cstring list \<Rightarrow> dirent list \<Rightarrow> bool"
  for fat :: "'w fat_fs" and m :: buf where
  fat_path_here: "fat_path fat m es [] es"
| fat_path_down: "find (\<lambda>d. de_name d = n) es = Some d \<Longrightarrow> de_is_dir d \<Longrightarrow>
    fat_chain fat m (de_opaque d) cs \<Longrightarrow> cs \<noteq> [] \<Longrightarrow> 0x0ffffff7 \<notin> set cs \<Longrightarrow>
    fat_path fat m (fat_listing (fat_id fat) (fat_content fat m cs)) ns es' \<Longrightarrow>
    fat_path fat m es (n # ns) es'"

lemma find_dirent_find: "find_dirent ds n = find (\<lambda>d. de_name d = n) ds"
  by (induction ds) auto

context fat_volume
begin

lemma walk_path:
  assumes "fat_path fat m es ns es'" "fat_layout rd img inv fat m w" "unat (fat_block_size fat) < 2147483648"
  shows "\<exists>w'. fat_walk fat ns es w = Some (Inr es', w') \<and> fat_layout rd img inv fat m w'"
  using assms
proof (induction arbitrary: w)
  case (fat_path_down n es d cs ns es')
  obtain w1 where "fat_read_dir fat (Some d) w = Some (fat_listing (fat_id fat) (fat_content fat m cs), w1)"
    "fat_layout rd img inv fat m w1"
    using read_dir_chain [OF fat_path_down.prems(1) fat_path_down(3-5) fat_path_down.prems(2), of False 0 "[]"] by (auto simp: fat_read_dir_def)
  moreover from this obtain w2 where
    "fat_walk fat ns (fat_listing (fat_id fat) (fat_content fat m cs)) w1 = Some (Inr es', w2)"
    "fat_layout rd img inv fat m w2"
    using fat_path_down.IH fat_path_down.prems(2) by blast
  ultimately show ?case
    using fat_path_down(1,2) by (simp add: find_dirent_find)
qed simp

lemma read_directory_path:
  assumes "fat_layout rd img inv fat m w" "unat (fat_block_size fat) < 2147483648"
    and "fat_type fat = FAT32" "first_data_sector fat = first_non_root_sector fat"
    and "fat_chain fat m (root_dir_cluster fat) rcs" "rcs \<noteq> []" "0x0ffffff7 \<notin> set rcs"
    and "fat_path fat m (fat_listing (fat_id fat) (fat_content fat m rcs)) dirs es"
  shows "\<exists>w'. fat_read_directory fat dirs w = Some (Inr es, w') \<and> fat_layout rd img inv fat m w'"
proof -
  obtain w1 where "fat_read_dir fat None w = Some (fat_listing (fat_id fat) (fat_content fat m rcs), w1)"
    "fat_layout rd img inv fat m w1"
    using read_dir_chain [OF assms(1,5,6,7,2), of True 0 "[]"] assms(3,4) by (auto simp: fat_read_dir_def)
  then show ?thesis
    using walk_path [OF assms(8) _ assms(2)] by (auto simp: fat_read_directory_def)
qed

end

lemma fat_listing_fs: "d \<in> set (fat_listing fsid c) \<Longrightarrow> de_fs d = fsid"
proof (induction fsid c rule: fat_listing.induct)
  case (1 fsid c)
  have len: "\<not> length c < 32"
    using 1(2) by (auto simp: fat_listing.simps [of fsid c])
  then obtain e where e: "fat_entry fsid (take 32 c) 0 = Some e"
    using fat_record_window(4) [of 0 "take 32 c" fsid] by auto
  then have "de_fs e = fsid"
    by (auto simp: fat_entry_def)
  then have "\<forall>x \<in> set (fat_record fsid (take 32 c)). de_fs x = fsid"
    using e by (simp add: fat_record_def)
  then show ?case
    using 1 len by (auto simp: fat_listing.simps [of fsid c])
qed

lemma fat_path_fs: "fat_path fat m es ns es' \<Longrightarrow> \<forall>d \<in> set es. de_fs d = fat_id fat \<Longrightarrow> \<forall>d \<in> set es'. de_fs d = fat_id fat"
  by (induction rule: fat_path.induct) (auto dest: fat_listing_fs)

section \<open>A small volume\<close>

text \<open>Three sectors on a ramdisk: the table, a root directory with one file, and the
  data of that file; cluster 4 links to itself.\<close>

definition sample_disk :: ramdisk_dev where
  "sample_disk = \<lparr>rd_address = 0, rd_size = 2048, rd_block_size = 512\<rparr>"

definition sample_image :: buf where
  "sample_image =
     ([0, 0, 0, 0, 0, 0, 0, 0, 0xff, 0xff, 0xff, 0x0f, 0xff, 0xff, 0xff, 0x0f, 4, 0, 0, 0] @ replicate 492 0)
     @ ((65 # replicate 10 32) @ replicate 15 0 @ [3, 0, 3, 0, 0, 0] @ replicate 480 0)
     @ ([1, 2, 3] @ replicate 509 0) @ replicate 512 0"

definition sample_fat :: "buf fat_fs" where
  "sample_fat = \<lparr>fat_id = 1, fat_parent = ramdisk_device sample_disk (lit ''rd''), fat_block_size = 512,
     fat_type = FAT32, total_sectors = 4, sectors_per_cluster = 1, bytes_per_sector = 512, vol_label = [],
     first_fat_sector = 0, first_data_sector = 1, sectors_per_fat = 1, root_dir_entries = 0,
     root_dir_sectors = 0, first_non_root_sector = 1, root_dir_cluster = 2\<rparr>"

definition sample_entry :: dirent where
  "sample_entry = \<lparr>de_name = lit ''a'', de_byte_size = 3, de_is_dir = False, de_opaque = 3, de_fs = 1\<rparr>"

lemma fat_listing_zeros: "fat_listing fsid (replicate n 0) = []"
proof (induction n rule: less_induct)
  case (less n)
  then show ?case
    by (subst fat_listing.simps) (auto simp: fat_record_def fat_skip_def)
qed

lemma sample_layout: "fat_layout (ramdisk_read sample_disk) (ramdisk_img sample_disk) (ramdisk_inv sample_disk)
    sample_fat sample_image sample_image"
  by (simp add: fat_layout_def sample_fat_def sample_disk_def sample_image_def ramdisk_device_def
      ramdisk_inv_def ramdisk_img_def)

lemma sample_clusters:
  "length sample_image = 2048"
  "fat_link sample_fat sample_image 2 = 0x0fffffff" "fat_link sample_fat sample_image 3 = 0x0fffffff"
  "fat_link sample_fat sample_image 4 = 4"
  "fat_cluster_ok sample_fat sample_image 2" "fat_cluster_ok sample_fat sample_image 3"
  "fat_cluster_ok sample_fat sample_image 4"
  by (simp_all add: fat_link_def fat_cluster_ok_def fat_entry_offset_def fat_sector_of_def sample_fat_def
      sample_image_def FAT16_def FAT32_def read_word_def)

lemma sample_data: "take 3 (fat_data sample_fat sample_image 3) = [1, 2, 3]"
  by (simp add: fat_data_def fat_sector_of_def sample_fat_def sample_image_def)

lemma sample_root: "fat_listing 1 (fat_data sample_fat sample_image 2) = [sample_entry]"
proof -
  let ?r = "(65 # replicate 10 32) @ replicate 15 0 @ [3, 0, 3, 0, 0, 0] :: buf"
  have r: "?r = [65, 32, 32, 32, 32, 32, 32, 32, 32, 32, 32, 0, 0, 0, 0, 0, 0, 0, 0, 0, 0, 0, 0, 0, 0, 0,
      3, 0, 3, 0, 0, 0]"
    by (simp add: numeral_eq_Suc)
  have "fat_data sample_fat sample_image 2 = ?r @ replicate 480 0"
    by (simp add: fat_data_def fat_sector_of_def sample_fat_def sample_image_def)
  moreover have "fat_listing 1 ?r = [sample_entry]"
    unfolding r by (subst fat_listing.simps)
      (simp add: fat_record_def fat_skip_def fat_entry_def fat_listing_zeros [of 1 0, simplified]
        read_word_def read_halfword_def sample_entry_def fat_name_def Let_def lit_def)
  ultimately show ?thesis
    using fat_listing_append [of ?r 1 "replicate 480 0"] by (simp add: fat_listing_zeros)
qed

section \<open>Reading a file by its path\<close>

text \<open>The file that is opened for a directory entry.\<close>

definition fat_opened :: "'w fat_fs \<Rightarrow> dirent \<Rightarrow> vfs_file" where
  "fat_opened fat d = \<lparr>f_fs = fat_id fat, f_pos = 0, f_mode = 0, f_opaque = de_opaque d,
     f_len = int (unat (de_byte_size d)), f_flags = 0\<rparr>"

lemma fat_open_by_path:
  assumes "disk rd 512 img ok" "fat_layout rd img ok fat m w"
    and "fat_type fat = FAT32" "first_data_sector fat = first_non_root_sector fat"
    and "fat_chain fat m (root_dir_cluster fat) rcs" "rcs \<noteq> []" "0x0ffffff7 \<notin> set rcs"
    and "dev_entry v od = Some ve" "ve_fs ve = fat_fs_of temp fat"
    and "dev_plain od" "list_all (\<lambda>d. plain_name d \<and> d \<noteq> []) dirs" "plain_name name" "name \<noteq> []"
    and "hd (dirs @ [name]) \<noteq> lit '':''"
    and "fat_path fat m (fat_listing (fat_id fat) (fat_content fat m rcs)) dirs es"
    and "find (\<lambda>d. de_name d = name) es = Some d" "unat (de_byte_size d) < 2147483648"
  shows "\<exists>w1. fopen v (Some (path_of od (dirs @ [name]))) (lit ''r'') w =
      Some (Inr (File_stream (ve_fs ve) (fat_opened fat d)), w1) \<and> fat_layout rd img ok fat m w1"
proof -
  have B: "16 \<le> unat (fat_block_size fat)" "unat (fat_block_size fat) < 2147483648"
    using assms(2) unfolding fat_layout_def by linarith+
  then have vol: "fat_volume rd img ok fat"
    using assms(1) by (simp_all add: fat_volume_def fat_device_def fat_volume_axioms_def)
  obtain w1 where w1: "fat_read_directory fat dirs w = Some (Inr es, w1)" "fat_layout rd img ok fat m w1"
    using fat_volume.read_directory_path [OF vol assms(2) B(2) assms(3-7,15)] by blast
  have "de_fs d = fat_id fat" "sint (de_byte_size d) = int (unat (de_byte_size d))"
    using fat_path_fs [OF assms(15)] assms(16,17) fat_listing_fs
    by (auto simp: find_Some_iff sint_small_u32)
  then have "fat_fopen (fat_id fat) (Some d) (lit ''r'') w1 = Some (Inr (fat_opened fat d), w1)"
    by (simp add: fat_fopen_def fat_opened_def)
  then show ?thesis
    using w1 assms(8,9,16) unfolding fopen_path [OF assms(10-14)]
    by (simp add: fat_fs_of_def as_stream_def)
qed

lemma fat_read_by_path:
  assumes "disk rd 512 img ok" "fat_layout rd img ok fat m w"
    and "fat_type fat = FAT32" "first_data_sector fat = first_non_root_sector fat"
    and "fat_chain fat m (root_dir_cluster fat) rcs" "rcs \<noteq> []" "0x0ffffff7 \<notin> set rcs"
    and "find_ve (v_entries v) dev = Some ve" "ve_fs ve = fat_fs_of temp fat"
    and "plain_name dev" "list_all (\<lambda>d. plain_name d \<and> d \<noteq> []) dirs" "plain_name name" "name \<noteq> []"
    and "hd (dirs @ [name]) \<noteq> lit '':''"
    and "fat_path fat m (fat_listing (fat_id fat) (fat_content fat m rcs)) dirs es"
    and "find (\<lambda>d. de_name d = name) es = Some d"
    and "fat_chain fat m (de_opaque d) cs" "length cs * unat (fat_block_size fat) < 2147483648"
    and "unat (de_byte_size d) \<le> length cs * unat (fat_block_size fat)"
    and "0 < n" "n \<le> unat (de_byte_size d)" "n + 16 \<le> length b"
  shows "\<exists>f w1 b' f' w2.
    fopen v (Some (40 # dev @ 41 # comp_path (dirs @ [name]))) (lit ''r'') w =
      Some (Inr (File_stream (ve_fs ve) f), w1)
    \<and> fread b addr 1 (word_of_nat n) (File_stream (ve_fs ve) f) w1 =
      Some (word_of_nat n, b', File_stream (ve_fs ve) f', w2)
    \<and> take n b' = take n (fat_content fat m cs) \<and> f_pos f' = int n \<and> drop (n + 16) b' = drop (n + 16) b"
proof -
  have fil: "fat_file rd img ok fat"
    using assms(1,2) unfolding fat_layout_def
    by (simp add: fat_volume_def fat_device_def fat_volume_axioms_def fat_file_def)
  have small: "unat (de_byte_size d) < 2147483648"
    using assms(18,19) by linarith
  obtain w1 where w1: "fopen v (Some (40 # dev @ 41 # comp_path (dirs @ [name]))) (lit ''r'') w =
      Some (Inr (File_stream (ve_fs ve) (fat_opened fat d)), w1)" "fat_layout rd img ok fat m w1"
    using fat_open_by_path [where od = "Some dev", unfolded path_of_def dev_entry_def dev_plain_def option.case,
        OF assms(1-16) small] by blast
  obtain b' f' w2 where rd: "fat_fread fat temp b addr (word_of_nat n) (fat_opened fat d) w1 = Some (word_of_nat n, b', f', w2)"
    "take n b' = take n (drop 0 (fat_content fat m cs))" "f_pos f' = int (0 + n)"
    "drop (n + 16) b' = drop (n + 16) b"
    using fat_file.fat_fread_content [OF fil w1(2) assms(17,18), of "fat_opened fat d" 0 n 16 b addr temp] assms(19-22)
    by (auto simp: fat_opened_def dest: same_file_fields)
  have "fread b addr 1 (word_of_nat n) (File_stream (fat_fs_of temp fat) (fat_opened fat d)) w1 =
      Some (word_of_nat n, b', File_stream (fat_fs_of temp fat) f', w2)"
    using assms(18,19,21) rd(1)
    by (intro fread_bytes [of _ "unat (de_byte_size d)" 0]) (auto simp: fat_fs_of_def fat_opened_def)
  then show ?thesis
    using rd w1(1) assms(9) by auto
qed

section \<open>Properties\<close>

text \<open>C28: Reading a file of a FAT32 volume by its path: the directories are found by
  their cluster chains, the entry by its name, and n bytes read from the opened
  file are the first n bytes of the clusters of its chain.  The volume may lie on
  any device with a flat image.\<close>

theorem fat_open_and_read:
  assumes "disk rd 512 img ok" "fat_layout rd img ok fat m w"
    and "fat_type fat = FAT32" "first_data_sector fat = first_non_root_sector fat"
    and "fat_chain fat m (root_dir_cluster fat) rcs" "rcs \<noteq> []" "0x0ffffff7 \<notin> set rcs"
    and "find_ve (v_entries v) dev = Some ve" "ve_fs ve = fat_fs_of temp fat"
    and "plain_name dev" "list_all (\<lambda>d. plain_name d \<and> d \<noteq> []) dirs" "plain_name name" "name \<noteq> []"
    and "hd (dirs @ [name]) \<noteq> lit '':''"
    and "fat_path fat m (fat_listing (fat_id fat) (fat_content fat m rcs)) dirs es"
    and "find (\<lambda>d. de_name d = name) es = Some d"
    and "fat_chain fat m (de_opaque d) cs" "length cs * unat (fat_block_size fat) < 2147483648"
    and "unat (de_byte_size d) \<le> length cs * unat (fat_block_size fat)"
    and "0 < n" "n \<le> unat (de_byte_size d)" "n + 16 \<le> length b"
  shows "\<exists>f w1 b' f' w2.
    fopen v (Some (40 # dev @ 41 # comp_path (dirs @ [name]))) (lit ''r'') w =
      Some (Inr (File_stream (ve_fs ve) f), w1)
    \<and> fread b addr 1 (word_of_nat n) (File_stream (ve_fs ve) f) w1 =
      Some (word_of_nat n, b', File_stream (ve_fs ve) f', w2)
    \<and> take n b' = take n (fat_content fat m cs) \<and> f_pos f' = int n \<and> drop (n + 16) b' = drop (n + 16) b"
  using assms by (rule fat_read_by_path)

theorem fat_open_and_read_witness:
  "\<exists>f w1 b' f' w2.
    fopen (snd (vfs_register (Some (fat_fs_of 0 sample_fat)) vfs_start)) (Some (lit ''(rd)/a'')) (lit ''r'') sample_image =
      Some (Inr (File_stream (fat_fs_of 0 sample_fat) f), w1)
    \<and> fread (replicate 20 0) 0 1 3 (File_stream (fat_fs_of 0 sample_fat) f) w1 =
      Some (3, b', File_stream (fat_fs_of 0 sample_fat) f', w2)
    \<and> take 3 b' = [1, 2, 3]"
proof -
  let ?v = "snd (vfs_register (Some (fat_fs_of 0 sample_fat)) vfs_start)"
  let ?ve = "\<lparr>ve_name = lit ''rd'', ve_fs = fat_fs_of 0 sample_fat\<rparr>"
  have fat: "fat_type sample_fat = FAT32" "first_data_sector sample_fat = first_non_root_sector sample_fat"
    "root_dir_cluster sample_fat = 2" "fat_id sample_fat = 1" "unat (fat_block_size sample_fat) = 512"
    by (simp_all add: sample_fat_def)
  have chains: "fat_chain sample_fat sample_image (root_dir_cluster sample_fat) [2]"
    "fat_chain sample_fat sample_image (de_opaque sample_entry) [3]"
    by (simp_all add: fat(3) sample_clusters sample_entry_def)
  have ve: "find_ve (v_entries ?v) (lit ''rd'') = Some ?ve" "ve_fs ?ve = fat_fs_of 0 sample_fat"
    by (simp_all add: vfs_register_def vfs_add_def vfs_start_def fat_fs_of_def sample_fat_def ramdisk_device_def
        Let_def MAX_DEV_NAMES_def)
  have names: "plain_name (lit ''rd'')" "list_all (\<lambda>d. plain_name d \<and> d \<noteq> []) []" "plain_name (lit ''a'')"
    "lit ''a'' \<noteq> []" "hd ([] @ [lit ''a'']) \<noteq> lit '':''"
    by (simp_all add: plain_name_def lit_def)
  have path: "fat_path sample_fat sample_image
      (fat_listing (fat_id sample_fat) (fat_content sample_fat sample_image [2])) [] [sample_entry]"
    by (simp add: fat(4) fat_content_def sample_root [simplified] fat_path_here)
  have found: "find (\<lambda>d. de_name d = lit ''a'') [sample_entry] = Some sample_entry"
    by (simp add: sample_entry_def)
  have "take 3 (fat_content sample_fat sample_image [3]) = [1, 2, 3]"
    by (simp add: fat_content_def sample_data)
  then show ?thesis
    using fat_open_and_read [OF ramdisk.disk_axioms sample_layout fat(1,2) chains(1) _ _ ve names path found
      chains(2), of 3 "replicate 20 0" 0]
    by (auto simp: fat(5) sample_entry_def lit_def)
qed

text \<open>C31: A name of at most eight and three characters, blank-padded as it is stored,
  is presented in lower case with a dot before a non-empty extension.\<close>

theorem fat_name_converts:
  assumes "1 \<le> length base" "length base \<le> 8" "length ext \<le> 3" "set (base @ ext) \<inter> {0, 32} = {}"
  shows "fat_name (base @ replicate (8 - length base) 32 @ ext @ replicate (3 - length ext) 32) =
    map fat_lower base @ (if ext = [] then [] else 46 # map fat_lower ext)"
  using assms by (rule fat_name_8_3)

theorem fat_name_converts_witness:
  "fat_name (lit ''KERNEL  IMG'') = lit ''kernel.img''"
proof -
  have "replicate 2 (32 :: u8) = [32, 32]"
    by (simp add: numeral_2_eq_2)
  then show ?thesis
    using fat_name_converts [of "lit ''KERNEL''" "lit ''IMG''"] by (simp add: lit_def fat_lower_def)
qed



lemma strlen_Some: "strlen m p = Some n \<Longrightarrow> p + n < length m \<and> m ! (p + n) = 0"
proof (induction m p arbitrary: n rule: strlen.induct)
  case (1 m p)
  then show ?case
    by (subst (asm) (2) strlen.simps) (auto simp: get_byte_eq_Some split: if_splits)
qed

text \<open>The copy of the label, and what mounting does with a boot sector whose sectors
  have 512 bytes.\<close>

lemma fat_copy_label_overflows:
  assumes "length b = 512" "\<forall>i < 12. b ! (off + i) \<noteq> 0"
  shows "fat_copy_label b off = None"
proof (cases "strlen b off")
  case (Some n)
  have n: "off + n < 512" "b ! (off + n) = 0"
    using strlen_Some [OF Some] assms(1) by simp_all
  then have "12 \<le> n"
    using assms(2) by (meson not_le)
  then show ?thesis
    using Some n(1) assms(1) by (simp add: fat_copy_label_def store_def)
qed (simp add: fat_copy_label_def)

lemma fat_copy_label_fits:
  assumes "length b = 512" "off + 12 \<le> 512" "\<exists>i < 12. b ! (off + i) = 0"
  shows "\<exists>label. fat_copy_label b off = Some label"
proof -
  define n where "n = (LEAST i. b ! (off + i) = 0)"
  have n: "b ! (off + n) = 0" "n < 12" "\<And>j. j < n \<Longrightarrow> b ! (off + j) \<noteq> 0"
    unfolding n_def using assms(3)
    by (auto intro: LeastI dest: not_less_Least le_less_trans [OF Least_le])
  then have "cstr_at b off (take n (drop off b))"
    using assms(1,2) by (auto simp: cstr_at_iff in_set_conv_nth)
  then have "strlen b off = Some n"
    using strlen_cstr n(2) assms(1,2) by fastforce
  then show ?thesis
    using n(2) assms(1,2) by (simp add: fat_copy_label_def)
qed

lemma fat_geometry_fields:
  assumes "fat_boot_sector b = Some bs" "bs_bytes_per_sector bs = 512" "bs_sectors_per_cluster bs \<noteq> 0"
  obtains fat where "fat_geometry fsid parent bs = Some fat" "fat_id fat = fsid" "fat_parent fat = parent"
    "fat_type fat = FAT12 \<or> fat_type fat = FAT16 \<or> fat_type fat = FAT32" "bytes_per_sector fat = 512"
    "fat_block_size fat = 512 * bs_sectors_per_cluster bs" "sectors_per_cluster fat = bs_sectors_per_cluster bs"
    "0 < unat (sectors_per_cluster fat)" "unat (sectors_per_cluster fat) < 256"
    "unat (fat_block_size fat) = 512 * unat (sectors_per_cluster fat)"
proof -
  obtain spc :: u8 where spc: "bs_sectors_per_cluster bs = ucast spc"
    using assms(1) by (auto simp: fat_boot_sector_def)
  have "unat (ucast spc :: u32) = unat spc"
    using less_trans [OF unat_u8_less [of spc], of "2 ^ 32"]
    by (simp add: unsigned_ucast_eq take_bit_nat_eq_self)
  then have b: "unat (bs_sectors_per_cluster bs) < 256"
    by (simp add: spc)
  moreover have "0 < unat (bs_sectors_per_cluster bs)"
    using assms(3) by (simp add: unat_gt_0)
  moreover from b have "unat (512 * bs_sectors_per_cluster bs) = 512 * unat (bs_sectors_per_cluster bs)"
    by (simp add: unat_mult_u32)
  ultimately show thesis
    using assms(2,3) that by (auto simp: fat_geometry_def Let_def)
qed

lemma fat_init_label:
  assumes "disk rd 512 img ok" "ok w" "bd_read parent = Some rd" "block_size parent = 512"
    and "512 \<le> length (img w)" "img w ! 0 = 0xeb" "fat_boot_sector (take 512 (img w)) = Some bs"
    and "fat_geometry fsid parent bs = Some fat"
  shows "\<exists>w'. ok w' \<and> img w' = img w \<and> fat_init fsid parent w =
    map_option (\<lambda>label. (0, Some (fat\<lparr>vol_label := label\<rparr>), w'))
      (fat_copy_label (take 512 (img w)) (if fat_type fat = FAT32 then 71 else 43))"
proof -
  let ?b = "take 512 (img w)"
  have len: "length ?b = 512"
    using assms(5) by simp
  obtain w1 where w1: "block_read parent w (replicate 512 0) 512 0 = Some (512, blit (replicate 512 0) 0 ?b, w1)"
    "ok w1" "img w1 = img w"
    using disk.block_read_image [OF assms(1,3,4,2), of 512 "replicate 512 0" 0] assms(5) by auto
  have blk: "blit (replicate 512 0) 0 ?b = ?b"
    using len by (simp add: blit_def)
  show ?thesis
    using w1 len assms(6-8) unfolding blk
    by (intro exI [of _ w1], cases "fat_copy_label ?b (if fat_type fat = FAT32 then 71 else 43)")
      (auto simp: fat_init_def)
qed

text \<open>A label that ends in its field.\<close>

definition fat_label_ends :: "buf \<Rightarrow> bool" where
  "fat_label_ends m \<longleftrightarrow> (\<forall>off \<in> {43, 71}. \<exists>i < 12. m ! (off + i) = 0)"

lemma fat_init_ok:
  assumes "disk rd 512 img ok" "ok w" "bd_read parent = Some rd" "block_size parent = 512"
    and "512 \<le> length (img w)" "img w ! 0 = 0xeb"
    and "fat_boot_sector (take 512 (img w)) = Some bs" "bs_bytes_per_sector bs = 512" "bs_sectors_per_cluster bs \<noteq> 0"
    and "fat_label_ends (img w)"
  shows "\<exists>fat label w'. fat_geometry fsid parent bs = Some fat
    \<and> fat_init fsid parent w = Some (0, Some (fat\<lparr>vol_label := label\<rparr>), w') \<and> fat_id fat = fsid
    \<and> fat_block_size fat = 512 * bs_sectors_per_cluster bs \<and> ok w' \<and> img w' = img w
    \<and> (fat_type fat \<noteq> FAT12 \<longrightarrow> fat_layout rd img ok (fat\<lparr>vol_label := label\<rparr>) (img w) w')"
proof -
  obtain fat where fat: "fat_geometry fsid parent bs = Some fat" "fat_id fat = fsid" "fat_parent fat = parent"
    "fat_type fat = FAT12 \<or> fat_type fat = FAT16 \<or> fat_type fat = FAT32" "bytes_per_sector fat = 512"
    "fat_block_size fat = 512 * bs_sectors_per_cluster bs" "sectors_per_cluster fat = bs_sectors_per_cluster bs"
    "0 < unat (sectors_per_cluster fat)" "unat (sectors_per_cluster fat) < 256"
    "unat (fat_block_size fat) = 512 * unat (sectors_per_cluster fat)"
    by (rule fat_geometry_fields [OF assms(7-9)])
  obtain w' where w': "ok w'" "img w' = img w" and init: "fat_init fsid parent w =
    map_option (\<lambda>label. (0, Some (fat\<lparr>vol_label := label\<rparr>), w'))
      (fat_copy_label (take 512 (img w)) (if fat_type fat = FAT32 then 71 else 43))"
    using fat_init_label [OF assms(1-7) fat(1)] by blast
  have "\<exists>i < 12. take 512 (img w) ! ((if fat_type fat = FAT32 then 71 else 43) + i) = 0"
    using assms(10) by (auto simp: fat_label_ends_def)
  from fat_copy_label_fits [OF _ _ this] obtain label where
    "fat_copy_label (take 512 (img w)) (if fat_type fat = FAT32 then 71 else 43) = Some label"
    using assms(5) by fastforce
  then show ?thesis
    using fat w' init assms(3,4)
    by (intro exI [of _ fat] exI [of _ label] exI [of _ w']) (auto simp: fat_layout_def)
qed



text \<open>A table sector that cannot be read is not reported: the marker 0x0ffffff7 that
  stands for it is below the end mark, so the lookup of the next block answers with
  the sector that this cluster number would have.\<close>

theorem fat_table_error_is_followed:
  assumes "bd_read (fat_parent fat) = Some (\<lambda>w n blk. Some (-1, [], w))" "block_size (fat_parent fat) = 512"
    and "bytes_per_sector fat = 512" "fat_type fat = FAT16 \<or> fat_type fat = FAT32"
    and "f_cluster c < 0x0ffffff8" "idx = f_block c + 1"
  shows "fat_get_next_bdev_block_num fat idx s c add_blocks w =
    Some (get_sector fat 0x0ffffff7, s, \<lparr>f_block = idx, f_cluster = 0x0ffffff7\<rparr>, w)"
proof -
  have "block_read (fat_parent fat) w (replicate 512 0) 512 sec = Some (-1, replicate 512 0, w)" for sec
    using assms(1,2) by (subst block_read_def, subst block_read_loop.simps) simp
  then have "get_next_fat_entry fat (f_cluster c) w = Some (0x0ffffff7, w)"
    using assms(3,4) by (auto simp: get_next_fat_entry_def Let_def)
  moreover have "f_block c \<noteq> idx"
    by (simp add: assms(6))
  ultimately have "fat_seek_cluster fat idx c w = fat_seek_cluster fat idx \<lparr>f_block = idx, f_cluster = 0x0ffffff7\<rparr> w"
    using assms(5,6) by (subst fat_seek_cluster.simps) simp
  also have "\<dots> = Some (\<lparr>f_block = idx, f_cluster = 0x0ffffff7\<rparr>, w)"
    by (subst fat_seek_cluster.simps) simp
  finally show ?thesis
    by (simp add: fat_get_next_bdev_block_num_def)
qed

theorem fat_table_error_is_followed_witness:
  "fat_get_next_bdev_block_num (sample_fat\<lparr>fat_parent :=
      (ramdisk_device sample_disk [])\<lparr>bd_read := Some (\<lambda>w n blk. Some (-1, [], w))\<rparr>\<rparr>) 1
     \<lparr>f_fs = 1, f_pos = 0, f_mode = 0, f_opaque = 3, f_len = 3, f_flags = 0\<rparr>
     \<lparr>f_block = 0, f_cluster = 3\<rparr> False [] =
   Some (0x0ffffff6, \<lparr>f_fs = 1, f_pos = 0, f_mode = 0, f_opaque = 3, f_len = 3, f_flags = 0\<rparr>,
     \<lparr>f_block = 1, f_cluster = 0x0ffffff7\<rparr>, [])"
  using fat_table_error_is_followed [of "sample_fat\<lparr>fat_parent :=
      (ramdisk_device sample_disk [])\<lparr>bd_read := Some (\<lambda>w n blk. Some (-1, [], w))\<rparr>\<rparr>"
      "\<lparr>f_block = 0, f_cluster = 3\<rparr>" 1]
  by (simp add: sample_fat_def ramdisk_device_def get_sector_def)

end
