(* ===== verification/Ext2.thy ===== *)
theory Ext2
  imports Fat
begin

text \<open>
  The ext2 file system of ext2.c: the superblock, inodes, the tree of indirect
  blocks behind an inode, and the directory reader.  A NULL pointer that the code
  goes on to use is an error.  \<open>ext2_read_dir\<close> releases the structure of an entry it
  does not want while the list still points at it; the argument \<open>reuse\<close> says
  whether the allocator gives a structure just released to the next entry, which
  is what repairs the list when it does.
\<close>

section \<open>Volume and inodes\<close>

record 'w ext2_fs =
  e2_id :: nat
  e2_parent :: "'w block_device"
  e2_block_size :: u32
  total_inodes :: u32
  total_blocks :: u32
  inode_size :: u32
  inodes_per_group :: u32
  blocks_per_group :: u32
  total_groups :: u32
  major_version :: int
  minor_version :: int
  pointers_per_indirect_block :: u32
  pointers_per_indirect_block_2 :: u32
  pointers_per_indirect_block_3 :: u32
  type_flags_used :: bool
  bgdt :: buf

text \<open>The fields of \<open>struct ext2_inode\<close> that are used, and their offsets.\<close>

record ext2_inode =
  type_permissions :: u16
  i_size :: u32
  i_db :: "u32 list"
  sibp :: u32
  dibp :: u32
  tibp :: u32

fun read_words :: "buf \<Rightarrow> nat \<Rightarrow> nat \<Rightarrow> u32 list option" where
  "read_words b off 0 = Some []"
| "read_words b off (Suc k) = do { x \<leftarrow> read_word b off; xs \<leftarrow> read_words b (off + 4) k; Some (x # xs) }"

definition inode_of :: "buf \<Rightarrow> ext2_inode option" where
  "inode_of b = do {
     tp \<leftarrow> read_halfword b 0;
     sz \<leftarrow> read_word b 4;
     db \<leftarrow> read_words b 40 12;
     s \<leftarrow> read_word b 88;
     d \<leftarrow> read_word b 92;
     t \<leftarrow> read_word b 96;
     Some \<lparr>type_permissions = tp, i_size = sz, i_db = db, sibp = s, dibp = d, tibp = t\<rparr> }"

text \<open>\<open>get_sector_num\<close> and \<open>read_block\<close>, which has its name in the model of the file
  system it belongs to; a NULL result is \<open>None\<close> inside.\<close>

definition get_sector_num :: "'w ext2_fs \<Rightarrow> u32 \<Rightarrow> u32" where
  "get_sector_num fs block_no = block_no * e2_block_size fs div block_size (e2_parent fs)"

definition ext2_read_block :: "'w ext2_fs \<Rightarrow> u32 \<Rightarrow> 'w \<Rightarrow> (buf option \<times> 'w) option" where
  "ext2_read_block fs block_no w =
     (if block_size (e2_parent fs) = 0 then None
      else do {
        (r, b, w) \<leftarrow> block_read (e2_parent fs) w (replicate (unat (e2_block_size fs)) 0)
           (e2_block_size fs) (get_sector_num fs block_no);
        Some (if sint r < 0 then None else Some b, w) })"

definition ext2_read_inode :: "'w ext2_fs \<Rightarrow> u32 \<Rightarrow> 'w \<Rightarrow> (ext2_inode option \<times> 'w) option" where
  "ext2_read_inode fs inode_idx w =
     (if inodes_per_group fs = 0 \<or> inode_size fs = 0 then None
      else do {
        let idx = inode_idx - 1;
        let group = idx div inodes_per_group fs;
        let offset = idx mod inodes_per_group fs;
        let inodes_per_block = e2_block_size fs div inode_size fs;
        start \<leftarrow> read_word (bgdt fs) (32 * unat group + 8);
        if inodes_per_block = 0 then None
        else do {
          (itable, w) \<leftarrow> ext2_read_block fs (start + offset div inodes_per_block) w;
          (case itable of
             None \<Rightarrow> Some (None, w)
           | Some b \<Rightarrow> do {
               bytes \<leftarrow> load b (unat (offset mod inodes_per_block * inode_size fs)) 128;
               i \<leftarrow> inode_of bytes;
               Some (Some i, w) }) } })"

section \<open>The blocks of a file\<close>

text \<open>One step through an indirect block.\<close>

definition ext2_pointer :: "'w ext2_fs \<Rightarrow> u32 \<Rightarrow> u32 \<Rightarrow> 'w \<Rightarrow> (u32 option \<times> 'w) option" where
  "ext2_pointer fs block_no idx w = do {
     (b, w) \<leftarrow> ext2_read_block fs block_no w;
     (case b of
        None \<Rightarrow> Some (None, w)
      | Some b \<Rightarrow> do { x \<leftarrow> read_word b (4 * unat idx); Some (Some x, w) }) }"

fun ext2_pointers :: "'w ext2_fs \<Rightarrow> u32 \<Rightarrow> u32 list \<Rightarrow> 'w \<Rightarrow> (u32 option \<times> 'w) option" where
  "ext2_pointers fs block_no [] w = Some (Some block_no, w)"
| "ext2_pointers fs block_no (idx # idxs) w = do {
     (p, w) \<leftarrow> ext2_pointer fs block_no idx w;
     (case p of None \<Rightarrow> Some (None, w) | Some q \<Rightarrow> ext2_pointers fs q idxs w) }"

text \<open>The block in which the walk starts, with the indices on the way down; \<open>None\<close>
  beyond the triply indirect blocks.  The index is rebased by subtraction, level by
  level, as in the code.\<close>

definition ext2_route :: "'w ext2_fs \<Rightarrow> ext2_inode \<Rightarrow> u32 \<Rightarrow> (u32 \<times> u32 list) option option" where
  "ext2_route fs i index =
     (let p = pointers_per_indirect_block fs;
          p2 = pointers_per_indirect_block_2 fs;
          p3 = pointers_per_indirect_block_3 fs
      in if index < 12 then (if unat index < length (i_db i) then Some (Some (i_db i ! unat index, [])) else None)
         else let index = index - 12
         in if index < p then Some (Some (sibp i, [index]))
            else let index = index - p
            in if index < p2 then
                 (if p = 0 then None else Some (Some (dibp i, [index div p, index mod p])))
               else let index = index - p2
               in if index < p3 then
                    (if p = 0 \<or> p2 = 0 then None
                     else Some (Some (tibp i, [index div p2, index mod p2 div p, index mod p2 mod p])))
                  else Some None)"

definition get_block_no_from_inode ::
  "'w ext2_fs \<Rightarrow> ext2_inode \<Rightarrow> u32 \<Rightarrow> bool \<Rightarrow> 'w \<Rightarrow> (u32 \<times> 'w) option" where
  "get_block_no_from_inode fs i index add_blocks w = do {
     r \<leftarrow> ext2_route fs i index;
     (case r of
        None \<Rightarrow> Some (0, w)
      | Some (blk, idxs) \<Rightarrow> do {
          (p, w) \<leftarrow> ext2_pointers fs blk idxs w;
          Some (case p of None \<Rightarrow> 0 | Some x \<Rightarrow> x, w) }) }"

definition ext2_get_next_bdev_block_num :: "'w ext2_fs \<Rightarrow> ('w, ext2_inode option) get_block" where
  "ext2_get_next_bdev_block_num fs idx s inode add_blocks w = do {
     i \<leftarrow> inode;
     (ret, w) \<leftarrow> get_block_no_from_inode fs i idx add_blocks w;
     if block_size (e2_parent fs) = 0 then None
     else Some (get_sector_num fs ret, s, inode, w) }"

section \<open>Files\<close>

definition ext2_fopen ::
  "'w ext2_fs \<Rightarrow> dirent option \<Rightarrow> cstring \<Rightarrow> 'w \<Rightarrow> ((errno option + vfs_file) \<times> 'w) option" where
  "ext2_fopen fs path mode w = do {
     d \<leftarrow> path;
     if e2_id fs \<noteq> de_fs d then Some (Inl (Some EFAULT), w)
     else if mode \<noteq> lit ''r'' then Some (Inl (Some EROFS), w)
     else do {
       (inode, w) \<leftarrow> ext2_read_inode fs (de_opaque d) w;
       i \<leftarrow> inode;
       Some (Inr \<lparr>f_fs = e2_id fs, f_pos = 0, f_mode = 0, f_opaque = de_opaque d,
                  f_len = sint (i_size i), f_flags = 0\<rparr>, w) } }"

definition ext2_fread ::
  "'w ext2_fs \<Rightarrow> u32 \<Rightarrow> buf \<Rightarrow> u32 \<Rightarrow> u32 \<Rightarrow> vfs_file \<Rightarrow> 'w \<Rightarrow> (u32 \<times> buf \<times> vfs_file \<times> 'w) option" where
  "ext2_fread fs temp b addr byte_size f w =
     (if f_fs f \<noteq> e2_id fs then Some (-1, b, f, w)
      else if f_opaque f = 0 then Some (-1, b, f, w)
      else do {
        (inode, w) \<leftarrow> ext2_read_inode fs (f_opaque f) w;
        fs_fread (ext2_get_next_bdev_block_num fs) (e2_parent fs) (e2_block_size fs)
          \<lparr>ptr_addr = addr, temp_addr = temp\<rparr> b byte_size f inode w })"

section \<open>Mounting\<close>

text \<open>The superblock; every division by a zero field is an error.\<close>

definition ext2_super :: "nat \<Rightarrow> 'w block_device \<Rightarrow> buf \<Rightarrow> (unit + 'w ext2_fs) option" where
  "ext2_super fsid parent sb = do {
     ti \<leftarrow> read_word sb 0;
     tb \<leftarrow> read_word sb 4;
     lbs \<leftarrow> read_word sb 24;
     bpg \<leftarrow> read_word sb 32;
     ipg \<leftarrow> read_word sb 40;
     minor \<leftarrow> read_halfword sb 62;
     major \<leftarrow> read_word sb 76;
     isz \<leftarrow> read_halfword sb 88;
     flags \<leftarrow> read_word sb 96;
     if ipg = 0 \<or> bpg = 0 \<or> unat lbs \<ge> 32 then None
     else do {
       let bs = push_bit (unat lbs) 1024;
       let extended = sint major \<ge> 1;
       let i_calc = ti div ipg + (if ti mod ipg \<noteq> 0 then 1 else 0);
       let b_calc = tb div bpg + (if tb mod bpg \<noteq> 0 then 1 else 0);
       let p = bs div 4;
       if i_calc \<noteq> b_calc then Some (Inl ())
       else Some (Inr \<lparr>e2_id = fsid, e2_parent = parent, e2_block_size = bs, total_inodes = ti,
         total_blocks = tb, inode_size = (if extended then ucast isz else 128),
         inodes_per_group = ipg, blocks_per_group = bpg, total_groups = i_calc,
         major_version = sint major, minor_version = sint minor,
         pointers_per_indirect_block = p, pointers_per_indirect_block_2 = p * p,
         pointers_per_indirect_block_3 = p * p * p,
         type_flags_used = (extended \<and> flags AND 0x2 \<noteq> 0), bgdt = []\<rparr>) } }"

definition ext2_init :: "nat \<Rightarrow> 'w block_device \<Rightarrow> 'w \<Rightarrow> (int \<times> 'w ext2_fs option \<times> 'w) option" where
  "ext2_init fsid parent w =
     (if block_size parent = 0 then None
      else do {
        (r, sb, w) \<leftarrow> block_read parent w (replicate 1024 0) 1024 (1024 div block_size parent);
        if sint r < 0 then Some (sint r, None, w)
        else if r \<noteq> 1024 then Some (-1, None, w)
        else do {
          magic \<leftarrow> read_halfword sb 56;
          if magic \<noteq> 0xef53 then Some (-1, None, w)
          else do {
            s \<leftarrow> ext2_super fsid parent sb;
            (case s of
               Inl _ \<Rightarrow> Some (-1, None, w)
             | Inr fs \<Rightarrow>
                 if e2_block_size fs = 0 then None
                 else do {
                   let bs = e2_block_size fs;
                   let bgdt_size = total_groups fs * 32;
                   let bgdt_size = (if bgdt_size mod bs \<noteq> 0 then (bgdt_size div bs + 1) * bs else bgdt_size);
                   let bgdt_block = (if bs = 1024 then 2 else 1);
                   (_, table, w) \<leftarrow> block_read parent w (replicate (unat bgdt_size) 0) bgdt_size
                     (get_sector_num fs bgdt_block);
                   Some (0, Some (fs\<lparr>bgdt := table\<rparr>), w) }) } } })"

section \<open>Directories\<close>

text \<open>The list being built: the entries linked so far, and whether a released
  structure hangs at its end.\<close>

type_synonym dir_acc = "dirent list \<times> bool"

definition special_name :: "cstring \<Rightarrow> bool" where
  "special_name n \<longleftrightarrow> n = lit ''.'' \<or> n = lit ''..'' \<or> n = lit ''lost+found''"

text \<open>The entries of a block from offset p on; \<open>sz\<close> is the part of it in use.
  Linking a structure behind a released one writes to it.\<close>

function ext2_entries ::
  "bool \<Rightarrow> 'w ext2_fs \<Rightarrow> nat \<Rightarrow> buf \<Rightarrow> nat \<Rightarrow> dir_acc \<Rightarrow> 'w \<Rightarrow> (dir_acc \<times> 'w) option" where
  "ext2_entries reuse fs sz b p acc w =
     (if \<not> p < sz then Some (acc, w)
      else case read_word b p of None \<Rightarrow> None | Some de_inode_idx \<Rightarrow>
        case read_halfword b (p + 4) of None \<Rightarrow> None | Some entry_size \<Rightarrow>
        case read_halfword b (p + 6) of None \<Rightarrow> None | Some name_len \<Rightarrow>
        case get_byte b (p + 7) of None \<Rightarrow> None | Some type_flags \<Rightarrow>
        if entry_size = 0 then Some (acc, w)
        else if de_inode_idx = 0 then ext2_entries reuse fs sz b (p + unat entry_size) acc w
        else if snd acc \<and> \<not> reuse then None
        else
          (let n = (if type_flags_used fs then name_len AND 0xff else name_len) in
           case load b (p + 8) (unat n) of None \<Rightarrow> None | Some bytes \<Rightarrow>
           let name = takeWhile (\<lambda>c. c \<noteq> 0) bytes in
           if special_name name then ext2_entries reuse fs sz b (p + unat entry_size) (fst acc, True) w
           else
             case (if type_flags_used fs then Some (type_flags = 2, w)
                   else do {
                     (inode, w) \<leftarrow> ext2_read_inode fs de_inode_idx w;
                     i \<leftarrow> inode;
                     Some (type_permissions i AND 0x2000 \<noteq> 0, w) }) of
               None \<Rightarrow> None
             | Some (is_d, w) \<Rightarrow>
                 ext2_entries reuse fs sz b (p + unat entry_size)
                   (fst acc @ [\<lparr>de_name = name, de_byte_size = 0, de_is_dir = is_d,
                                de_opaque = de_inode_idx, de_fs = e2_id fs\<rparr>], False) w))"
  by pat_completeness auto
termination
  by (relation "measure (\<lambda>(reuse, fs, sz, b, p, acc, w). sz - p)") (auto simp: unat_gt_0 intro!: diff_less_mono2)

declare ext2_entries.simps [simp del]

text \<open>The blocks of the directory, k of them from index cur on.  A block that cannot
  be read is NULL, and is used all the same.\<close>

fun ext2_dir_blocks ::
  "bool \<Rightarrow> 'w ext2_fs \<Rightarrow> ext2_inode \<Rightarrow> u32 \<Rightarrow> u32 \<Rightarrow> nat \<Rightarrow> u32 \<Rightarrow> dir_acc \<Rightarrow> 'w \<Rightarrow> (dir_acc \<times> 'w) option" where
  "ext2_dir_blocks reuse fs inode tot rem 0 cur acc w = Some (acc, w)"
| "ext2_dir_blocks reuse fs inode tot rem (Suc k) cur acc w = do {
     (block_no, w) \<leftarrow> get_block_no_from_inode fs inode cur False w;
     (block, w) \<leftarrow> ext2_read_block fs block_no w;
     let sz = (if cur = tot - 1 \<and> rem \<noteq> 0 then rem else e2_block_size fs);
     b \<leftarrow> (case block of None \<Rightarrow> if sz = 0 then Some [] else None | Some b \<Rightarrow> Some b);
     (acc, w) \<leftarrow> ext2_entries reuse fs (unat sz) b 0 acc w;
     ext2_dir_blocks reuse fs inode tot rem k (cur + 1) acc w }"

text \<open>A list that ends in a released structure cannot be walked to its end; the
  result is an error.\<close>

definition ext2_read_dir ::
  "bool \<Rightarrow> 'w ext2_fs \<Rightarrow> dirent option \<Rightarrow> 'w \<Rightarrow> (dirent list \<times> 'w) option" where
  "ext2_read_dir reuse fs d w = do {
     (inode, w) \<leftarrow> ext2_read_inode fs (case d of None \<Rightarrow> 2 | Some d \<Rightarrow> de_opaque d) w;
     i \<leftarrow> inode;
     if e2_block_size fs = 0 then None
     else do {
       let rem = i_size i mod e2_block_size fs;
       let tot = i_size i div e2_block_size fs + (if rem \<noteq> 0 then 1 else 0);
       (acc, w) \<leftarrow> ext2_dir_blocks reuse fs i tot rem (unat tot) 0 ([], False) w;
       if snd acc then None else Some (fst acc, w) } }"

fun ext2_walk ::
  "bool \<Rightarrow> 'w ext2_fs \<Rightarrow> cstring list \<Rightarrow> dirent list \<Rightarrow> 'w \<Rightarrow> ((errno option + dirent list) \<times> 'w) option" where
  "ext2_walk reuse fs [] cur_dir w = Some (Inr cur_dir, w)"
| "ext2_walk reuse fs (n # ns) cur_dir w =
     (case find_dirent cur_dir n of
        None \<Rightarrow> Some (Inl (Some ENOENT), w)
      | Some d \<Rightarrow>
          if \<not> de_is_dir d then Some (Inl (Some ENOTDIR), w)
          else do {
            (cur_dir, w) \<leftarrow> ext2_read_dir reuse fs (Some d) w;
            ext2_walk reuse fs ns cur_dir w })"

definition ext2_read_directory ::
  "bool \<Rightarrow> 'w ext2_fs \<Rightarrow> cstring list \<Rightarrow> 'w \<Rightarrow> ((errno option + dirent list) \<times> 'w) option" where
  "ext2_read_directory reuse fs name w = do {
     (cur_dir, w) \<leftarrow> ext2_read_dir reuse fs None w;
     ext2_walk reuse fs name cur_dir w }"

definition ext2_fs_of :: "bool \<Rightarrow> u32 \<Rightarrow> 'w ext2_fs \<Rightarrow> 'w fs" where
  "ext2_fs_of reuse temp fs =
     \<lparr>fs_id = e2_id fs, fs_parent = e2_parent fs, fs_name = lit ''ext2'', fs_flags = 0,
      fs_block_size = e2_block_size fs, fs_fopen = ext2_fopen fs,
      fs_fread_op = ext2_fread fs temp, fs_fwrite_op = None, fs_fclose = Some (\<lambda>f w. w),
      fs_fsize = None, fs_fseek = None, fs_ftell = None, fs_fflush = None,
      fs_read_directory = ext2_read_directory reuse fs\<rparr>"

section \<open>The block map of an inode\<close>

text \<open>The same walk over the image, with natural numbers: the specification of
  \<open>get_block_no_from_inode\<close>.\<close>

definition e2_data :: "'w ext2_fs \<Rightarrow> buf \<Rightarrow> u32 \<Rightarrow> buf" where
  "e2_data fs m blk = take (unat (e2_block_size fs)) (drop (unat blk * unat (e2_block_size fs)) m)"

definition e2_ok :: "'w ext2_fs \<Rightarrow> buf \<Rightarrow> u32 \<Rightarrow> bool" where
  "e2_ok fs m blk \<longleftrightarrow> unat blk * unat (e2_block_size fs) < 4294967296
     \<and> unat blk * unat (e2_block_size fs) + unat (e2_block_size fs) \<le> length m"

definition e2_word :: "'w ext2_fs \<Rightarrow> buf \<Rightarrow> u32 \<Rightarrow> nat \<Rightarrow> u32" where
  "e2_word fs m blk k = the (read_word (e2_data fs m blk) (4 * k))"

fun e2_descend :: "'w ext2_fs \<Rightarrow> buf \<Rightarrow> u32 \<Rightarrow> nat list \<Rightarrow> u32" where
  "e2_descend fs m blk [] = blk"
| "e2_descend fs m blk (k # ks) = e2_descend fs m (e2_word fs m blk k) ks"

text \<open>The indirect blocks on the way lie in the image.\<close>

fun e2_descend_ok :: "'w ext2_fs \<Rightarrow> buf \<Rightarrow> u32 \<Rightarrow> nat list \<Rightarrow> bool" where
  "e2_descend_ok fs m blk [] = True"
| "e2_descend_ok fs m blk (k # ks) \<longleftrightarrow> e2_ok fs m blk \<and> e2_descend_ok fs m (e2_word fs m blk k) ks"

definition e2_route :: "'w ext2_fs \<Rightarrow> ext2_inode \<Rightarrow> nat \<Rightarrow> u32 \<times> nat list" where
  "e2_route fs i idx =
     (let p = unat (e2_block_size fs) div 4 in
      if idx < 12 then (i_db i ! idx, [])
      else if idx < 12 + p then (sibp i, [idx - 12])
      else if idx < 12 + p + p * p then (let j = idx - 12 - p in (dibp i, [j div p, j mod p]))
      else (let j = idx - 12 - p - p * p in (tibp i, [j div (p * p), j mod (p * p) div p, j mod (p * p) mod p])))"

definition e2_bmap :: "'w ext2_fs \<Rightarrow> buf \<Rightarrow> ext2_inode \<Rightarrow> nat \<Rightarrow> u32" where
  "e2_bmap fs m i idx = (case e2_route fs i idx of (blk, ks) \<Rightarrow> e2_descend fs m blk ks)"

definition e2_mapped :: "'w ext2_fs \<Rightarrow> buf \<Rightarrow> ext2_inode \<Rightarrow> nat \<Rightarrow> bool" where
  "e2_mapped fs m i idx \<longleftrightarrow>
     (case e2_route fs i idx of (blk, ks) \<Rightarrow> e2_descend_ok fs m blk ks) \<and> e2_ok fs m (e2_bmap fs m i idx)"

definition e2_max :: "'w ext2_fs \<Rightarrow> nat" where
  "e2_max fs = (let p = unat (e2_block_size fs) div 4 in 12 + p + p * p + p * p * p)"

definition ext2_layout ::
  "'w bd_read_op \<Rightarrow> ('w \<Rightarrow> buf) \<Rightarrow> ('w \<Rightarrow> bool) \<Rightarrow> 'w ext2_fs \<Rightarrow> buf \<Rightarrow> 'w \<Rightarrow> bool" where
  "ext2_layout rd img ok fs m w \<longleftrightarrow>
     ok w \<and> img w = m \<and> bd_read (e2_parent fs) = Some rd \<and> block_size (e2_parent fs) = 512
     \<and> 1024 \<le> unat (e2_block_size fs) \<and> unat (e2_block_size fs) \<le> 4096 \<and> 512 dvd unat (e2_block_size fs)
     \<and> unat (pointers_per_indirect_block fs) = unat (e2_block_size fs) div 4
     \<and> unat (pointers_per_indirect_block_2 fs) = (unat (e2_block_size fs) div 4) * (unat (e2_block_size fs) div 4)
     \<and> unat (pointers_per_indirect_block_3 fs) =
         (unat (e2_block_size fs) div 4) * (unat (e2_block_size fs) div 4) * (unat (e2_block_size fs) div 4)"

lemma length_e2_data: "e2_ok fs m blk \<Longrightarrow> length (e2_data fs m blk) = unat (e2_block_size fs)"
  unfolding e2_ok_def e2_data_def length_take length_drop by linarith

lemma e2_route_small: "idx < e2_max fs \<Longrightarrow> k \<in> set (snd (e2_route fs i idx)) \<Longrightarrow> k < unat (e2_block_size fs) div 4"
proof -
  define p where "p = unat (e2_block_size fs) div 4"
  assume a: "idx < e2_max fs" "k \<in> set (snd (e2_route fs i idx))"
  have max: "idx < 12 + p + p * p + p * p * p"
    using a(1) by (simp add: e2_max_def p_def Let_def)
  have div: "j div (p * p) < p" if "j < p * p * p" for j
    using that by (simp add: less_mult_imp_div_less ac_simps)
  have "j div p < p" if "j < p * p" for j
    using that by (simp add: less_mult_imp_div_less)
  moreover have "j mod (p * p) div p < p" if "0 < p" for j
    using that by (simp add: less_mult_imp_div_less)
  moreover have "0 < p" if "12 \<le> idx"
    using that max by (cases p) auto
  ultimately show "k < unat (e2_block_size fs) div 4"
    using a(2) max div [of "idx - 12 - p - p * p"] unfolding p_def [symmetric]
    by (auto simp: e2_route_def p_def [symmetric] Let_def split: if_splits)
qed

lemma ext2_route_spec:
  assumes "ext2_layout rd img ok fs m w" "idx < e2_max fs" "length (i_db i) = 12"
  shows "ext2_route fs i (word_of_nat idx) =
    Some (Some (fst (e2_route fs i idx), map word_of_nat (snd (e2_route fs i idx))))"
proof -
  define p where "p = unat (e2_block_size fs) div 4"
  have lay: "unat (pointers_per_indirect_block fs) = p" "unat (pointers_per_indirect_block_2 fs) = p * p"
    "unat (pointers_per_indirect_block_3 fs) = p * p * p"
    using assms(1) by (simp_all add: ext2_layout_def p_def)
  have B: "1024 \<le> unat (e2_block_size fs)" "unat (e2_block_size fs) \<le> 4096"
    using assms(1) by (simp_all add: ext2_layout_def)
  have pb: "p \<le> 1024" "256 \<le> p"
    using div_le_mono [OF B(2), of 4] div_le_mono [OF B(1), of 4] by (simp_all add: p_def)
  have pp: "p * p \<le> 1024 * 1024" "p * p * p \<le> 1024 * 1024 * 1024"
    using pb(1) by (intro mult_le_mono; simp)+
  have max: "idx < 12 + p + p * p + p * p * p"
    using assms(2) by (simp add: e2_max_def p_def Let_def)
  then have small: "idx < 4294967296"
    using pp pb(1) by linarith
  have u: "unat (word_of_nat idx :: u32) = idx"
    using small by (simp add: unat_of_nat_u32)
  have s1: "unat (word_of_nat idx - 12 :: u32) = idx - 12" if "12 \<le> idx"
    using that u by (subst unat_sub_u32) (simp_all add: word_le_nat_alt)
  have s2: "unat (word_of_nat idx - 12 - pointers_per_indirect_block fs) = idx - 12 - p" if "12 + p \<le> idx"
    using that s1 lay(1) by (subst unat_sub_u32) (simp_all add: word_le_nat_alt)
  have s3: "unat (word_of_nat idx - 12 - pointers_per_indirect_block fs - pointers_per_indirect_block_2 fs) =
      idx - 12 - p - p * p" if "12 + p + p * p \<le> idx"
    using that s2 lay(2) by (subst unat_sub_u32) (simp_all add: word_le_nat_alt)
  have eqs: "x = word_of_nat n \<longleftrightarrow> unat x = n" if "n < 4294967296" for x :: u32 and n
    using that by (auto simp: word_unat_eq_iff unat_of_nat_u32)
  have bound: "n \<le> idx \<Longrightarrow> n < 4294967296" for n
    using small by simp
  have le: "(idx - 12 - p) div p \<le> idx" "(idx - 12 - p) mod p \<le> idx" "(idx - 12 - p - p * p) div (p * p) \<le> idx"
    "(idx - 12 - p - p * p) mod (p * p) div p \<le> idx" "(idx - 12 - p - p * p) mod (p * p) mod p \<le> idx" "idx - 12 \<le> idx"
    by (meson div_le_dividend mod_less_eq_dividend diff_le_self le_trans)+
  have nz: "pointers_per_indirect_block fs \<noteq> 0" "pointers_per_indirect_block_2 fs \<noteq> 0"
    using lay pb(2) by (auto simp: word_unat_eq_iff)
  consider "idx < 12" | "12 \<le> idx" "idx < 12 + p" | "12 + p \<le> idx" "idx < 12 + p + p * p" | "12 + p + p * p \<le> idx"
    by linarith
  then show ?thesis
  proof cases
    case 1
    then show ?thesis
      using u assms(3) by (simp add: ext2_route_def e2_route_def word_less_nat_alt)
  next
    case 2
    then show ?thesis
      using u s1 lay le(6)
      by (simp add: ext2_route_def e2_route_def word_less_nat_alt Let_def p_def [symmetric] eqs [OF bound])
  next
    case 3
    then have "\<not> idx - 12 < p" "idx - 12 - p < p * p"
      by linarith+
    then show ?thesis
      using 3 u s1 s2 lay nz le(1,2)
      by (simp add: ext2_route_def e2_route_def word_less_nat_alt Let_def p_def [symmetric] eqs [OF bound]
          unat_div unat_mod)
  next
    case 4
    then have "\<not> idx - 12 < p" "\<not> idx - 12 - p < p * p" "idx - 12 - p - p * p < p * p * p"
      using max by linarith+
    then show ?thesis
      using 4 u s1 s2 s3 lay nz le(3-5)
      by (simp add: ext2_route_def e2_route_def word_less_nat_alt Let_def p_def [symmetric] eqs [OF bound]
          unat_div unat_mod)
  qed
qed

section \<open>Lookups on such a volume\<close>

locale ext2_device = disk rd 512 img inv
  for rd :: "'w bd_read_op" and img :: "'w \<Rightarrow> buf" and inv
begin

lemma sector_of:
  assumes "ext2_layout rd img inv fs m w" "e2_ok fs m blk"
  shows "unat (get_sector_num fs blk) * 512 = unat blk * unat (e2_block_size fs)"
proof -
  have "unat (blk * e2_block_size fs) = unat blk * unat (e2_block_size fs)"
    using assms(2) by (intro unat_mult_u32) (simp add: e2_ok_def)
  then show ?thesis
    using assms(1) by (simp add: get_sector_num_def ext2_layout_def unat_div)
qed

lemma read_block:
  assumes "ext2_layout rd img inv fs m w" "e2_ok fs m blk" "unat (e2_block_size fs) \<le> length b"
  shows "\<exists>w'. block_read (e2_parent fs) w b (e2_block_size fs) (get_sector_num fs blk) =
      Some (e2_block_size fs, blit b 0 (e2_data fs m blk), w') \<and> ext2_layout rd img inv fs m w'"
proof -
  have lay: "inv w" "img w = m" "bd_read (e2_parent fs) = Some rd" "block_size (e2_parent fs) = 512"
    "1024 \<le> unat (e2_block_size fs)" "unat (e2_block_size fs) \<le> 4096" "512 dvd unat (e2_block_size fs)"
    using assms(1) by (simp_all add: ext2_layout_def)
  have "0 < e2_block_size fs" "unat (e2_block_size fs) < 2147483648" "unat (512 :: u32) dvd unat (e2_block_size fs)"
    using lay(5-7) by (simp_all add: word_less_nat_alt)
  moreover have "unat (get_sector_num fs blk) * unat (512 :: u32) + unat (e2_block_size fs) \<le> length (img w)"
    using sector_of [OF assms(1,2)] assms(2) lay(2) by (simp add: e2_ok_def)
  ultimately obtain w' where "block_read (e2_parent fs) w b (e2_block_size fs) (get_sector_num fs blk) =
      Some (e2_block_size fs, blit b 0 (take (unat (e2_block_size fs))
        (drop (unat (get_sector_num fs blk) * unat (512 :: u32)) (img w))), w')" "inv w'" "img w' = img w"
    using block_read_image [OF lay(3,4,1) _ _ _ assms(3)] by blast
  then show ?thesis
    using assms(1) sector_of [OF assms(1,2)] lay(2) by (auto simp: e2_data_def ext2_layout_def)
qed

lemma read_block_fresh:
  assumes "ext2_layout rd img inv fs m w" "e2_ok fs m blk"
  shows "\<exists>w'. ext2_read_block fs blk w = Some (Some (e2_data fs m blk), w') \<and> ext2_layout rd img inv fs m w'"
proof -
  have B: "block_size (e2_parent fs) = 512" "unat (e2_block_size fs) \<le> 4096"
    using assms(1) by (simp_all add: ext2_layout_def)
  obtain w1 where w1: "block_read (e2_parent fs) w (replicate (unat (e2_block_size fs)) 0) (e2_block_size fs)
      (get_sector_num fs blk) = Some (e2_block_size fs, blit (replicate (unat (e2_block_size fs)) 0) 0 (e2_data fs m blk), w1)"
    "ext2_layout rd img inv fs m w1"
    using read_block [OF assms, of "replicate (unat (e2_block_size fs)) 0"] by auto
  have "blit (replicate (unat (e2_block_size fs)) 0) 0 (e2_data fs m blk) = e2_data fs m blk"
    using length_e2_data [OF assms(2)] by (simp add: blit_def)
  moreover have "\<not> sint (e2_block_size fs) < 0"
    using B(2) by (simp add: sint_small_u32)
  ultimately show ?thesis
    using w1 B(1) by (simp add: ext2_read_block_def)
qed

lemma pointers:
  assumes "ext2_layout rd img inv fs m w" "e2_descend_ok fs m blk ks" "\<forall>k \<in> set ks. k < unat (e2_block_size fs) div 4"
  shows "\<exists>w'. ext2_pointers fs blk (map word_of_nat ks) w = Some (Some (e2_descend fs m blk ks), w')
    \<and> ext2_layout rd img inv fs m w'"
  using assms
proof (induction ks arbitrary: blk w)
  case (Cons k ks)
  have ok: "e2_ok fs m blk" "e2_descend_ok fs m (e2_word fs m blk k) ks"
    using Cons.prems(2) by simp_all
  have B: "unat (e2_block_size fs) \<le> 4096"
    using Cons.prems(1) by (simp add: ext2_layout_def)
  have "Suc k \<le> unat (e2_block_size fs) div 4"
    using Cons.prems(3) by simp
  then have k: "4 * k + 4 \<le> unat (e2_block_size fs)"
    using mult_le_mono1 [of "Suc k" _ 4] div_times_less_eq_dividend [of "unat (e2_block_size fs)" 4] by fastforce
  then have uk: "unat (word_of_nat k :: u32) = k"
    using B by (simp add: unat_of_nat_u32)
  obtain w1 where w1: "ext2_read_block fs blk w = Some (Some (e2_data fs m blk), w1)" "ext2_layout rd img inv fs m w1"
    using read_block_fresh [OF Cons.prems(1) ok(1)] by blast
  have "4 * k + 4 \<le> length (e2_data fs m blk)"
    using k length_e2_data [OF ok(1)] by simp
  then obtain x where x: "read_word (e2_data fs m blk) (4 * k) = Some x"
    using read_word_Some_iff by blast
  then have "ext2_pointer fs blk (word_of_nat k) w = Some (Some (e2_word fs m blk k), w1)"
    using w1(1) uk by (simp add: ext2_pointer_def e2_word_def)
  moreover obtain w2 where "ext2_pointers fs (e2_word fs m blk k) (map word_of_nat ks) w1 =
      Some (Some (e2_descend fs m (e2_word fs m blk k) ks), w2)" "ext2_layout rd img inv fs m w2"
    using Cons.IH [OF w1(2) ok(2)] Cons.prems(3) by auto
  ultimately show ?case
    by simp
qed simp

lemma block_no:
  assumes "ext2_layout rd img inv fs m w" "length (i_db i) = 12" "idx < e2_max fs" "e2_mapped fs m i idx"
  shows "\<exists>w'. get_block_no_from_inode fs i (word_of_nat idx) add_blocks w = Some (e2_bmap fs m i idx, w')
    \<and> ext2_layout rd img inv fs m w'"
proof -
  obtain blk ks where r: "e2_route fs i idx = (blk, ks)"
    by force
  have "\<forall>k \<in> set ks. k < unat (e2_block_size fs) div 4"
    using e2_route_small [OF assms(3), of _ i] r by auto
  then obtain w' where "ext2_pointers fs blk (map word_of_nat ks) w = Some (Some (e2_descend fs m blk ks), w')"
    "ext2_layout rd img inv fs m w'"
    using pointers [OF assms(1), of blk ks] assms(4) r by (auto simp: e2_mapped_def)
  then show ?thesis
    using ext2_route_spec [OF assms(1,3,2)] r by (simp add: get_block_no_from_inode_def e2_bmap_def)
qed

end

section \<open>Reading a file\<close>

definition e2_content :: "'w ext2_fs \<Rightarrow> buf \<Rightarrow> ext2_inode \<Rightarrow> nat \<Rightarrow> buf" where
  "e2_content fs m i nb = concat (map (\<lambda>idx. e2_data fs m (e2_bmap fs m i idx)) [0..<nb])"

lemma e2_content_blocks:
  assumes "\<forall>idx < nb. e2_ok fs m (e2_bmap fs m i idx)"
  shows "length (e2_content fs m i nb) = nb * unat (e2_block_size fs)"
    and "idx < nb \<Longrightarrow> blk_of (unat (e2_block_size fs)) (e2_content fs m i nb) idx = e2_data fs m (e2_bmap fs m i idx)"
proof -
  let ?ds = "map (\<lambda>idx. e2_data fs m (e2_bmap fs m i idx)) [0..<nb]"
  have "\<forall>d \<in> set ?ds. length d = unat (e2_block_size fs)"
    using assms by (auto intro!: length_e2_data)
  then show "length (e2_content fs m i nb) = nb * unat (e2_block_size fs)"
    "idx < nb \<Longrightarrow> blk_of (unat (e2_block_size fs)) (e2_content fs m i nb) idx = e2_data fs m (e2_bmap fs m i idx)"
    using length_concat_blocks [of ?ds] blk_of_concat [of ?ds] by (simp_all add: e2_content_def)
qed

text \<open>The first nb blocks of the file, and the lookup after them, are in the image.\<close>

definition ext2_finv ::
  "'w bd_read_op \<Rightarrow> ('w \<Rightarrow> buf) \<Rightarrow> ('w \<Rightarrow> bool) \<Rightarrow> 'w ext2_fs \<Rightarrow> buf \<Rightarrow> ext2_inode \<Rightarrow> nat \<Rightarrow>
   vfs_file \<Rightarrow> ext2_inode option \<Rightarrow> nat \<Rightarrow> 'w \<Rightarrow> bool" where
  "ext2_finv rd img ok fs m i nb f c idx w \<longleftrightarrow>
     ext2_layout rd img ok fs m w \<and> c = Some i \<and> length (i_db i) = 12 \<and> nb < e2_max fs
     \<and> (\<forall>idx \<le> nb. e2_mapped fs m i idx) \<and> nb * unat (e2_block_size fs) < 2147483648"

locale ext2_file = ext2_device rd img inv
  for rd :: "'w bd_read_op" and img :: "'w \<Rightarrow> buf" and inv +
  fixes fs :: "'w ext2_fs" and m :: buf and i :: ext2_inode and nb :: nat
  assumes bs_min: "16 \<le> unat (e2_block_size fs)"
begin

lemma lookup:
  assumes "ext2_finv rd img inv fs m i nb f c idx0 w" "idx \<le> nb"
  shows "\<exists>w'. ext2_get_next_bdev_block_num fs (word_of_nat idx) f c False w =
      Some (get_sector_num fs (e2_bmap fs m i idx), f, c, w') \<and> ext2_finv rd img inv fs m i nb f c (Suc idx) w'"
    and "get_sector_num fs (e2_bmap fs m i idx) \<noteq> 0xffffffff" "e2_ok fs m (e2_bmap fs m i idx)"
proof -
  have f: "ext2_layout rd img inv fs m w" "c = Some i" "length (i_db i) = 12" "nb < e2_max fs" "e2_mapped fs m i idx"
    using assms by (simp_all add: ext2_finv_def)
  show ok: "e2_ok fs m (e2_bmap fs m i idx)"
    using f(5) by (simp add: e2_mapped_def)
  obtain w' where "get_block_no_from_inode fs i (word_of_nat idx) False w = Some (e2_bmap fs m i idx, w')"
    "ext2_layout rd img inv fs m w'"
    using block_no [OF f(1,3) _ f(5)] f(4) assms(2) by fastforce
  then show "\<exists>w'. ext2_get_next_bdev_block_num fs (word_of_nat idx) f c False w =
      Some (get_sector_num fs (e2_bmap fs m i idx), f, c, w') \<and> ext2_finv rd img inv fs m i nb f c (Suc idx) w'"
    using assms(1) f(1,2) by (auto simp: ext2_get_next_bdev_block_num_def ext2_finv_def ext2_layout_def)
  have "unat (get_sector_num fs (e2_bmap fs m i idx)) * 512 < 4294967296"
    using sector_of [OF f(1) ok] ok by (simp add: e2_ok_def)
  then show "get_sector_num fs (e2_bmap fs m i idx) \<noteq> 0xffffffff"
    by auto
qed

lemma content_facts:
  assumes "ext2_finv rd img inv fs m i nb f c idx0 w"
  shows "length (e2_content fs m i nb) = nb * unat (e2_block_size fs)"
    and "\<And>idx. idx < nb \<Longrightarrow> blk_of (unat (e2_block_size fs)) (e2_content fs m i nb) idx = e2_data fs m (e2_bmap fs m i idx)"
proof -
  have ok: "\<forall>idx < nb. e2_ok fs m (e2_bmap fs m i idx)"
    using lookup(3) [OF assms] by simp
  show "length (e2_content fs m i nb) = nb * unat (e2_block_size fs)"
    "\<And>idx. idx < nb \<Longrightarrow> blk_of (unat (e2_block_size fs)) (e2_content fs m i nb) idx = e2_data fs m (e2_bmap fs m i idx)"
    by (fact e2_content_blocks [OF ok])+
qed

end

sublocale ext2_file \<subseteq> reader: file_reader "ext2_get_next_bdev_block_num fs" "e2_parent fs" "e2_block_size fs"
    "e2_content fs m i nb" nb "ext2_finv rd img inv fs m i nb" "ext2_layout rd img inv fs m"
proof unfold_locales
  let ?finv = "ext2_finv rd img inv fs m i nb" and ?B = "unat (e2_block_size fs)"
  show "16 \<le> ?B"
    by (rule bs_min)
  fix f c idx w
  show "?finv (f\<lparr>f_pos := x\<rparr>) c idx w" if "?finv f c idx w" for x
    using that by (simp add: ext2_finv_def)
  show "length (e2_content fs m i nb) = nb * ?B \<and> nb * ?B < 2147483648" if "?finv f c idx w"
    using content_facts(1) [OF that] that by (simp add: ext2_finv_def)
  show lay: "ext2_layout rd img inv fs m w" if "?finv f c idx w" for f c idx w
    using that by (simp add: ext2_finv_def)
  have rd: "\<exists>w''. block_read (e2_parent fs) w' b (e2_block_size fs) (get_sector_num fs (e2_bmap fs m i idx)) =
      Some (e2_block_size fs, blit b 0 (e2_data fs m (e2_bmap fs m i idx)), w'') \<and> ?finv f' c' (Suc idx) w''"
    if "?finv f' c' (Suc idx) w'" "idx \<le> nb" "?B \<le> length b" for f' c' idx w' b
    using read_block [of fs m w' "e2_bmap fs m i idx" b] lookup(3) [OF that(1,2)] that
    by (auto simp: ext2_finv_def)
  show "\<exists>blk f' c' w'. ext2_get_next_bdev_block_num fs (word_of_nat nb) f c False w = Some (blk, f', c', w')
      \<and> same_file f f' \<and> ext2_layout rd img inv fs m w' \<and> (blk = 0xffffffff \<or> (\<forall>b. ?B \<le> length b \<longrightarrow> (\<exists>data w''.
        block_read (e2_parent fs) w' b (e2_block_size fs) blk =
          Some (e2_block_size fs, blit b 0 data, w'') \<and> length data = ?B \<and> ext2_layout rd img inv fs m w'')))"
    if f: "?finv f c nb w"
  proof -
    obtain w' where w': "ext2_get_next_bdev_block_num fs (word_of_nat nb) f c False w =
        Some (get_sector_num fs (e2_bmap fs m i nb), f, c, w')" "?finv f c (Suc nb) w'"
      using lookup(1) [OF f order.refl] by blast
    have "\<exists>data w''. block_read (e2_parent fs) w' b (e2_block_size fs) (get_sector_num fs (e2_bmap fs m i nb)) =
        Some (e2_block_size fs, blit b 0 data, w'') \<and> length data = ?B \<and> ext2_layout rd img inv fs m w''"
      if "?B \<le> length b" for b
      using rd [OF w'(2) order.refl that] length_e2_data [OF lookup(3) [OF f order.refl]] lay by blast
    then show ?thesis
      using w'(1) lay [OF w'(2)] same_file_refl(1) by blast
  qed
  show "\<exists>blk f' c' w'. ext2_get_next_bdev_block_num fs (word_of_nat idx) f c False w = Some (blk, f', c', w')
      \<and> blk \<noteq> 0xffffffff \<and> same_file f f' \<and> (\<forall>b. ?B \<le> length b \<longrightarrow> (\<exists>w''.
        block_read (e2_parent fs) w' b (e2_block_size fs) blk =
          Some (e2_block_size fs, blit b 0 (blk_of ?B (e2_content fs m i nb) idx), w'')
        \<and> ?finv f' c' (Suc idx) w''))"
    if f: "?finv f c idx w" and i: "idx < nb"
    using lookup(1,2) [OF f less_imp_le [OF i]] rd [OF _ less_imp_le [OF i]]
    unfolding content_facts(2) [OF f i] using same_file_refl(1) by blast
qed

context ext2_file
begin

lemma file_contract:
  "file_reader (ext2_get_next_bdev_block_num fs) (e2_parent fs) (e2_block_size fs)
    (e2_content fs m i nb) nb (ext2_finv rd img inv fs m i nb) (ext2_layout rd img inv fs m)"
  by (rule reader.file_reader_axioms)

end

text \<open>The block sizes of the format, on a ramdisk.\<close>

interpretation ramdisk_ext2: ext2_file "ramdisk_read rdev" "ramdisk_img rdev" "ramdisk_inv rdev"
    "fs\<lparr>e2_block_size := push_bit (k mod 3) 1024\<rparr>" m i nb for rdev fs k m i nb
proof unfold_locales
  have "k mod 3 \<in> {0, 1, 2}"
    by auto
  then show "16 \<le> unat (e2_block_size (fs\<lparr>e2_block_size := push_bit (k mod 3) 1024\<rparr>))"
    by (auto simp: push_bit_eq_mult)
qed

section \<open>Inodes of an image\<close>

definition e2_inode_block :: "'w ext2_fs \<Rightarrow> u32 \<Rightarrow> u32" where
  "e2_inode_block fs idx =
     the (read_word (bgdt fs) (32 * unat ((idx - 1) div inodes_per_group fs) + 8))
     + (idx - 1) mod inodes_per_group fs div (e2_block_size fs div inode_size fs)"

definition e2_inode_offset :: "'w ext2_fs \<Rightarrow> u32 \<Rightarrow> nat" where
  "e2_inode_offset fs idx =
     unat ((idx - 1) mod inodes_per_group fs mod (e2_block_size fs div inode_size fs)) * unat (inode_size fs)"

definition e2_inode :: "'w ext2_fs \<Rightarrow> buf \<Rightarrow> u32 \<Rightarrow> ext2_inode" where
  "e2_inode fs m idx =
     the (inode_of (take 128 (drop (e2_inode_offset fs idx) (e2_data fs m (e2_inode_block fs idx)))))"

definition e2_inode_ok :: "'w ext2_fs \<Rightarrow> buf \<Rightarrow> u32 \<Rightarrow> bool" where
  "e2_inode_ok fs m idx \<longleftrightarrow>
     inodes_per_group fs \<noteq> 0 \<and> 128 \<le> unat (inode_size fs) \<and> unat (inode_size fs) \<le> unat (e2_block_size fs)
     \<and> 32 * unat ((idx - 1) div inodes_per_group fs) + 12 \<le> length (bgdt fs)
     \<and> e2_ok fs m (e2_inode_block fs idx)"

lemma read_words_Some: "off + 4 * k \<le> length b \<Longrightarrow> \<exists>xs. read_words b off k = Some xs \<and> length xs = k"
proof (induction k arbitrary: off)
  case (Suc k)
  moreover obtain x where "read_word b off = Some x"
    using read_word_Some_iff [of b off] Suc.prems by fastforce
  moreover obtain xs where "read_words b (off + 4) k = Some xs" "length xs = k"
    using Suc.IH [of "off + 4"] Suc.prems by auto
  ultimately show ?case
    by simp
qed simp

lemma inode_of_Some: "length b = 128 \<Longrightarrow> \<exists>i. inode_of b = Some i \<and> length (i_db i) = 12"
  using read_words_Some [of 40 12 b] by (auto simp: inode_of_def read_word_eq read_halfword_eq)

context ext2_device
begin

lemma read_inode:
  assumes "ext2_layout rd img inv fs m w" "e2_inode_ok fs m idx"
  shows "\<exists>w'. ext2_read_inode fs idx w = Some (Some (e2_inode fs m idx), w') \<and> ext2_layout rd img inv fs m w'
    \<and> length (i_db (e2_inode fs m idx)) = 12"
proof -
  let ?g = "unat ((idx - 1) div inodes_per_group fs)" and ?ipb = "e2_block_size fs div inode_size fs"
    and ?B = "unat (e2_block_size fs)" and ?I = "unat (inode_size fs)"
  have ok: "inodes_per_group fs \<noteq> 0" "128 \<le> ?I" "?I \<le> ?B" "32 * ?g + 12 \<le> length (bgdt fs)"
    "e2_ok fs m (e2_inode_block fs idx)"
    using assms(2) by (simp_all add: e2_inode_ok_def)
  have B: "?B \<le> 4096"
    using assms(1) by (simp add: ext2_layout_def)
  have ipb: "unat ?ipb = ?B div ?I" "0 < ?B div ?I"
    using ok(2,3) by (simp_all add: unat_div div_greater_zero_iff)
  then have nz: "inode_size fs \<noteq> 0" "?ipb \<noteq> 0"
    using ok(2) by auto
  obtain start where start: "read_word (bgdt fs) (32 * ?g + 8) = Some start"
    using read_word_Some_iff [of "bgdt fs" "32 * ?g + 8"] ok(4) by (fastforce simp: add.assoc)
  obtain w1 where w1: "ext2_read_block fs (e2_inode_block fs idx) w =
      Some (Some (e2_data fs m (e2_inode_block fs idx)), w1)" "ext2_layout rd img inv fs m w1"
    using read_block_fresh [OF assms(1) ok(5)] by blast
  have data: "length (e2_data fs m (e2_inode_block fs idx)) = ?B"
    using length_e2_data [OF ok(5)] .
  let ?o = "(idx - 1) mod inodes_per_group fs mod ?ipb"
  have "unat ?o < ?B div ?I"
    using ipb by (simp add: unat_mod)
  then have "Suc (unat ?o) * ?I \<le> ?B div ?I * ?I"
    by (intro mult_le_mono1) simp
  then have o: "unat ?o * ?I + ?I \<le> ?B"
    using div_times_less_eq_dividend [of ?B ?I] by (simp only: mult_Suc)
  then have "unat (?o * inode_size fs) = e2_inode_offset fs idx"
    using B by (simp add: e2_inode_offset_def unat_mult_u32)
  moreover have room: "e2_inode_offset fs idx + 128 \<le> ?B"
    using o ok(2) by (simp add: e2_inode_offset_def)
  moreover obtain i where i: "inode_of (take 128 (drop (e2_inode_offset fs idx) (e2_data fs m (e2_inode_block fs idx)))) = Some i"
    "length (i_db i) = 12"
    using inode_of_Some [of "take 128 (drop (e2_inode_offset fs idx) (e2_data fs m (e2_inode_block fs idx)))"] data room
    by auto
  moreover have "start + (idx - 1) mod inodes_per_group fs div ?ipb = e2_inode_block fs idx"
    using start by (simp add: e2_inode_block_def)
  ultimately have "ext2_read_inode fs idx w = Some (Some i, w1)"
    using w1(1) start ok(1) nz data
    by (simp add: ext2_read_inode_def Let_def)
  then show ?thesis
    using w1(2) i by (simp add: e2_inode_def)
qed

end

text \<open>Reading a file: through direct, singly, doubly and triply indirect blocks
  alike, n bytes from the position of the stream are the bytes of the blocks that
  the block map of the file's inode names.\<close>

lemma ext2_fread_inode:
  assumes "disk rd 512 img ok" "ext2_layout rd img ok fs m w" "e2_inode_ok fs m (f_opaque f)"
    and "i = e2_inode fs m (f_opaque f)" "nb < e2_max fs" "\<forall>idx \<le> nb. e2_mapped fs m i idx"
    and "nb * unat (e2_block_size fs) < 2147483648"
    and "f_fs f = e2_id fs" "f_opaque f \<noteq> 0" "f_pos f = int pos" "0 < n"
    and "pos + n \<le> nb * unat (e2_block_size fs)" "n + k \<le> length b"
    and "k = 16 \<or> (addr + word_of_nat n) AND 0xf \<noteq> 0 \<or> (pos + n) mod unat (e2_block_size fs) \<noteq> 0"
  shows "\<exists>b' f' w'. fs_fread_op (ext2_fs_of reuse temp fs) b addr (word_of_nat n) f w =
      Some (word_of_nat n, b', f', w')
    \<and> take n b' = take n (drop pos (e2_content fs m i nb)) \<and> same_file (f\<lparr>f_pos := int (pos + n)\<rparr>) f'
    \<and> ext2_layout rd img ok fs m w' \<and> length b' = length b \<and> drop (n + k) b' = drop (n + k) b"
proof -
  have "16 \<le> unat (e2_block_size fs)"
    using assms(2) by (simp add: ext2_layout_def)
  then have fil: "ext2_file rd img ok fs" and dev: "ext2_device rd img ok"
    using assms(1) by (simp_all add: ext2_file_def ext2_device_def ext2_file_axioms_def)
  obtain w1 where w1: "ext2_read_inode fs (f_opaque f) w = Some (Some i, w1)" "ext2_layout rd img ok fs m w1"
    "length (i_db i) = 12"
    using ext2_device.read_inode [OF dev assms(2,3)] assms(4) by auto
  have "file_reader (ext2_get_next_bdev_block_num fs) (e2_parent fs) (e2_block_size fs)
      (e2_content fs m i nb) nb (ext2_finv rd img ok fs m i nb) (ext2_layout rd img ok fs m)"
    by (rule ext2_file.file_contract [OF fil])
  moreover have "ext2_finv rd img ok fs m i nb f (Some i) (pos div unat (e2_block_size fs)) w1"
    using w1 assms(5-7) by (simp add: ext2_finv_def)
  ultimately show ?thesis
    using file_reader.fs_fread_content [of "ext2_get_next_bdev_block_num fs" "e2_parent fs" "e2_block_size fs"
        "e2_content fs m i nb" nb "ext2_finv rd img ok fs m i nb" "ext2_layout rd img ok fs m" f "Some i" pos w1 n k b
        "\<lparr>ptr_addr = addr, temp_addr = temp\<rparr>"] w1(1) assms(8-14)
    by (auto simp: ext2_fs_of_def ext2_fread_def)
qed

text \<open>The entries that every directory begins with, of inodes x and y.\<close>

definition dot_entries :: "buf \<Rightarrow> buf \<Rightarrow> buf" where
  "dot_entries x y = x @ [12, 0, 1, 2, 46, 0, 0, 0] @ y @ [12, 0, 2, 2, 46, 46, 0, 0]"

lemma ext2_entries_dots:
  assumes "length x = 4" "length y = 4" "read_word x 0 = Some i1" "read_word y 0 = Some i2" "i1 \<noteq> 0" "i2 \<noteq> 0"
    and "24 \<le> sz" "type_flags_used fs"
  shows "ext2_entries False fs sz (dot_entries x y @ rest) 0 ([], False) w = None"
proof -
  obtain x0 x1 x2 x3 where x: "x = [x0, x1, x2, x3]"
    using assms(1) by (auto simp: length_Suc_conv numeral_eq_Suc)
  obtain y0 y1 y2 y3 where y: "y = [y0, y1, y2, y3]"
    using assms(2) by (auto simp: length_Suc_conv numeral_eq_Suc)
  let ?b = "dot_entries x y @ rest"
  have first: "read_word ?b 0 = Some i1" "read_halfword ?b 4 = Some 12" "read_halfword ?b 6 = Some 0x201"
    "get_byte ?b 7 = Some 2" "load ?b 8 1 = Some [46]"
    using assms(3) by (simp_all add: dot_entries_def x y read_word_def read_halfword_def)
  have second: "read_word ?b 12 = Some i2" "read_halfword ?b 16 = Some 12" "read_halfword ?b 18 = Some 0x202"
    "get_byte ?b 19 = Some 2"
    using assms(4) by (simp_all add: dot_entries_def x y read_word_def read_halfword_def)
  have "ext2_entries False fs sz ?b 12 ([], True) w = None"
    using second assms(6-8) by (subst ext2_entries.simps) simp
  then show ?thesis
    using first assms(5,7,8) by (subst ext2_entries.simps) (simp add: special_name_def lit_def)
qed

section \<open>A small volume\<close>

text \<open>Four blocks on a ramdisk: an unused one, the inode table, the data of the file
  of inode 3, and the root directory (inode 2); inode 4 is a file of holes.\<close>

definition sample_inode :: "buf \<Rightarrow> u8 \<Rightarrow> buf" where
  "sample_inode head db0 = head @ replicate 32 0 @ [db0, 0, 0, 0] @ replicate 84 0"

definition sample_e2_image :: buf where
  "sample_e2_image = replicate 1024 7
     @ (replicate 128 0 @ sample_inode [0xed, 0x41, 0, 0, 0, 4, 0, 0] 3
        @ sample_inode [0, 0x80, 0, 0, 3, 0, 0, 0] 2 @ sample_inode [0, 0x80, 0, 0, 3, 0, 0, 0] 0 @ replicate 512 0)
     @ ([1, 2, 3] @ replicate 1021 0)
     @ (dot_entries [2, 0, 0, 0] [2, 0, 0, 0] @ replicate 1000 0)"

definition sample_e2_disk :: ramdisk_dev where
  "sample_e2_disk = \<lparr>rd_address = 0, rd_size = 4096, rd_block_size = 512\<rparr>"

definition sample_e2 :: "buf ext2_fs" where
  "sample_e2 = \<lparr>e2_id = 1, e2_parent = ramdisk_device sample_e2_disk (lit ''rd''), e2_block_size = 1024,
     total_inodes = 8, total_blocks = 4, inode_size = 128, inodes_per_group = 8, blocks_per_group = 8192,
     total_groups = 1, major_version = 1, minor_version = 0, pointers_per_indirect_block = 256,
     pointers_per_indirect_block_2 = 65536, pointers_per_indirect_block_3 = 16777216,
     type_flags_used = True, bgdt = [0, 0, 0, 0, 0, 0, 0, 0, 1, 0, 0, 0] @ replicate 20 0\<rparr>"

lemma sample_e2_layout: "ext2_layout (ramdisk_read sample_e2_disk) (ramdisk_img sample_e2_disk)
    (ramdisk_inv sample_e2_disk) sample_e2 sample_e2_image sample_e2_image"
  by (simp add: ext2_layout_def sample_e2_def sample_e2_disk_def sample_e2_image_def ramdisk_device_def
      ramdisk_inv_def ramdisk_img_def sample_inode_def dot_entries_def)

lemma sample_e2_blocks:
  "length sample_e2_image = 4096"
  "e2_data sample_e2 sample_e2_image 1 = replicate 128 0 @ sample_inode [0xed, 0x41, 0, 0, 0, 4, 0, 0] 3
        @ sample_inode [0, 0x80, 0, 0, 3, 0, 0, 0] 2 @ sample_inode [0, 0x80, 0, 0, 3, 0, 0, 0] 0 @ replicate 512 0"
  "take 3 (e2_data sample_e2 sample_e2_image 2) = [1, 2, 3]"
  "e2_data sample_e2 sample_e2_image 3 = dot_entries [2, 0, 0, 0] [2, 0, 0, 0] @ replicate 1000 0"
  by (simp_all add: e2_data_def sample_e2_def sample_e2_image_def sample_inode_def dot_entries_def)

lemma sample_e2_ok: "unat blk < 4 \<Longrightarrow> e2_ok sample_e2 sample_e2_image blk"
  by (simp add: e2_ok_def sample_e2_blocks) (simp add: sample_e2_def)

lemma sample_inode_of:
  "length head = 8 \<Longrightarrow> \<exists>i. inode_of (sample_inode head db0) = Some i
    \<and> i_db i = ucast db0 # replicate 11 0 \<and> read_word head 4 = Some (i_size i)"
  by (auto simp: inode_of_def sample_inode_def length_Suc_conv numeral_eq_Suc read_word_def read_halfword_def)

lemma sample_e2_inodes:
  "e2_inode_ok sample_e2 sample_e2_image 2" "e2_inode_ok sample_e2 sample_e2_image 3"
  "e2_inode_ok sample_e2 sample_e2_image 4"
  "e2_inode sample_e2 sample_e2_image 2 = the (inode_of (sample_inode [0xed, 0x41, 0, 0, 0, 4, 0, 0] 3))"
  "e2_inode sample_e2 sample_e2_image 3 = the (inode_of (sample_inode [0, 0x80, 0, 0, 3, 0, 0, 0] 2))"
  "e2_inode sample_e2 sample_e2_image 4 = the (inode_of (sample_inode [0, 0x80, 0, 0, 3, 0, 0, 0] 0))"
proof -
  have blk: "e2_inode_block sample_e2 2 = 1" "e2_inode_block sample_e2 3 = 1" "e2_inode_block sample_e2 4 = 1"
    by (simp_all add: e2_inode_block_def sample_e2_def read_word_def)
  show "e2_inode_ok sample_e2 sample_e2_image 2" "e2_inode_ok sample_e2 sample_e2_image 3"
    "e2_inode_ok sample_e2 sample_e2_image 4"
    using sample_e2_ok [of 1] by (simp_all add: e2_inode_ok_def blk) (simp_all add: sample_e2_def)
  have off: "e2_inode_offset sample_e2 2 = 128" "e2_inode_offset sample_e2 3 = 256" "e2_inode_offset sample_e2 4 = 384"
    by (simp_all add: e2_inode_offset_def sample_e2_def)
  have len: "length (sample_inode [a, b, c, d, e, f, g, h] x) = 128" for a b c d e f g h x
    by (simp add: sample_inode_def)
  show "e2_inode sample_e2 sample_e2_image 2 = the (inode_of (sample_inode [0xed, 0x41, 0, 0, 0, 4, 0, 0] 3))"
    "e2_inode sample_e2 sample_e2_image 3 = the (inode_of (sample_inode [0, 0x80, 0, 0, 3, 0, 0, 0] 2))"
    "e2_inode sample_e2 sample_e2_image 4 = the (inode_of (sample_inode [0, 0x80, 0, 0, 3, 0, 0, 0] 0))"
    by (simp_all add: e2_inode_def blk off sample_e2_blocks len)
qed

lemma sample_e2_mapped:
  assumes "length (i_db i) = 12" "idx < 12" "unat (i_db i ! idx) < 4"
  shows "e2_mapped sample_e2 sample_e2_image i idx"
  using assms sample_e2_ok by (simp add: e2_mapped_def e2_bmap_def e2_route_def Let_def)

section \<open>Properties\<close>

text \<open>C29: Opening and reading a file of an ext2 volume: the length of the stream is the
  size field of the inode that the directory entry names, and n bytes read from it
  are the first n bytes of the blocks that the inode's tree of direct and indirect
  pointers maps, whatever the depth.\<close>

theorem ext2_open_and_read:
  assumes "disk rd 512 img ok" "ext2_layout rd img ok fs m w"
    and "de_fs d = e2_id fs" "de_opaque d \<noteq> 0" "e2_inode_ok fs m (de_opaque d)"
    and "i = e2_inode fs m (de_opaque d)" "nb < e2_max fs" "\<forall>idx \<le> nb. e2_mapped fs m i idx"
    and "nb * unat (e2_block_size fs) < 2147483648" "unat (i_size i) \<le> nb * unat (e2_block_size fs)"
    and "0 < n" "n \<le> unat (i_size i)" "n + 16 \<le> length b"
  shows "\<exists>f w1 b' f' w2. fs_fopen (ext2_fs_of reuse temp fs) (Some d) (lit ''r'') w = Some (Inr f, w1)
    \<and> f_len f = int (unat (i_size i))
    \<and> fread b addr 1 (word_of_nat n) (File_stream (ext2_fs_of reuse temp fs) f) w1 =
      Some (word_of_nat n, b', File_stream (ext2_fs_of reuse temp fs) f', w2)
    \<and> take n b' = take n (e2_content fs m i nb) \<and> f_pos f' = int n \<and> drop (n + 16) b' = drop (n + 16) b"
proof -
  have dev: "ext2_device rd img ok"
    using assms(1) by (simp add: ext2_device_def)
  obtain w1 where w1: "ext2_read_inode fs (de_opaque d) w = Some (Some i, w1)" "ext2_layout rd img ok fs m w1"
    using ext2_device.read_inode [OF dev assms(2,5)] assms(6) by auto
  have size: "sint (i_size i) = int (unat (i_size i))"
    using assms(9,10) by (intro sint_small_u32) simp
  let ?f = "\<lparr>f_fs = e2_id fs, f_pos = 0, f_mode = 0, f_opaque = de_opaque d,
      f_len = int (unat (i_size i)), f_flags = 0\<rparr>"
  have fopen: "fs_fopen (ext2_fs_of reuse temp fs) (Some d) (lit ''r'') w = Some (Inr ?f, w1)"
    using w1(1) size assms(3) by (simp add: ext2_fs_of_def ext2_fopen_def)
  obtain b' f' w2 where rd: "fs_fread_op (ext2_fs_of reuse temp fs) b addr (word_of_nat n) ?f w1 =
      Some (word_of_nat n, b', f', w2)"
    "take n b' = take n (drop 0 (e2_content fs m i nb))" "f_pos f' = int (0 + n)" "drop (n + 16) b' = drop (n + 16) b"
    using ext2_fread_inode [OF assms(1) w1(2), of ?f i nb 0 n 16 b addr reuse temp] assms(4-13)
    by (auto dest: same_file_fields)
  have "fread b addr 1 (word_of_nat n) (File_stream (ext2_fs_of reuse temp fs) ?f) w1 =
      Some (word_of_nat n, b', File_stream (ext2_fs_of reuse temp fs) f', w2)"
    using assms(9,10,12) rd(1) by (intro fread_bytes [of _ "unat (i_size i)" 0]) auto
  then show ?thesis
    using fopen rd by auto
qed

theorem ext2_open_and_read_witness:
  "\<exists>f w1 b' f' w2. fs_fopen (ext2_fs_of True 0 sample_e2) (Some (sample_entry\<lparr>de_opaque := 3\<rparr>)) (lit ''r'')
      sample_e2_image = Some (Inr f, w1) \<and> f_len f = 3
    \<and> fread (replicate 20 0) 0 1 3 (File_stream (ext2_fs_of True 0 sample_e2) f) w1 =
      Some (3, b', File_stream (ext2_fs_of True 0 sample_e2) f', w2) \<and> take 3 b' = [1, 2, 3]"
proof -
  let ?d = "sample_entry\<lparr>de_opaque := 3\<rparr>" and ?i = "e2_inode sample_e2 sample_e2_image 3"
  obtain j where j: "inode_of (sample_inode [0, 0x80, 0, 0, 3, 0, 0, 0] 2) = Some j" "i_db j = 2 # replicate 11 0"
    "i_size j = 3"
    using sample_inode_of [of "[0, 0x80, 0, 0, 3, 0, 0, 0]" 2] by (auto simp: read_word_def)
  then have i: "?i = j"
    by (simp add: sample_e2_inodes)
  have d: "de_fs ?d = e2_id sample_e2" "de_opaque ?d \<noteq> 0" "e2_inode_ok sample_e2 sample_e2_image (de_opaque ?d)"
    "?i = e2_inode sample_e2 sample_e2_image (de_opaque ?d)"
    using sample_e2_inodes(2) by (simp_all add: sample_entry_def sample_e2_def)
  have mapped: "\<forall>idx \<le> 1. e2_mapped sample_e2 sample_e2_image ?i idx"
    unfolding i by (intro allI impI sample_e2_mapped) (auto simp: j(2) le_Suc_eq)
  have fs: "(1 :: nat) < e2_max sample_e2" "unat (e2_block_size sample_e2) = 1024"
    by (simp_all add: e2_max_def sample_e2_def Let_def)
  have "take 3 (e2_content sample_e2 sample_e2_image ?i 1) = [1, 2, 3]"
    using sample_e2_blocks(3) by (simp add: e2_content_def e2_bmap_def e2_route_def Let_def i j(2))
  then show ?thesis
    using ext2_open_and_read [OF ramdisk.disk_axioms sample_e2_layout d fs(1) mapped, of 3 "replicate 20 0" True 0 0]
    by (auto simp: fs(2) i j(3))
qed





end
