(* ===== verification/LibFs.thy ===== *)
theory LibFs
  imports Ext2 Strtol
begin

text \<open>
  The start of the file systems (libfs.c) and the two allocators of heap.c.
  \<open>register_fs\<close> chooses a file system by the partition type, or tries the master
  boot record and the known file systems in turn, and mounts what it finds;
  \<open>read_mbr\<close> calls it back for every partition.  The recursion of the code is
  bounded, because a partition entry in use never has type 0: the model unrolls it
  twice, and the lemma \<open>register_fs_rec\<close> shows that the result satisfies the
  recursive equation of the code.  The SD card driver is an argument: the device it
  finds, if it finds one.
\<close>

section \<open>Memory for buffers (heap.c)\<close>

record heap =
  cur_brk :: u32
  cur_buf :: u32

text \<open>\<open>start\<close> and \<open>prog_end\<close> are the addresses of the linker symbols.\<close>

definition MAX_BRK :: "u32 \<Rightarrow> u32" where "MAX_BRK start = start - 0x8000 + 0xf0000"

definition MAX_BUF :: u32 where "MAX_BUF = 0x100000"

definition heap_start :: "u32 \<Rightarrow> heap" where
  "heap_start start = \<lparr>cur_brk = 0, cur_buf = MAX_BRK start\<rparr>"

definition alloc_buf :: "u32 \<Rightarrow> heap \<Rightarrow> u32 \<times> heap" where
  "alloc_buf sz h =
     (let old_buf = cur_buf h;
          nb = old_buf + sz
      in if nb > MAX_BUF then (0, h)
         else (old_buf, h\<lparr>cur_buf := if nb AND 0x1ff \<noteq> 0 then (nb AND NOT 0x1ff) + 0x200 else nb\<rparr>))"

definition sbrk :: "u32 \<Rightarrow> u32 \<Rightarrow> u32 \<Rightarrow> heap \<Rightarrow> u32 \<times> heap" where
  "sbrk start prog_end increment h =
     (let brk = (if cur_brk h = 0
                 then if prog_end AND 0xfff \<noteq> 0 then (prog_end AND 0xfffff000) + 0x1000 else prog_end
                 else cur_brk h)
      in if brk + increment \<ge> MAX_BRK start then (-1, h\<lparr>cur_brk := brk\<rparr>)
         else (brk, h\<lparr>cur_brk := brk + increment\<rparr>))"

section \<open>Mounting\<close>

text \<open>What a mount depends on besides the device: the addresses of temporary
  buffers and of the end mark of nofs, and the behaviour of the allocator.\<close>

record mount_env =
  me_temp :: u32
  me_mark :: u32
  me_reuse :: bool

text \<open>The registry, and the identity of the next file system structure.\<close>

record 'w mounts =
  m_vfs :: "'w vfs"
  m_next :: nat

definition fat_ids :: "int list" where
  "fat_ids = [1, 4, 6, 0xb, 0xc, 0xe, 0x11, 0x14, 0x1b, 0x1c, 0x1e]"

definition mount_fat ::
  "mount_env \<Rightarrow> nat \<Rightarrow> 'w block_device \<Rightarrow> 'w \<Rightarrow> ('w fs option \<times> 'w) option" where
  "mount_fat env fsid dev w =
     map_option (\<lambda>(r, fat, w). (if r = 0 then map_option (fat_fs_of (me_temp env)) fat else None, w))
       (fat_init fsid dev w)"

definition mount_ext2 ::
  "mount_env \<Rightarrow> nat \<Rightarrow> 'w block_device \<Rightarrow> 'w \<Rightarrow> ('w fs option \<times> 'w) option" where
  "mount_ext2 env fsid dev w =
     map_option (\<lambda>(r, e, w). (if r = 0 then map_option (ext2_fs_of (me_reuse env) (me_temp env)) e else None, w))
       (ext2_init fsid dev w)"

text \<open>The body of \<open>register_fs\<close>; \<open>reg\<close> is the function \<open>read_mbr\<close> calls back.  The
  first component found is what the code leaves in \<open>dev->fs\<close>.\<close>

definition register_fs_body ::
  "('w, 'w mounts) register \<Rightarrow> mount_env \<Rightarrow> ('w, 'w mounts) register" where
  "register_fs_body reg env dev pid s = do {
     (f, w, ms) \<leftarrow>
       (if pid = 0 then do {
          (r, _, w, ms) \<leftarrow> read_mbr reg True (replicate 512 0) (Some dev) s;
          if r = 0 then Some (None, w, ms)
          else do {
            (f, w) \<leftarrow> mount_fat env (m_next ms) dev w;
            if f \<noteq> None then Some (f, w, ms)
            else do {
              (f, w) \<leftarrow> mount_ext2 env (m_next ms) dev w;
              Some (f, w, ms) } } }
        else if pid \<in> set fat_ids then
          map_option (\<lambda>(f, w). (f, w, snd s)) (mount_fat env (m_next (snd s)) dev (fst s))
        else if pid = 0x83 then
          map_option (\<lambda>(f, w). (f, w, snd s)) (mount_ext2 env (m_next (snd s)) dev (fst s))
        else if pid = 0xda then
          Some (Some (nofs_init (m_next (snd s)) (me_temp env) (me_mark env) dev), fst s, snd s)
        else Some (None, fst s, snd s));
     (case f of
        Some f \<Rightarrow> Some (0, w, \<lparr>m_vfs = snd (vfs_register (Some f) (m_vfs ms)), m_next = m_next ms + 1\<rparr>)
      | None \<Rightarrow> Some (-1, w, ms)) }"

definition register_fs :: "mount_env \<Rightarrow> ('w, 'w mounts) register" where
  "register_fs env = register_fs_body (register_fs_body (\<lambda>_ _ _. None) env) env"

section \<open>Start\<close>

text \<open>An uncached device in the world of the cached one.\<close>

definition uncached :: "'w block_device \<Rightarrow> ('w \<times> cache_state) block_device" where
  "uncached p =
     \<lparr>driver_name = driver_name p, device_name = device_name p, device_id = device_id p,
      dev_id_len = dev_id_len p, supports_multiple_block_read = supports_multiple_block_read p,
      supports_multiple_block_write = supports_multiple_block_write p,
      bd_read = map_option (\<lambda>rd s n blk. map_option (\<lambda>(r, d, w). (r, d, (w, snd s))) (rd (fst s) n blk)) (bd_read p),
      bd_write = map_option (\<lambda>wr s b n blk. map_option (\<lambda>(r, w). (r, (w, snd s))) (wr (fst s) b n blk)) (bd_write p),
      block_size = block_size p, num_blocks = num_blocks p\<rparr>"

definition no_cache :: cache_state where
  "no_cache = \<lparr>cache_mem = [], cached_blocks = []\<rparr>"

definition BLOCK_CACHE_SIZE :: u32 where "BLOCK_CACHE_SIZE = 0x4000"

text \<open>\<open>libfs_init\<close>: \<open>sd\<close> is the device \<open>sd_card_init\<close> finds, \<open>mem\<close> what the memory
  given to the cache holds and \<open>al\<close> whether read buffers are 16-aligned.\<close>

definition libfs_init ::
  "mount_env \<Rightarrow> bool \<Rightarrow> bool \<times> bool \<times> bool \<Rightarrow> 'w block_device option \<Rightarrow> buf \<Rightarrow>
   'w \<Rightarrow> heap \<Rightarrow> ('w \<times> cache_state) mounts \<Rightarrow> (heap \<times> ('w \<times> cache_state) \<times> ('w \<times> cache_state) mounts) option" where
  "libfs_init env al alloc sd mem w h ms =
     (case sd of
        None \<Rightarrow> Some (h, (w, no_cache), ms)
      | Some p \<Rightarrow> do {
          let (cache_start, h) = alloc_buf BLOCK_CACHE_SIZE h;
          (c_dev, c) \<leftarrow>
            (if cache_start = 0 then Some (uncached p, no_cache)
             else do {
               (_, cd) \<leftarrow> cache_init alloc (Some p) True cache_start BLOCK_CACHE_SIZE mem;
               Some (case cd of None \<Rightarrow> (uncached p, no_cache) | Some (cd, c) \<Rightarrow> (cache_device al cd, c)) });
          (_, _, s) \<leftarrow> read_mbr (register_fs env) True (replicate 512 0) (Some c_dev) ((w, c), ms);
          Some (h, s) })"

section \<open>The recursion through the master boot record\<close>

lemma mbr_entry_id: "mbr_entry p b adj i = Some (Inr (Some d)) \<Longrightarrow> part_id d \<noteq> 0"
  by (auto simp: mbr_entry_def Let_def split: if_splits)

lemma mbr_loop_cong:
  assumes "\<And>dev pid s. pid \<noteq> 0 \<Longrightarrow> reg dev pid s = reg' dev pid s"
  shows "mbr_loop reg p b adj js parts s = mbr_loop reg' p b adj js parts s"
proof (induction js arbitrary: parts s)
  case (Cons i js)
  have eq: "reg (mbr_device d) (uint (part_id d)) s = reg' (mbr_device d) (uint (part_id d)) s"
    if "mbr_entry p b adj i = Some (Inr (Some d))" for d s
    using mbr_entry_id [OF that] by (intro assms) (simp add: uint_0_iff)
  show ?case
    unfolding mbr_loop.simps Cons.IH by (auto simp: eq split: option.splits sum.splits)
qed simp

lemma read_mbr_cong:
  assumes "\<And>dev pid s. pid \<noteq> 0 \<Longrightarrow> reg dev pid s = reg' dev pid s"
  shows "read_mbr reg alloc b0 p s = read_mbr reg' alloc b0 p s"
proof -
  have "mbr_loop reg p b adj js parts s = mbr_loop reg' p b adj js parts s" for p b adj js parts s
    using assms by (rule mbr_loop_cong)
  then show ?thesis
    unfolding read_mbr_def by presburger
qed

lemma register_fs_body_cong:
  assumes "\<And>dev pid s. pid \<noteq> 0 \<Longrightarrow> reg dev pid s = reg' dev pid s"
  shows "register_fs_body reg env dev pid s = register_fs_body reg' env dev pid s"
proof -
  have "read_mbr reg alloc b0 p s = read_mbr reg' alloc b0 p s" for alloc b0 p s
    using assms by (rule read_mbr_cong)
  then show ?thesis
    unfolding register_fs_body_def by presburger
qed

lemma register_fs_body_nonzero:
  "pid \<noteq> 0 \<Longrightarrow> register_fs_body reg env dev pid s = register_fs_body reg' env dev pid s"
  by (simp add: register_fs_body_def)

lemma register_fs_rec: "register_fs env dev pid s = register_fs_body (register_fs env) env dev pid s"
  unfolding register_fs_def by (intro register_fs_body_cong register_fs_body_nonzero)

section \<open>Mounting a partition\<close>

lemma find_registered:
  "find_ve (v_entries (snd (vfs_register (Some f) v))) (device_name (fs_parent f)) =
    Some \<lparr>ve_name = device_name (fs_parent f), ve_fs = f\<rparr>"
  and default_registered:
  "v_def v = None \<Longrightarrow> v_def (snd (vfs_register (Some f) v)) = Some \<lparr>ve_name = device_name (fs_parent f), ve_fs = f\<rparr>"
  by (simp_all add: vfs_register_def vfs_add_def Let_def)

text \<open>A partition of a FAT type, on a device with an image: it is mounted under its
  name, and the volume has the layout that the reader asks for.\<close>

lemma register_fs_fat:
  assumes "disk rd 512 img ok" "ok w" "bd_read dev = Some rd" "block_size dev = 512"
    and "512 \<le> length (img w)" "img w ! 0 = 0xeb"
    and "fat_boot_sector (take 512 (img w)) = Some bs" "bs_bytes_per_sector bs = 512" "bs_sectors_per_cluster bs \<noteq> 0"
    and "fat_label_ends (img w)" "pid \<in> set fat_ids"
  shows "\<exists>fat label w' ms'. register_fs env dev pid (w, ms) = Some (0, w', ms')
    \<and> fat_geometry (m_next ms) dev bs = Some fat \<and> ok w' \<and> img w' = img w
    \<and> m_vfs ms' = snd (vfs_register (Some (fat_fs_of (me_temp env) (fat\<lparr>vol_label := label\<rparr>))) (m_vfs ms))
    \<and> fat_parent fat = dev
    \<and> (fat_type fat \<noteq> FAT12 \<longrightarrow> fat_layout rd img ok (fat\<lparr>vol_label := label\<rparr>) (img w) w')"
proof -
  obtain fat label w' where fat: "fat_geometry (m_next ms) dev bs = Some fat"
    "fat_init (m_next ms) dev w = Some (0, Some (fat\<lparr>vol_label := label\<rparr>), w')" "ok w'" "img w' = img w"
    "fat_type fat \<noteq> FAT12 \<longrightarrow> fat_layout rd img ok (fat\<lparr>vol_label := label\<rparr>) (img w) w'"
    using fat_init_ok [OF assms(1-10), of "m_next ms"] by blast
  let ?f = "fat_fs_of (me_temp env) (fat\<lparr>vol_label := label\<rparr>)"
  have pid: "pid \<noteq> 0" "pid \<in> set fat_ids"
    using assms(11) by (auto simp: fat_ids_def)
  have parent: "fat_parent fat = dev"
    using fat(1) by (auto simp: fat_geometry_def Let_def split: if_splits)
  have "register_fs env dev pid (w, ms) =
      Some (0, w', \<lparr>m_vfs = snd (vfs_register (Some ?f) (m_vfs ms)), m_next = m_next ms + 1\<rparr>)"
    using pid fat(2) by (simp add: register_fs_rec [of env] register_fs_body_def mount_fat_def)
  then show ?thesis
    using fat parent by (intro exI [of _ fat] exI [of _ label] exI [of _ w']) auto
qed

section \<open>From the card to a file\<close>

text \<open>The one entry in use of the table of a card, and the contents of its partition.\<close>

definition card_part :: "buf \<Rightarrow> nat \<Rightarrow> buf" where
  "card_part m i = take (unat (mbr_blocks m i) * 512) (drop (unat (mbr_start m i) * 512) m)"

definition fat_card :: "buf \<Rightarrow> nat \<Rightarrow> fat_bs \<Rightarrow> bool" where
  "fat_card m i bs \<longleftrightarrow>
     512 \<le> length m \<and> mbr_signature m \<and> filter (mbr_used m) [0, 1, 2, 3] = [i]
     \<and> uint (m ! (0x1be + i * 0x10 + 4)) \<in> set fat_ids
     \<and> (unat (mbr_start m i) + unat (mbr_blocks m i)) * 512 \<le> length m
     \<and> 512 \<le> length (card_part m i) \<and> card_part m i ! 0 = 0xeb
     \<and> fat_boot_sector (take 512 (card_part m i)) = Some bs
     \<and> bs_bytes_per_sector bs = 512 \<and> bs_sectors_per_cluster bs \<noteq> 0 \<and> fat_label_ends (card_part m i)"

text \<open>An entry d of a volume: its path of directories, its name and the clusters of
  its contents.\<close>

definition fat_file_at ::
  "'w fat_fs \<Rightarrow> buf \<Rightarrow> cstring list \<Rightarrow> cstring \<Rightarrow> dirent \<Rightarrow> u32 list \<Rightarrow> bool" where
  "fat_file_at fat m dirs name d cs \<longleftrightarrow>
     list_all (\<lambda>d. plain_name d \<and> d \<noteq> []) dirs \<and> plain_name name \<and> name \<noteq> [] \<and> hd (dirs @ [name]) \<noteq> lit '':''
     \<and> (\<exists>rcs es. fat_chain fat m (root_dir_cluster fat) rcs \<and> rcs \<noteq> [] \<and> 0x0ffffff7 \<notin> set rcs
         \<and> fat_path fat m (fat_listing (fat_id fat) (fat_content fat m rcs)) dirs es
         \<and> find (\<lambda>d. de_name d = name) es = Some d)
     \<and> fat_chain fat m (de_opaque d) cs \<and> length cs * unat (fat_block_size fat) < 2147483648
     \<and> unat (de_byte_size d) \<le> length cs * unat (fat_block_size fat)"

lemma filter_used_cong:
  assumes "512 \<le> length m"
  shows "i < 4 \<Longrightarrow> mbr_used (take 512 m) i = mbr_used m i"
    and "i < 4 \<Longrightarrow> mbr_start (take 512 m) i = mbr_start m i"
    and "i < 4 \<Longrightarrow> mbr_blocks (take 512 m) i = mbr_blocks m i"
    and "mbr_signature (take 512 m) = mbr_signature m"
  using assms by (auto simp: mbr_used_def mbr_start_def mbr_blocks_def mbr_signature_def read_word_eq)

lemma fat_card_entry: "fat_card m i bs \<Longrightarrow> i < 4"
proof -
  assume "fat_card m i bs"
  then have "filter (mbr_used m) [0, 1, 2, 3] = [i]"
    by (simp add: fat_card_def)
  then have "i \<in> set (filter (mbr_used m) [0, 1, 2, 3])"
    by (simp only:) simp
  then have "i \<in> set [0, 1, 2, 3]"
    unfolding set_filter by blast
  then show "i < 4"
    by auto
qed

text \<open>Reading the table of a card with one FAT partition: one volume more, under the
  name of the partition.\<close>

lemma read_mbr_fat_card:
  assumes "rw_disk rd 512 img ok wr" "bd_read dev = Some rd" "bd_write dev = Some wr" "block_size dev = 512"
    and "ok w" "fat_card (img w) i bs" "d = mbr_part dev (take 512 (img w)) 1 i"
  shows "\<exists>pre post fat label parts w' ms'.
    read_mbr (register_fs env) True (replicate 512 0) (Some dev) (w, ms) = Some (0, Some parts, w', ms')
    \<and> disk (mbr_read d) 512 (part_img d 512 img) (part_inv d rd wr 512 img ok pre post)
    \<and> fat_geometry (m_next ms) (mbr_device d) bs = Some fat \<and> img w' = img w
    \<and> fat_parent fat = mbr_device d \<and> device_name (mbr_device d) = device_name dev @ [95, 48 + word_of_nat i]
    \<and> m_vfs ms' = snd (vfs_register (Some (fat_fs_of (me_temp env) (fat\<lparr>vol_label := label\<rparr>))) (m_vfs ms))
    \<and> (\<forall>w''. part_inv d rd wr 512 img ok pre post w'' \<longrightarrow> part_img d 512 img w'' = card_part (img w) i \<longrightarrow> img w'' = img w)
    \<and> (fat_type fat \<noteq> FAT12 \<longrightarrow> fat_layout (mbr_read d) (part_img d 512 img) (part_inv d rd wr 512 img ok pre post)
          (fat\<lparr>vol_label := label\<rparr>) (card_part (img w) i) w')"
proof -
  let ?m = "img w" and ?b = "take 512 (img w)"
  have card: "512 \<le> length ?m" "mbr_signature ?m" "filter (mbr_used ?m) [0, 1, 2, 3] = [i]"
    "(unat (mbr_start ?m i) + unat (mbr_blocks ?m i)) * 512 \<le> length ?m"
    "uint (?m ! (0x1be + i * 0x10 + 4)) \<in> set fat_ids"
    using assms(6) by (simp_all add: fat_card_def)
  have i: "i < 4"
    using assms(6) by (rule fat_card_entry)
  obtain w1 where w1: "block_read dev w (replicate 512 0) 512 0 = Some (512, blit (replicate 512 0) 0 ?b, w1)"
    "ok w1" "img w1 = img w"
    using disk.block_read_image [OF rw_disk.axioms(1) [OF assms(1)] assms(2,4,5), of 512 "replicate 512 0" 0] card(1) by auto
  have blk: "blit (replicate 512 0) 0 ?b = ?b"
    using card(1) by (simp add: blit_def)
  note eq = filter_used_cong [OF card(1)]
  have used: "filter (mbr_used ?b) [0, 1, 2, 3] = [i]"
    using card(3) eq(1) by (simp split: if_splits)
  define pre where "pre = take (unat (start_block d) * 512) ?m"
  define post where "post = drop ((unat (start_block d) + unat (blocks d)) * 512) ?m"
  have d: "mbr_parent d = dev" "start_block d = mbr_start ?m i" "blocks d = mbr_blocks ?m i" "part_no d = i"
    "uint (part_id d) \<in> set fat_ids"
    using card(1,5) i by (simp_all add: assms(7) mbr_part_def eq)
  let ?img = "part_img d 512 img" and ?ok = "part_inv d rd wr 512 img ok pre post"
  have disk: "disk (mbr_read d) 512 ?img ?ok"
    using assms(1) by (intro rw_disk.axioms(1) [OF partition.part_contract] partition.intro)
  have ok: "?ok w1"
    using part_inv_start [of ok w1 d rd wr 512 img] w1(2,3) card(4) assms(2,3)
    by (simp add: d pre_def post_def)
  have img: "?img w1 = card_part ?m i"
    by (simp add: part_img_def card_part_def d w1(3))
  have dev: "bd_read (mbr_device d) = Some (mbr_read d)" "block_size (mbr_device d) = 512"
    "device_name (mbr_device d) = device_name dev @ [95, 48 + word_of_nat i]"
    using assms(4) by (simp_all add: mbr_device_def Let_def d)
  obtain fat label w' ms' where reg: "register_fs env (mbr_device d) (uint (part_id d)) (w1, ms) = Some (0, w', ms')"
    "fat_geometry (m_next ms) (mbr_device d) bs = Some fat" "?ok w'" "?img w' = ?img w1"
    "m_vfs ms' = snd (vfs_register (Some (fat_fs_of (me_temp env) (fat\<lparr>vol_label := label\<rparr>))) (m_vfs ms))"
    "fat_parent fat = mbr_device d"
    "fat_type fat \<noteq> FAT12 \<longrightarrow> fat_layout (mbr_read d) ?img ?ok (fat\<lparr>vol_label := label\<rparr>) (?img w1) w'"
    using register_fs_fat [OF disk ok dev(1,2), of bs "uint (part_id d)" env ms] assms(6) d(5)
    unfolding img fat_card_def by blast
  have "read_mbr (register_fs env) True (replicate 512 0) (Some dev) (w, ms) = Some (0, Some [d], w', ms')"
    using read_mbr_spec [OF w1(1) [unfolded blk], of 1 "[d]" "register_fs env" ms] used card(1,2) assms(4,7) eq(4) reg(1)
    by (simp add: mbr_aligned_def)
  moreover have "img w' = img w"
    using reg(3,4) ok w1(3) by (simp add: part_inv_def)
  moreover have "\<forall>w''. ?ok w'' \<longrightarrow> ?img w'' = card_part ?m i \<longrightarrow> img w'' = img w"
    using ok w1(3) unfolding part_inv_def img by simp
  ultimately show ?thesis
    using disk reg(2,5-7) dev(3) unfolding img by (intro exI conjI) auto
qed

lemma fat_file_at_read:
  assumes "disk rd 512 img ok" "fat_layout rd img ok fat m w"
    and "fat_type fat = FAT32" "first_data_sector fat = first_non_root_sector fat"
    and "find_ve (v_entries v) dev = Some ve" "ve_fs ve = fat_fs_of temp fat" "plain_name dev"
    and "fat_file_at fat m dirs name d cs"
    and "0 < n" "n \<le> unat (de_byte_size d)" "n + 16 \<le> length b"
  shows "\<exists>f w1 b' f' w2.
    fopen v (Some (40 # dev @ 41 # comp_path (dirs @ [name]))) (lit ''r'') w =
      Some (Inr (File_stream (ve_fs ve) f), w1)
    \<and> fread b addr 1 (word_of_nat n) (File_stream (ve_fs ve) f) w1 =
      Some (word_of_nat n, b', File_stream (ve_fs ve) f', w2)
    \<and> take n b' = take n (fat_content fat m cs)"
proof -
  obtain rcs es where path: "fat_chain fat m (root_dir_cluster fat) rcs" "rcs \<noteq> []" "0x0ffffff7 \<notin> set rcs"
    "fat_path fat m (fat_listing (fat_id fat) (fat_content fat m rcs)) dirs es"
    "find (\<lambda>d. de_name d = name) es = Some d"
    using assms(8) by (auto simp: fat_file_at_def)
  have names: "list_all (\<lambda>d. plain_name d \<and> d \<noteq> []) dirs" "plain_name name" "name \<noteq> []" "hd (dirs @ [name]) \<noteq> lit '':''"
    and chain: "fat_chain fat m (de_opaque d) cs" "length cs * unat (fat_block_size fat) < 2147483648"
      "unat (de_byte_size d) \<le> length cs * unat (fat_block_size fat)"
    using assms(8) by (simp_all add: fat_file_at_def)
  show ?thesis
    using fat_read_by_path [OF assms(1-4) path(1-3) assms(5-7) names path(4,5) chain assms(9-11), of addr] by blast
qed

lemma plain_name_entry: "plain_name n \<Longrightarrow> i < 4 \<Longrightarrow> plain_name (n @ [95, 48 + word_of_nat i])"
proof -
  assume "plain_name n" "i < 4"
  moreover from this have "i = 0 \<or> i = 1 \<or> i = 2 \<or> i = 3"
    by auto
  ultimately show ?thesis
    by (auto simp: plain_name_def)
qed

section \<open>A small card\<close>

definition sample_boot :: buf where
  "sample_boot = [0xeb, 0, 0, 0, 0, 0, 0, 0, 0, 0, 0, 0, 2, 1, 1, 0, 1, 0, 0, 0, 0, 0, 0, 0, 0, 0, 0, 0, 0, 0, 0, 0,
     0, 0, 2, 0, 1, 0, 0, 0, 0, 0, 0, 0, 2, 0, 0, 0] @ replicate 464 0"

definition sample_table :: buf where
  "sample_table = replicate 450 0 @ [0x0b, 0, 0, 0, 1, 0, 0, 0, 5, 0, 0, 0] @ replicate 48 0 @ [0x55, 0xaa]"

definition sample_card :: buf where
  "sample_card = sample_table @ sample_boot @ sample_image"

definition sample_bs :: fat_bs where
  "sample_bs = \<lparr>bs_bytes_per_sector = 512, bs_sectors_per_cluster = 1, bs_reserved = 1, bs_table_count = 1,
     bs_root_entries = 0, bs_total_16 = 0, bs_table_size_16 = 0, bs_total_32 = 0x20000, bs_table_size_32 = 1,
     bs_root_cluster = 2\<rparr>"

definition sample_volume :: "'w block_device \<Rightarrow> buf \<Rightarrow> 'w fat_fs" where
  "sample_volume dev label = \<lparr>fat_id = 1, fat_parent = dev, fat_block_size = 512,
     fat_type = FAT32, total_sectors = 0x20000, sectors_per_cluster = 1, bytes_per_sector = 512, vol_label = label,
     first_fat_sector = 1, first_data_sector = 2, sectors_per_fat = 1, root_dir_entries = 0,
     root_dir_sectors = 0, first_non_root_sector = 2, root_dir_cluster = 2\<rparr>"

lemma sample_lengths: "length sample_boot = 512" "length sample_table = 512"
  by (simp_all add: sample_boot_def sample_table_def)

lemma sample_entry_0: "mbr_start sample_card 0 = 1" "mbr_blocks sample_card 0 = 5" "mbr_signature sample_card"
  "filter (mbr_used sample_card) [0, 1, 2, 3] = [0]" "sample_card ! 0x1c2 = 0x0b"
  by (simp_all add: mbr_start_def mbr_blocks_def mbr_signature_def mbr_used_def sample_card_def sample_table_def
      read_word_eq nth_append)

lemma sample_card_part: "card_part sample_card 0 = sample_boot @ sample_image"
  unfolding card_part_def sample_entry_0 by (simp add: sample_card_def sample_lengths sample_clusters(1))

lemma sample_boot_sector: "fat_boot_sector sample_boot = Some sample_bs"
  by (simp add: fat_boot_sector_def sample_boot_def sample_bs_def read_halfword_def read_word_def)

lemma sample_fat_card: "fat_card sample_card 0 sample_bs"
proof -
  have "fat_label_ends (sample_boot @ sample_image)"
    by (auto simp: fat_label_ends_def sample_boot_def nth_append intro!: exI [of _ 0])
  then show ?thesis
    using sample_boot_sector sample_entry_0
    by (simp add: fat_card_def sample_card_part sample_lengths nth_append)
      (simp add: sample_card_def sample_lengths sample_clusters(1) sample_bs_def sample_boot_def fat_ids_def)
qed

lemma sample_geometry: "fat_geometry 1 dev sample_bs = Some (sample_volume dev [])"
  by (simp add: fat_geometry_def sample_bs_def sample_volume_def)

lemma sample_volume_data:
  "fat_data (sample_volume dev label) (sample_boot @ sample_image) c = fat_data sample_fat sample_image c"
  "fat_link (sample_volume dev label) (sample_boot @ sample_image) 2 = 0x0fffffff"
  "fat_link (sample_volume dev label) (sample_boot @ sample_image) 3 = 0x0fffffff"
  "fat_cluster_ok (sample_volume dev label) (sample_boot @ sample_image) 2"
  "fat_cluster_ok (sample_volume dev label) (sample_boot @ sample_image) 3"
proof -
  show "fat_data (sample_volume dev label) (sample_boot @ sample_image) c = fat_data sample_fat sample_image c"
    by (simp add: fat_data_def fat_sector_of_def sample_volume_def sample_fat_def sample_lengths)
qed (simp_all add: fat_link_def fat_cluster_ok_def fat_entry_offset_def fat_sector_of_def sample_volume_def
      sample_lengths sample_clusters(1) read_word_eq nth_append FAT16_def FAT32_def, simp_all add: sample_image_def)

lemma sample_file_at:
  "fat_file_at (sample_volume dev label) (card_part sample_card 0) [] (lit ''a'') sample_entry [3]"
proof -
  have "fat_chain (sample_volume dev label) (sample_boot @ sample_image) 2 [2]"
    "fat_chain (sample_volume dev label) (sample_boot @ sample_image) 3 [3]"
    by (simp_all add: sample_volume_data(2-5))
  moreover have "fat_listing 1 (fat_content (sample_volume dev label) (sample_boot @ sample_image) [2]) = [sample_entry]"
    using sample_root by (simp add: fat_content_def sample_volume_data(1))
  ultimately show ?thesis
    unfolding fat_file_at_def sample_card_part
    by (auto simp: sample_entry_def sample_volume_def plain_name_def lit_def
        intro!: exI [of _ "[2 :: u32]"] fat_path_here)
qed

section \<open>The start of the file systems\<close>

lemma libfs_init_card:
  assumes "rw_disk rd 512 img ok wr" "bd_read sd = Some rd" "bd_write sd = Some wr" "block_size sd = 512" "ok w"
    and "alloc_buf BLOCK_CACHE_SIZE h = (cs, h')" "cs \<noteq> 0" "0x4000 \<le> length mem"
    and "fat_card (img w) i bs"
  shows "\<exists>s ms' prd pimg pok dev fat label.
    libfs_init env al (True, True, True) (Some sd) mem w h ms = Some (h', s, ms') \<and> img (fst s) = img w
    \<and> disk prd 512 pimg pok \<and> fat_geometry (m_next ms) dev bs = Some fat \<and> fat_parent fat = dev
    \<and> device_name dev = device_name sd @ [95, 48 + word_of_nat i]
    \<and> m_vfs ms' = snd (vfs_register (Some (fat_fs_of (me_temp env) (fat\<lparr>vol_label := label\<rparr>))) (m_vfs ms))
    \<and> (fat_type fat \<noteq> FAT12 \<longrightarrow> fat_layout prd pimg pok (fat\<lparr>vol_label := label\<rparr>) (card_part (img w) i) s)
    \<and> (\<forall>s'. fat_layout prd pimg pok (fat\<lparr>vol_label := label\<rparr>) (card_part (img w) i) s' \<longrightarrow> img (fst s') = img w)"
proof -
  have bs: "(0 :: u32) < block_size sd" "block_size sd \<le> BLOCK_CACHE_SIZE" "unat BLOCK_CACHE_SIZE < 2147483648"
    "unat BLOCK_CACHE_SIZE \<le> length mem"
    using assms(4,8) by (simp_all add: BLOCK_CACHE_SIZE_def)
  obtain cd c where cd: "cache_init (True, True, True) (Some sd) True cs BLOCK_CACHE_SIZE mem = Some (0, Some (cd, c))"
    "cache_inv cd rd wr 512 img ok (w, c)" "cache_parent cd = sd"
    using cache_init_inv [of sd rd wr BLOCK_CACHE_SIZE mem ok w cs img] assms(2-5) bs by auto
  let ?dev = "cache_device al cd" and ?I = "\<lambda>s. img (fst s)" and ?m = "img w" and ?ci = "cache_inv cd rd wr 512 img ok"
  have cached: "rw_disk (cache_read al cd) 512 ?I ?ci (cache_write cd)"
    using assms(1) by (intro cached_disk.cached_contract cached_disk.intro)
  have dev: "bd_read ?dev = Some (cache_read al cd)" "bd_write ?dev = Some (cache_write cd)" "block_size ?dev = 512"
    "device_name ?dev = device_name sd"
    using assms(2-4) by (simp_all add: cache_device_def cd(3) Let_def lit_def)
  define d where "d = mbr_part ?dev (take 512 ?m) 1 i"
  have d': "d = mbr_part ?dev (take 512 (?I (w, c))) 1 i" and card: "fat_card (?I (w, c)) i bs"
    using assms(9) by (simp_all add: d_def)
  from read_mbr_fat_card [OF cached dev(1-3) cd(2) card d', of env ms, unfolded dev(4) fst_conv]
  obtain pre post fat label parts s ms' where
    mbr: "read_mbr (register_fs env) True (replicate 512 0) (Some ?dev) ((w, c), ms) = Some (0, Some parts, s, ms')"
    and disk: "disk (mbr_read d) 512 (part_img d 512 ?I) (part_inv d (cache_read al cd) (cache_write cd) 512 ?I ?ci pre post)"
    and facts: "fat_geometry (m_next ms) (mbr_device d) bs = Some fat" "?I s = img w" "fat_parent fat = mbr_device d"
      "device_name (mbr_device d) = device_name sd @ [95, 48 + word_of_nat i]"
      "m_vfs ms' = snd (vfs_register (Some (fat_fs_of (me_temp env) (fat\<lparr>vol_label := label\<rparr>))) (m_vfs ms))"
    and same: "\<forall>s'. part_inv d (cache_read al cd) (cache_write cd) 512 ?I ?ci pre post s' \<longrightarrow>
      part_img d 512 ?I s' = card_part ?m i \<longrightarrow> ?I s' = img w"
    and lay: "fat_type fat \<noteq> FAT12 \<longrightarrow> fat_layout (mbr_read d) (part_img d 512 ?I)
      (part_inv d (cache_read al cd) (cache_write cd) 512 ?I ?ci pre post) (fat\<lparr>vol_label := label\<rparr>) (card_part ?m i) s"
    by blast
  have init: "libfs_init env al (True, True, True) (Some sd) mem w h ms = Some (h', s, ms')"
    using assms(6,7) cd(1) mbr by (simp add: libfs_init_def)
  have "\<forall>s'. fat_layout (mbr_read d) (part_img d 512 ?I)
      (part_inv d (cache_read al cd) (cache_write cd) 512 ?I ?ci pre post) (fat\<lparr>vol_label := label\<rparr>) (card_part ?m i) s' \<longrightarrow>
      ?I s' = img w"
  proof (intro allI impI)
    fix s'
    assume "fat_layout (mbr_read d) (part_img d 512 ?I)
      (part_inv d (cache_read al cd) (cache_write cd) 512 ?I ?ci pre post) (fat\<lparr>vol_label := label\<rparr>) (card_part ?m i) s'"
    then have "part_inv d (cache_read al cd) (cache_write cd) 512 ?I ?ci pre post s'"
      "part_img d 512 ?I s' = card_part ?m i"
      by (simp_all add: fat_layout_def)
    then show "?I s' = img w"
      using same by blast
  qed
  note restored = this
  show ?thesis
    by (intro exI [of _ s] exI [of _ ms'] exI [of _ "mbr_read d"] exI [of _ "part_img d 512 ?I"]
        exI [of _ "part_inv d (cache_read al cd) (cache_write cd) 512 ?I ?ci pre post"] exI [of _ "mbr_device d"]
        exI [of _ fat] exI [of _ label] conjI init facts disk lay restored)
qed

lemma fat32_first_sector:
  "fat_geometry n dev bs = Some fat \<Longrightarrow> fat_type fat = FAT32 \<Longrightarrow> first_data_sector fat = first_non_root_sector fat"
  by (auto simp: fat_geometry_def Let_def split: if_splits)

section \<open>Properties\<close>



end
