(* ===== verification/InputFile.thy ===== *)
theory InputFile
  imports LibFs CString
begin

text \<open>
  Files as their users see them.  The locale \<open>input_file\<close> says what a loader or a
  configuration reader relies on: an open file whose bytes arrive when they are
  read.  The files of FAT and ext2 volumes satisfy it, on every device with a flat
  image; on a ramdisk they are interpretations.  The relation \<open>written\<close> describes the
  memory after a read or a clear.
\<close>

section \<open>Files that can be read\<close>

text \<open>What a loader relies on.  \<open>at fp w p\<close> says that the stream \<open>fp\<close> is open at
  position p of a file with the bytes \<open>content\<close>, and the world is \<open>w\<close>; \<open>wok\<close> holds of
  the worlds in which the file system is sound.  A read delivers what is left of the
  file, up to n bytes; behind them it may touch sixteen bytes when the copies are
  aligned and the read ends with a block of the file.\<close>

definition stream_len :: "'w stream \<Rightarrow> int option" where
  "stream_len fp = (case fp of File_stream fs f \<Rightarrow> Some (f_len f) | _ \<Rightarrow> None)"

definition overrun :: "nat \<Rightarrow> u32 \<Rightarrow> nat \<Rightarrow> nat \<Rightarrow> nat" where
  "overrun B ad p n = (if (ad + word_of_nat n) AND 0xf = 0 \<and> (p + n) mod B = 0 then 16 else 0)"

lemma overrun_le: "overrun B ad p n \<le> 16"
  by (simp add: overrun_def)

locale input_file =
  fixes at :: "'w stream \<Rightarrow> 'w \<Rightarrow> nat \<Rightarrow> bool" and content :: buf and B :: nat and wok :: "'w \<Rightarrow> bool"
  assumes sound: "at fp w p \<Longrightarrow>
      stream_len fp = Some (int (length content)) \<and> (\<exists>e. fsize fp = Some (int (length content), e))
      \<and> p \<le> length content \<and> length content < 2147483648
      \<and> 512 dvd B \<and> wok w"
    and seek: "at fp w p \<Longrightarrow> q \<le> length content \<Longrightarrow>
      \<exists>fp'. fseek fp (int q) SEEK_SET = Some (0, None, fp') \<and> at fp' w q"
    and read: "at fp w p \<Longrightarrow> p < length content \<Longrightarrow> 0 < n \<Longrightarrow> n < 2 ^ 32 \<Longrightarrow> r = min n (length content - p) \<Longrightarrow>
      r + overrun B ad p r \<le> length b \<Longrightarrow>
      \<exists>b' fp' w'. fread b ad 1 (word_of_nat n) fp w = Some (word_of_nat r, b', fp', w')
        \<and> take r b' = take r (drop p content) \<and> length b' = length b
        \<and> drop (r + overrun B ad p r) b' = drop (r + overrun B ad p r) b \<and> at fp' w' (p + r)"
    and close: "at fp w p \<Longrightarrow> \<exists>w'. fclose None fp w = Some (0, None, w') \<and> wok w'"

text \<open>A memory that differs from another one by data written at an address, and
  perhaps by k bytes behind the data.\<close>

definition written :: "buf \<Rightarrow> buf \<Rightarrow> nat \<Rightarrow> buf \<Rightarrow> nat \<Rightarrow> bool" where
  "written mem mem' a data k \<longleftrightarrow> length mem' = length mem \<and> take a mem' = take a mem
     \<and> take (length data) (drop a mem') = data
     \<and> drop (a + length data + k) mem' = drop (a + length data + k) mem"

lemma written_blit: "a + length data \<le> length mem \<Longrightarrow> written mem (blit mem a data) a data k"
  by (auto simp: written_def blit_def add_ac)

lemma written_0: "written mem mem a [] k"
  by (simp add: written_def)

lemma written_mono:
  assumes "written mem mem' a data j" "j \<le> k"
  shows "written mem mem' a data k"
proof -
  have "drop (k - j) (drop (a + length data + j) mem') = drop (k - j) (drop (a + length data + j) mem)"
    using assms(1) by (simp add: written_def)
  then show ?thesis
    using assms by (simp add: written_def add_ac)
qed

lemma written_below:
  assumes "written mem mem' a data k" "i + n \<le> a"
  shows "take n (drop i mem') = take n (drop i mem)"
proof -
  have "take (i + n) (take a mem') = take (i + n) (take a mem)"
    using assms(1) by (simp add: written_def)
  then have "drop i (take (i + n) mem') = drop i (take (i + n) mem)"
    using assms(2) by (simp add: min_absorb1)
  then show ?thesis
    by (simp add: drop_take)
qed

lemma written_above:
  assumes "written mem mem' a data k" "a + length data + k \<le> i"
  shows "take n (drop i mem') = take n (drop i mem)"
proof -
  have "drop (i - (a + length data + k)) (drop (a + length data + k) mem') =
      drop (i - (a + length data + k)) (drop (a + length data + k) mem)"
    using assms(1) by (simp add: written_def)
  then show ?thesis
    using assms(2) by simp
qed

lemma written_more:
  assumes "written mem m1 a xs k" "written m1 m2 (a + length xs) ys k"
    and "a + length xs + length ys \<le> length mem"
  shows "written mem m2 a (xs @ ys) k"
proof -
  have len: "length m1 = length mem" "length m2 = length mem"
    using assms(1,2) by (simp_all add: written_def)
  have "take (length xs) (drop a m2) = xs"
    using written_below [OF assms(2), of a "length xs"] assms(1) by (simp add: written_def)
  moreover have "take (length ys) (drop (a + length xs) m2) = ys"
    using assms(2) by (simp add: written_def add.assoc)
  ultimately have data: "take (length xs + length ys) (drop a m2) = xs @ ys"
    by (simp add: take_add add.commute)
  have "take a m2 = take a mem"
    using written_below [OF assms(2), of 0 a] assms(1) by (simp add: written_def)
  moreover have "drop (a + length xs + length ys + k) m2 = drop (a + length xs + length ys + k) m1"
    using assms(2) by (simp add: written_def add.assoc)
  moreover have "drop (a + length xs + length ys + k) m1 = drop (a + length xs + length ys + k) mem"
    using written_above [OF assms(1), of "a + length xs + length ys + k" "length mem"] len by simp
  ultimately show ?thesis
    using data len by (simp add: written_def add.assoc)
qed

context input_file
begin

lemma read_inside:
  assumes "at fp w p" "p + n \<le> length content" "0 < n" "n + 16 \<le> length b"
  shows "\<exists>b' fp' w'. fread b ad 1 (word_of_nat n) fp w = Some (word_of_nat n, b', fp', w')
    \<and> written b b' 0 (take n (drop p content)) 16 \<and> at fp' w' (p + n)"
proof -
  let ?k = "overrun B ad p n"
  have n: "n = min n (length content - p)" "p < length content" "n < 2 ^ 32"
    using assms(2,3) sound [OF assms(1)] by simp_all
  have k: "?k \<le> 16" "n + ?k \<le> length b"
    using overrun_le [of B ad p n] assms(4) by simp_all
  obtain b' fp' w' where "fread b ad 1 (word_of_nat n) fp w = Some (word_of_nat n, b', fp', w')"
    "take n b' = take n (drop p content)" "length b' = length b" "drop (n + ?k) b' = drop (n + ?k) b" "at fp' w' (p + n)"
    using read [OF assms(1) n(2) assms(3) n(3,1) k(2)] by blast
  moreover from this have "written b b' 0 (take n (drop p content)) ?k"
    using assms(2) by (simp add: written_def)
  ultimately show ?thesis
    using written_mono [OF _ k(1)] by blast
qed

end

section \<open>Files of mounted volumes\<close>

text \<open>\<open>fread\<close> asks the file system for no more than what is left of the file.\<close>

lemma fread_clamped:
  assumes "f_len f = int len" "f_pos f = int pos" "pos < len" "len < 2147483648" "n < 2 ^ 32" "r = min n (len - pos)"
    and "fs_fread_op fs b addr (word_of_nat r) f w = Some (word_of_nat r, b', f', w')"
  shows "fread b addr 1 (word_of_nat n) (File_stream fs f) w = Some (word_of_nat r, b', File_stream fs f', w')"
proof -
  have avail: "word_of_int (f_len f - f_pos f) = (word_of_nat (len - pos) :: u32)"
    using assms(1-3) by (metis less_imp_le of_nat_diff of_int_of_nat_eq)
  have "unat (word_of_nat (len - pos) :: u32) = len - pos" "unat (word_of_nat n :: u32) = n"
    using assms(4,5) by (auto intro!: unat_of_nat_u32)
  then have "(if (word_of_nat n :: u32) > word_of_nat (len - pos) then word_of_nat (len - pos) else word_of_nat n) =
      (word_of_nat r :: u32)"
    using assms(6) by (auto simp: word_less_nat_alt)
  then show ?thesis
    using assms(7) unfolding fread_def stream.case Let_def mult_1 avail by simp
qed

text \<open>A stream at position p of the file that was opened as f, while the file system
  is sound; and what a file system has to provide for it.\<close>

definition stream_at ::
  "'w fs \<Rightarrow> vfs_file \<Rightarrow> buf \<Rightarrow> ('w \<Rightarrow> bool) \<Rightarrow> 'w stream \<Rightarrow> 'w \<Rightarrow> nat \<Rightarrow> bool" where
  "stream_at fs f content ok fp w p \<longleftrightarrow> ok w \<and> p \<le> length content
     \<and> (\<exists>fl. fp = File_stream fs (f\<lparr>f_pos := int p, f_flags := fl\<rparr>))"

definition reads_file :: "'w fs \<Rightarrow> vfs_file \<Rightarrow> buf \<Rightarrow> nat \<Rightarrow> ('w \<Rightarrow> bool) \<Rightarrow> bool" where
  "reads_file fs f content B ok \<longleftrightarrow> (\<forall>w p fl r b ad.
     ok w \<and> 0 < r \<and> p + r \<le> length content \<and> r + overrun B ad p r \<le> length b \<longrightarrow>
     (\<exists>b' f' w'. fs_fread_op fs b ad (word_of_nat r) (f\<lparr>f_pos := int p, f_flags := fl\<rparr>) w =
          Some (word_of_nat r, b', f', w')
        \<and> take r b' = take r (drop p content) \<and> length b' = length b
        \<and> drop (r + overrun B ad p r) b' = drop (r + overrun B ad p r) b
        \<and> same_file (f\<lparr>f_pos := int (p + r)\<rparr>) f' \<and> ok w'))"

lemma input_fileI:
  assumes "fs_fseek fs = None" "fs_fflush fs = None" "fs_fclose fs = Some (\<lambda>f w. w)" "f_len f = int (length content)"
    and "fs_fsize fs = None"
    and size: "\<And>w. ok w \<Longrightarrow> length content < 2147483648 \<and> 512 dvd B"
    and reads: "reads_file fs f content B ok"
  shows "input_file (stream_at fs f content ok) content B ok"
proof
  fix fp w p
  assume "stream_at fs f content ok fp w p"
  then obtain fl where w: "ok w" "p \<le> length content" and fp: "fp = File_stream fs (f\<lparr>f_pos := int p, f_flags := fl\<rparr>)"
    by (auto simp: stream_at_def)
  let ?f = "f\<lparr>f_pos := int p, f_flags := fl\<rparr>"
  have f: "f_len ?f = int (length content)" "f_pos ?f = int p"
    using assms(4) by simp_all
  show "stream_len fp = Some (int (length content)) \<and> (\<exists>e. fsize fp = Some (int (length content), e))
      \<and> p \<le> length content \<and> length content < 2147483648 \<and> 512 dvd B \<and> ok w"
    using w size f(1) assms(5) by (simp add: fp stream_len_def fsize_def with_file_def)
  show "\<exists>w'. fclose None fp w = Some (0, None, w') \<and> ok w'"
    using w assms(2,3) by (simp add: fp fclose_def fflush_def)
  show "\<exists>fp'. fseek fp (int q) SEEK_SET = Some (0, None, fp') \<and> stream_at fs f content ok fp' w q"
    if "q \<le> length content" for q
  proof -
    let ?g = "f\<lparr>f_pos := int q, f_flags := fl\<rparr>"
    have "default_fseek ?f (int q) SEEK_SET = (0, ?g)"
      using that f(1) by (simp add: default_fseek_def)
    then have "fseek fp (int q) SEEK_SET = Some (0, None, File_stream fs ?g)"
      using assms(1) by (simp add: fp fseek_def)
    moreover have "stream_at fs f content ok (File_stream fs ?g) w q"
      using that w(1) unfolding stream_at_def by blast
    ultimately show ?thesis
      by blast
  qed
  fix n r :: nat and b :: buf and ad :: u32
  assume p: "p < length content" "0 < n" "n < 2 ^ 32" and r: "r = min n (length content - p)"
    and room: "r + overrun B ad p r \<le> length b"
  have "0 < r \<and> p + r \<le> length content"
    using p r by auto
  then obtain b' f' w' where rd: "fs_fread_op fs b ad (word_of_nat r) ?f w = Some (word_of_nat r, b', f', w')"
    "take r b' = take r (drop p content)" "length b' = length b"
    "drop (r + overrun B ad p r) b' = drop (r + overrun B ad p r) b"
    "same_file (f\<lparr>f_pos := int (p + r)\<rparr>) f'" "ok w'" "p + r \<le> length content"
    using reads w(1) room unfolding reads_file_def by blast
  have "fread b ad 1 (word_of_nat n) fp w = Some (word_of_nat r, b', File_stream fs f', w')"
    unfolding fp using size [OF w(1)] by (intro fread_clamped [OF f p(1) _ p(3) r rd(1)]) simp
  moreover have "f' = f\<lparr>f_pos := int (p + r), f_flags := f_flags f'\<rparr>"
    using rd(5) by (simp add: same_file_def)
  then have "stream_at fs f content ok (File_stream fs f') w' (p + r)"
    using rd(6,7) unfolding stream_at_def by blast
  ultimately show "\<exists>b' fp' w'. fread b ad 1 (word_of_nat n) fp w = Some (word_of_nat r, b', fp', w')
      \<and> take r b' = take r (drop p content) \<and> length b' = length b
      \<and> drop (r + overrun B ad p r) b' = drop (r + overrun B ad p r) b
      \<and> stream_at fs f content ok fp' w' (p + r)"
    using rd(2-4) by blast
qed

text \<open>The first n bytes of the blocks of a file, which are at least n.\<close>

definition first_bytes :: "nat \<Rightarrow> buf \<Rightarrow> buf" where
  "first_bytes n xs = take n (xs @ replicate n 0)"

lemma length_first_bytes [simp]: "length (first_bytes n xs) = n"
  unfolding first_bytes_def length_take by simp

lemma segment_first_bytes:
  "p + r \<le> n \<Longrightarrow> n \<le> length xs \<Longrightarrow> take r (drop p (first_bytes n xs)) = take r (drop p xs)"
  by (simp add: first_bytes_def drop_take)

text \<open>The file of a directory entry of a FAT volume, with the clusters \<open>cs\<close>.\<close>

definition fat_file_ok ::
  "'w bd_read_op \<Rightarrow> ('w \<Rightarrow> buf) \<Rightarrow> ('w \<Rightarrow> bool) \<Rightarrow> 'w fat_fs \<Rightarrow> buf \<Rightarrow> dirent \<Rightarrow> u32 list \<Rightarrow> 'w \<Rightarrow> bool" where
  "fat_file_ok rd img ok fat m d cs w \<longleftrightarrow>
     fat_layout rd img ok fat m w \<and> fat_chain fat m (de_opaque d) cs
     \<and> length cs * unat (fat_block_size fat) < 2147483648
     \<and> unat (de_byte_size d) \<le> length cs * unat (fat_block_size fat)"

definition fat_file_bytes :: "'w fat_fs \<Rightarrow> buf \<Rightarrow> dirent \<Rightarrow> u32 list \<Rightarrow> buf" where
  "fat_file_bytes fat m d cs = first_bytes (unat (de_byte_size d)) (fat_content fat m cs)"

lemma length_fat_file_bytes: "length (fat_file_bytes fat m d cs) = unat (de_byte_size d)"
  by (simp add: fat_file_bytes_def)

lemma fat_reads_file:
  assumes "disk rd 512 img ok"
  shows "reads_file (fat_fs_of temp fat) (fat_opened fat d) (fat_file_bytes fat m d cs)
    (unat (fat_block_size fat)) (fat_file_ok rd img ok fat m d cs)"
  unfolding reads_file_def
proof (intro allI impI, elim conjE)
  let ?len = "unat (de_byte_size d)" and ?B = "unat (fat_block_size fat)"
  fix w p fl r and b :: buf and ad
  let ?f = "(fat_opened fat d)\<lparr>f_pos := int p, f_flags := fl\<rparr>"
  assume w: "fat_file_ok rd img ok fat m d cs w" and r: "0 < r" "p + r \<le> length (fat_file_bytes fat m d cs)"
    and room: "r + overrun ?B ad p r \<le> length b"
  have lay: "fat_layout rd img ok fat m w" and chain: "fat_chain fat m (de_opaque d) cs"
    and size: "length cs * ?B < 2147483648" "?len \<le> length cs * ?B"
    using w by (auto simp: fat_file_ok_def)
  have fil: "fat_file rd img ok fat"
    using assms lay unfolding fat_layout_def
    by (simp add: fat_volume_def fat_device_def fat_volume_axioms_def fat_file_def)
  have len: "length (fat_file_bytes fat m d cs) = ?len" "?len \<le> length (fat_content fat m cs)"
    using fat_content_blocks(1) [OF chain] size by (simp_all add: length_fat_file_bytes)
  have f: "f_fs ?f = fat_id fat" "f_opaque ?f = de_opaque d" "f_pos ?f = int p"
    by (simp_all add: fat_opened_def)
  have "overrun ?B ad p r = 16 \<or> (ad + word_of_nat r) AND 0xf \<noteq> 0 \<or> (p + r) mod ?B \<noteq> 0" "p + r \<le> length cs * ?B"
    using r(2) len(1) size(2) by (auto simp: overrun_def)
  then obtain b' f' w' where rd: "fat_fread fat temp b ad (word_of_nat r) ?f w = Some (word_of_nat r, b', f', w')"
    "take r b' = take r (drop p (fat_content fat m cs))" "same_file (?f\<lparr>f_pos := int (p + r)\<rparr>) f'"
    "fat_layout rd img ok fat m w'" "length b' = length b"
    "drop (r + overrun ?B ad p r) b' = drop (r + overrun ?B ad p r) b"
    using fat_file.fat_fread_content [OF fil lay chain size(1) f r(1) _ room] by blast
  moreover have "take r (drop p (fat_file_bytes fat m d cs)) = take r (drop p (fat_content fat m cs))"
    using r(2) len unfolding fat_file_bytes_def by (intro segment_first_bytes) simp_all
  moreover have "same_file ((fat_opened fat d)\<lparr>f_pos := int (p + r)\<rparr>) f'"
    using rd(3) by (simp add: same_file_def)
  ultimately show "\<exists>b' f' w'. fs_fread_op (fat_fs_of temp fat) b ad (word_of_nat r) ?f w =
        Some (word_of_nat r, b', f', w')
      \<and> take r b' = take r (drop p (fat_file_bytes fat m d cs)) \<and> length b' = length b
      \<and> drop (r + overrun ?B ad p r) b' = drop (r + overrun ?B ad p r) b
      \<and> same_file ((fat_opened fat d)\<lparr>f_pos := int (p + r)\<rparr>) f' \<and> fat_file_ok rd img ok fat m d cs w'"
    using chain size by (auto simp: fat_fs_of_def fat_file_ok_def)
qed

lemma fat_input_file:
  assumes "disk rd 512 img ok"
  shows "input_file
    (stream_at (fat_fs_of temp fat) (fat_opened fat d) (fat_file_bytes fat m d cs) (fat_file_ok rd img ok fat m d cs))
    (fat_file_bytes fat m d cs) (unat (fat_block_size fat)) (fat_file_ok rd img ok fat m d cs)"
proof (rule input_fileI [OF _ _ _ _ _ _ fat_reads_file [OF assms]])
  show "f_len (fat_opened fat d) = int (length (fat_file_bytes fat m d cs))"
    by (simp add: fat_opened_def length_fat_file_bytes)
  show "length (fat_file_bytes fat m d cs) < 2147483648 \<and> 512 dvd unat (fat_block_size fat)"
    if "fat_file_ok rd img ok fat m d cs w" for w
    using that by (simp add: fat_file_ok_def fat_layout_def length_fat_file_bytes)
qed (simp_all add: fat_fs_of_def)

interpretation ramdisk_fat_file: input_file
    "stream_at (fat_fs_of temp fat) (fat_opened fat d) (fat_file_bytes fat m d cs)
      (fat_file_ok (ramdisk_read rdev) (ramdisk_img rdev) (ramdisk_inv rdev) fat m d cs)"
    "fat_file_bytes fat m d cs" "unat (fat_block_size fat)"
    "fat_file_ok (ramdisk_read rdev) (ramdisk_img rdev) (ramdisk_inv rdev) fat m d cs" for rdev temp fat m d cs
  by (rule fat_input_file [OF ramdisk.disk_axioms])

text \<open>Opening a file of a FAT32 volume by its path gives such a stream.\<close>

abbreviation fat_stream_at where
  "fat_stream_at rd img ok temp fat m d cs \<equiv>
     stream_at (fat_fs_of temp fat) (fat_opened fat d) (fat_file_bytes fat m d cs) (fat_file_ok rd img ok fat m d cs)"

lemma fat_open_stream:
  assumes "disk rd 512 img ok" "fat_layout rd img ok fat m w"
    and "fat_type fat = FAT32" "first_data_sector fat = first_non_root_sector fat"
    and "dev_entry v od = Some ve" "ve_fs ve = fat_fs_of temp fat" "dev_plain od"
    and "fat_file_at fat m dirs name d cs"
  shows "\<exists>fp w1. fopen v (Some (path_of od (dirs @ [name]))) (lit ''r'') w = Some (Inr fp, w1)
    \<and> fat_stream_at rd img ok temp fat m d cs fp w1 0"
proof -
  obtain rcs es where path: "fat_chain fat m (root_dir_cluster fat) rcs" "rcs \<noteq> []" "0x0ffffff7 \<notin> set rcs"
    "fat_path fat m (fat_listing (fat_id fat) (fat_content fat m rcs)) dirs es"
    "find (\<lambda>d. de_name d = name) es = Some d"
    using assms(8) by (auto simp: fat_file_at_def)
  have names: "list_all (\<lambda>d. plain_name d \<and> d \<noteq> []) dirs" "plain_name name" "name \<noteq> []" "hd (dirs @ [name]) \<noteq> lit '':''"
    and chain: "fat_chain fat m (de_opaque d) cs" "length cs * unat (fat_block_size fat) < 2147483648"
      "unat (de_byte_size d) \<le> length cs * unat (fat_block_size fat)"
    using assms(8) by (simp_all add: fat_file_at_def)
  have small: "unat (de_byte_size d) < 2147483648"
    using chain(2,3) by linarith
  obtain w1 where w1: "fopen v (Some (path_of od (dirs @ [name]))) (lit ''r'') w =
      Some (Inr (File_stream (ve_fs ve) (fat_opened fat d)), w1)" "fat_layout rd img ok fat m w1"
    using fat_open_by_path [OF assms(1-4) path(1-3) assms(5-7) names path(4,5) small] by blast
  have "(fat_opened fat d)\<lparr>f_pos := int 0, f_flags := 0\<rparr> = fat_opened fat d"
    by (simp add: fat_opened_def)
  then have "fat_stream_at rd img ok temp fat m d cs (File_stream (ve_fs ve) (fat_opened fat d)) w1 0"
    using w1(2) chain assms(6) unfolding stream_at_def fat_file_ok_def by (metis le0)
  then show ?thesis
    using w1(1) by blast
qed

text \<open>A file of a FAT volume, and what holds of the volume of a boot sector, wherever it
  is mounted first.\<close>

definition fat_has_file :: "'w fat_fs \<Rightarrow> buf \<Rightarrow> cstring list \<Rightarrow> cstring \<Rightarrow> buf \<Rightarrow> bool" where
  "fat_has_file fat m dirs name content \<longleftrightarrow>
     (\<exists>d cs. fat_file_at fat m dirs name d cs \<and> fat_file_bytes fat m d cs = content)"

definition on_volume :: "fat_bs \<Rightarrow> ('w fat_fs \<Rightarrow> bool) \<Rightarrow> bool" where
  "on_volume bs P \<longleftrightarrow> (\<forall>dev label fat. fat_geometry 1 dev bs = Some fat \<longrightarrow> P (fat\<lparr>vol_label := label\<rparr>))"

text \<open>The file of a directory entry of an ext2 volume, whose inode i maps nb blocks.\<close>

definition ext2_file_ok ::
  "'w bd_read_op \<Rightarrow> ('w \<Rightarrow> buf) \<Rightarrow> ('w \<Rightarrow> bool) \<Rightarrow> 'w ext2_fs \<Rightarrow> buf \<Rightarrow> dirent \<Rightarrow> ext2_inode \<Rightarrow> nat \<Rightarrow> 'w \<Rightarrow> bool" where
  "ext2_file_ok rd img ok fs m d i nb w \<longleftrightarrow>
     ext2_layout rd img ok fs m w \<and> de_opaque d \<noteq> 0 \<and> e2_inode_ok fs m (de_opaque d)
     \<and> i = e2_inode fs m (de_opaque d) \<and> nb < e2_max fs \<and> (\<forall>idx \<le> nb. e2_mapped fs m i idx)
     \<and> nb * unat (e2_block_size fs) < 2147483648 \<and> unat (i_size i) \<le> nb * unat (e2_block_size fs)"

definition ext2_opened :: "'w ext2_fs \<Rightarrow> dirent \<Rightarrow> ext2_inode \<Rightarrow> vfs_file" where
  "ext2_opened fs d i = \<lparr>f_fs = e2_id fs, f_pos = 0, f_mode = 0, f_opaque = de_opaque d,
     f_len = int (unat (i_size i)), f_flags = 0\<rparr>"

definition ext2_file_bytes :: "'w ext2_fs \<Rightarrow> buf \<Rightarrow> ext2_inode \<Rightarrow> nat \<Rightarrow> buf" where
  "ext2_file_bytes fs m i nb = first_bytes (unat (i_size i)) (e2_content fs m i nb)"

lemma ext2_reads_file:
  assumes "disk rd 512 img ok"
  shows "reads_file (ext2_fs_of reuse temp fs) (ext2_opened fs d i) (ext2_file_bytes fs m i nb)
    (unat (e2_block_size fs)) (ext2_file_ok rd img ok fs m d i nb)"
  unfolding reads_file_def
proof (intro allI impI, elim conjE)
  let ?B = "unat (e2_block_size fs)"
  fix w p fl r and b :: buf and ad
  let ?f = "(ext2_opened fs d i)\<lparr>f_pos := int p, f_flags := fl\<rparr>"
  assume w: "ext2_file_ok rd img ok fs m d i nb w" and r: "0 < r" "p + r \<le> length (ext2_file_bytes fs m i nb)"
    and room: "r + overrun ?B ad p r \<le> length b"
  have ok: "ext2_layout rd img ok fs m w" "de_opaque d \<noteq> 0" "e2_inode_ok fs m (de_opaque d)"
    "i = e2_inode fs m (de_opaque d)" "nb < e2_max fs" "\<forall>idx \<le> nb. e2_mapped fs m i idx"
    "nb * ?B < 2147483648" "unat (i_size i) \<le> nb * ?B"
    using w by (auto simp: ext2_file_ok_def)
  have "\<forall>idx < nb. e2_ok fs m (e2_bmap fs m i idx)"
    using ok(6) by (auto simp: e2_mapped_def)
  from e2_content_blocks(1) [OF this] have len: "unat (i_size i) \<le> length (e2_content fs m i nb)"
    using ok(8) by simp
  have f: "e2_inode_ok fs m (f_opaque ?f)" "i = e2_inode fs m (f_opaque ?f)" "f_fs ?f = e2_id fs" "f_opaque ?f \<noteq> 0"
    "f_pos ?f = int p"
    using ok(2-4) by (simp_all add: ext2_opened_def)
  have "overrun ?B ad p r = 16 \<or> (ad + word_of_nat r) AND 0xf \<noteq> 0 \<or> (p + r) mod ?B \<noteq> 0" "p + r \<le> nb * ?B"
    using r(2) ok(8) by (auto simp: overrun_def ext2_file_bytes_def)
  then obtain b' f' w' where rd: "fs_fread_op (ext2_fs_of reuse temp fs) b ad (word_of_nat r) ?f w =
      Some (word_of_nat r, b', f', w')"
    "take r b' = take r (drop p (e2_content fs m i nb))" "same_file (?f\<lparr>f_pos := int (p + r)\<rparr>) f'"
    "ext2_layout rd img ok fs m w'" "length b' = length b"
    "drop (r + overrun ?B ad p r) b' = drop (r + overrun ?B ad p r) b"
    using ext2_fread_inode [OF assms ok(1) f(1,2) ok(5-7) f(3-5) r(1) _ room] by blast
  moreover have "take r (drop p (ext2_file_bytes fs m i nb)) = take r (drop p (e2_content fs m i nb))"
    using r(2) len unfolding ext2_file_bytes_def by (intro segment_first_bytes) simp_all
  moreover have "same_file ((ext2_opened fs d i)\<lparr>f_pos := int (p + r)\<rparr>) f'"
    using rd(3) by (simp add: same_file_def)
  moreover have "ext2_file_ok rd img ok fs m d i nb w'"
    using rd(4) ok by (simp add: ext2_file_ok_def)
  ultimately show "\<exists>b' f' w'. fs_fread_op (ext2_fs_of reuse temp fs) b ad (word_of_nat r) ?f w =
        Some (word_of_nat r, b', f', w')
      \<and> take r b' = take r (drop p (ext2_file_bytes fs m i nb)) \<and> length b' = length b
      \<and> drop (r + overrun ?B ad p r) b' = drop (r + overrun ?B ad p r) b
      \<and> same_file ((ext2_opened fs d i)\<lparr>f_pos := int (p + r)\<rparr>) f' \<and> ext2_file_ok rd img ok fs m d i nb w'"
    by auto
qed

lemma ext2_input_file:
  assumes "disk rd 512 img ok"
  shows "input_file
    (stream_at (ext2_fs_of reuse temp fs) (ext2_opened fs d i) (ext2_file_bytes fs m i nb) (ext2_file_ok rd img ok fs m d i nb))
    (ext2_file_bytes fs m i nb) (unat (e2_block_size fs)) (ext2_file_ok rd img ok fs m d i nb)"
proof (rule input_fileI [OF _ _ _ _ _ _ ext2_reads_file [OF assms]])
  show "length (ext2_file_bytes fs m i nb) < 2147483648 \<and> 512 dvd unat (e2_block_size fs)"
    if "ext2_file_ok rd img ok fs m d i nb w" for w
    using that by (auto simp: ext2_file_ok_def ext2_layout_def ext2_file_bytes_def)
qed (simp_all add: ext2_fs_of_def ext2_opened_def ext2_file_bytes_def)

interpretation ramdisk_ext2_file: input_file
    "stream_at (ext2_fs_of reuse temp fs) (ext2_opened fs d i) (ext2_file_bytes fs m i nb)
      (ext2_file_ok (ramdisk_read rdev) (ramdisk_img rdev) (ramdisk_inv rdev) fs m d i nb)"
    "ext2_file_bytes fs m i nb" "unat (e2_block_size fs)"
    "ext2_file_ok (ramdisk_read rdev) (ramdisk_img rdev) (ramdisk_inv rdev) fs m d i nb"
    for rdev reuse temp fs m d i nb
  by (rule ext2_input_file [OF ramdisk.disk_axioms])

end
