(* ===== verification/Elf.thy ===== *)
theory Elf
  imports InputFile
begin

text \<open>
  The ELF reader of elf.c, and reads into physical memory.  Memory is a buffer
  indexed by address; a read or a clear that leaves it is an error.  The headers
  that the code keeps in fresh memory are read into buffers of the size asked for;
  their addresses are arguments, because they decide between the copy routines.
\<close>

section \<open>Headers\<close>

text \<open>The fields of \<open>Elf32_Ehdr\<close>, \<open>Elf32_Phdr\<close> and \<open>Elf32_Shdr\<close> that are used.\<close>

record Elf32_Ehdr =
  e_ident :: buf
  e_type :: u16
  e_machine :: u16
  e_entry :: u32
  e_phoff :: u32
  e_shoff :: u32
  e_phentsize :: u16
  e_phnum :: u16
  e_shentsize :: u16
  e_shnum :: u16
  e_shstrndx :: u16

record Elf32_Phdr =
  p_type :: u32
  p_offset :: u32
  p_vaddr :: u32
  p_paddr :: u32
  p_filesz :: u32
  p_memsz :: u32

record Elf32_Shdr =
  sh_type :: u32
  sh_flags :: u32
  sh_addr :: u32
  sh_offset :: u32
  sh_size :: u32

definition ehdr_of :: "buf \<Rightarrow> Elf32_Ehdr option" where
  "ehdr_of b = do {
     ident \<leftarrow> load b 0 16;
     ty \<leftarrow> read_halfword b 16;
     mach \<leftarrow> read_halfword b 18;
     entry \<leftarrow> read_word b 24;
     phoff \<leftarrow> read_word b 28;
     shoff \<leftarrow> read_word b 32;
     phentsize \<leftarrow> read_halfword b 42;
     phnum \<leftarrow> read_halfword b 44;
     shentsize \<leftarrow> read_halfword b 46;
     shnum \<leftarrow> read_halfword b 48;
     shstrndx \<leftarrow> read_halfword b 50;
     Some \<lparr>e_ident = ident, e_type = ty, e_machine = mach, e_entry = entry, e_phoff = phoff, e_shoff = shoff,
       e_phentsize = phentsize, e_phnum = phnum, e_shentsize = shentsize, e_shnum = shnum,
       e_shstrndx = shstrndx\<rparr> }"

definition phdr_at :: "buf \<Rightarrow> nat \<Rightarrow> Elf32_Phdr option" where
  "phdr_at b p = do {
     ty \<leftarrow> read_word b p;
     off \<leftarrow> read_word b (p + 4);
     va \<leftarrow> read_word b (p + 8);
     pa \<leftarrow> read_word b (p + 12);
     fsz \<leftarrow> read_word b (p + 16);
     msz \<leftarrow> read_word b (p + 20);
     Some \<lparr>p_type = ty, p_offset = off, p_vaddr = va, p_paddr = pa, p_filesz = fsz, p_memsz = msz\<rparr> }"

definition shdr_at :: "buf \<Rightarrow> nat \<Rightarrow> Elf32_Shdr option" where
  "shdr_at b p = do {
     ty \<leftarrow> read_word b (p + 4);
     fl \<leftarrow> read_word b (p + 8);
     ad \<leftarrow> read_word b (p + 12);
     off \<leftarrow> read_word b (p + 16);
     sz \<leftarrow> read_word b (p + 20);
     Some \<lparr>sh_type = ty, sh_flags = fl, sh_addr = ad, sh_offset = off, sh_size = sz\<rparr> }"

definition ET_EXEC :: u16 where "ET_EXEC = 2"
definition EM_ARM :: u16 where "EM_ARM = 40"
definition PT_LOAD :: u32 where "PT_LOAD = 1"
definition SHT_NOBITS :: u32 where "SHT_NOBITS = 8"
definition SHF_ALLOC :: u32 where "SHF_ALLOC = 2"

definition ELF_OK :: int where "ELF_OK = 0"
definition ELF_NOT_ELF :: int where "ELF_NOT_ELF = -1"
definition ELF_NOT_32_BIT :: int where "ELF_NOT_32_BIT = -2"
definition ELF_NOT_LITTLE_ENDIAN :: int where "ELF_NOT_LITTLE_ENDIAN = -3"
definition ELF_NOT_EXEC :: int where "ELF_NOT_EXEC = -4"
definition ELF_NOT_ARM :: int where "ELF_NOT_ARM = -5"
definition ELF_FILE_LOAD_ERROR :: int where "ELF_FILE_LOAD_ERROR = -6"
definition ELF_NO_OFFSET :: int where "ELF_NO_OFFSET = -7"

section \<open>Reading\<close>

text \<open>\<open>fread\<close> with a physical address.\<close>

definition fread_mem ::
  "buf \<Rightarrow> u32 \<Rightarrow> u32 \<Rightarrow> 'w stream \<Rightarrow> 'w \<Rightarrow> (u32 \<times> buf \<times> 'w stream \<times> 'w) option" where
  "fread_mem mem addr n fp w =
     (if length mem < unat addr then None
      else do {
        (r, sub, fp, w) \<leftarrow> fread (drop (unat addr) mem) addr 1 n fp w;
        Some (r, take (unat addr) mem @ sub, fp, w) })"

definition elf32_read_ehdr ::
  "u32 \<Rightarrow> 'w stream \<Rightarrow> 'w \<Rightarrow> (int \<times> Elf32_Ehdr option \<times> 'w stream \<times> 'w) option" where
  "elf32_read_ehdr at fp w = do {
     (_, _, fp) \<leftarrow> fseek fp 0 SEEK_SET;
     (bytes_read, b, fp, w) \<leftarrow> fread (replicate 52 0) at 1 52 fp w;
     if bytes_read \<noteq> 52 then Some (ELF_FILE_LOAD_ERROR, None, fp, w)
     else do {
       h \<leftarrow> ehdr_of b;
       Some
         (if take 4 (e_ident h) \<noteq> 0x7f # lit ''ELF'' then (ELF_NOT_ELF, None, fp, w)
          else if e_ident h ! 4 \<noteq> 1 then (ELF_NOT_32_BIT, None, fp, w)
          else if e_ident h ! 5 \<noteq> 1 then (ELF_NOT_LITTLE_ENDIAN, None, fp, w)
          else if e_type h \<noteq> ET_EXEC then (ELF_NOT_EXEC, None, fp, w)
          else if e_machine h \<noteq> EM_ARM then (ELF_NOT_ARM, None, fp, w)
          else (ELF_OK, Some h, fp, w)) } }"

text \<open>A table of n entries of sz bytes at an offset of the file.\<close>

definition elf32_read_table ::
  "u32 \<Rightarrow> u32 \<Rightarrow> u16 \<Rightarrow> u16 \<Rightarrow> 'w stream \<Rightarrow> 'w \<Rightarrow> (int \<times> buf option \<times> 'w stream \<times> 'w) option" where
  "elf32_read_table at off sz n fp w = do {
     let bytes_to_load = word_of_nat (unat sz * unat n);
     (_, _, fp) \<leftarrow> fseek fp (sint off) SEEK_SET;
     (bytes_read, b, fp, w) \<leftarrow> fread (replicate (unat bytes_to_load) 0) at 1 bytes_to_load fp w;
     Some (if bytes_read \<noteq> bytes_to_load then (ELF_FILE_LOAD_ERROR, None, fp, w) else (ELF_OK, Some b, fp, w)) }"

definition elf32_read_shdrs ::
  "u32 \<Rightarrow> Elf32_Ehdr \<Rightarrow> 'w stream \<Rightarrow> 'w \<Rightarrow> (int \<times> buf option \<times> 'w stream \<times> 'w) option" where
  "elf32_read_shdrs at h = elf32_read_table at (e_shoff h) (e_shentsize h) (e_shnum h)"

definition elf32_read_phdrs ::
  "u32 \<Rightarrow> Elf32_Ehdr \<Rightarrow> 'w stream \<Rightarrow> 'w \<Rightarrow> (int \<times> buf option \<times> 'w stream \<times> 'w) option" where
  "elf32_read_phdrs at h = elf32_read_table at (e_phoff h) (e_phentsize h) (e_phnum h)"

definition elf32_load_section ::
  "Elf32_Shdr \<Rightarrow> buf \<Rightarrow> 'w stream \<Rightarrow> 'w \<Rightarrow> (int \<times> buf \<times> 'w stream \<times> 'w) option" where
  "elf32_load_section sh mem fp w =
     (if sh_type sh = SHT_NOBITS then do {
        mem \<leftarrow> memset mem (unat (sh_addr sh)) 0 (unat (sh_size sh));
        Some (ELF_OK, mem, fp, w) }
      else if sh_offset sh = 0 then Some (ELF_NO_OFFSET, mem, fp, w)
      else do {
        (_, _, fp) \<leftarrow> fseek fp (sint (sh_offset sh)) SEEK_SET;
        (bytes_read, mem, fp, w) \<leftarrow> fread_mem mem (sh_addr sh) (sh_size sh) fp w;
        Some (if bytes_read \<noteq> sh_size sh then ELF_FILE_LOAD_ERROR else ELF_OK, mem, fp, w) })"

definition elf32_load_segment ::
  "Elf32_Phdr \<Rightarrow> buf \<Rightarrow> 'w stream \<Rightarrow> 'w \<Rightarrow> (int \<times> buf \<times> 'w stream \<times> 'w) option" where
  "elf32_load_segment ph mem fp w = do {
     (bytes_read, mem, fp, w) \<leftarrow>
       (if p_filesz ph \<noteq> 0 then do {
          (_, _, fp) \<leftarrow> fseek fp (sint (p_offset ph)) SEEK_SET;
          fread_mem mem (p_paddr ph) (p_filesz ph) fp w }
        else Some (0, mem, fp, w));
     if bytes_read \<noteq> p_filesz ph then Some (ELF_FILE_LOAD_ERROR, mem, fp, w)
     else do {
       mem \<leftarrow>
         (if p_memsz ph - p_filesz ph \<noteq> 0
          then memset mem (unat (p_paddr ph + p_filesz ph)) 0 (unat (p_memsz ph - p_filesz ph))
          else Some mem);
       Some (ELF_OK, mem, fp, w) } }"

section \<open>Loading from a file\<close>

text \<open>The memory image of a segment, and when it can be loaded.\<close>

definition seg_image :: "buf \<Rightarrow> Elf32_Phdr \<Rightarrow> buf" where
  "seg_image content ph = take (unat (p_filesz ph)) (drop (unat (p_offset ph)) content)
     @ replicate (unat (p_memsz ph) - unat (p_filesz ph)) 0"

definition seg_ok :: "buf \<Rightarrow> nat \<Rightarrow> Elf32_Phdr \<Rightarrow> bool" where
  "seg_ok content msize ph \<longleftrightarrow> p_filesz ph \<le> p_memsz ph
     \<and> unat (p_offset ph) + unat (p_filesz ph) \<le> length content
     \<and> unat (p_paddr ph) + unat (p_memsz ph) + 16 \<le> msize"

lemma length_seg_image: "seg_ok content msize ph \<Longrightarrow> length (seg_image content ph) = unat (p_memsz ph)"
  by (auto simp: seg_ok_def seg_image_def word_le_nat_alt)

text \<open>A header that the loader accepts.\<close>

definition elf_header :: "buf \<Rightarrow> Elf32_Ehdr \<Rightarrow> bool" where
  "elf_header content h \<longleftrightarrow> 52 \<le> length content \<and> ehdr_of (take 52 content) = Some h
     \<and> take 4 (e_ident h) = 0x7f # lit ''ELF'' \<and> e_ident h ! 4 = 1 \<and> e_ident h ! 5 = 1
     \<and> e_type h = ET_EXEC \<and> e_machine h = EM_ARM"

context input_file
begin

text \<open>A read that fills a buffer after a seek; the buffer has room for the overrun.\<close>

lemma read_buffer:
  assumes "at fp w p" "q + n \<le> length content" "0 < n" "overrun B ad q n = 0"
  shows "\<exists>fp1 fp' w'. fseek fp (int q) SEEK_SET = Some (0, None, fp1)
    \<and> fread (replicate n 0) ad 1 (word_of_nat n) fp1 w = Some (word_of_nat n, take n (drop q content), fp', w')
    \<and> at fp' w' (q + n)"
proof -
  have n: "n = min n (length content - q)" "q < length content" "n < 2 ^ 32" "q \<le> length content"
    using assms(2,3) sound [OF assms(1)] by simp_all
  obtain fp1 where fp1: "fseek fp (int q) SEEK_SET = Some (0, None, fp1)" "at fp1 w q"
    using seek [OF assms(1) n(4)] by blast
  have room: "n + overrun B ad q n \<le> length (replicate n (0 :: u8))"
    using assms(4) by simp
  obtain b' fp' w' where "fread (replicate n 0) ad 1 (word_of_nat n) fp1 w = Some (word_of_nat n, b', fp', w')"
    "take n b' = take n (drop q content)" "length b' = length (replicate n (0 :: u8))" "at fp' w' (q + n)"
    using read [OF fp1(2) n(2) assms(3) n(3,1) room] by blast
  then show ?thesis
    using fp1(1) by auto
qed

lemma read_ehdr:
  assumes "at fp w p" "elf_header content h"
  shows "\<exists>fp' w' q. elf32_read_ehdr ad fp w = Some (ELF_OK, Some h, fp', w') \<and> at fp' w' q"
proof -
  have "512 dvd B"
    using sound [OF assms(1)] by blast
  then have "(0 + 52) mod B \<noteq> 0"
    using dvd_trans [of 512 B 52] by (auto simp: mod_eq_0_iff_dvd)
  then have "overrun B ad 0 52 = 0"
    by (simp add: overrun_def)
  moreover have h: "0 + 52 \<le> length content" "ehdr_of (take 52 content) = Some h"
    using assms(2) by (simp_all add: elf_header_def)
  ultimately obtain fp1 fp' w' where "fseek fp 0 SEEK_SET = Some (0, None, fp1)"
    "fread (replicate 52 0) ad 1 52 fp1 w = Some (52, take 52 content, fp', w')" "at fp' w' 52"
    using read_buffer [OF assms(1) h(1), of ad] by auto
  then show ?thesis
    using h(2) assms(2)
    by (intro exI [of _ fp'] exI [of _ w'] exI [of _ 52]) (simp add: elf32_read_ehdr_def elf_header_def)
qed

lemma read_table:
  assumes "at fp w p" "unat off + unat sz * unat n \<le> length content" "0 < unat sz * unat n"
    and "overrun B ad (unat off) (unat sz * unat n) = 0"
  shows "\<exists>fp' w' q. elf32_read_table ad off sz n fp w =
      Some (ELF_OK, Some (take (unat sz * unat n) (drop (unat off) content)), fp', w') \<and> at fp' w' q"
proof -
  let ?n = "unat sz * unat n"
  have small: "sint off = int (unat off)" "unat (word_of_nat ?n :: u32) = ?n"
    by (rule sint_small_u32 unat_of_nat_u32, use sound [OF assms(1)] assms(2) in simp)+
  show ?thesis
    using read_buffer [OF assms(1-4)] unfolding elf32_read_table_def small Let_def by auto
qed

text \<open>A read into memory after a seek.\<close>

lemma load_at:
  assumes "at fp w p" "q + n \<le> length content" "0 < n" "unat ad + n + 16 \<le> length mem"
  shows "\<exists>fp1 mem' fp' w'. fseek fp (int q) SEEK_SET = Some (0, None, fp1)
    \<and> fread_mem mem ad (word_of_nat n) fp1 w = Some (word_of_nat n, mem', fp', w')
    \<and> written mem mem' (unat ad) (take n (drop q content)) 16 \<and> at fp' w' (q + n)"
proof -
  have "q \<le> length content"
    using assms(2) by simp
  then obtain fp1 where fp1: "fseek fp (int q) SEEK_SET = Some (0, None, fp1)" "at fp1 w q"
    using seek [OF assms(1)] by blast
  have room: "n + 16 \<le> length (drop (unat ad) mem)"
    using assms(4) by simp
  obtain sub fp' w' where rd: "fread (drop (unat ad) mem) ad 1 (word_of_nat n) fp1 w = Some (word_of_nat n, sub, fp', w')"
    "written (drop (unat ad) mem) sub 0 (take n (drop q content)) 16" "at fp' w' (q + n)"
    using read_inside [OF fp1(2) assms(2,3) room] by blast
  have "written mem (take (unat ad) mem @ sub) (unat ad) (take n (drop q content)) 16"
    using rd(2) assms(4) by (simp add: written_def add_ac)
  then show ?thesis
    using fp1 rd assms(4) by (auto simp: fread_mem_def)
qed

lemma load_segment:
  assumes "at fp w p" "seg_ok content (length mem) ph" "length mem \<le> 2 ^ 32"
  shows "\<exists>mem' fp' w' q. elf32_load_segment ph mem fp w = Some (ELF_OK, mem', fp', w')
    \<and> written mem mem' (unat (p_paddr ph)) (seg_image content ph) 16 \<and> at fp' w' q"
proof -
  let ?n = "unat (p_filesz ph)" and ?a = "unat (p_paddr ph)" and ?q = "unat (p_offset ph)"
  let ?d = "take ?n (drop ?q content)" and ?z = "unat (p_memsz ph - p_filesz ph)"
  have ok: "?n \<le> unat (p_memsz ph)" "?q + ?n \<le> length content" "?a + unat (p_memsz ph) + 16 \<le> length mem"
    using assms(2) by (simp_all add: seg_ok_def word_le_nat_alt)
  have z: "?z = unat (p_memsz ph) - ?n" "unat (p_paddr ph + p_filesz ph) = ?a + ?n"
    using ok assms(3) by (simp_all add: unat_sub word_le_nat_alt unat_plus_if_u32)
  have small: "sint (p_offset ph) = int ?q"
    using sound [OF assms(1)] ok(2) by (intro sint_small_u32) simp
  obtain fp1 mem1 w1 q where loaded: "(if p_filesz ph \<noteq> 0 then do {
          (_, _, fp) \<leftarrow> fseek fp (sint (p_offset ph)) SEEK_SET;
          fread_mem mem (p_paddr ph) (p_filesz ph) fp w }
        else Some (0, mem, fp, w)) = Some (p_filesz ph, mem1, fp1, w1)"
    "written mem mem1 ?a ?d 16" "at fp1 w1 q"
  proof (cases "p_filesz ph = 0")
    case True
    then show ?thesis
      using that assms(1) written_0 by auto
  next
    case False
    then have "0 < ?n"
      by (simp add: unat_gt_0)
    then show ?thesis
      using load_at [OF assms(1) ok(2), of "p_paddr ph" mem] ok(1,3) False that by (auto simp: small)
  qed
  have len: "length mem1 = length mem" "length ?d = ?n"
    using loaded(2) ok(2) by (simp_all add: written_def)
  let ?mem2 = "blit mem1 (?a + ?n) (replicate ?z 0)"
  have mem2: "(if p_memsz ph - p_filesz ph \<noteq> 0
          then memset mem1 (unat (p_paddr ph + p_filesz ph)) 0 (unat (p_memsz ph - p_filesz ph))
          else Some mem1) = Some ?mem2"
    using memset_blit [of "?a + ?n" ?z mem1 0] ok(1,3) z len by auto
  have "written mem ?mem2 ?a (?d @ replicate ?z 0) 16"
    using ok(1,3) z(1) len written_blit [of "?a + ?n" "replicate ?z 0" mem1 16]
    by (intro written_more [OF loaded(2)]) simp_all
  then show ?thesis
    using loaded(1,3) mem2 z(1) unfolding elf32_load_segment_def seg_image_def by auto
qed

end

end
