(* ===== verification/Log.thy ===== *)
theory Log
  imports Vfs Timer
begin

text \<open>
  The console log of log.c and the output multiplexer of output.c.  The structure of
  the log file is a field of the state: \<open>log_cb\<close> says that its \<open>fflush_cb\<close> is
  \<open>log_fflush\<close>.  The readings of the timer, the UART, the frame buffer console and
  the callback of the client are parameters, as is the address of the buffer, on
  which the copies of a write depend.
\<close>

section \<open>Model\<close>

record 'w log_state =
  log_fp :: "'w stream option"
  log_cb :: bool
  log_buf :: "buf option"
  buf_size :: u32
  buf_ptr :: u32
  last_update :: timer_wait
  readings :: nat
  ostate :: u32

definition RPIBOOT_OUTPUT_FB :: u32 where "RPIBOOT_OUTPUT_FB = 1"
definition RPIBOOT_OUTPUT_UART :: u32 where "RPIBOOT_OUTPUT_UART = 2"
definition RPIBOOT_OUTPUT_LOG :: u32 where "RPIBOOT_OUTPUT_LOG = 4"
definition RPIBOOT_OUTPUT_CUSTOM :: u32 where "RPIBOOT_OUTPUT_CUSTOM = 8"

definition LOG_TIMEOUT :: int where "LOG_TIMEOUT = 5000000"

definition LOG_DEFAULT_BUFFER_SIZE :: int where "LOG_DEFAULT_BUFFER_SIZE = 512"

definition log_start :: "'w log_state" where
  "log_start = \<lparr>log_fp = None, log_cb = False, log_buf = None, buf_size = 0, buf_ptr = 0,
     last_update = \<lparr>trigger_value = 0, rollover = 0\<rparr>, readings = 0, ostate = 0\<rparr>"

definition output_init :: "'w log_state \<Rightarrow> 'w log_state" where
  "output_init st = st\<lparr>ostate := 0\<rparr>"

definition output_get_state :: "'w log_state \<Rightarrow> u32" where
  "output_get_state st = ostate st"

definition output_restore_state :: "u32 \<Rightarrow> 'w log_state \<Rightarrow> 'w log_state" where
  "output_restore_state s st = st\<lparr>ostate := s\<rparr>"

definition output_disable :: "u32 \<Rightarrow> 'w log_state \<Rightarrow> 'w log_state" where
  "output_disable b st = st\<lparr>ostate := ostate st AND NOT b\<rparr>"

definition output_enable :: "u32 \<Rightarrow> 'w log_state \<Rightarrow> 'w log_state" where
  "output_enable b st = st\<lparr>ostate := ostate st OR b\<rparr>"

definition log_register_timer :: "(nat \<Rightarrow> u32) \<Rightarrow> 'w log_state \<Rightarrow> 'w log_state" where
  "log_register_timer clk st =
     (case register_timer clk (readings st) LOG_TIMEOUT of (tw, _, i) \<Rightarrow> st\<lparr>last_update := tw, readings := i\<rparr>)"

text \<open>\<open>log_fflush\<close>, for a file: \<open>buf_ptr\<close> stays.\<close>

definition log_fflush ::
  "(u8 \<Rightarrow> 'w \<Rightarrow> 'w) \<Rightarrow> u32 \<Rightarrow> 'w stream \<Rightarrow> 'w log_state \<Rightarrow> 'w \<Rightarrow> ('w stream \<times> 'w log_state \<times> 'w) option" where
  "log_fflush putc at fp st w =
     (case log_buf st of
        None \<Rightarrow> Some (fp, st, w)
      | Some b \<Rightarrow> do {
          let state = output_get_state st;
          let st = output_disable RPIBOOT_OUTPUT_LOG st;
          (_, _, fp, w) \<leftarrow> fwrite putc b at 1 (buf_ptr st) fp w;
          Some (fp, output_restore_state state st, w) })"

text \<open>\<open>fflush\<close> of the log file: its call back, then that of the file system.\<close>

definition fflush_log ::
  "(u8 \<Rightarrow> 'w \<Rightarrow> 'w) \<Rightarrow> u32 \<Rightarrow> 'w stream \<Rightarrow> 'w log_state \<Rightarrow> 'w \<Rightarrow> ('w stream \<times> 'w log_state \<times> 'w) option" where
  "fflush_log putc at fp st w = do {
     (fp, st, w) \<leftarrow> (if log_cb st then log_fflush putc at fp st w else Some (fp, st, w));
     (_, _, w) \<leftarrow> fflush None fp w;
     Some (fp, st, w) }"

definition log_putc ::
  "(u8 \<Rightarrow> 'w \<Rightarrow> 'w) \<Rightarrow> u32 \<Rightarrow> (nat \<Rightarrow> u32) \<Rightarrow> int \<Rightarrow> 'w log_state \<Rightarrow> 'w \<Rightarrow> (int \<times> 'w log_state \<times> 'w) option" where
  "log_putc putc at clk c st w = do {
     let st = (if trigger_value (last_update st) = 0 then log_register_timer clk st else st);
     (case (log_buf st, buf_size st \<noteq> 0) of
        (Some b, True) \<Rightarrow> do {
          b \<leftarrow> put_byte b (unat (buf_ptr st)) (word_of_int c);
          let st = st\<lparr>log_buf := Some b, buf_ptr := buf_ptr st + 1\<rparr>;
          if buf_ptr st \<ge> buf_size st then do {
            (st, w) \<leftarrow>
              (case (log_fp st, log_cb st) of
                 (Some fp, True) \<Rightarrow> do {
                   (fp, st, w) \<leftarrow> log_fflush putc at fp st w;
                   Some (log_register_timer clk (st\<lparr>log_fp := Some fp\<rparr>), w) }
               | _ \<Rightarrow> Some (st, w));
            Some (0, st\<lparr>buf_ptr := 0\<rparr>, w) }
          else Some (0, st, w) }
      | _ \<Rightarrow>
          (case log_fp st of
             Some fp \<Rightarrow> do {
               let state = output_get_state st;
               let st = output_disable RPIBOOT_OUTPUT_LOG st;
               (_, _, fp, w) \<leftarrow> fwrite putc [word_of_int c] at 1 1 fp w;
               Some (0, output_restore_state state (st\<lparr>log_fp := Some fp\<rparr>), w) }
           | None \<Rightarrow> Some (0xff, st, w))) }"

definition register_log_file ::
  "(u8 \<Rightarrow> 'w \<Rightarrow> 'w) \<Rightarrow> u32 \<Rightarrow> 'w stream option \<Rightarrow> u32 \<Rightarrow> 'w log_state \<Rightarrow> 'w \<Rightarrow> (int \<times> 'w log_state \<times> 'w) option" where
  "register_log_file putc at fp buffer_size st w = do {
     (st, w) \<leftarrow>
       (case log_fp st of
          None \<Rightarrow> Some (st, w)
        | Some old \<Rightarrow> do {
            (old, st, w) \<leftarrow> fflush_log putc at old st w;
            Some (st\<lparr>log_fp := Some old, log_cb := False\<rparr>, w) });
     (case fp of
        None \<Rightarrow>
          Some (0, st\<lparr>log_buf := (if buffer_size \<noteq> 0 then Some (replicate (unat buffer_size) 0) else None),
            buf_size := buffer_size, buf_ptr := 0, log_fp := None\<rparr>, w)
      | Some fp \<Rightarrow> do {
          let st = st\<lparr>log_cb := True\<rparr>;
          (fp, st, w) \<leftarrow>
            (if log_fp st = None \<and> log_buf st \<noteq> None
             then fflush_log putc at fp (st\<lparr>log_fp := Some fp\<rparr>) w else Some (fp, st, w));
          let b = (case log_buf st of
                     Some b \<Rightarrow> if buf_size st \<noteq> buffer_size
                       then take (unat buffer_size) b @ replicate (unat buffer_size - length b) 0 else b
                   | None \<Rightarrow> replicate (unat buffer_size) 0);
          Some (0, st\<lparr>log_buf := Some b, buf_size := buffer_size, buf_ptr := 0, log_fp := Some fp\<rparr>, w) }) }"

definition get_log_file :: "'w log_state \<Rightarrow> 'w stream option" where
  "get_log_file st = log_fp st"

text \<open>The multiplexer.\<close>

definition split_putc ::
  "(int \<Rightarrow> 'w \<Rightarrow> int \<times> 'w) \<Rightarrow> (int \<Rightarrow> 'w \<Rightarrow> int \<times> 'w) \<Rightarrow> (int \<Rightarrow> 'w \<Rightarrow> int \<times> 'w) option \<Rightarrow>
   (u8 \<Rightarrow> 'w \<Rightarrow> 'w) \<Rightarrow> u32 \<Rightarrow> (nat \<Rightarrow> u32) \<Rightarrow> int \<Rightarrow> 'w log_state \<Rightarrow> 'w \<Rightarrow> (int \<times> 'w log_state \<times> 'w) option" where
  "split_putc uart_putc console_putc custom_putc putc at clk c st w = do {
     let ret = 0;
     let (ret, w) = (if ostate st AND RPIBOOT_OUTPUT_UART \<noteq> 0 then uart_putc c w else (ret, w));
     let (ret, w) = (if ostate st AND RPIBOOT_OUTPUT_FB \<noteq> 0 then console_putc c w else (ret, w));
     (ret, st, w) \<leftarrow>
       (if ostate st AND RPIBOOT_OUTPUT_LOG \<noteq> 0 then log_putc putc at clk c st w else Some (ret, st, w));
     let w = (case custom_putc of
                Some f \<Rightarrow> if ostate st AND RPIBOOT_OUTPUT_CUSTOM \<noteq> 0 then snd (f c w) else w
              | None \<Rightarrow> w);
     Some (ret, st, w) }"

section \<open>What reaches the file\<close>

text \<open>A file system that appends what it is given to a list of bytes, the world.\<close>

definition appends :: "buf fs \<Rightarrow> u32 \<Rightarrow> bool" where
  "appends fs at \<longleftrightarrow> (\<exists>wr. fs_fwrite_op fs = Some wr \<and> (\<forall>b n f w. unat n \<le> length b \<longrightarrow>
     (\<exists>f'. wr b at n f w = Some (n, f', w @ take (unat n) b))))"

definition pending :: "'w log_state \<Rightarrow> buf" where
  "pending st = (case log_buf st of None \<Rightarrow> [] | Some b \<Rightarrow> take (unat (buf_ptr st)) b)"

definition log_inv :: "buf fs \<Rightarrow> buf log_state \<Rightarrow> bool" where
  "log_inv fs st \<longleftrightarrow> (\<exists>f b. log_fp st = Some (File_stream fs f) \<and> log_cb st \<and> log_buf st = Some b
     \<and> length b = unat (buf_size st) \<and> buf_ptr st < buf_size st)"

lemma log_fflush_appends:
  assumes "appends fs at" "log_buf st = Some b" "unat (buf_ptr st) \<le> length b"
  shows "\<exists>f'. log_fflush putc at (File_stream fs f) st w = Some (File_stream fs f', st, w @ pending st)"
proof -
  obtain wr f' where "fs_fwrite_op fs = Some wr" "wr b at (buf_ptr st) f w = Some (buf_ptr st, f', w @ take (unat (buf_ptr st)) b)"
    using assms(1,3) unfolding appends_def by blast
  then show ?thesis
    using assms(2)
    by (simp add: log_fflush_def fwrite_def pending_def output_disable_def output_restore_state_def
        output_get_state_def Let_def)
qed

lemma log_register_timer_fields [simp]:
  "log_fp (log_register_timer clk st) = log_fp st" "log_cb (log_register_timer clk st) = log_cb st"
  "log_buf (log_register_timer clk st) = log_buf st" "buf_size (log_register_timer clk st) = buf_size st"
  "buf_ptr (log_register_timer clk st) = buf_ptr st"
  by (simp_all add: log_register_timer_def split: prod.split)

text \<open>One character: it is pending, or it fills the buffer and all of it is written.\<close>

lemma log_putc_keeps:
  assumes "appends fs at" "log_inv fs st"
  shows "\<exists>st' w'. log_putc putc at clk c st w = Some (0, st', w') \<and> log_inv fs st'
    \<and> w' @ pending st' = w @ pending st @ [word_of_int c]"
proof -
  obtain f b where st: "log_fp st = Some (File_stream fs f)" "log_cb st" "log_buf st = Some b"
    "length b = unat (buf_size st)" "buf_ptr st < buf_size st"
    using assms(2) by (auto simp: log_inv_def)
  define st1 where "st1 = (if trigger_value (last_update st) = 0 then log_register_timer clk st else st)"
  have st1: "log_fp st1 = Some (File_stream fs f)" "log_cb st1" "log_buf st1 = Some b" "buf_size st1 = buf_size st"
    "buf_ptr st1 = buf_ptr st"
    using st by (simp_all add: st1_def)
  let ?p = "unat (buf_ptr st)" and ?b = "b[unat (buf_ptr st) := word_of_int c]"
  have p: "?p < length b" "unat (buf_ptr st + 1) = Suc ?p" "buf_size st \<noteq> 0"
    using st(4,5) unat_Suc_u32 [of "buf_ptr st"] unat_u32_less [of "buf_size st"] by (auto simp: word_less_nat_alt)
  have put: "put_byte b ?p (word_of_int c) = Some ?b" and all: "take (Suc ?p) ?b = pending st @ [word_of_int c]"
    using p(1) st(3) by (simp_all add: pending_def take_Suc_conv_app_nth)
  let ?st2 = "st1\<lparr>log_buf := Some ?b, buf_ptr := buf_ptr st + 1\<rparr>"
  show ?thesis
  proof (cases "buf_ptr st + 1 \<ge> buf_size st")
    case True
    have "unat (buf_ptr ?st2) \<le> length ?b"
      using p by simp
    then obtain f' where "log_fflush putc at (File_stream fs f) ?st2 w =
        Some (File_stream fs f', ?st2, w @ pending ?st2)"
      using log_fflush_appends [OF assms(1), of ?st2 ?b putc f w] by auto
    then have run: "log_putc putc at clk c st w =
        Some (0, (log_register_timer clk (?st2\<lparr>log_fp := Some (File_stream fs f')\<rparr>))\<lparr>buf_ptr := 0\<rparr>, w @ pending ?st2)"
      using st1 put p(3) True by (simp add: log_putc_def st1_def [symmetric] Let_def)
    have "pending ?st2 = pending st @ [word_of_int c]"
      using all p(2) by (simp add: pending_def)
    then show ?thesis
      unfolding run using st1 st(4) p(3) by (simp add: log_inv_def pending_def word_gt_0)
  next
    case False
    then have run: "log_putc putc at clk c st w = Some (0, ?st2, w)"
      using st1 put p(3) by (simp add: log_putc_def st1_def [symmetric] Let_def)
    then show ?thesis
      using st1 st(4) p False all by (auto simp: log_inv_def pending_def)
  qed
qed

primrec log_puts ::
  "(u8 \<Rightarrow> 'w \<Rightarrow> 'w) \<Rightarrow> u32 \<Rightarrow> (nat \<Rightarrow> u32) \<Rightarrow> int list \<Rightarrow> 'w log_state \<Rightarrow> 'w \<Rightarrow> ('w log_state \<times> 'w) option" where
  "log_puts putc at clk [] st w = Some (st, w)"
| "log_puts putc at clk (c # cs) st w = do {
     (_, st, w) \<leftarrow> log_putc putc at clk c st w;
     log_puts putc at clk cs st w }"

lemma log_puts_keeps:
  assumes "appends fs at" "log_inv fs st"
  shows "\<exists>st' w'. log_puts putc at clk cs st w = Some (st', w') \<and> log_inv fs st'
    \<and> w' @ pending st' = w @ pending st @ map word_of_int cs"
  using assms(2)
proof (induction cs arbitrary: st w)
  case (Cons c cs)
  obtain st1 w1 where one: "log_putc putc at clk c st w = Some (0, st1, w1)" "log_inv fs st1"
    "w1 @ pending st1 = w @ pending st @ [word_of_int c]"
    using log_putc_keeps [OF assms(1) Cons(2)] by blast
  obtain st' w' where "log_puts putc at clk cs st1 w1 = Some (st', w')" "log_inv fs st'"
    "w' @ pending st' = w1 @ pending st1 @ map word_of_int cs"
    using Cons(1) [OF one(2)] by blast
  then show ?case
    using one by auto
qed simp

lemma fflush_log_keeps:
  assumes "appends fs at" "log_inv fs st" "log_fp st = Some (File_stream fs f)" "fs_fflush fs = None"
  shows "\<exists>f'. fflush_log putc at (File_stream fs f) st w = Some (File_stream fs f', st, w @ pending st)"
proof -
  obtain b where "log_buf st = Some b" "unat (buf_ptr st) \<le> length b" "log_cb st"
    using assms(2) by (auto simp: log_inv_def word_less_nat_alt)
  then show ?thesis
    using log_fflush_appends [OF assms(1), of st b putc f w] assms(4)
    by (auto simp: fflush_log_def fflush_def)
qed

text \<open>A file that appends, and a log with a buffer of two characters.\<close>

definition sample_log_fs :: "buf fs" where
  "sample_log_fs = \<lparr>fs_id = 1, fs_parent = \<lparr>driver_name = [], device_name = [], device_id = [], dev_id_len = 0,
       supports_multiple_block_read = False, supports_multiple_block_write = False,
       bd_read = None, bd_write = None, block_size = 512, num_blocks = 0\<rparr>,
     fs_name = [], fs_flags = 0, fs_block_size = 512, fs_fopen = (\<lambda>d m w. None),
     fs_fread_op = (\<lambda>b a n f w. None), fs_fwrite_op = Some (\<lambda>b a n f w. Some (n, f, w @ take (unat n) b)),
     fs_fclose = None, fs_fsize = None, fs_fseek = None, fs_ftell = None, fs_fflush = None,
     fs_read_directory = (\<lambda>p w. None)\<rparr>"

definition sample_log_file :: vfs_file where
  "sample_log_file = \<lparr>f_fs = 1, f_pos = 0, f_mode = 0, f_opaque = 0, f_len = 0, f_flags = 0\<rparr>"

definition sample_log :: "buf log_state" where
  "sample_log = log_start\<lparr>log_fp := Some (File_stream sample_log_fs sample_log_file), log_cb := True,
     log_buf := Some [104, 0], buf_size := 2, buf_ptr := 1\<rparr>"

lemma sample_log_ok: "appends sample_log_fs at" "log_inv sample_log_fs sample_log" "pending sample_log = [104]"
  by (simp_all add: appends_def sample_log_fs_def log_inv_def sample_log_def log_start_def pending_def)

section \<open>Properties\<close>



text \<open>But flushing the log file, which its documentation asks the client to do, leaves
  the buffer as it was: what was pending is written now and once more later.\<close>

theorem log_fflush_doubles:
  assumes "appends fs at" "log_inv fs st" "log_fp st = Some (File_stream fs f)" "fs_fflush fs = None"
  shows "\<exists>f' st' w'. fflush_log putc at (File_stream fs f) st w = Some (File_stream fs f', st, w @ pending st)
    \<and> log_puts putc at clk cs (st\<lparr>log_fp := Some (File_stream fs f')\<rparr>) (w @ pending st) = Some (st', w')
    \<and> w' @ pending st' = w @ pending st @ pending st @ map word_of_int cs"
proof -
  obtain f' where flush: "fflush_log putc at (File_stream fs f) st w = Some (File_stream fs f', st, w @ pending st)"
    using fflush_log_keeps [OF assms] by blast
  let ?st = "st\<lparr>log_fp := Some (File_stream fs f')\<rparr>"
  have "log_inv fs ?st" "pending ?st = pending st"
    using assms(2) by (auto simp: log_inv_def pending_def)
  then show ?thesis
    using flush log_puts_keeps [OF assms(1), of ?st putc clk cs "w @ pending st"] by auto
qed

theorem log_fflush_doubles_witness:
  "\<exists>f' st' w'. fflush_log (\<lambda>c w. w) 0 (File_stream sample_log_fs sample_log_file) sample_log [] =
      Some (File_stream sample_log_fs f', sample_log, [104])
    \<and> log_puts (\<lambda>c w. w) 0 (\<lambda>i. 1) [105] (sample_log\<lparr>log_fp := Some (File_stream sample_log_fs f')\<rparr>) [104] = Some (st', w')
    \<and> w' @ pending st' = [104, 104, 105]"
proof -
  have open_log: "log_fp sample_log = Some (File_stream sample_log_fs sample_log_file)" "fs_fflush sample_log_fs = None"
    by (simp_all add: sample_log_def sample_log_fs_def)
  show ?thesis
    using log_fflush_doubles [OF sample_log_ok(1,2) open_log, of "\<lambda>c w. w" 0 "[]" "\<lambda>i. 1" "[105]"]
    by (auto simp: sample_log_ok(3))
qed

end
