(* ===== verification/Multiboot.thy ===== *)
theory Multiboot
  imports Elf Log ConfigParse MemChunk Strtol
begin

text \<open>
  The methods of the configuration file, multiboot.c.  The state of the loader holds
  the physical memory, the regions handed out, the mounted file systems and the
  variables of the file; a jump to a kernel is recorded in \<open>jumps\<close> with its
  arguments, and what the kernel does is not modelled.  Pointers in the structures
  for the kernel are the objects they point to.  The addresses of the buffers that
  \<open>malloc\<close> returns for reads are a parameter (\<open>be_heap\<close>, in order of the calls).
  \<open>None\<close> is undefined behaviour, or a search for memory that does not return.
\<close>

section \<open>Data\<close>

record multiboot_header =
  mh_flags :: u32
  mh_header_addr :: u32
  mh_load_addr :: u32
  mh_load_end_addr :: u32
  mh_bss_end_addr :: u32
  mh_entry_addr :: u32

definition MULTIBOOT_HEADER_MAGIC :: u32 where "MULTIBOOT_HEADER_MAGIC = 0x1BADB002"
definition MULTIBOOT_BOOTLOADER_MAGIC :: u32 where "MULTIBOOT_BOOTLOADER_MAGIC = 0x2BADB002"

record module =
  mod_start :: u32
  mod_end :: u32
  mod_string :: cstring

record framebuffer =
  framebuffer_addr :: u32
  framebuffer_width :: u32
  framebuffer_height :: u32
  framebuffer_pitch :: u32
  framebuffer_bpp :: u8
  framebuffer_type :: u8
  framebuffer_fields :: "u8 list"

record multiboot_info =
  mi_flags :: u32
  mem_upper :: u32
  boot_device :: "cstring option"
  cmdline :: "cstring option"
  mods_count :: u32
  mods :: "module list"
  elf_num :: u32
  elf_size :: u32
  elf_table :: buf
  elf_shndx :: u32
  mmap_length :: u32
  mmap :: "u32 list"
  boot_loader_name :: "cstring option"
  fb_info :: "framebuffer option"

definition multiboot_info_zero :: multiboot_info where
  "multiboot_info_zero = \<lparr>mi_flags = 0, mem_upper = 0, boot_device = None, cmdline = None, mods_count = 0, mods = [],
     elf_num = 0, elf_size = 0, elf_table = [], elf_shndx = 0, mmap_length = 0, mmap = [],
     boot_loader_name = None, fb_info = None\<rparr>"

datatype boot_arg = Word_arg u32 | Info_arg multiboot_info | Functions_arg

record jump =
  j_entry :: u32
  j_args :: "boot_arg list"

text \<open>What the loader takes from the rest of the program: buffer addresses, the memory
  regions of the firmware (the tags are read again here, and give what they gave at the
  start), the frame buffer, the machine type and the tags, the
  character output and the buffer address of the log.\<close>

record 'w boot_env =
  be_heap :: "nat \<Rightarrow> u32"
  be_regions :: "(u32 \<times> u32) list"
  be_framebuffer :: framebuffer
  be_arm_m_type :: u32
  be_atags :: u32
  be_putc :: "u8 \<Rightarrow> 'w \<Rightarrow> 'w"
  be_log_at :: u32

record 'w loader =
  ld_mem :: buf
  ld_chunks :: chunk_state
  ld_vfs :: "'w vfs"
  ld_dev :: 'w
  ld_log :: "'w log_state"
  ld_mallocs :: nat
  mbinfo :: "multiboot_info option"
  entry_addr :: u32
  binary_load_addr :: u32
  first_mod :: "module list"
  mod_count :: u32
  jumps :: "jump list"

type_synonym 'w boot_method = "'w boot_env \<Rightarrow> cstring \<Rightarrow> 'w loader \<Rightarrow> (int \<times> 'w loader) option"

definition fresh_buffer :: "'w boot_env \<Rightarrow> 'w loader \<Rightarrow> u32 \<times> 'w loader" where
  "fresh_buffer env st = (be_heap env (ld_mallocs st), st\<lparr>ld_mallocs := ld_mallocs st + 1\<rparr>)"

text \<open>The arguments of a method are cut in their place: the first word, the rest, whether
  the rest is the static empty string, and what the argument pointer shows after it.\<close>

definition split_args :: "cstring \<Rightarrow> (cstring \<times> cstring \<times> bool \<times> cstring) option" where
  "split_args args = do {
     (a, b, m) \<leftarrow> split_string (args @ [0]) 0 32;
     first \<leftarrow> string_of m a;
     rest \<leftarrow> string_of m b;
     whole \<leftarrow> string_at m 0;
     Some (first, rest, b = None, whole) }"

definition stream_device :: "'w stream \<Rightarrow> cstring option" where
  "stream_device fp = (case fp of File_stream fs f \<Rightarrow> Some (device_name (fs_parent fs)) | _ \<Rightarrow> None)"

text \<open>Calls of the stdio functions on the state.\<close>

definition ld_fopen :: "cstring \<Rightarrow> cstring \<Rightarrow> 'w loader \<Rightarrow> ('w stream option \<times> 'w loader) option" where
  "ld_fopen name mode st = do {
     (r, w) \<leftarrow> fopen (ld_vfs st) (Some name) mode (ld_dev st);
     Some (case r of Inl e \<Rightarrow> None | Inr fp \<Rightarrow> Some fp, st\<lparr>ld_dev := w\<rparr>) }"

definition ld_fclose :: "'w stream \<Rightarrow> 'w loader \<Rightarrow> 'w loader option" where
  "ld_fclose fp st = do {
     (_, _, w) \<leftarrow> fclose None fp (ld_dev st);
     Some (st\<lparr>ld_dev := w\<rparr>) }"

definition ld_fread_mem :: "u32 \<Rightarrow> u32 \<Rightarrow> 'w stream \<Rightarrow> 'w loader \<Rightarrow> (u32 \<times> 'w stream \<times> 'w loader) option" where
  "ld_fread_mem addr n fp st = do {
     (r, mem, fp, w) \<leftarrow> fread_mem (ld_mem st) addr n fp (ld_dev st);
     Some (r, fp, st\<lparr>ld_mem := mem, ld_dev := w\<rparr>) }"

definition ld_get_chunk :: "u32 \<Rightarrow> u32 \<Rightarrow> 'w loader \<Rightarrow> u32 \<times> 'w loader" where
  "ld_get_chunk s l st = (case chunk_get_chunk s l (ld_chunks st) of (r, ch) \<Rightarrow> (r, st\<lparr>ld_chunks := ch\<rparr>))"

definition ld_get_any_chunk :: "u32 \<Rightarrow> 'w loader \<Rightarrow> (u32 \<times> 'w loader) option" where
  "ld_get_any_chunk l st = do {
     (r, ch) \<leftarrow> chunk_get_any_chunk l (ld_chunks st);
     Some (r, st\<lparr>ld_chunks := ch\<rparr>) }"

section \<open>Programs in a file\<close>

text \<open>The loop over the program headers; \<open>adj\<close> is what it does with the entry address
  after a segment.  The first component of the result is the code returned early: a
  region that is not free gives the code of the call before it, \<open>ELF_OK\<close>.\<close>

function load_segments ::
  "(Elf32_Phdr \<Rightarrow> u32 \<Rightarrow> u32) \<Rightarrow> buf \<Rightarrow> nat \<Rightarrow> nat \<Rightarrow> nat \<Rightarrow> 'w stream \<Rightarrow> 'w loader \<Rightarrow>
   (int option \<times> 'w stream \<times> 'w loader) option" where
  "load_segments adj b sz n i fp st =
     (if i < n then do {
        ty \<leftarrow> read_word b (i * sz);
        if ty \<noteq> PT_LOAD then load_segments adj b sz n (i + 1) fp st
        else do {
          ph \<leftarrow> phdr_at b (i * sz);
          let (r, st) = ld_get_chunk (p_paddr ph) (p_memsz ph) st;
          if r = 0 then Some (Some ELF_OK, fp, st)
          else do {
            (ret, mem, fp, w) \<leftarrow> elf32_load_segment ph (ld_mem st) fp (ld_dev st);
            let st = st\<lparr>ld_mem := mem, ld_dev := w\<rparr>;
            if ret \<noteq> ELF_OK then Some (Some ret, fp, st)
            else load_segments adj b sz n (i + 1) fp (st\<lparr>entry_addr := adj ph (entry_addr st)\<rparr>) } } }
      else Some (None, fp, st))"
  by pat_completeness auto
termination by (relation "measure (\<lambda>(adj, b, sz, n, i, _). n - i)") auto

text \<open>The conversion of the entry address from virtual to physical.\<close>

definition entry_to_physical :: "Elf32_Phdr \<Rightarrow> u32 \<Rightarrow> u32" where
  "entry_to_physical ph e = (if e \<ge> p_vaddr ph \<and> e < p_vaddr ph + p_memsz ph then e - p_vaddr ph + p_paddr ph else e)"

text \<open>The loop over the sections that are not part of a segment.\<close>

function load_sections ::
  "buf \<Rightarrow> nat \<Rightarrow> nat \<Rightarrow> nat \<Rightarrow> 'w stream \<Rightarrow> 'w loader \<Rightarrow> (int option \<times> buf \<times> 'w stream \<times> 'w loader) option" where
  "load_sections b sz n i fp st =
     (if i < n then do {
        fl \<leftarrow> read_word b (i * sz + 8);
        if fl AND SHF_ALLOC \<noteq> 0 then load_sections b sz n (i + 1) fp st
        else do {
          sh_len \<leftarrow> read_word b (i * sz + 20);
          if sh_len = 0 then load_sections b sz n (i + 1) fp st
          else do {
            (load_addr, st) \<leftarrow> ld_get_any_chunk sh_len st;
            if load_addr = 0 then Some (Some (-1), b, fp, st)
            else do {
              b \<leftarrow> write_word load_addr b (i * sz + 12);
              sh \<leftarrow> shdr_at b (i * sz);
              (ret, mem, fp, w) \<leftarrow> elf32_load_section sh (ld_mem st) fp (ld_dev st);
              let st = st\<lparr>ld_mem := mem, ld_dev := w\<rparr>;
              if ret \<noteq> ELF_OK then Some (Some ret, b, fp, st)
              else load_sections b sz n (i + 1) fp st } } } }
      else Some (None, b, fp, st))"
  by pat_completeness auto
termination by (relation "measure (\<lambda>(b, sz, n, i, _). n - i)") auto

declare load_segments.simps [simp del] load_sections.simps [simp del]

section \<open>The multiboot header\<close>

text \<open>The structure at an offset of the buffer: all of it is copied, so all of it must
  be inside.\<close>

definition header_at :: "buf \<Rightarrow> nat \<Rightarrow> multiboot_header option" where
  "header_at b p = do {
     _ \<leftarrow> read_word b p;
     flags \<leftarrow> read_word b (p + 4);
     _ \<leftarrow> read_word b (p + 8);
     header_addr \<leftarrow> read_word b (p + 12);
     load_addr \<leftarrow> read_word b (p + 16);
     load_end_addr \<leftarrow> read_word b (p + 20);
     bss_end_addr \<leftarrow> read_word b (p + 24);
     entry \<leftarrow> read_word b (p + 28);
     Some \<lparr>mh_flags = flags, mh_header_addr = header_addr, mh_load_addr = load_addr,
       mh_load_end_addr = load_end_addr, mh_bss_end_addr = bss_end_addr, mh_entry_addr = entry\<rparr> }"

function find_header :: "buf \<Rightarrow> nat \<Rightarrow> nat \<Rightarrow> (multiboot_header \<times> u32) option option" where
  "find_header b n i =
     (if i < n then do {
        x \<leftarrow> read_word b (4 * i);
        if x \<noteq> MULTIBOOT_HEADER_MAGIC then find_header b n (i + 1)
        else do {
          flags \<leftarrow> read_word b (4 * i + 4);
          checksum \<leftarrow> read_word b (4 * i + 8);
          if x + flags + checksum = 0 then do {
            h \<leftarrow> header_at b (4 * i);
            Some (Some (h, word_of_nat (4 * i))) }
          else find_header b n (i + 1) } }
      else Some None)"
  by pat_completeness auto
termination by (relation "measure (\<lambda>(b, n, i). n - i)") auto

declare find_header.simps [simp del]

section \<open>The information for the kernel\<close>

text \<open>The two passes over the memory regions.\<close>

definition mem_cb :: "u32 \<times> u32 \<Rightarrow> multiboot_info \<Rightarrow> multiboot_info" where
  "mem_cb r mi =
     (case r of (start, len) \<Rightarrow>
        let e = start + len;
            mi = (if start < 0x100000 \<and> e > 0x100000 then mi\<lparr>mem_upper := e div 1024\<rparr> else mi)
        in mi\<lparr>mmap_length := mmap_length mi + 24\<rparr>)"

definition mem_cb2 :: "u32 \<times> u32 \<Rightarrow> u32 list" where
  "mem_cb2 r = (case r of (start, len) \<Rightarrow> [20, start, 0, len, 0, 1])"

definition pass_memory :: "(u32 \<times> u32) list \<Rightarrow> multiboot_info \<Rightarrow> multiboot_info" where
  "pass_memory regions mi =
     (let mi = fold mem_cb regions mi;
          mi = mi\<lparr>mmap := concat (map mem_cb2 regions)\<rparr>
      in mi\<lparr>mi_flags := mi_flags mi OR 1 OR 0x40\<rparr>)"

text \<open>The fields that are set after the kernel has been loaded.\<close>

definition rpi_boot_name :: cstring where "rpi_boot_name = lit ''rpi_boot''"

definition pass_boot_info :: "framebuffer \<Rightarrow> cstring \<Rightarrow> cstring \<Rightarrow> multiboot_info \<Rightarrow> multiboot_info" where
  "pass_boot_info fb args dev mi =
     (let mi = mi\<lparr>cmdline := Some args, mi_flags := mi_flags mi OR 4\<rparr>;
          mi = mi\<lparr>boot_device := Some dev, mi_flags := mi_flags mi OR 2\<rparr>;
          mi = mi\<lparr>boot_loader_name := Some rpi_boot_name, mi_flags := mi_flags mi OR 0x200\<rparr>
      in mi\<lparr>fb_info := Some (fb\<lparr>framebuffer_type := 1, framebuffer_fields := [16, 8, 8, 8, 0, 8]\<rparr>),
           mi_flags := mi_flags mi OR 0x800\<rparr>)"

definition set_mbinfo :: "(multiboot_info \<Rightarrow> multiboot_info) \<Rightarrow> 'w loader \<Rightarrow> 'w loader" where
  "set_mbinfo g st = st\<lparr>mbinfo := map_option g (mbinfo st)\<rparr>"

section \<open>The multiboot method\<close>

text \<open>An a.out kernel, described by the header itself.  A code that is not zero is
  returned by the method.\<close>

definition load_aout ::
  "multiboot_header \<Rightarrow> u32 \<Rightarrow> 'w stream \<Rightarrow> 'w loader \<Rightarrow> (int \<times> 'w stream \<times> 'w loader) option" where
  "load_aout h header_offset fp st =
     (if mh_load_addr h < 0x100000 then Some (-1, fp, st)
      else do {
        let file_offset = header_offset - mh_header_addr h + mh_load_addr h;
        flen \<leftarrow> stream_len fp;
        let len = (if mh_load_end_addr h \<noteq> 0 then mh_load_end_addr h - mh_load_addr h
                   else word_of_int flen - file_offset);
        let bss_len = (if mh_bss_end_addr h > mh_load_end_addr h
                       then mh_bss_end_addr h - mh_load_end_addr h else 0);
        let st = st\<lparr>entry_addr := mh_entry_addr h\<rparr>;
        let (r, st) = ld_get_chunk (mh_load_addr h) (len + bss_len) st;
        if r = 0 then Some (-1, fp, st)
        else do {
          (_, _, fp) \<leftarrow> fseek fp (sint file_offset) SEEK_SET;
          (b_read, fp, st) \<leftarrow> ld_fread_mem (mh_load_addr h) len fp st;
          if b_read \<noteq> len then Some (-1, fp, st)
          else do {
            mem \<leftarrow> (if bss_len \<noteq> 0 then memset (ld_mem st) (unat (mh_load_end_addr h)) 0 (unat bss_len)
                    else Some (ld_mem st));
            Some (0, fp, st\<lparr>ld_mem := mem\<rparr>) } } })"

text \<open>An ELF kernel.  The first component of the result is the code that the method
  returns at once, if it does.\<close>

definition load_elf_multiboot ::
  "'w boot_env \<Rightarrow> 'w stream \<Rightarrow> 'w loader \<Rightarrow> (int option \<times> 'w stream \<times> 'w loader) option" where
  "load_elf_multiboot env fp st = do {
     let (at, st) = fresh_buffer env st;
     (retno, ehdr, fp, w) \<leftarrow> elf32_read_ehdr at fp (ld_dev st);
     let st = st\<lparr>ld_dev := w\<rparr>;
     (case ehdr of
        None \<Rightarrow> Some (Some retno, fp, st)
      | Some h \<Rightarrow>
          if e_shoff h = 0 \<or> e_shnum h = 0 then Some (Some (-1), fp, st)
          else do {
            let (at, st) = fresh_buffer env st;
            (retno, sh_buf, fp, w) \<leftarrow> elf32_read_shdrs at h fp (ld_dev st);
            let st = st\<lparr>ld_dev := w\<rparr>;
            (case sh_buf of
               None \<Rightarrow> do { st \<leftarrow> ld_fclose fp st; Some (Some retno, fp, st) }
             | Some sh_buf \<Rightarrow> do {
                 let (at, st) = fresh_buffer env st;
                 (retno, ph_buf, fp, w) \<leftarrow> elf32_read_phdrs at h fp (ld_dev st);
                 let st = st\<lparr>ld_dev := w\<rparr>;
                 (case ph_buf of
                    None \<Rightarrow> do { st \<leftarrow> ld_fclose fp st; Some (Some retno, fp, st) }
                  | Some ph_buf \<Rightarrow> do {
                      let st = st\<lparr>entry_addr := e_entry h\<rparr>;
                      (ret, fp, st) \<leftarrow>
                        load_segments entry_to_physical ph_buf (unat (e_phentsize h)) (unat (e_phnum h)) 0 fp st;
                      if ret \<noteq> None then do { st \<leftarrow> ld_fclose fp st; Some (ret, fp, st) }
                      else do {
                        (ret, sh_buf, fp, st) \<leftarrow>
                          load_sections sh_buf (unat (e_shentsize h)) (unat (e_shnum h)) 0 fp st;
                        if ret \<noteq> None then Some (ret, fp, st)
                        else Some (None, fp, set_mbinfo (\<lambda>mi. mi\<lparr>elf_num := ucast (e_shnum h),
                               elf_size := ucast (e_shentsize h), elf_table := sh_buf,
                               elf_shndx := ucast (e_shstrndx h), mi_flags := mi_flags mi OR 0x40\<rparr>) st) } }) }) }) }"

definition method_multiboot :: "'w boot_method" where
  "method_multiboot env args st = do {
     (fname, _, _, whole) \<leftarrow> split_args args;
     (fp, st) \<leftarrow> ld_fopen fname (lit ''r'') st;
     (case fp of
        None \<Rightarrow> Some (-1, st)
      | Some fp \<Rightarrow> do {
          let (at, st) = fresh_buffer env st;
          (n, first_8k, fp, w) \<leftarrow> fread (replicate 8192 0) at 1 8192 fp (ld_dev st);
          let st = st\<lparr>ld_dev := w\<rparr>;
          mboot \<leftarrow> find_header first_8k (unat n div 4) 0;
          (case mboot of
             None \<Rightarrow> Some (-1, st)
           | Some (h, header_offset) \<Rightarrow> do {
               let st = st\<lparr>mbinfo := Some multiboot_info_zero\<rparr>;
               let st = (if mh_flags h AND 2 \<noteq> 0 then set_mbinfo (pass_memory (be_regions env)) st else st);
               (ret, fp, st) \<leftarrow>
                 (if mh_flags h AND 0x10000 \<noteq> 0 then do {
                    (r, fp, st) \<leftarrow> load_aout h header_offset fp st;
                    Some (if r \<noteq> 0 then Some r else None, fp, st) }
                  else load_elf_multiboot env fp st);
               (case ret of
                  Some r \<Rightarrow> Some (r, st)
                | None \<Rightarrow> do {
                    dev \<leftarrow> stream_device fp;
                    let st = set_mbinfo (pass_boot_info (be_framebuffer env) whole dev) st;
                    let st = st\<lparr>ld_vfs := snd (vfs_set_default dev (ld_vfs st))\<rparr>;
                    st \<leftarrow> ld_fclose fp st;
                    Some (0, st) }) }) }) }"

section \<open>Modules and the jump\<close>

definition module_add :: "u32 \<Rightarrow> u32 \<Rightarrow> cstring \<Rightarrow> 'w loader \<Rightarrow> 'w loader" where
  "module_add s e name st =
     st\<lparr>first_mod := \<lparr>mod_start = s, mod_end = e, mod_string = name\<rparr> # first_mod st, mod_count := mod_count st + 1\<rparr>"

text \<open>The array of modules; running off the list is an error.\<close>

primrec module_array :: "nat \<Rightarrow> module list \<Rightarrow> module list option" where
  "module_array 0 ms = Some []"
| "module_array (Suc n) ms =
     (case ms of [] \<Rightarrow> None | m # ms \<Rightarrow> map_option (Cons m) (module_array n ms))"

definition add_multiboot_modules :: "'w loader \<Rightarrow> 'w loader option" where
  "add_multiboot_modules st = do {
     ms \<leftarrow> module_array (unat (mod_count st)) (first_mod st);
     Some (set_mbinfo (\<lambda>mi. mi\<lparr>mods_count := mod_count st, mods := ms,
       mi_flags := (if ms \<noteq> [] then mi_flags mi OR 8 else mi_flags mi)\<rparr>) st) }"

definition method_module :: "'w boot_method" where
  "method_module env args st = do {
     (fname, name, _, _) \<leftarrow> split_args args;
     let name = (if name = [] then fname else name);
     (fp, st) \<leftarrow> ld_fopen fname (lit ''r'') st;
     (case fp of
        None \<Rightarrow> Some (-1, st)
      | Some fp \<Rightarrow> do {
          len \<leftarrow> stream_len fp;
          (address, st) \<leftarrow> ld_get_any_chunk (word_of_int len) st;
          if address = 0 then Some (-1, st)
          else do {
            let bytes_to_read = word_of_int len;
            (bytes_read, fp, st) \<leftarrow> ld_fread_mem address bytes_to_read fp st;
            st \<leftarrow> ld_fclose fp st;
            if bytes_to_read \<noteq> bytes_read then Some (-1, st)
            else Some (0, module_add address (address + bytes_read) name st) } }) }"

definition method_boot :: "'w boot_method" where
  "method_boot env args st =
     (if entry_addr st = 0 then Some (-1, st)
      else (case mbinfo st of
              Some _ \<Rightarrow> do {
                st \<leftarrow> add_multiboot_modules st;
                mi \<leftarrow> mbinfo st;
                Some (0, st\<lparr>jumps := jumps st @ [\<lparr>j_entry = entry_addr st,
                  j_args = [Word_arg MULTIBOOT_BOOTLOADER_MAGIC, Info_arg mi, Word_arg (be_arm_m_type env),
                            Functions_arg]\<rparr>]\<rparr>) }
            | None \<Rightarrow>
                Some (0, st\<lparr>jumps := jumps st @ [\<lparr>j_entry = entry_addr st,
                  j_args = [Word_arg 0, Word_arg (be_arm_m_type env), Word_arg (be_atags env), Functions_arg]\<rparr>]\<rparr>)))"

section \<open>The kernel method\<close>

datatype kernel_type = Flat_kernel | Elf_kernel | Linux_kernel

definition kernel_type_of :: "u32 \<Rightarrow> buf \<Rightarrow> kernel_type option" where
  "kernel_type_of bytes_read b = do {
     magic \<leftarrow> load b 0 4;
     linux \<leftarrow> read_word b 0x24;
     Some (if bytes_read \<ge> 4 \<and> magic = 0x7f # lit ''ELF'' then Elf_kernel
           else if bytes_read \<ge> 0x30 \<and> linux = 0x016F2818 then Linux_kernel
           else Flat_kernel) }"

definition load_flat :: "'w stream \<Rightarrow> 'w loader \<Rightarrow> (int \<times> 'w loader) option" where
  "load_flat fp st = do {
     flen \<leftarrow> stream_len fp;
     let len = word_of_int flen;
     (r, st) \<leftarrow>
       (if binary_load_addr st \<noteq> 0 then Some (ld_get_chunk (binary_load_addr st) len st)
        else do {
          (a, st) \<leftarrow> ld_get_any_chunk len st;
          Some (a, st\<lparr>binary_load_addr := a\<rparr>) });
     if r = 0 then Some (-1, st)
     else do {
       (_, _, fp) \<leftarrow> fseek fp 0 SEEK_SET;
       (bytes_read, fp, st) \<leftarrow> ld_fread_mem (binary_load_addr st) len fp st;
       if bytes_read \<noteq> len then Some (-1, st)
       else do {
         st \<leftarrow> ld_fclose fp st;
         Some (0, if entry_addr st = 0 then st\<lparr>entry_addr := binary_load_addr st\<rparr> else st) } } }"

definition load_elf_kernel :: "'w boot_env \<Rightarrow> 'w stream \<Rightarrow> 'w loader \<Rightarrow> (int \<times> 'w loader) option" where
  "load_elf_kernel env fp st = do {
     let (at, st) = fresh_buffer env st;
     (retno, ehdr, fp, w) \<leftarrow> elf32_read_ehdr at fp (ld_dev st);
     let st = st\<lparr>ld_dev := w\<rparr>;
     (case ehdr of
        None \<Rightarrow> do { st \<leftarrow> ld_fclose fp st; Some (retno, st) }
      | Some h \<Rightarrow> do {
          let (at, st) = fresh_buffer env st;
          (retno, ph_buf, fp, w) \<leftarrow> elf32_read_phdrs at h fp (ld_dev st);
          let st = st\<lparr>ld_dev := w\<rparr>;
          (case ph_buf of
             None \<Rightarrow> do { st \<leftarrow> ld_fclose fp st; Some (retno, st) }
           | Some ph_buf \<Rightarrow> do {
               (ret, fp, st) \<leftarrow>
                 load_segments (\<lambda>ph e. e) ph_buf (unat (e_phentsize h)) (unat (e_phnum h)) 0 fp st;
               (case ret of
                  Some r \<Rightarrow> do { st \<leftarrow> ld_fclose fp st; Some (r, st) }
                | None \<Rightarrow> Some (0, st\<lparr>entry_addr := e_entry h\<rparr>)) }) }) }"

definition method_kernel :: "'w boot_method" where
  "method_kernel env args st = do {
     (fname, _, _, _) \<leftarrow> split_args args;
     (fp, st) \<leftarrow> ld_fopen fname (lit ''r'') st;
     (case fp of
        None \<Rightarrow> Some (-1, st)
      | Some fp \<Rightarrow> do {
          let (at, st) = fresh_buffer env st;
          (bytes_read, first_bytes, fp, w) \<leftarrow> fread (replicate 0x30 0) at 1 0x30 fp (ld_dev st);
          let st = st\<lparr>ld_dev := w\<rparr>;
          if bytes_read = 0 then Some (-1, st)
          else do {
            ty \<leftarrow> kernel_type_of bytes_read first_bytes;
            (case ty of
               Flat_kernel \<Rightarrow> load_flat fp st
             | Elf_kernel \<Rightarrow> load_elf_kernel env fp st
             | Linux_kernel \<Rightarrow> Some (-1, st)) } }) }"

section \<open>Addresses, the log and the table\<close>

text \<open>\<open>errno\<close> is cleared before the call, so it is zero when the call sets none.\<close>

definition parse_address :: "cstring \<Rightarrow> u32 option option" where
  "parse_address args = do {
     (val, e, err) \<leftarrow> strtol (args @ [0]) 0 0;
     first \<leftarrow> get_byte (args @ [0]) 0;
     last_c \<leftarrow> get_byte (args @ [0]) e;
     Some (if err = None \<and> first \<noteq> 0 \<and> last_c = 0 then Some (word_of_int val) else None) }"

definition method_entry_addr :: "'w boot_method" where
  "method_entry_addr env args st = do {
     a \<leftarrow> parse_address args;
     Some (case a of Some v \<Rightarrow> (0, st\<lparr>entry_addr := v\<rparr>) | None \<Rightarrow> (-1, st)) }"

definition method_binary_load_addr :: "'w boot_method" where
  "method_binary_load_addr env args st = do {
     a \<leftarrow> parse_address args;
     Some (case a of Some v \<Rightarrow> (0, st\<lparr>binary_load_addr := v\<rparr>) | None \<Rightarrow> (-1, st)) }"

text \<open>An empty log name is read before its first character.\<close>

definition method_console_log :: "'w boot_method" where
  "method_console_log env args st = do {
     (name, sz, none, _) \<leftarrow> split_args args;
     (if name = [] then None
      else do {
        let is_append = (last name = 43);
        let name = (if is_append then butlast name else name);
        buffer_size \<leftarrow>
          (if none then Some (Some LOG_DEFAULT_BUFFER_SIZE)
           else do {
             (val, e, _) \<leftarrow> strtol (sz @ [0]) 0 0;
             c \<leftarrow> get_byte (sz @ [0]) e;
             Some (if e = 0 \<or> c \<noteq> 0 then None else Some val) });
        (case buffer_size of
           None \<Rightarrow> Some (-1, st)
         | Some n \<Rightarrow> do {
             (target, st) \<leftarrow> ld_fopen name (if is_append then lit ''a+'' else lit ''w+'') st;
             (case target of
                None \<Rightarrow> Some (-1, st)
              | Some fp \<Rightarrow> do {
                  (_, log, w) \<leftarrow>
                    register_log_file (be_putc env) (be_log_at env) (Some fp) (word_of_int n) (ld_log st) (ld_dev st);
                  Some (0, st\<lparr>ld_log := log, ld_dev := w\<rparr>) }) }) }) }"

text \<open>The table of methods for the parser, whose state is a loader, or nothing once a
  method has run into undefined behaviour.\<close>

definition lift_method :: "'w boot_env \<Rightarrow> 'w boot_method \<Rightarrow> cstring \<Rightarrow> 'w loader option \<Rightarrow> int \<times> 'w loader option" where
  "lift_method env m args st =
     (case st of
        None \<Rightarrow> (0, None)
      | Some s \<Rightarrow> (case m env args s of None \<Rightarrow> (0, None) | Some (r, s) \<Rightarrow> (r, Some s)))"

definition methods :: "'w boot_env \<Rightarrow> 'w loader option cfg_method list" where
  "methods env =
     [(lit ''multiboot'', lift_method env method_multiboot),
      (lit ''boot'', lift_method env method_boot),
      (lit ''module'', lift_method env method_module),
      (lit ''kernel'', lift_method env method_kernel),
      (lit ''entry_addr'', lift_method env method_entry_addr),
      (lit ''binary_load_addr'', lift_method env method_binary_load_addr),
      (lit ''console_log'', lift_method env method_console_log)]"

definition multiboot_cfg_parse ::
  "'w boot_env \<Rightarrow> buf \<Rightarrow> 'w loader \<Rightarrow> (int \<times> cfg_msg list \<times> 'w loader option) option" where
  "multiboot_cfg_parse env b st = config_parse b 0 32 (methods env) (Some st)"

end
