(* ===== verification/Boot.thy ===== *)
theory Boot
  imports Multiboot
begin

text \<open>
  What the methods of multiboot.c achieve: kernels and modules arrive in memory, in
  regions that were free, and the boot method jumps to them.  Files are given by the
  contract \<open>input_file\<close>.
\<close>

section \<open>Loading the segments\<close>

text \<open>The loadable segments of a table, from entry i on.\<close>

definition table_segments :: "buf \<Rightarrow> nat \<Rightarrow> nat \<Rightarrow> nat \<Rightarrow> Elf32_Phdr list" where
  "table_segments b sz n i = filter (\<lambda>ph. p_type ph = PT_LOAD) (map (\<lambda>k. the (phdr_at b (k * sz))) [i..<n])"

definition seg_region :: "Elf32_Phdr \<Rightarrow> chunk" where
  "seg_region ph = \<lparr>chunk_start = p_paddr ph, chunk_len = p_memsz ph\<rparr>"

definition seg_before :: "Elf32_Phdr \<Rightarrow> Elf32_Phdr \<Rightarrow> bool" where
  "seg_before a b \<longleftrightarrow> unat (p_paddr a) + unat (p_memsz a) \<le> unat (p_paddr b)"

text \<open>A segment that fits its file and the memory, and whose region is free.\<close>

definition seg_loadable :: "buf \<Rightarrow> nat \<Rightarrow> chunk_state \<Rightarrow> Elf32_Phdr \<Rightarrow> bool" where
  "seg_loadable content msize ch ph \<longleftrightarrow> seg_ok content msize ph \<and> p_paddr ph \<noteq> 0
     \<and> chunk_can_allocate (p_paddr ph) (p_memsz ph) ch"

definition claim :: "chunk list \<Rightarrow> chunk_state \<Rightarrow> chunk_state" where
  "claim cs ch = ch\<lparr>used := rev cs @ used ch\<rparr>"

text \<open>Memory after loading: every segment is there, and nothing below all of them has
  changed.\<close>

definition segs_loaded :: "buf \<Rightarrow> Elf32_Phdr list \<Rightarrow> buf \<Rightarrow> buf \<Rightarrow> bool" where
  "segs_loaded content segs mem mem' \<longleftrightarrow> length mem' = length mem
     \<and> (\<forall>ph \<in> set segs. take (unat (p_memsz ph)) (drop (unat (p_paddr ph)) mem') = seg_image content ph)
     \<and> (\<forall>a. (\<forall>ph \<in> set segs. a \<le> unat (p_paddr ph)) \<longrightarrow> take a mem' = take a mem)"

text \<open>An ELF kernel: its header, and its loadable segments in ascending order.\<close>

definition elf_kernel :: "buf \<Rightarrow> Elf32_Ehdr \<Rightarrow> Elf32_Phdr list \<Rightarrow> bool" where
  "elf_kernel content h segs \<longleftrightarrow>
     (let sz = unat (e_phentsize h); n = unat (e_phnum h); off = unat (e_phoff h) in
      elf_header content h \<and> 24 \<le> sz \<and> 0 < n \<and> off + sz * n \<le> length content
      \<and> segs = table_segments (take (sz * n) (drop off content)) sz n 0 \<and> sorted_wrt seg_before segs)"

text \<open>The buffer for the program headers has room for the overrun of its read.\<close>

definition table_fits :: "nat \<Rightarrow> u32 \<Rightarrow> Elf32_Ehdr \<Rightarrow> bool" where
  "table_fits B ad h \<longleftrightarrow> overrun B ad (unat (e_phoff h)) (unat (e_phentsize h) * unat (e_phnum h)) = 0"

lemma phdr_at_Some: "p + 24 \<le> length b \<Longrightarrow> \<exists>ph. phdr_at b p = Some ph \<and> read_word b p = Some (p_type ph)"
  by (auto simp: phdr_at_def read_word_eq)

lemma can_allocate_after:
  assumes "chunk_can_allocate s l ch" "unat s' + unat l' \<le> unat s"
  shows "chunk_can_allocate s l (claim [\<lparr>chunk_start = s', chunk_len = l'\<rparr>] ch)"
proof -
  have "unat s' + unat l' < 2 ^ 32"
    using le_less_trans [OF assms(2) unat_u32_less] by simp
  then have "\<not> s < s' + l'"
    using assms(2) by (simp add: word_less_nat_alt unat_plus_if_u32)
  then show ?thesis
    using assms(1) by (auto simp: chunk_can_allocate_def claim_def Let_def split: if_splits)
qed

lemma seg_loadable_after:
  "seg_loadable content msize ch ph \<Longrightarrow> seg_before a ph \<Longrightarrow> seg_loadable content msize (claim [seg_region a] ch) ph"
  by (simp add: seg_loadable_def seg_before_def seg_region_def can_allocate_after)

lemma table_segments_Cons:
  "i < n \<Longrightarrow> table_segments b sz n i =
    (let ph = the (phdr_at b (i * sz)) in
     if p_type ph = PT_LOAD then ph # table_segments b sz n (Suc i) else table_segments b sz n (Suc i))"
  by (simp add: table_segments_def upt_conv_Cons Let_def)

section \<open>Arguments\<close>

lemma split_args_word:
  assumes "0 \<notin> set args" "cfg_method 32 args \<noteq> []"
  shows "\<exists>none. split_args args =
    Some (cfg_method 32 args, cfg_args 32 args, none, takeWhile (\<lambda>c. c = 32) args @ cfg_method 32 args)"
proof -
  have "cstr_at (args @ [0]) 0 args"
    using assms(1) by (auto simp: cstr_at_iff nth_append in_set_conv_nth)
  from split_string_cstr [OF this, of 32 32] show ?thesis
    using assms(2) by (auto simp: split_args_def)
qed

lemma cfg_words:
  assumes "32 \<notin> set n" "n \<noteq> []"
  shows "cfg_method 32 n = n" "cfg_args 32 n = []"
    and "cfg_method 32 (n @ 32 # r) = n" "cfg_args 32 (n @ 32 # r) = dropWhile (\<lambda>c. c = 32) r"
proof -
  have n: "dropWhile (\<lambda>c. c = 32) (n @ r) = n @ r" for r
    using assms by (cases n) auto
  have t: "takeWhile (\<lambda>c. c \<noteq> 32) (n @ r) = n @ takeWhile (\<lambda>c. c \<noteq> 32) r"
    "dropWhile (\<lambda>c. c \<noteq> 32) (n @ r) = dropWhile (\<lambda>c. c \<noteq> 32) r" for r
    by (rule takeWhile_append2 dropWhile_append2, use assms(1) in auto)+
  have all: "takeWhile (\<lambda>c. c \<noteq> 32) n = n" "dropWhile (\<lambda>c. c \<noteq> 32) n = []" "dropWhile (\<lambda>c. c = 32) n = n"
    using t(1) [of "[]"] t(2) [of "[]"] n [of "[]"] by (simp_all only: append_Nil2 takeWhile.simps dropWhile.simps)
  show "cfg_method 32 n = n" "cfg_args 32 n = []"
    "cfg_method 32 (n @ 32 # r) = n" "cfg_args 32 (n @ 32 # r) = dropWhile (\<lambda>c. c = 32) r"
    unfolding cfg_method_def cfg_args_def n all t by simp_all
qed

section \<open>Kernels\<close>

context input_file
begin

lemma load_segments_ok:
  assumes "at fp (ld_dev st) p" "length (ld_mem st) \<le> 2 ^ 32" "n * sz \<le> length b" "24 \<le> sz"
    and "\<forall>ph \<in> set (table_segments b sz n i). seg_loadable content (length (ld_mem st)) (ld_chunks st) ph"
    and "sorted_wrt seg_before (table_segments b sz n i)"
  shows "\<exists>fp' mem' w' q. load_segments adj b sz n i fp st = Some (None, fp', st\<lparr>ld_mem := mem', ld_dev := w',
        ld_chunks := claim (map seg_region (table_segments b sz n i)) (ld_chunks st),
        entry_addr := fold adj (table_segments b sz n i) (entry_addr st)\<rparr>)
    \<and> at fp' w' q \<and> segs_loaded content (table_segments b sz n i) (ld_mem st) mem'"
  using assms
proof (induction "n - i" arbitrary: i fp st p)
  case 0
  then have "table_segments b sz n i = []"
    by (simp add: table_segments_def)
  then show ?case
    using 0 by (subst load_segments.simps)
      (auto simp: claim_def segs_loaded_def intro!: exI [of _ fp] exI [of _ "ld_mem st"] exI [of _ "ld_dev st"])
next
  case (Suc m)
  let ?segs = "table_segments b sz n"
  have i: "i < n" "m = n - Suc i"
    using Suc(2) by simp_all
  have "Suc i * sz \<le> n * sz"
    using i(1) by (intro mult_le_mono1) simp
  then obtain ph where ph: "phdr_at b (i * sz) = Some ph" "read_word b (i * sz) = Some (p_type ph)"
    using phdr_at_Some [of "i * sz" b] Suc(5,6) by auto
  note segs = table_segments_Cons [OF i(1), of b sz, unfolded ph(1) Let_def option.sel]
  show ?case
  proof (cases "p_type ph = PT_LOAD")
    case False
    then have "load_segments adj b sz n i fp st = load_segments adj b sz n (Suc i) fp st"
      using i(1) ph(2) by (subst load_segments.simps) simp
    moreover have "?segs i = ?segs (Suc i)"
      using segs False by simp
    ultimately show ?thesis
      using Suc(1) [OF i(2) Suc(3-6)] Suc(7,8) by simp
  next
    case True
    then have segs: "?segs i = ph # ?segs (Suc i)"
      using segs by simp
    have ok: "seg_ok content (length (ld_mem st)) ph" "p_paddr ph \<noteq> 0"
      "chunk_can_allocate (p_paddr ph) (p_memsz ph) (ld_chunks st)"
      using Suc(7) by (simp_all add: segs seg_loadable_def)
    obtain mem1 fp1 w1 q where ld: "elf32_load_segment ph (ld_mem st) fp (ld_dev st) = Some (ELF_OK, mem1, fp1, w1)"
      "written (ld_mem st) mem1 (unat (p_paddr ph)) (seg_image content ph) 16" "at fp1 w1 q"
      using load_segment [OF Suc(3) ok(1) Suc(4)] by blast
    have mem1: "length mem1 = length (ld_mem st)"
      "take (unat (p_memsz ph)) (drop (unat (p_paddr ph)) mem1) = seg_image content ph"
      "take (unat (p_paddr ph)) mem1 = take (unat (p_paddr ph)) (ld_mem st)"
      using ld(2) length_seg_image [OF ok(1)] by (simp_all add: written_def)
    let ?ch = "claim [seg_region ph] (ld_chunks st)"
    let ?st = "st\<lparr>ld_chunks := ?ch, ld_mem := mem1, ld_dev := w1, entry_addr := adj ph (entry_addr st)\<rparr>"
    have step: "load_segments adj b sz n i fp st = load_segments adj b sz n (Suc i) fp1 ?st"
      using i(1) ph True ok(2,3) ld(1)
      by (subst load_segments.simps)
        (simp add: ld_get_chunk_def chunk_get_chunk_def chunk_add_def claim_def seg_region_def ELF_OK_def)
    have later: "\<forall>a \<in> set (?segs (Suc i)). seg_before ph a" "sorted_wrt seg_before (?segs (Suc i))"
      using Suc(8) by (simp_all add: segs)
    have rest: "\<forall>a \<in> set (?segs (Suc i)). seg_loadable content (length mem1) ?ch a"
      using Suc(7) later(1) seg_loadable_after unfolding mem1(1) segs by auto
    obtain fp' mem' w' q' where run: "load_segments adj b sz n (Suc i) fp1 ?st = Some (None, fp',
        ?st\<lparr>ld_mem := mem', ld_dev := w', ld_chunks := claim (map seg_region (?segs (Suc i))) ?ch,
          entry_addr := fold adj (?segs (Suc i)) (adj ph (entry_addr st))\<rparr>)"
      and at: "at fp' w' q'" and ld': "segs_loaded content (?segs (Suc i)) mem1 mem'"
      using Suc(1) [OF i(2), of fp1 ?st q] ld(3) Suc(4-6) rest later(2) by (auto simp: mem1(1))
    have len: "length mem' = length mem1"
      and loaded: "\<forall>a \<in> set (?segs (Suc i)). take (unat (p_memsz a)) (drop (unat (p_paddr a)) mem') = seg_image content a"
      and frame: "\<And>a. (\<forall>c \<in> set (?segs (Suc i)). a \<le> unat (p_paddr c)) \<Longrightarrow> take a mem' = take a mem1"
      using ld' by (simp_all add: segs_loaded_def)
    have "take (unat (p_paddr ph) + unat (p_memsz ph)) mem' = take (unat (p_paddr ph) + unat (p_memsz ph)) mem1"
      using later(1) by (intro frame) (simp add: seg_before_def)
    then have "take (unat (p_memsz ph)) (drop (unat (p_paddr ph)) mem') = seg_image content ph"
      using mem1(2) by (metis drop_take add_diff_cancel_left')
    moreover have "take a mem' = take a (ld_mem st)"
      if "a \<le> unat (p_paddr ph)" "\<forall>c \<in> set (?segs (Suc i)). a \<le> unat (p_paddr c)" for a
      using frame [OF that(2)] arg_cong [OF mem1(3), of "take a"] that(1) by (simp add: min_absorb1)
    ultimately show ?thesis
      using run at len loaded mem1(1) unfolding step segs
      by (intro exI [of _ fp'] exI [of _ mem'] exI [of _ w'] exI [of _ q'])
        (simp add: claim_def segs_loaded_def)
  qed
qed

lemma no_overrun_at_0: "at fp w p \<Longrightarrow> 0 < n \<Longrightarrow> n < 512 \<Longrightarrow> overrun B ad 0 n = 0"
  using sound [of fp w p] dvd_trans [of 512 B n] dvd_imp_le [of 512 n]
  by (auto simp: overrun_def mod_eq_0_iff_dvd)

lemma load_elf_kernel_ok:
  assumes "at fp (ld_dev st) p" "length (ld_mem st) \<le> 2 ^ 32" "elf_kernel content h segs"
    and "table_fits B (be_heap env (ld_mallocs st + 1)) h"
    and "\<forall>ph \<in> set segs. seg_loadable content (length (ld_mem st)) (ld_chunks st) ph"
  shows "\<exists>mem' w'. load_elf_kernel env fp st = Some (0, st\<lparr>ld_mem := mem', ld_dev := w',
        ld_chunks := claim (map seg_region segs) (ld_chunks st), ld_mallocs := ld_mallocs st + 2,
        entry_addr := e_entry h\<rparr>)
    \<and> wok w' \<and> segs_loaded content segs (ld_mem st) mem'"
proof -
  let ?sz = "unat (e_phentsize h)" and ?n = "unat (e_phnum h)"
  let ?t = "take (?sz * ?n) (drop (unat (e_phoff h)) content)"
  have k: "elf_header content h" "24 \<le> ?sz" "0 < ?sz * ?n" "unat (e_phoff h) + ?sz * ?n \<le> length content"
    "segs = table_segments ?t ?sz ?n 0" "sorted_wrt seg_before segs"
    using assms(3) by (auto simp: elf_kernel_def Let_def)
  obtain fp1 w1 q1 where eh: "elf32_read_ehdr (be_heap env (ld_mallocs st)) fp (ld_dev st) = Some (ELF_OK, Some h, fp1, w1)"
    "at fp1 w1 q1"
    using read_ehdr [OF assms(1) k(1)] by blast
  obtain fp2 w2 q2 where tb: "elf32_read_phdrs (be_heap env (ld_mallocs st + 1)) h fp1 w1 = Some (ELF_OK, Some ?t, fp2, w2)"
    "at fp2 w2 q2"
    using read_table [OF eh(2) k(4,3)] assms(4) unfolding elf32_read_phdrs_def table_fits_def by blast
  let ?st = "st\<lparr>ld_mallocs := ld_mallocs st + 2, ld_dev := w2\<rparr>"
  have fits: "?n * ?sz \<le> length ?t"
    using k(4) by (simp add: mult.commute)
  obtain fp3 mem' w' q where run: "load_segments (\<lambda>ph e. e) ?t ?sz ?n 0 fp2 ?st = Some (None, fp3, ?st\<lparr>ld_mem := mem', ld_dev := w',
        ld_chunks := claim (map seg_region segs) (ld_chunks st), entry_addr := fold (\<lambda>ph e. e) segs (entry_addr st)\<rparr>)"
    "at fp3 w' q" "segs_loaded content segs (ld_mem st) mem'"
    using load_segments_ok [of fp2 ?st q2 ?n ?sz ?t 0 "\<lambda>ph e. e"] tb(2) assms(2,5) fits k(2,5,6) by auto
  have "load_elf_kernel env fp st = Some (0, st\<lparr>ld_mem := mem', ld_dev := w',
        ld_chunks := claim (map seg_region segs) (ld_chunks st), ld_mallocs := ld_mallocs st + 2,
        entry_addr := e_entry h\<rparr>)"
    using eh(1) tb(1) run(1) by (simp add: load_elf_kernel_def fresh_buffer_def)
  then show ?thesis
    using run(3) sound [OF run(2)] by blast
qed

text \<open>A kernel that is neither ELF nor Linux is placed at the address that was set, or
  where there is room.\<close>

definition flat_kernel :: "buf \<Rightarrow> bool" where
  "flat_kernel c \<longleftrightarrow> c \<noteq> [] \<and> take 4 c \<noteq> 0x7f # lit ''ELF'' \<and> read_word (take 48 c) 0x24 \<noteq> Some 0x016F2818"

definition flat_place :: "'w loader \<Rightarrow> u32 \<Rightarrow> u32 \<Rightarrow> chunk_state \<Rightarrow> bool" where
  "flat_place st n a ch \<longleftrightarrow> a \<noteq> 0 \<and>
     (if binary_load_addr st \<noteq> 0
      then a = binary_load_addr st \<and> chunk_can_allocate a n (ld_chunks st)
        \<and> ch = claim [\<lparr>chunk_start = a, chunk_len = n\<rparr>] (ld_chunks st)
      else chunk_get_any_chunk n (ld_chunks st) = Some (a, ch))"

lemma load_flat_ok:
  assumes "at fp (ld_dev st) p" "content \<noteq> []" "flat_place st (word_of_nat (length content)) a ch"
    and "unat a + length content + 16 \<le> length (ld_mem st)"
  shows "\<exists>mem' w'. load_flat fp st = Some (0, st\<lparr>ld_chunks := ch, binary_load_addr := a, ld_mem := mem', ld_dev := w',
        entry_addr := (if entry_addr st = 0 then a else entry_addr st)\<rparr>)
    \<and> wok w' \<and> written (ld_mem st) mem' (unat a) content 16"
proof -
  let ?n = "word_of_nat (length content) :: u32"
  have len: "stream_len fp = Some (int (length content))"
    using sound [OF assms(1)] by simp
  obtain fp1 mem' fp' w' where ld: "fseek fp (int 0) SEEK_SET = Some (0, None, fp1)"
    "fread_mem (ld_mem st) a ?n fp1 (ld_dev st) = Some (?n, mem', fp', w')"
    "written (ld_mem st) mem' (unat a) (take (length content) (drop 0 content)) 16" "at fp' w' (0 + length content)"
    using load_at [OF assms(1), of 0 "length content" a "ld_mem st"] assms(2,4) by auto
  obtain w'' where cl: "fclose None fp' w' = Some (0, None, w'')" "wok w''"
    using close [OF ld(4)] by blast
  let ?st = "st\<lparr>ld_chunks := ch, binary_load_addr := a\<rparr>"
  have place: "(if binary_load_addr st \<noteq> 0 then Some (ld_get_chunk (binary_load_addr st) ?n st)
        else do { (a, st) \<leftarrow> ld_get_any_chunk ?n st; Some (a, st\<lparr>binary_load_addr := a\<rparr>) }) = Some (a, ?st)"
    using assms(3)
    by (cases "binary_load_addr st = 0")
      (auto simp: flat_place_def ld_get_chunk_def ld_get_any_chunk_def chunk_get_chunk_def chunk_add_def claim_def)
  have "load_flat fp st = Some (0, (?st\<lparr>ld_mem := mem', ld_dev := w''\<rparr>)
      \<lparr>entry_addr := (if entry_addr st = 0 then a else entry_addr st)\<rparr>)"
    using ld(1,2) cl(1) assms(3) len place
    unfolding load_flat_def by (simp add: ld_fread_mem_def ld_fclose_def flat_place_def)
  then show ?thesis
    using ld(3) cl(2) by auto
qed

text \<open>The first bytes decide between the kinds of kernel.\<close>

lemma read_first_bytes:
  assumes "at fp w 0" "content \<noteq> []"
  shows "\<exists>fp' w'. fread (replicate 0x30 0) ad 1 0x30 fp w = Some (word_of_nat (min 48 (length content)),
      take 48 content @ replicate (48 - length content) 0, fp', w') \<and> at fp' w' (min 48 (length content))"
proof -
  let ?r = "min 48 (length content)"
  have r: "?r = min 48 (length content - 0)" "0 < length content"
    using assms(2) by simp_all
  have room: "?r + overrun B ad 0 ?r \<le> length (replicate 48 (0 :: u8))"
    using no_overrun_at_0 [OF assms(1), of ?r ad] r(2) by simp
  obtain b fp' w' where rd: "fread (replicate 48 0) ad 1 (word_of_nat 48) fp w = Some (word_of_nat ?r, b, fp', w')"
    "take ?r b = take ?r (drop 0 content)" "length b = length (replicate 48 (0 :: u8))"
    "drop (?r + overrun B ad 0 ?r) b = drop (?r + overrun B ad 0 ?r) (replicate 48 0)" "at fp' w' (0 + ?r)"
    using read [OF assms(1) r(2) _ _ r(1) room] by auto
  have "b = take ?r b @ drop ?r b"
    by simp
  also have "\<dots> = take 48 content @ replicate (48 - length content) 0"
    using rd(2-4) no_overrun_at_0 [OF assms(1), of ?r ad] r(2) by (auto simp: min_def)
  finally show ?thesis
    using rd(1,5) by auto
qed

lemma elf_kernel_type:
  assumes "elf_header content h"
  shows "kernel_type_of (word_of_nat (min 48 (length content)))
    (take 48 content @ replicate (48 - length content) 0) = Some Elf_kernel"
proof -
  have c: "52 \<le> length content" "take 4 content = 0x7f # lit ''ELF''"
    using assms by (auto simp: elf_header_def ehdr_of_def bind_eq_Some load_eq_Some take_take min_def)
  then show ?thesis
    by (simp add: kernel_type_of_def read_word_eq take_take min_def)
qed

lemma flat_kernel_type:
  assumes "flat_kernel content"
  shows "kernel_type_of (word_of_nat (min 48 (length content)))
    (take 48 content @ replicate (48 - length content) 0) = Some Flat_kernel"
proof -
  let ?b = "take 48 content @ replicate (48 - length content) 0" and ?r = "min 48 (length content)"
  have r: "unat (word_of_nat ?r :: u32) = ?r"
    by (rule unat_of_nat_u32) simp
  have le: "(4 :: u32) \<le> word_of_nat ?r \<longleftrightarrow> 4 \<le> length content" "(0x30 :: u32) \<le> word_of_nat ?r \<longleftrightarrow> 48 \<le> length content"
    unfolding word_le_nat_alt r by simp_all
  have "\<not> ((word_of_nat ?r :: u32) \<ge> 4 \<and> take 4 ?b = 0x7f # lit ''ELF'')"
    using assms unfolding le by (auto simp: flat_kernel_def)
  moreover have "\<not> ((word_of_nat ?r :: u32) \<ge> 0x30 \<and> read_word ?b 0x24 = Some 0x016F2818)"
    using assms unfolding le by (auto simp: flat_kernel_def)
  moreover obtain x where "read_word ?b 0x24 = Some x"
    by (auto simp: read_word_eq)
  moreover have "load ?b 0 4 = Some (take 4 ?b)"
    by simp
  ultimately show ?thesis
    unfolding kernel_type_of_def by simp
qed

lemma method_kernel_elf:
  assumes "0 \<notin> set args" "cfg_method 32 args = name" "name \<noteq> []"
    and "fopen (ld_vfs st) (Some name) (lit ''r'') (ld_dev st) = Some (Inr fp, w)" "at fp w 0"
    and "length (ld_mem st) \<le> 2 ^ 32" "elf_kernel content h segs"
    and "table_fits B (be_heap env (ld_mallocs st + 2)) h"
    and "\<forall>ph \<in> set segs. seg_loadable content (length (ld_mem st)) (ld_chunks st) ph"
  shows "\<exists>mem' w'. method_kernel env args st = Some (0, st\<lparr>ld_mem := mem', ld_dev := w',
        ld_chunks := claim (map seg_region segs) (ld_chunks st), ld_mallocs := ld_mallocs st + 3,
        entry_addr := e_entry h\<rparr>)
    \<and> wok w' \<and> segs_loaded content segs (ld_mem st) mem'"
proof -
  have hdr: "elf_header content h" "content \<noteq> []"
    using assms(7) by (auto simp: elf_kernel_def elf_header_def Let_def)
  obtain none whole where args: "split_args args = Some (name, cfg_args 32 args, none, whole)"
    using split_args_word [OF assms(1)] assms(2,3) by auto
  obtain fp1 w1 where rd: "fread (replicate 0x30 0) (be_heap env (ld_mallocs st)) 1 0x30 fp w =
      Some (word_of_nat (min 48 (length content)), take 48 content @ replicate (48 - length content) 0, fp1, w1)"
    "at fp1 w1 (min 48 (length content))"
    using read_first_bytes [OF assms(5) hdr(2)] by blast
  have nz: "(word_of_nat (min 48 (length content)) :: u32) \<noteq> 0"
    using hdr(1) by (simp add: elf_header_def min_def)
  let ?st = "st\<lparr>ld_mallocs := ld_mallocs st + 1, ld_dev := w1\<rparr>"
  have run: "method_kernel env args st = load_elf_kernel env fp1 ?st"
    using args assms(4) rd(1) nz elf_kernel_type [OF hdr(1)]
    by (simp add: method_kernel_def ld_fopen_def fresh_buffer_def)
  obtain mem' w' where ld: "load_elf_kernel env fp1 ?st = Some (0, ?st\<lparr>ld_mem := mem', ld_dev := w',
        ld_chunks := claim (map seg_region segs) (ld_chunks ?st), ld_mallocs := ld_mallocs ?st + 2,
        entry_addr := e_entry h\<rparr>)" "wok w'" "segs_loaded content segs (ld_mem st) mem'"
    using load_elf_kernel_ok [of fp1 ?st "min 48 (length content)" h segs env] rd(2) assms(6-9) by auto
  have st': "?st\<lparr>ld_mem := mem', ld_dev := w', ld_chunks := claim (map seg_region segs) (ld_chunks ?st),
      ld_mallocs := ld_mallocs ?st + 2, entry_addr := e_entry h\<rparr> =
    st\<lparr>ld_mem := mem', ld_dev := w', ld_chunks := claim (map seg_region segs) (ld_chunks st),
      ld_mallocs := ld_mallocs st + 3, entry_addr := e_entry h\<rparr>"
    by (rule loader.equality) simp_all
  show ?thesis
    using ld(2,3) unfolding run ld(1) st' by blast
qed

lemma method_kernel_flat:
  assumes "0 \<notin> set args" "cfg_method 32 args = name" "name \<noteq> []"
    and "fopen (ld_vfs st) (Some name) (lit ''r'') (ld_dev st) = Some (Inr fp, w)" "at fp w 0"
    and "flat_kernel content" "flat_place st (word_of_nat (length content)) a ch"
    and "unat a + length content + 16 \<le> length (ld_mem st)"
  shows "\<exists>mem' w'. method_kernel env args st = Some (0, st\<lparr>ld_mem := mem', ld_dev := w', ld_chunks := ch,
        ld_mallocs := ld_mallocs st + 1, binary_load_addr := a,
        entry_addr := (if entry_addr st = 0 then a else entry_addr st)\<rparr>)
    \<and> wok w' \<and> written (ld_mem st) mem' (unat a) content 16"
proof -
  have ne: "content \<noteq> []"
    using assms(6) by (simp add: flat_kernel_def)
  obtain none whole where args: "split_args args = Some (name, cfg_args 32 args, none, whole)"
    using split_args_word [OF assms(1)] assms(2,3) by auto
  obtain fp1 w1 where rd: "fread (replicate 0x30 0) (be_heap env (ld_mallocs st)) 1 0x30 fp w =
      Some (word_of_nat (min 48 (length content)), take 48 content @ replicate (48 - length content) 0, fp1, w1)"
    "at fp1 w1 (min 48 (length content))"
    using read_first_bytes [OF assms(5) ne] by blast
  have "unat (word_of_nat (min 48 (length content)) :: u32) = min 48 (length content)"
    by (rule unat_of_nat_u32) simp
  then have nz: "(word_of_nat (min 48 (length content)) :: u32) \<noteq> 0"
    using ne by (metis length_0_conv min_def unat_0 zero_neq_numeral)
  let ?st = "st\<lparr>ld_mallocs := ld_mallocs st + 1, ld_dev := w1\<rparr>"
  have run: "method_kernel env args st = load_flat fp1 ?st"
    using args assms(4) rd(1) nz flat_kernel_type [OF assms(6)]
    by (simp add: method_kernel_def ld_fopen_def fresh_buffer_def)
  have at: "at fp1 (ld_dev ?st) (min 48 (length content))" and room: "unat a + length content + 16 \<le> length (ld_mem ?st)"
    and place: "flat_place ?st (word_of_nat (length content)) a ch"
    using rd(2) assms(8) assms(7) by (auto simp: flat_place_def)
  obtain mem' w' where ld: "load_flat fp1 ?st = Some (0, ?st\<lparr>ld_chunks := ch, binary_load_addr := a, ld_mem := mem', ld_dev := w',
        entry_addr := (if entry_addr ?st = 0 then a else entry_addr ?st)\<rparr>)"
      "wok w'" "written (ld_mem ?st) mem' (unat a) content 16"
    using load_flat_ok [OF at ne place room] by blast
  have st': "?st\<lparr>ld_chunks := ch, binary_load_addr := a, ld_mem := mem', ld_dev := w',
      entry_addr := (if entry_addr ?st = 0 then a else entry_addr ?st)\<rparr> =
    st\<lparr>ld_mem := mem', ld_dev := w', ld_chunks := ch, ld_mallocs := ld_mallocs st + 1, binary_load_addr := a,
      entry_addr := (if entry_addr st = 0 then a else entry_addr st)\<rparr>"
    by (rule loader.equality) simp_all
  show ?thesis
    using ld(2,3) unfolding run ld(1) st' by auto
qed

text \<open>A module goes to the lowest free place and is remembered with its name.\<close>

definition module_title :: "cstring \<Rightarrow> cstring" where
  "module_title args = (if cfg_args 32 args = [] then cfg_method 32 args else cfg_args 32 args)"

lemma method_module_ok:
  assumes "0 \<notin> set args" "cfg_method 32 args = name" "name \<noteq> []"
    and "fopen (ld_vfs st) (Some name) (lit ''r'') (ld_dev st) = Some (Inr fp, w)" "at fp w 0" "content \<noteq> []"
    and "chunk_get_any_chunk (word_of_nat (length content)) (ld_chunks st) = Some (a, ch)" "a \<noteq> 0"
    and "unat a + length content + 16 \<le> length (ld_mem st)"
  shows "\<exists>mem' w'. method_module env args st = Some (0, st\<lparr>ld_mem := mem', ld_dev := w', ld_chunks := ch,
        first_mod := \<lparr>mod_start = a, mod_end = a + word_of_nat (length content), mod_string = module_title args\<rparr> # first_mod st,
        mod_count := mod_count st + 1\<rparr>)
    \<and> wok w' \<and> written (ld_mem st) mem' (unat a) content 16"
proof -
  let ?n = "word_of_nat (length content) :: u32"
  obtain none whole where args: "split_args args = Some (name, cfg_args 32 args, none, whole)"
    using split_args_word [OF assms(1)] assms(2,3) by auto
  have len: "stream_len fp = Some (int (length content))"
    using sound [OF assms(5)] by simp
  have room: "length content + 16 \<le> length (drop (unat a) (ld_mem st))"
    using assms(9) by simp
  obtain sub fp' w1 where rd: "fread (drop (unat a) (ld_mem st)) a 1 ?n fp w = Some (?n, sub, fp', w1)"
    "written (drop (unat a) (ld_mem st)) sub 0 (take (length content) (drop 0 content)) 16" "at fp' w1 (0 + length content)"
    using read_inside [OF assms(5) _ _ room, of a] assms(6) by auto
  obtain w' where cl: "fclose None fp' w1 = Some (0, None, w')" "wok w'"
    using close [OF rd(3)] by blast
  let ?mem = "take (unat a) (ld_mem st) @ sub"
  have mem: "fread_mem (ld_mem st) a ?n fp w = Some (?n, ?mem, fp', w1)" "written (ld_mem st) ?mem (unat a) content 16"
    using rd(1,2) assms(9) by (simp_all add: fread_mem_def written_def add_ac)
  have "method_module env args st = Some (0, module_add a (a + ?n) (module_title args)
      (st\<lparr>ld_chunks := ch, ld_mem := ?mem, ld_dev := w'\<rparr>))"
    using args assms(2,4,7,8) len mem(1) cl(1)
    by (simp add: method_module_def ld_fopen_def ld_get_any_chunk_def ld_fread_mem_def ld_fclose_def module_title_def)
  moreover have "module_add a (a + ?n) (module_title args) (st\<lparr>ld_chunks := ch, ld_mem := ?mem, ld_dev := w'\<rparr>) =
    st\<lparr>ld_mem := ?mem, ld_dev := w', ld_chunks := ch,
      first_mod := \<lparr>mod_start = a, mod_end = a + ?n, mod_string = module_title args\<rparr> # first_mod st,
      mod_count := mod_count st + 1\<rparr>"
    by (rule loader.equality) (simp_all add: module_add_def)
  ultimately show ?thesis
    using mem(2) cl(2) by auto
qed

end

section \<open>Configuration files\<close>

text \<open>The commands of a configuration file: its lines that hold a method, with the
  method in lower case.\<close>

definition cfg_commands :: "cstring \<Rightarrow> (cstring \<times> cstring) list" where
  "cfg_commands conf = filter (\<lambda>c. fst c \<noteq> [])
     (map (\<lambda>l. (map lower_byte (cfg_method 32 (cfg_trim l)), cfg_args 32 (cfg_trim l))) (cfg_lines conf))"

text \<open>Running commands that are known and succeed.\<close>

primrec run_commands :: "'w cfg_method list \<Rightarrow> (cstring \<times> cstring) list \<Rightarrow> 'w \<Rightarrow> 'w option" where
  "run_commands ms [] w = Some w"
| "run_commands ms (c # cs) w =
     (case run_method ms (fst c) (snd c) w of
        Some (r, w') \<Rightarrow> if r = 0 then run_commands ms cs w' else None
      | None \<Rightarrow> None)"

lemma cfg_run_commands:
  assumes "run_commands ms (filter (\<lambda>c. fst c \<noteq> [])
      (map (\<lambda>l. (map lower_byte (cfg_method 32 (cfg_trim l)), cfg_args 32 (cfg_trim l))) ls)) w = Some w'"
  shows "cfg_run 32 ms w ls = (0, [], w')"
  using assms
proof (induction ls arbitrary: w)
  case (Cons l ls)
  show ?case
  proof (cases "cfg_method 32 (cfg_trim l) = []")
    case True
    then show ?thesis
      using Cons by (simp add: Let_def)
  next
    case False
    then obtain w1 where "run_method ms (map lower_byte (cfg_method 32 (cfg_trim l))) (cfg_args 32 (cfg_trim l)) w = Some (0, w1)"
      "run_commands ms (filter (\<lambda>c. fst c \<noteq> [])
        (map (\<lambda>l. (map lower_byte (cfg_method 32 (cfg_trim l)), cfg_args 32 (cfg_trim l))) ls)) w1 = Some w'"
      using Cons.prems by (auto split: option.splits if_splits)
    then show ?thesis
      using Cons.IH False by (simp add: Let_def)
  qed
qed simp

lemma cfg_parse_commands:
  assumes "cstr_at b 0 conf" "run_commands (methods env) (cfg_commands conf) (Some st) = Some st'"
  shows "multiboot_cfg_parse env b st = Some (0, [], st')"
  using cfg_run_commands [OF assms(2) [unfolded cfg_commands_def]] config_loop_cstr [OF assms(1), of "length b + 1" 32 32 "methods env" "Some st"]
    cstr_at_length [OF assms(1)]
  by (simp add: multiboot_cfg_parse_def config_parse_def)

lemma cfg_lines_set: "l \<in> set (cfg_lines conf) \<Longrightarrow> set l \<subseteq> set conf"
proof (induction conf rule: cfg_lines.induct)
  case (2 x xs)
  then show ?case
    using set_takeWhileD [of _ "\<lambda>c. c \<noteq> 10" "x # xs"] set_drop_subset [of _ "x # xs"]
    unfolding cfg_lines.simps set_simps by blast
qed simp

lemma cfg_args_set: "set (cfg_args d (cfg_trim l)) \<subseteq> set l"
proof -
  have trim: "set (cfg_trim l) \<subseteq> set l"
    by (auto simp: cfg_trim_def rtrim_def dest!: set_dropWhileD set_takeWhileD)
  then show ?thesis
    unfolding cfg_args_def by (blast dest: set_dropWhileD)
qed

lemma cfg_commands_no_nul:
  assumes "(m, a) \<in> set (cfg_commands conf)" "0 \<notin> set conf"
  shows "0 \<notin> set a"
proof -
  obtain l where "l \<in> set (cfg_lines conf)" "a = cfg_args 32 (cfg_trim l)"
    using assms(1) by (auto simp: cfg_commands_def)
  then show ?thesis
    using cfg_lines_set cfg_args_set assms(2) by blast
qed

lemma run_methods:
  "run_method (methods env) (lit ''kernel'') args w = Some (lift_method env method_kernel args w)"
  "run_method (methods env) (lit ''boot'') args w = Some (lift_method env method_boot args w)"
  "run_method (methods env) (lit ''module'') args w = Some (lift_method env method_module args w)"
  "run_method (methods env) (lit ''multiboot'') args w = Some (lift_method env method_multiboot args w)"
  by (simp_all add: methods_def lit_def)

text \<open>The jump of a kernel that is not a multiboot kernel.\<close>

definition plain_jump :: "'w boot_env \<Rightarrow> u32 \<Rightarrow> jump" where
  "plain_jump env e = \<lparr>j_entry = e, j_args = [Word_arg 0, Word_arg (be_arm_m_type env), Word_arg (be_atags env), Functions_arg]\<rparr>"

context input_file
begin

lemma config_boots_elf:
  assumes "cstr_at b 0 conf" "cfg_commands conf = [(lit ''kernel'', args), (lit ''boot'', rest)]"
    and "cfg_method 32 args = name" "name \<noteq> []"
    and "fopen (ld_vfs st) (Some name) (lit ''r'') (ld_dev st) = Some (Inr fp, w)" "at fp w 0"
    and "length (ld_mem st) \<le> 2 ^ 32" "elf_kernel content h segs" "e_entry h \<noteq> 0" "mbinfo st = None"
    and "table_fits B (be_heap env (ld_mallocs st + 2)) h"
    and "\<forall>ph \<in> set segs. seg_loadable content (length (ld_mem st)) (ld_chunks st) ph"
  shows "\<exists>mem' w'. multiboot_cfg_parse env b st = Some (0, [], Some (st\<lparr>ld_mem := mem', ld_dev := w',
        ld_chunks := claim (map seg_region segs) (ld_chunks st), ld_mallocs := ld_mallocs st + 3,
        entry_addr := e_entry h, jumps := jumps st @ [plain_jump env (e_entry h)]\<rparr>))
    \<and> wok w' \<and> segs_loaded content segs (ld_mem st) mem'"
proof -
  have "0 \<notin> set args"
    using cfg_commands_no_nul [of "lit ''kernel''" args conf] assms(2) cstr_at_nonzero [OF assms(1)] by simp
  from method_kernel_elf [OF this assms(3-8,11,12)] obtain mem' w' where
    k: "method_kernel env args st = Some (0, st\<lparr>ld_mem := mem', ld_dev := w',
        ld_chunks := claim (map seg_region segs) (ld_chunks st), ld_mallocs := ld_mallocs st + 3,
        entry_addr := e_entry h\<rparr>)" "wok w'" "segs_loaded content segs (ld_mem st) mem'"
    by blast
  have "run_commands (methods env) (cfg_commands conf) (Some st) = Some (Some (st\<lparr>ld_mem := mem', ld_dev := w',
        ld_chunks := claim (map seg_region segs) (ld_chunks st), ld_mallocs := ld_mallocs st + 3,
        entry_addr := e_entry h, jumps := jumps st @ [plain_jump env (e_entry h)]\<rparr>))"
    using k(1) assms(9,10) by (simp add: assms(2) run_methods lift_method_def method_boot_def plain_jump_def)
  then show ?thesis
    using cfg_parse_commands [OF assms(1)] k(2,3) by blast
qed

end

end
