(* ===== verification/Atag.thy ===== *)
theory Atag
  imports ByteUtil
begin

text \<open>
  The boot tags of atag.c: a list of tags in memory, each with its length in words,
  up to a tag of type \<open>ATAG_NONE\<close>.  The callback for memory regions is represented
  by the list of its calls.  A list with a tag of length zero is followed for ever.
\<close>

section \<open>Model\<close>

definition ATAG_NONE :: u32 where "ATAG_NONE = 0"
definition ATAG_CORE :: u32 where "ATAG_CORE = 0x54410001"
definition ATAG_MEM :: u32 where "ATAG_MEM = 0x54410002"
definition ATAG_CMDLINE :: u32 where "ATAG_CMDLINE = 0x54410009"

definition check_atags :: "buf \<Rightarrow> u32 \<Rightarrow> int option" where
  "check_atags mem atags = do {
     tag \<leftarrow> read_word mem (unat atags + 4);
     Some (if tag = ATAG_CORE then 0 else -1) }"

text \<open>The regions (start and size) and the command line, an address.\<close>

type_synonym atag_result = "(u32 \<times> u32) list \<times> u32 option"

partial_function (option) parse_atags_loop :: "buf \<Rightarrow> u32 \<Rightarrow> atag_result \<Rightarrow> atag_result option" where
  "parse_atags_loop mem cur res = do {
     len \<leftarrow> read_word mem (unat cur);
     tag \<leftarrow> read_word mem (unat cur + 4);
     res \<leftarrow>
       (if tag = ATAG_MEM then do {
          len \<leftarrow> read_word mem (unat cur + 8);
          start \<leftarrow> read_word mem (unat cur + 12);
          Some (fst res @ [(start, len)], snd res) }
        else if tag = ATAG_CMDLINE then Some (fst res, Some (cur + 8))
        else Some res);
     if tag \<noteq> ATAG_NONE then parse_atags_loop mem (cur + len * 4) res else Some res }"

definition parse_atags :: "buf \<Rightarrow> u32 \<Rightarrow> u32 option \<Rightarrow> atag_result option" where
  "parse_atags mem atags cmd_line = (if atags = 0 then Some ([], cmd_line) else parse_atags_loop mem atags ([], cmd_line))"

text \<open>\<open>parse_dtb\<close> of rpifdt.c is an argument.\<close>

definition parse_atag_or_dtb ::
  "(u32 \<Rightarrow> u32 option \<Rightarrow> atag_result option) \<Rightarrow> nat \<Rightarrow> buf \<Rightarrow> u32 \<Rightarrow> u32 option \<Rightarrow> atag_result option" where
  "parse_atag_or_dtb parse_dtb conf_source mem atags cmd_line =
     (if conf_source = 1 then parse_atags mem atags cmd_line
      else if conf_source = 2 then parse_atags mem 0 cmd_line
      else if conf_source = 3 then parse_dtb atags cmd_line
      else if conf_source = 4 then parse_dtb 0 cmd_line
      else Some ([], cmd_line))"

section \<open>A list of tags\<close>

text \<open>Tags by their type and their words, as they lie in memory.\<close>

fun words_at :: "buf \<Rightarrow> nat \<Rightarrow> u32 list \<Rightarrow> bool" where
  "words_at mem p [] \<longleftrightarrow> True"
| "words_at mem p (w # ws) \<longleftrightarrow> read_word mem p = Some w \<and> words_at mem (p + 4) ws"

fun tags_at :: "buf \<Rightarrow> nat \<Rightarrow> (u32 \<times> u32 list) list \<Rightarrow> bool" where
  "tags_at mem p [] \<longleftrightarrow> read_word mem (p + 4) = Some ATAG_NONE \<and> (\<exists>n. read_word mem p = Some n) \<and> p + 8 \<le> 2 ^ 32"
| "tags_at mem p ((ty, ws) # ts) \<longleftrightarrow>
     read_word mem p = Some (word_of_nat (2 + length ws)) \<and> read_word mem (p + 4) = Some ty \<and> ty \<noteq> ATAG_NONE
     \<and> words_at mem (p + 8) ws
     \<and> (ty = ATAG_MEM \<longrightarrow> 2 \<le> length ws) \<and> tags_at mem (p + 8 + 4 * length ws) ts"

fun mem_tags :: "(u32 \<times> u32 list) list \<Rightarrow> (u32 \<times> u32) list" where
  "mem_tags [] = []"
| "mem_tags ((ty, ws) # ts) = (if ty = ATAG_MEM then [(ws ! 1, ws ! 0)] else []) @ mem_tags ts"

lemma tags_at_bound: "tags_at mem p ts \<Longrightarrow> p + 8 \<le> 2 ^ 32"
  by (induction mem p ts rule: tags_at.induct) auto

lemma parse_atags_loop_tags:
  assumes "tags_at mem (unat cur) ts"
  shows "\<exists>cmd. parse_atags_loop mem cur res = Some (fst res @ mem_tags ts, cmd)"
  using assms
proof (induction ts arbitrary: cur res)
  case Nil
  then show ?case
    by (cases res, subst parse_atags_loop.simps) (auto simp: ATAG_NONE_def ATAG_MEM_def ATAG_CMDLINE_def)
next
  case (Cons t ts)
  obtain ty ws where t: "t = (ty, ws)"
    by (cases t)
  let ?n = "word_of_nat (2 + length ws) :: u32"
  have tag: "read_word mem (unat cur) = Some ?n" "read_word mem (unat cur + 4) = Some ty" "ty \<noteq> ATAG_NONE"
    and ws: "words_at mem (unat cur + 8) ws" "ty = ATAG_MEM \<longrightarrow> 2 \<le> length ws"
    and rest: "tags_at mem (unat cur + 8 + 4 * length ws) ts"
    using Cons(2) by (simp_all add: t)
  have "unat (cur + ?n * 4) = unat cur + 8 + 4 * length ws"
  proof -
    have lim: "unat cur + 8 + 4 * length ws < 2 ^ 32"
      using tags_at_bound [OF rest] by simp
    have "cur + ?n * 4 = word_of_nat (unat cur + 8 + 4 * length ws)"
      by (simp add: algebra_simps)
    then show ?thesis
      by (simp only: unat_of_nat_u32 [OF lim])
  qed
  then have next_tag: "\<exists>cmd. parse_atags_loop mem (cur + ?n * 4) res' = Some (fst res' @ mem_tags ts, cmd)" for res'
    using rest by (intro Cons(1)) simp
  have mem: "read_word mem (unat cur + 8) = Some (ws ! 0)" "read_word mem (unat cur + 12) = Some (ws ! 1)" if "ty = ATAG_MEM"
    using ws that by (auto simp: Suc_le_length_iff numeral_2_eq_2 add.commute [of "unat cur"])
  show ?case
  proof (cases "ty = ATAG_MEM")
    case True
    then show ?thesis
      using tag mem next_tag [of "(fst res @ [(ws ! 1, ws ! 0)], snd res)"]
      by (subst parse_atags_loop.simps) (auto simp: t)
  next
    case False
    then show ?thesis
      using tag next_tag [of "(fst res, Some (cur + 8))"] next_tag [of res]
      by (cases res, subst parse_atags_loop.simps) (auto simp: t)
  qed
qed

section \<open>Properties\<close>

text \<open>C37: Every memory tag of a list of tags is reported, in order, as its start and its
  size, whatever tags lie between; the walk ends at the final tag.\<close>

theorem parse_atags_regions:
  assumes "tags_at mem (unat atags) ts" "atags \<noteq> 0"
  shows "\<exists>cmd'. parse_atags mem atags cmd = Some (mem_tags ts, cmd')"
  using parse_atags_loop_tags [OF assms(1), of "([], cmd)"] assms(2) by (simp add: parse_atags_def)

theorem parse_atags_regions_witness:
  "\<exists>cmd. parse_atags ([0, 0, 0, 0] @ [2, 0, 0, 0, 1, 0, 0x41, 0x54] @ [4, 0, 0, 0, 2, 0, 0x41, 0x54, 0, 0, 0, 16, 0, 0, 0, 0]
      @ replicate 8 0) 4 None = Some ([(0, 0x10000000)], cmd)"
  using parse_atags_regions [of "[0, 0, 0, 0] @ [2, 0, 0, 0, 1, 0, 0x41, 0x54]
      @ [4, 0, 0, 0, 2, 0, 0x41, 0x54, 0, 0, 0, 16, 0, 0, 0, 0] @ replicate 8 0" 4
      "[(ATAG_CORE, []), (ATAG_MEM, [0x10000000, 0])]" None]
  by (simp add: ATAG_CORE_def ATAG_MEM_def ATAG_NONE_def read_word_def)

end
