(* ===== verification/SampleCard.thy ===== *)
theory SampleCard
  imports Boot Atag
begin

text \<open>
  A card to boot from: a partition with a FAT32 volume, in it a directory with a
  configuration file and an ELF kernel; and the memory of a machine with boot tags.
  The facts show that it is what the loader expects.
\<close>

section \<open>The files\<close>

definition boot_conf :: buf where
  "boot_conf = lit ''kernel /boot/k'' @ [10] @ lit ''boot'' @ [10]"

definition boot_ehdr :: buf where
  "boot_ehdr = [0x7f, 0x45, 0x4c, 0x46, 1, 1, 1, 0, 0, 0, 0, 0, 0, 0, 0, 0,
     2, 0, 40, 0, 1, 0, 0, 0, 4, 0, 0x10, 0, 52, 0, 0, 0, 0, 0, 0, 0, 0, 0, 0, 0, 52, 0, 32, 0, 1, 0, 0, 0, 0, 0, 0, 0]"

definition boot_phdr :: buf where
  "boot_phdr = [1, 0, 0, 0, 84, 0, 0, 0, 0, 0, 0x10, 0, 0, 0, 0x10, 0, 4, 0, 0, 0, 8, 0, 0, 0, 7, 0, 0, 0, 0, 16, 0, 0]"

definition boot_elf :: buf where
  "boot_elf = boot_ehdr @ boot_phdr @ [1, 2, 3, 4]"

definition boot_segment :: Elf32_Phdr where
  "boot_segment = the (phdr_at boot_phdr 0)"

definition boot_header :: Elf32_Ehdr where
  "boot_header = the (ehdr_of boot_ehdr)"

lemma boot_conf_commands:
  "cfg_commands boot_conf = [(lit ''kernel'', lit ''/boot/k''), (lit ''boot'', [])]" "0 \<notin> set boot_conf" "length boot_conf = 20"
  by (simp_all add: cfg_commands_def boot_conf_def lit_def cfg_lines.simps cfg_trim_def rtrim_def cfg_method_def cfg_args_def
      blank_def isspace_def lower_byte_def tolower_def isupper_def)

lemma boot_header_eq:
  "ehdr_of boot_ehdr = Some boot_header"
  "boot_header = \<lparr>e_ident = take 16 boot_ehdr, e_type = 2, e_machine = 40, e_entry = 0x100004, e_phoff = 52, e_shoff = 0,
     e_phentsize = 32, e_phnum = 1, e_shentsize = 0, e_shnum = 0, e_shstrndx = 0\<rparr>"
  by (simp_all add: boot_header_def ehdr_of_def boot_ehdr_def read_word_def read_halfword_def)

lemma boot_segment_eq:
  "phdr_at boot_phdr 0 = Some boot_segment"
  "boot_segment = \<lparr>p_type = 1, p_offset = 84, p_vaddr = 0x100000, p_paddr = 0x100000, p_filesz = 4, p_memsz = 8\<rparr>"
  by (simp_all add: boot_segment_def phdr_at_def boot_phdr_def read_word_def)

lemma boot_elf_parts: "length boot_ehdr = 52" "length boot_phdr = 32" "length boot_elf = 88"
  by (simp_all add: boot_ehdr_def boot_phdr_def boot_elf_def)

lemma boot_elf_kernel: "elf_kernel boot_elf boot_header [boot_segment]"
proof -
  have "take 52 boot_elf = boot_ehdr" "take (32 * 1) (drop 52 boot_elf) = boot_phdr"
    by (simp_all add: boot_elf_def boot_elf_parts)
  moreover have "elf_header boot_elf boot_header"
    using calculation(1) boot_header_eq(1) by (simp add: elf_header_def boot_elf_parts)
      (simp add: boot_header_eq(2) boot_ehdr_def ET_EXEC_def EM_ARM_def lit_def)
  moreover have "table_segments boot_phdr 32 1 0 = [boot_segment]"
    by (simp add: table_segments_def boot_segment_eq(1)) (simp add: boot_segment_eq(2) PT_LOAD_def)
  ultimately show ?thesis
    by (simp add: elf_kernel_def Let_def boot_header_eq(2) boot_elf_parts)
qed

section \<open>The volume\<close>

text \<open>Five sectors: the table, the root directory, the directory /boot, and the two files.\<close>

definition boot_fat :: buf where
  "boot_fat = replicate 8 0 @ [0xff, 0xff, 0xff, 0x0f, 0xff, 0xff, 0xff, 0x0f, 0xff, 0xff, 0xff, 0x0f, 0xff, 0xff, 0xff, 0x0f] @ replicate 488 0"

definition record_boot :: buf where
  "record_boot = lit ''BOOT       '' @ [0x10, 0, 0, 0, 0, 0, 0, 0, 0, 0, 0, 0, 0, 0, 0, 3, 0, 0, 0, 0, 0]"

definition record_conf :: buf where
  "record_conf = lit ''RPI_BOOTCFG'' @ [0, 0, 0, 0, 0, 0, 0, 0, 0, 0, 0, 0, 0, 0, 0, 4, 0, 20, 0, 0, 0]"

definition record_k :: buf where
  "record_k = lit ''K          '' @ [0, 0, 0, 0, 0, 0, 0, 0, 0, 0, 0, 0, 0, 0, 0, 5, 0, 88, 0, 0, 0]"

definition boot_root :: buf where
  "boot_root = record_boot @ replicate 480 0"

definition boot_dir :: buf where
  "boot_dir = record_conf @ record_k @ replicate 448 0"

definition boot_image :: buf where
  "boot_image = boot_fat @ boot_root @ boot_dir @ (boot_conf @ replicate 492 0) @ (boot_elf @ replicate 424 0)"

definition entry_boot :: dirent where
  "entry_boot = \<lparr>de_name = lit ''boot'', de_byte_size = 0, de_is_dir = True, de_opaque = 3, de_fs = 1\<rparr>"

definition entry_conf :: dirent where
  "entry_conf = \<lparr>de_name = lit ''rpi_boot.cfg'', de_byte_size = 20, de_is_dir = False, de_opaque = 4, de_fs = 1\<rparr>"

definition entry_k :: dirent where
  "entry_k = \<lparr>de_name = lit ''k'', de_byte_size = 88, de_is_dir = False, de_opaque = 5, de_fs = 1\<rparr>"

lemma record_lengths: "length record_boot = 32" "length record_conf = 32" "length record_k = 32"
  by (simp_all add: record_boot_def record_conf_def record_k_def lit_def)

lemma boot_lengths: "length boot_fat = 512" "length boot_root = 512" "length boot_dir = 512" "length boot_image = 2560"
  by (simp_all add: boot_fat_def boot_root_def boot_dir_def boot_image_def boot_elf_parts boot_conf_commands(3) record_lengths)

lemma records:
  "fat_record 1 record_boot = [entry_boot]" "fat_record 1 record_conf = [entry_conf]" "fat_record 1 record_k = [entry_k]"
  by (simp_all add: fat_record_def fat_skip_def fat_entry_def read_word_def read_halfword_def fat_name_def Let_def lit_def
      record_boot_def record_conf_def record_k_def entry_boot_def entry_conf_def entry_k_def)

lemma fat_listing_record: "length r = 32 \<Longrightarrow> fat_listing fsid (r @ c) = fat_record fsid r @ fat_listing fsid c"
  by (subst fat_listing.simps) simp

lemma boot_listings: "fat_listing 1 boot_root = [entry_boot]" "fat_listing 1 boot_dir = [entry_conf, entry_k]"
  by (simp_all add: boot_root_def boot_dir_def fat_listing_record record_lengths records [simplified] fat_listing_zeros)

lemma boot_cluster_data:
  "fat_data (sample_volume dev label) (sample_boot @ boot_image) 2 = boot_root"
  "fat_data (sample_volume dev label) (sample_boot @ boot_image) 3 = boot_dir"
  "fat_data (sample_volume dev label) (sample_boot @ boot_image) 4 = boot_conf @ replicate 492 0"
  "fat_data (sample_volume dev label) (sample_boot @ boot_image) 5 = boot_elf @ replicate 424 0"
  by (simp_all add: fat_data_def fat_sector_of_def sample_volume_def sample_lengths boot_image_def boot_lengths
      boot_conf_commands(3) boot_elf_parts)

lemma boot_chains:
  assumes "c \<in> {2, 3, 4, 5}"
  shows "fat_chain (sample_volume dev label) (sample_boot @ boot_image) c [c]"
proof -
  have words: "read_word (sample_boot @ boot_image) (512 + 4 * k) = read_word boot_fat (4 * k)" if "k < 128" for k
    using that by (simp add: read_word_eq sample_lengths boot_lengths nth_append boot_image_def add.commute)
  moreover have "read_word boot_fat (4 * 2) = Some 0x0fffffff" "read_word boot_fat (4 * 3) = Some 0x0fffffff"
    "read_word boot_fat (4 * 4) = Some 0x0fffffff" "read_word boot_fat (4 * 5) = Some 0x0fffffff"
    by (simp_all add: read_word_def boot_fat_def nth_append)
  ultimately have "\<forall>k \<in> {2, 3, 4, 5}. read_word (sample_boot @ boot_image) (512 + 4 * k) = Some 0x0fffffff"
    using words [of 2] words [of 3] words [of 4] words [of 5] by simp
  then have "fat_link (sample_volume dev label) (sample_boot @ boot_image) c = 0x0fffffff"
    using assms by (auto simp: fat_link_def fat_entry_offset_def sample_volume_def FAT16_def FAT32_def)
  moreover have "fat_cluster_ok (sample_volume dev label) (sample_boot @ boot_image) c"
    using assms by (auto simp: fat_cluster_ok_def fat_entry_offset_def fat_sector_of_def sample_volume_def sample_lengths
        boot_lengths FAT16_def FAT32_def)
  ultimately show ?thesis
    using assms by auto
qed

lemma sample_volume_id: "fat_id (sample_volume dev label) = 1" "root_dir_cluster (sample_volume dev label) = 2"
  "fat_type (sample_volume dev label) = FAT32" "fat_block_size (sample_volume dev label) = 512"
  by (simp_all add: sample_volume_def)

lemma boot_path:
  "fat_path (sample_volume dev label) (sample_boot @ boot_image) [entry_boot] [lit ''boot''] [entry_conf, entry_k]"
proof (rule fat_path_down [of _ _ entry_boot _ _ "[3]"])
  show "fat_chain (sample_volume dev label) (sample_boot @ boot_image) (de_opaque entry_boot) [3]"
    using boot_chains [of 3] by (simp add: entry_boot_def)
  have "fat_listing (fat_id (sample_volume dev label)) (fat_content (sample_volume dev label) (sample_boot @ boot_image) [3]) =
      [entry_conf, entry_k]"
    by (simp add: sample_volume_id fat_content_def boot_cluster_data boot_listings [simplified])
  then show "fat_path (sample_volume dev label) (sample_boot @ boot_image)
      (fat_listing (fat_id (sample_volume dev label)) (fat_content (sample_volume dev label) (sample_boot @ boot_image) [3]))
      [] [entry_conf, entry_k]"
    by (simp only: fat_path_here)
qed (simp_all add: entry_boot_def)

lemma boot_file:
  assumes "find (\<lambda>d. de_name d = name) [entry_conf, entry_k] = Some d" "plain_name name" "name \<noteq> []" "de_opaque d \<in> {4, 5}"
    and "unat (de_byte_size d) \<le> 512"
    and "content = take (unat (de_byte_size d)) (fat_data (sample_volume dev label) (sample_boot @ boot_image) (de_opaque d))"
  shows "fat_has_file (sample_volume dev label) (sample_boot @ boot_image) [lit ''boot''] name content"
proof -
  let ?v = "sample_volume dev label" and ?m = "sample_boot @ boot_image"
  have "fat_path ?v ?m (fat_listing (fat_id ?v) (fat_content ?v ?m [2])) [lit ''boot''] [entry_conf, entry_k]"
    using boot_path by (simp add: sample_volume_id fat_content_def boot_cluster_data boot_listings [simplified])
  moreover have "fat_chain ?v ?m 2 [2]" "fat_chain ?v ?m (de_opaque d) [de_opaque d]"
    using assms(4) by (auto intro!: boot_chains simp del: fat_chain.simps)
  ultimately have "fat_file_at ?v ?m [lit ''boot''] name d [de_opaque d]"
    using assms(1-3,5) unfolding fat_file_at_def
    by (auto simp: sample_volume_id plain_name_def lit_def simp del: fat_chain.simps intro!: exI [of _ "[2]"])
  moreover have "fat_file_bytes ?v ?m d [de_opaque d] = content"
    using assms(4,5,6) by (auto simp: fat_file_bytes_def first_bytes_def fat_content_def boot_cluster_data boot_lengths
        boot_conf_commands(3) boot_elf_parts)
  ultimately show ?thesis
    by (auto simp: fat_has_file_def)
qed

section \<open>The card\<close>

definition boot_table :: buf where
  "boot_table = replicate 450 0 @ [0x0b, 0, 0, 0, 1, 0, 0, 0, 6, 0, 0, 0] @ replicate 48 0 @ [0x55, 0xaa]"

definition boot_card :: buf where
  "boot_card = boot_table @ sample_boot @ boot_image"

lemma boot_card_entry: "length boot_table = 512" "mbr_start boot_card 0 = 1" "mbr_blocks boot_card 0 = 6" "mbr_signature boot_card"
  "filter (mbr_used boot_card) [0, 1, 2, 3] = [0]" "boot_card ! 0x1c2 = 0x0b"
  by (simp_all add: mbr_start_def mbr_blocks_def mbr_signature_def mbr_used_def boot_card_def boot_table_def
      read_word_eq nth_append)

lemma boot_card_part: "card_part boot_card 0 = sample_boot @ boot_image"
  unfolding card_part_def boot_card_entry by (simp add: boot_card_def sample_lengths boot_card_entry(1) boot_lengths)

lemma boot_fat_card: "fat_card boot_card 0 sample_bs" "length boot_card = 3584"
proof -
  show len: "length boot_card = 3584"
    by (simp add: boot_card_def boot_card_entry(1) sample_lengths boot_lengths)
  have "fat_label_ends (sample_boot @ boot_image)"
    by (auto simp: fat_label_ends_def sample_boot_def nth_append intro!: exI [of _ 0])
  then show "fat_card boot_card 0 sample_bs"
    using sample_boot_sector boot_card_entry len
    by (simp add: fat_card_def boot_card_part sample_lengths nth_append)
      (simp add: sample_bs_def sample_boot_def fat_ids_def)
qed

lemma boot_volume:
  "on_volume sample_bs (\<lambda>fat. fat_type fat = FAT32
    \<and> fat_has_file fat (card_part boot_card 0) [lit ''boot''] (lit ''rpi_boot.cfg'') boot_conf
    \<and> fat_has_file fat (card_part boot_card 0) [lit ''boot''] (lit ''k'') boot_elf)"
proof -
  note defs = entry_conf_def entry_k_def plain_name_def lit_def boot_cluster_data boot_conf_commands(3) boot_elf_parts
  have "fat_has_file (sample_volume dev label) (sample_boot @ boot_image) [lit ''boot''] (lit ''rpi_boot.cfg'') boot_conf" for dev :: "'w block_device" and label
    by (rule boot_file [of _ entry_conf]) (simp_all add: defs)
  moreover have "fat_has_file (sample_volume dev label) (sample_boot @ boot_image) [lit ''boot''] (lit ''k'') boot_elf" for dev :: "'w block_device" and label
    by (rule boot_file [of _ entry_k]) (simp_all add: defs)
  ultimately show ?thesis
    unfolding on_volume_def boot_card_part sample_geometry by (auto simp: sample_volume_def)
qed

section \<open>The machine\<close>

text \<open>Two megabytes of memory, with the tags at 256.\<close>

definition boot_tags :: buf where
  "boot_tags = [2, 0, 0, 0, 1, 0, 0x41, 0x54] @ [4, 0, 0, 0, 2, 0, 0x41, 0x54, 0, 0, 0x20, 0, 0, 0, 0, 0] @ replicate 8 0"

definition boot_mem :: buf where
  "boot_mem = replicate 256 0 @ boot_tags @ replicate 2096864 0"

lemma boot_mem_length: "length boot_tags = 32" "length boot_mem = 2097152"
  by (simp_all add: boot_tags_def boot_mem_def)

lemma boot_mem_tags:
  "check_atags boot_mem 0x100 = Some 0"
  "\<exists>cmd. parse_atags boot_mem 0x100 None = Some ([(0, 0x200000)], cmd)"
proof -
  have tag: "read_word boot_mem (256 + k) = read_word boot_tags k" if "k \<le> 28" for k
    using that by (simp add: read_word_eq boot_mem_def boot_mem_length nth_append add.commute)
  have words: "read_word boot_mem 256 = read_word boot_tags 0" "read_word boot_mem 260 = read_word boot_tags 4"
    "read_word boot_mem 264 = read_word boot_tags 8" "read_word boot_mem 268 = read_word boot_tags 12"
    "read_word boot_mem 272 = read_word boot_tags 16" "read_word boot_mem 276 = read_word boot_tags 20"
    "read_word boot_mem 280 = read_word boot_tags 24" "read_word boot_mem 284 = read_word boot_tags 28"
    using tag [of 0] tag [of 4] tag [of 8] tag [of 12] tag [of 16] tag [of 20] tag [of 24] tag [of 28] by simp_all
  show "check_atags boot_mem 0x100 = Some 0"
    using words(2) by (simp add: check_atags_def) (simp add: boot_tags_def read_word_def ATAG_CORE_def)
  have "tags_at boot_mem (unat (0x100 :: u32)) [(ATAG_CORE, []), (ATAG_MEM, [0x200000, 0])]"
    using words by (simp add: ATAG_CORE_def ATAG_MEM_def ATAG_NONE_def) (simp add: boot_tags_def read_word_def)
  from parse_atags_loop_tags [OF this, of "([], None)"]
  show "\<exists>cmd. parse_atags boot_mem 0x100 None = Some ([(0, 0x200000)], cmd)"
    by (simp add: parse_atags_def ATAG_CORE_def ATAG_MEM_def)
qed

end
