(* ===== verification/Kernel.thy ===== *)
theory Kernel
  imports SampleCard
begin

text \<open>
  The start of the boot loader, main.c: the memory of the machine is registered, the
  file systems are mounted, and the first configuration file that is found is run.
  The device tree library (\<open>fdt_check_header\<close>) and the reader built on it
  (\<open>parse_dtb\<close>) are parameters; UART, frame buffer and messages are not modelled.
\<close>

section \<open>Model\<close>

definition boot_cfg_names :: "cstring list" where
  "boot_cfg_names = [lit ''/boot/rpi_boot.cfg'', lit ''/boot/rpi-boot.cfg'', lit ''/boot/grub/grub.cfg'']"

text \<open>The callback for memory regions: what lies below 1 MiB is left out, as the code
  computes it.\<close>

definition main_mem_cb :: "u32 \<times> u32 \<Rightarrow> chunk_state \<Rightarrow> chunk_state" where
  "main_mem_cb r ch =
     (case r of (addr, len) \<Rightarrow>
        if addr < 0x100000 then chunk_register_free 0x100000 (len - 0x100000) ch
        else chunk_register_free addr len ch)"

text \<open>The loops over the names of the file and over the devices.\<close>

primrec open_first ::
  "cstring \<Rightarrow> cstring list \<Rightarrow> 'w loader \<Rightarrow> ('w stream option \<times> 'w loader) option" where
  "open_first pre [] st = Some (None, st)"
| "open_first pre (n # ns) st = do {
     (f, st) \<leftarrow> ld_fopen (pre @ n) (lit ''r'') st;
     (case f of Some fp \<Rightarrow> Some (Some fp, st) | None \<Rightarrow> open_first pre ns st) }"

primrec open_on_devices ::
  "cstring list \<Rightarrow> 'w loader \<Rightarrow> ('w stream option \<times> 'w loader) option" where
  "open_on_devices [] st = Some (None, st)"
| "open_on_devices (d # ds) st = do {
     (f, st) \<leftarrow> open_first (lit ''('' @ d @ lit '')'') boot_cfg_names st;
     (case f of Some fp \<Rightarrow> Some (Some fp, st) | None \<Rightarrow> open_on_devices ds st) }"

text \<open>The result is the state after the configuration file, if there is one.\<close>

definition run_config :: "'w boot_env \<Rightarrow> 'w stream \<Rightarrow> 'w loader \<Rightarrow> 'w loader option" where
  "run_config env f st = do {
     (flen, _) \<leftarrow> fsize f;
     let (at, st) = fresh_buffer env st;
     b \<leftarrow> put_byte (replicate (nat (flen + 1)) 0) (nat flen) 0;
     (_, b, f, w) \<leftarrow> fread b at 1 (word_of_int flen) f (ld_dev st);
     let st = st\<lparr>ld_dev := w\<rparr>;
     st \<leftarrow> ld_fclose f st;
     (_, _, st) \<leftarrow> multiboot_cfg_parse env b st;
     st }"

definition find_and_run_config :: "'w boot_env \<Rightarrow> 'w loader \<Rightarrow> 'w loader option" where
  "find_and_run_config env st = do {
     (f, st) \<leftarrow> open_first [] boot_cfg_names st;
     (f, st) \<leftarrow>
       (case f of
          Some fp \<Rightarrow> Some (Some fp, st)
        | None \<Rightarrow> open_on_devices (vfs_get_device_list (ld_vfs st)) st);
     (case f of
        None \<Rightarrow> Some st
      | Some f \<Rightarrow> run_config env f st) }"

definition conf_source_of :: "(u32 \<Rightarrow> bool) \<Rightarrow> buf \<Rightarrow> u32 \<Rightarrow> nat option" where
  "conf_source_of fdt_ok mem atags =
     (if fdt_ok atags then Some 3
      else if fdt_ok 0 then Some 4
      else do {
        a \<leftarrow> check_atags mem atags;
        if a = 0 then Some 1
        else do {
          b \<leftarrow> check_atags mem 0;
          Some (if b = 0 then 2 else 0) } })"

text \<open>The regions that the callback of \<open>kernel_main\<close> gets; without tags and device
  tree, half a gigabyte is assumed.\<close>

definition machine_regions ::
  "(u32 \<Rightarrow> u32 option \<Rightarrow> atag_result option) \<Rightarrow> nat \<Rightarrow> buf \<Rightarrow> u32 \<Rightarrow> (u32 \<times> u32) list option" where
  "machine_regions parse_dtb conf_source mem atags =
     (if conf_source = 0 then Some [(0, 512 * 1024 * 1024)]
      else map_option fst (parse_atag_or_dtb parse_dtb conf_source mem atags None))"

definition loader_start :: "buf \<Rightarrow> chunk_state \<Rightarrow> 'w vfs \<Rightarrow> 'w \<Rightarrow> 'w log_state \<Rightarrow> 'w loader" where
  "loader_start mem ch v w log = \<lparr>ld_mem = mem, ld_chunks = ch, ld_vfs = v, ld_dev = w, ld_log = log,
     ld_mallocs = 0, mbinfo = None, entry_addr = 0, binary_load_addr = 0, first_mod = [], mod_count = 0, jumps = []\<rparr>"

text \<open>The log starts as a buffer of 4 KiB without a file.\<close>

definition start_log :: "'w log_state" where
  "start_log = output_enable RPIBOOT_OUTPUT_LOG
     (log_start\<lparr>log_buf := Some (replicate 0x1000 0), buf_size := 0x1000,
       ostate := RPIBOOT_OUTPUT_UART OR RPIBOOT_OUTPUT_FB\<rparr>)"

definition kernel_main ::
  "(u32 \<Rightarrow> bool) \<Rightarrow> (u32 \<Rightarrow> u32 option \<Rightarrow> atag_result option) \<Rightarrow> mount_env \<Rightarrow> bool \<Rightarrow> 'w block_device option \<Rightarrow>
   buf \<Rightarrow> heap \<Rightarrow> ('w \<times> cache_state) boot_env \<Rightarrow> u32 \<Rightarrow> u32 \<Rightarrow> buf \<Rightarrow> 'w \<Rightarrow> ('w \<times> cache_state) loader option" where
  "kernel_main fdt_ok parse_dtb menv al sd cbuf h env arm_m_type atags mem w = do {
     let atags = (if atags = 0 then 0x100 else atags);
     conf_source \<leftarrow> conf_source_of fdt_ok mem atags;
     regions \<leftarrow> machine_regions parse_dtb conf_source mem atags;
     let ch = fold main_mem_cb regions chunk_init;
     (_, s, ms) \<leftarrow> libfs_init menv al (True, True, True) sd cbuf w h \<lparr>m_vfs = vfs_start, m_next = 1\<rparr>;
     find_and_run_config
       (env\<lparr>be_regions := (if conf_source = 0 then [] else regions), be_arm_m_type := arm_m_type, be_atags := atags\<rparr>)
       (loader_start mem ch (m_vfs ms) s start_log) }"

section \<open>Running the configuration file\<close>

context input_file
begin

lemma reads_with_nul:
  assumes "at f w 0" "content \<noteq> []" "overrun B ad 0 (length content) = 0" "n = length content"
  shows "\<exists>f' w' e. fsize f = Some (int n, e) \<and> put_byte (replicate (nat (int n + 1)) 0) n 0 = Some (replicate (n + 1) 0)
    \<and> fread (replicate (n + 1) 0) ad 1 (word_of_nat n) f w = Some (word_of_nat n, content @ [0], f', w') \<and> at f' w' n"
proof -
  have s: "n < 2147483648" and r: "n = min n (length content - 0)" "0 < n" "n < 2 ^ 32" "0 < length content"
    using sound [OF assms(1)] assms(2,4) by auto
  obtain e where len: "fsize f = Some (int n, e)"
    using sound [OF assms(1)] assms(4) by blast
  have b: "put_byte (replicate (nat (int n + 1)) 0) n 0 = Some (replicate (n + 1) 0)"
    using list_update_id [of "replicate (n + 1) (0 :: u8)" n]
    by (simp add: nat_add_distrib del: replicate_Suc)
  have room: "n + overrun B ad 0 n \<le> length (replicate (n + 1) (0 :: u8))"
    using assms(3,4) by simp
  obtain b' f' w' where rd: "fread (replicate (n + 1) 0) ad 1 (word_of_nat n) f w = Some (word_of_nat n, b', f', w')"
    "take n b' = take n (drop 0 content)" "length b' = n + 1" "drop n b' = drop n (replicate (n + 1) 0)" "at f' w' (0 + n)"
    using read [OF assms(1) r(4,2,3,1) room] assms(3,4) by auto
  have "drop n (replicate (n + 1) (0 :: u8)) = [0]"
    unfolding drop_replicate by simp
  then have "b' = content @ [0]"
    using append_take_drop_id [of n b'] rd(2,4) assms(4) by (metis drop_0 order_refl take_all)
  with rd(1,5) len b show ?thesis
    by auto
qed

lemma run_config_reads:
  assumes "at f (ld_dev st) 0" "content \<noteq> []" "overrun B (be_heap env (ld_mallocs st)) 0 (length content) = 0"
  shows "\<exists>w. wok w \<and> run_config env f st = do {
    (_, _, st') \<leftarrow> multiboot_cfg_parse env (content @ [0]) (st\<lparr>ld_mallocs := ld_mallocs st + 1, ld_dev := w\<rparr>);
    st' }"
proof -
  obtain f' w e where rd: "fsize f = Some (int (length content), e)"
    "put_byte (replicate (nat (int (length content) + 1)) 0) (length content) 0 = Some (replicate (length content + 1) 0)"
    "fread (replicate (length content + 1) 0) (be_heap env (ld_mallocs st)) 1 (word_of_nat (length content)) f (ld_dev st)
      = Some (word_of_nat (length content), content @ [0], f', w)" "at f' w (length content)"
    using reads_with_nul [OF assms refl] by blast
  obtain w' where cl: "fclose None f' w = Some (0, None, w')" "wok w'"
    using close [OF rd(4)] by blast
  have "run_config env f st = do {
    (_, _, st') \<leftarrow> multiboot_cfg_parse env (content @ [0]) (st\<lparr>ld_mallocs := ld_mallocs st + 1, ld_dev := w'\<rparr>);
    st' }"
    using rd(2,3) cl(1) unfolding run_config_def
    by (simp add: rd(1) fresh_buffer_def ld_fclose_def del: put_byte_Some replicate_Suc)
  then show ?thesis
    using cl(2) by blast
qed

end

lemma find_first_config:
  assumes "fopen (ld_vfs st) (Some (lit ''/boot/rpi_boot.cfg'')) (lit ''r'') (ld_dev st) = Some (Inr fp, w)"
  shows "find_and_run_config env st = run_config env fp (st\<lparr>ld_dev := w\<rparr>)"
  using assms by (simp add: find_and_run_config_def boot_cfg_names_def ld_fopen_def)

section \<open>From the card to the jump\<close>

definition tags_address :: "u32 \<Rightarrow> u32" where
  "tags_address atags = (if atags = 0 then 0x100 else atags)"

lemma overrun_512: "512 dvd B \<Longrightarrow> overrun 512 ad p n = 0 \<Longrightarrow> overrun B ad p n = 0"
proof -
  assume "512 dvd B"
  then have "(p + n) mod B = 0 \<Longrightarrow> (p + n) mod 512 = 0"
    by (meson dvd_trans dvd_eq_mod_eq_0)
  then show "overrun 512 ad p n = 0 \<Longrightarrow> ?thesis"
    unfolding overrun_def by (metis zero_neq_numeral)
qed

lemma fat_open_file:
  assumes "disk rd 512 img ok" "fat_layout rd img ok fat m w" "fat_type fat = FAT32"
    "first_data_sector fat = first_non_root_sector fat" "v_def v = Some ve" "ve_fs ve = fat_fs_of temp fat"
    and "fat_has_file fat m dirs name content"
  obtains d cs fp w1 where "fopen v (Some (comp_path (dirs @ [name]))) (lit ''r'') w = Some (Inr fp, w1)"
    "fat_stream_at rd img ok temp fat m d cs fp w1 0" "fat_file_bytes fat m d cs = content"
proof -
  obtain d cs where f: "fat_file_at fat m dirs name d cs" "fat_file_bytes fat m d cs = content"
    using assms(7) by (auto simp: fat_has_file_def)
  have dev: "dev_entry v None = Some ve" "dev_plain None"
    using assms(5) by (simp_all add: dev_entry_def dev_plain_def)
  then obtain fp w1 where "fopen v (Some (comp_path (dirs @ [name]))) (lit ''r'') w = Some (Inr fp, w1)"
    "fat_stream_at rd img ok temp fat m d cs fp w1 0"
    using fat_open_stream [OF assms(1-4) dev(1) assms(6) dev(2) f(1)] unfolding path_of_def option.case by blast
  then show thesis
    using f(2) by (rule that)
qed

text \<open>The configuration file of the default volume is read and run.\<close>

lemma volume_config:
  assumes disk: "disk rd 512 img ok" and lay: "fat_layout rd img ok fat m (ld_dev st)"
    and fat: "fat_type fat = FAT32" "first_data_sector fat = first_non_root_sector fat"
    and ve: "v_def (ld_vfs st) = Some ve" "ve_fs ve = fat_fs_of temp fat"
    and conf: "fat_has_file fat m [lit ''boot''] (lit ''rpi_boot.cfg'') conf" "conf \<noteq> []"
      "overrun 512 (be_heap env (ld_mallocs st)) 0 (length conf) = 0"
  shows "\<exists>w. fat_layout rd img ok fat m w \<and> find_and_run_config env st = do {
    (_, _, st') \<leftarrow> multiboot_cfg_parse env (conf @ [0]) (st\<lparr>ld_mallocs := ld_mallocs st + 1, ld_dev := w\<rparr>);
    st' }"
proof -
  have path: "comp_path ([lit ''boot''] @ [lit ''rpi_boot.cfg'']) = lit ''/boot/rpi_boot.cfg''"
    by (simp add: lit_def)
  obtain d cs fp w1 where f: "fopen (ld_vfs st) (Some (lit ''/boot/rpi_boot.cfg'')) (lit ''r'') (ld_dev st) = Some (Inr fp, w1)"
    "fat_stream_at rd img ok temp fat m d cs fp w1 0" "fat_file_bytes fat m d cs = conf"
    using fat_open_file [OF disk lay fat ve conf(1)] unfolding path .
  note conf_file = fat_input_file [OF disk, of temp fat d m cs, unfolded f(3)]
  have "512 dvd unat (fat_block_size fat)"
    using lay by (auto simp: fat_layout_def)
  then have room: "overrun (unat (fat_block_size fat)) (be_heap env (ld_mallocs (st\<lparr>ld_dev := w1\<rparr>))) 0 (length conf) = 0"
    using overrun_512 conf(3) by simp
  obtain w2 where w2: "fat_file_ok rd img ok fat m d cs w2" "run_config env fp (st\<lparr>ld_dev := w1\<rparr>) = do {
      (_, _, st') \<leftarrow> multiboot_cfg_parse env (conf @ [0]) (st\<lparr>ld_dev := w1, ld_mallocs := ld_mallocs st + 1, ld_dev := w2\<rparr>);
      st' }"
    using input_file.run_config_reads [OF conf_file _ conf(2) room] f(2) by (auto simp: f(3))
  have st: "st\<lparr>ld_dev := w1, ld_mallocs := ld_mallocs st + 1, ld_dev := w2\<rparr> = st\<lparr>ld_mallocs := ld_mallocs st + 1, ld_dev := w2\<rparr>"
    by (rule loader.equality) simp_all
  have "fat_layout rd img ok fat m w2"
    using w2(1) by (simp add: fat_file_ok_def)
  then show ?thesis
    using w2(2) unfolding find_first_config [OF f(1)] st by blast
qed

text \<open>One that loads an ELF kernel of the same volume and starts it.\<close>

lemma volume_boots_elf:
  assumes disk: "disk rd 512 img ok" and lay: "fat_layout rd img ok fat m (ld_dev st)"
    and fat: "fat_type fat = FAT32" "first_data_sector fat = first_non_root_sector fat"
    and ve: "v_def (ld_vfs st) = Some ve" "ve_fs ve = fat_fs_of temp fat"
    and files: "fat_has_file fat m [lit ''boot''] (lit ''rpi_boot.cfg'') conf" "fat_has_file fat m dirs name content"
    and conf: "0 \<notin> set conf" "cfg_commands conf = [(lit ''kernel'', args), (lit ''boot'', rest)]"
      "cfg_method 32 args = comp_path (dirs @ [name])" "overrun 512 (be_heap env (ld_mallocs st)) 0 (length conf) = 0"
    and elf: "length (ld_mem st) \<le> 2 ^ 32" "elf_kernel content h segs" "e_entry h \<noteq> 0" "mbinfo st = None"
      "table_fits 512 (be_heap env (ld_mallocs st + 3)) h"
      "\<forall>ph \<in> set segs. seg_loadable content (length (ld_mem st)) (ld_chunks st) ph"
  shows "\<exists>mem' w'. find_and_run_config env st = Some (st\<lparr>ld_mem := mem', ld_dev := w',
        ld_chunks := claim (map seg_region segs) (ld_chunks st), ld_mallocs := ld_mallocs st + 4,
        entry_addr := e_entry h, jumps := jumps st @ [plain_jump env (e_entry h)]\<rparr>)
    \<and> fat_layout rd img ok fat m w' \<and> segs_loaded content segs (ld_mem st) mem'"
proof -
  have "conf \<noteq> []"
    using conf(2) by (auto simp: cfg_commands_def)
  then obtain w where w: "fat_layout rd img ok fat m w" "find_and_run_config env st = do {
      (_, _, st') \<leftarrow> multiboot_cfg_parse env (conf @ [0]) (st\<lparr>ld_mallocs := ld_mallocs st + 1, ld_dev := w\<rparr>);
      st' }"
    using volume_config [OF disk lay fat ve files(1) _ conf(4)] by blast
  let ?st = "st\<lparr>ld_mallocs := ld_mallocs st + 1, ld_dev := w\<rparr>" and ?B = "unat (fat_block_size fat)"
  obtain d cs fp w1 where k: "fopen (ld_vfs st) (Some (comp_path (dirs @ [name]))) (lit ''r'') w = Some (Inr fp, w1)"
      "fat_stream_at rd img ok temp fat m d cs fp w1 0" "fat_file_bytes fat m d cs = content"
    using fat_open_file [OF disk w(1) fat ve files(2)] .
  note kernel_file = fat_input_file [OF disk, of temp fat d m cs, unfolded k(3)]
  have "512 dvd ?B" "cstr_at (conf @ [0]) 0 conf" "comp_path (dirs @ [name]) \<noteq> []"
    using lay conf(1) by (auto simp: fat_layout_def cstr_at_iff nth_append in_set_conv_nth comp_path_def)
  moreover from this(1) have "table_fits ?B (be_heap env (ld_mallocs ?st + 2)) h"
    using elf(5) overrun_512 by (simp add: table_fits_def numeral_3_eq_3)
  ultimately obtain mem' w' where run: "multiboot_cfg_parse env (conf @ [0]) ?st = Some (0, [], Some (?st\<lparr>ld_mem := mem', ld_dev := w',
        ld_chunks := claim (map seg_region segs) (ld_chunks ?st), ld_mallocs := ld_mallocs ?st + 3,
        entry_addr := e_entry h, jumps := jumps ?st @ [plain_jump env (e_entry h)]\<rparr>))"
      "fat_file_ok rd img ok fat m d cs w'" "segs_loaded content segs (ld_mem ?st) mem'"
    using input_file.config_boots_elf [OF kernel_file, of "conf @ [0]" conf args rest _ ?st fp w1 h segs env]
      conf(2,3) k(1,2) elf by (auto simp: k(3))
  have "?st\<lparr>ld_mem := mem', ld_dev := w', ld_chunks := claim (map seg_region segs) (ld_chunks ?st),
        ld_mallocs := ld_mallocs ?st + 3, entry_addr := e_entry h, jumps := jumps ?st @ [plain_jump env (e_entry h)]\<rparr> =
      st\<lparr>ld_mem := mem', ld_dev := w', ld_chunks := claim (map seg_region segs) (ld_chunks st),
        ld_mallocs := ld_mallocs st + 4, entry_addr := e_entry h, jumps := jumps st @ [plain_jump env (e_entry h)]\<rparr>"
    by (rule loader.equality) simp_all
  then have "find_and_run_config env st = Some (st\<lparr>ld_mem := mem', ld_dev := w',
        ld_chunks := claim (map seg_region segs) (ld_chunks st), ld_mallocs := ld_mallocs st + 4,
        entry_addr := e_entry h, jumps := jumps st @ [plain_jump env (e_entry h)]\<rparr>)"
    unfolding w(2) run(1) by simp
  moreover have "fat_layout rd img ok fat m w'" "segs_loaded content segs (ld_mem st) mem'"
    using run(2,3) by (simp_all add: fat_file_ok_def)
  ultimately show ?thesis
    by blast
qed

section \<open>Properties\<close>



end
