(* ===== verification/DtbKernel.thy ===== *)
theory DtbKernel
  imports Rpifdt Kernel
begin

text \<open>
  The start of the loader on a machine with a device tree: the parameter for the device
  tree of \<open>kernel_main\<close> is \<open>parse_dtb\<close> of rpifdt.c, and the memory that the loader
  gives out is that of the memory nodes.
\<close>

text \<open>The tree at an address; the callback collects the regions.\<close>

definition tree_parser :: "(u32 \<Rightarrow> bool) \<Rightarrow> (u32 \<Rightarrow> fdt) \<Rightarrow> 'h hw \<Rightarrow> 'h \<Rightarrow> u32 \<Rightarrow> u32 option \<Rightarrow> atag_result option" where
  "tree_parser malloc_ok fdt_at hw h dtb cmd_line =
     map_option (\<lambda>(d, hw, h, regs). (regs, if dtb_cmd_line d = 0 then None else Some (word_of_nat (dtb_cmd_line d))))
       (parse_dtb malloc_ok (fdt_at dtb) (\<lambda>a l rs. rs @ [(a, l)]) dtb_start hw h [])"

lemma fold_collect: "fold (\<lambda>(a, l) rs. rs @ [(a, l)]) es rs = rs @ es"
  by (induction es arbitrary: rs) auto

lemma parse_dtb_collects:
  assumes "tree_ok t ds" "load_ranges malloc_ok t = Some sr"
    and "uart_init (hw\<lparr>uart_base := device_base t sr ds ''pl011'' (uart_base hw),
      gpio_base := device_base t sr ds ''bcm2835-gpio'' (gpio_base hw),
      timer_base := device_base t sr ds ''bcm2835-system-timer'' (timer_base hw)\<rparr>) h = Some h'"
  shows "\<exists>d hw' h'. parse_dtb malloc_ok t (\<lambda>a l rs. rs @ [(a, l)]) dtb_start hw h []
    = Some (d, hw', h', regs_of (is_memory t) t sr ds)"
  using assms(2) by (simp add: parse_dtb_def dtb_start_def parse_dtb_devices_bases [OF assms(1,3)] mem_nodes_regs [OF assms(1)]
      fold_collect Let_def)

lemma machine_regions_tree:
  assumes "fdt_ok a" "tree_ok (fdt_at a) ds" "load_ranges malloc_ok (fdt_at a) = Some sr"
    and "uart_init (hw\<lparr>uart_base := device_base (fdt_at a) sr ds ''pl011'' (uart_base hw),
      gpio_base := device_base (fdt_at a) sr ds ''bcm2835-gpio'' (gpio_base hw),
      timer_base := device_base (fdt_at a) sr ds ''bcm2835-system-timer'' (timer_base hw)\<rparr>) h = Some h'"
  shows "conf_source_of fdt_ok mem a = Some 3
    \<and> machine_regions (tree_parser malloc_ok fdt_at hw h) 3 mem a = Some (regs_of (is_memory (fdt_at a)) (fdt_at a) sr ds)"
  using parse_dtb_collects [OF assms(2-4)] assms(1)
  by (auto simp: conf_source_of_def machine_regions_def parse_atag_or_dtb_def tree_parser_def)

lemma sample_regions:
  "machine_regions (tree_parser (\<lambda>_. True) (\<lambda>_. sample_fdt) sample_board 0) 3 mem a = Some [(0, 0x3c000000)]"
proof -
  have "load_ranges (\<lambda>_. True) sample_fdt = Some sample_ranges"
    by (rule load_ranges_chain [OF sample_chain]) (simp_all add: sample_ranges_def)
  from machine_regions_tree [where fdt_at = "\<lambda>_. sample_fdt" and fdt_ok = "\<lambda>_. True", OF _ sample_tree_ok this sample_board_uart]
  show ?thesis
    by (simp add: sample_memory)
qed

end
