(* ===== verification/Qemufw.thy ===== *)
theory Qemufw
  imports Kernel
begin

text \<open>
  The loader that stands for the firmware in an emulator (qemufw.c): it replaces the search of
  main.c for a configuration file by that for config.txt, takes the name of a kernel from
  it and calls the kernel at a fixed address.  How much memory \<open>malloc\<close> gives beyond what is
  asked for is the parameter \<open>slack\<close>.
\<close>

section \<open>Model\<close>

record qemu_vars =
  boot_kernel :: cstring
  boot_arm_control :: u32

text \<open>The values at the start, for the 32-bit target.\<close>

definition qemu_start :: qemu_vars where
  "qemu_start = \<lparr>boot_kernel = lit ''kernel7.img'', boot_arm_control = 0\<rparr>"

definition qemu_method_kernel :: "cstring \<Rightarrow> qemu_vars option \<Rightarrow> int \<times> qemu_vars option" where
  "qemu_method_kernel args v = (0, map_option (\<lambda>v. v\<lparr>boot_kernel := args\<rparr>) v)"

definition qemu_method_arm_control :: "cstring \<Rightarrow> qemu_vars option \<Rightarrow> int \<times> qemu_vars option" where
  "qemu_method_arm_control args v =
     (0, do { v \<leftarrow> v; (val, _, _) \<leftarrow> strtol (args @ [0]) 0 0; Some (v\<lparr>boot_arm_control := word_of_int val\<rparr>) })"

definition qemu_methods :: "qemu_vars option cfg_method list" where
  "qemu_methods = [(lit ''kernel'', qemu_method_kernel), (lit ''arm_control'', qemu_method_arm_control)]"

text \<open>A name printed into a fresh block.\<close>

definition name_in_block :: "nat \<Rightarrow> nat \<Rightarrow> cstring \<Rightarrow> cstring option" where
  "name_in_block slack request name = (if length name + 1 \<le> request + slack then Some name else None)"

definition config_fname :: cstring where
  "config_fname = lit ''/config.txt''"

primrec open_config ::
  "nat \<Rightarrow> cstring list \<Rightarrow> 'w loader \<Rightarrow> ((cstring \<times> 'w stream) option \<times> 'w loader) option" where
  "open_config slack [] st = Some (None, st)"
| "open_config slack (d # ds) st = do {
     new_str \<leftarrow> name_in_block slack (length d + length config_fname + 3) (lit ''('' @ d @ lit '')'' @ config_fname);
     (f, st) \<leftarrow> ld_fopen new_str (lit ''r'') st;
     (case f of Some fp \<Rightarrow> Some (Some (d, fp), st) | None \<Rightarrow> open_config slack ds st) }"

definition read_config :: "'w boot_env \<Rightarrow> 'w stream \<Rightarrow> qemu_vars \<Rightarrow> 'w loader \<Rightarrow> (qemu_vars \<times> 'w loader) option" where
  "read_config env f v st = do {
     (flen, _) \<leftarrow> fsize f;
     let (at, st) = fresh_buffer env st;
     b \<leftarrow> put_byte (replicate (nat (flen + 1)) 0) (nat flen) 0;
     (_, b, f, w) \<leftarrow> fread b at 1 (word_of_int flen) f (ld_dev st);
     let st = st\<lparr>ld_dev := w\<rparr>;
     st \<leftarrow> ld_fclose f st;
     (_, _, v) \<leftarrow> config_parse b 0 61 qemu_methods (Some v);
     v \<leftarrow> v;
     Some (v, st) }"

definition kernel_fname :: "nat \<Rightarrow> cstring option \<Rightarrow> cstring \<Rightarrow> cstring option" where
  "kernel_fname slack dev k =
     (case dev of
        Some d \<Rightarrow> name_in_block slack (length d + 1 + length k + 1) (lit ''('' @ d @ lit '')/'' @ k)
      | None \<Rightarrow> name_in_block slack (1 + length k + 1) (lit ''/'' @ k))"

definition qemu_entry :: u32 where "qemu_entry = 0x80000"

definition call_kernel :: "'w stream \<Rightarrow> 'w loader \<Rightarrow> 'w loader option" where
  "call_kernel f st = do {
     (flen, _) \<leftarrow> fsize f;
     (_, f, st) \<leftarrow> ld_fread_mem qemu_entry (word_of_int flen) f st;
     st \<leftarrow> ld_fclose f st;
     Some (st\<lparr>jumps := jumps st @ [\<lparr>j_entry = qemu_entry, j_args = [Word_arg 0, Word_arg 0, Word_arg 0]\<rparr>]\<rparr>) }"

definition qemu_find_and_run_config ::
  "'w boot_env \<Rightarrow> nat \<Rightarrow> qemu_vars \<Rightarrow> 'w loader \<Rightarrow> (qemu_vars \<times> 'w loader) option" where
  "qemu_find_and_run_config env slack v st = do {
     (f, st) \<leftarrow> open_config slack (vfs_get_device_list (ld_vfs st)) st;
     (v, st) \<leftarrow> (case f of Some (_, fp) \<Rightarrow> read_config env fp v st | None \<Rightarrow> Some (v, st));
     fname \<leftarrow> kernel_fname slack (map_option fst f) (boot_kernel v);
     (f, st) \<leftarrow> ld_fopen fname (lit ''r'') st;
     (case f of
        None \<Rightarrow> Some (v, st)
      | Some f \<Rightarrow> do { st \<leftarrow> call_kernel f st; Some (v, st) }) }"

section \<open>The configuration\<close>

text \<open>The commands of config.txt, where a method ends at the equals sign.\<close>

definition qemu_commands :: "cstring \<Rightarrow> (cstring \<times> cstring) list" where
  "qemu_commands conf = map (\<lambda>l. (map lower_byte (cfg_method 61 (cfg_trim l)), cfg_args 61 (cfg_trim l))) (cfg_lines conf)"

text \<open>The last line for the kernel counts; other methods are skipped.\<close>

definition last_kernel :: "cstring \<Rightarrow> (cstring \<times> cstring) list \<Rightarrow> cstring" where
  "last_kernel k cs = last (k # map snd (filter (\<lambda>c. fst c = lit ''kernel'') cs))"

text \<open>The control word is a number that the parser reads.\<close>

definition control_ok :: "cstring \<times> cstring \<Rightarrow> bool" where
  "control_ok c \<longleftrightarrow> (fst c = lit ''arm_control'' \<longrightarrow> strtol (snd c @ [0]) 0 0 \<noteq> None)"

lemma qemu_method_names: "lit ''kernel'' \<noteq> []" "lit ''arm_control'' \<noteq> []" "lit ''arm_control'' \<noteq> lit ''kernel''"
  by (simp_all add: lit_def)

lemma qemu_run:
  "list_all control_ok (map (\<lambda>l. (map lower_byte (cfg_method 61 (cfg_trim l)), cfg_args 61 (cfg_trim l))) ls) \<Longrightarrow>
    \<exists>r ms v'. cfg_run 61 qemu_methods (Some v) ls = (r, ms, Some v')
      \<and> boot_kernel v' = last_kernel (boot_kernel v) (map (\<lambda>l. (map lower_byte (cfg_method 61 (cfg_trim l)), cfg_args 61 (cfg_trim l))) ls)"
proof (induction ls arbitrary: v)
  case (Cons l ls)
  let ?m = "cfg_method 61 (cfg_trim l)" and ?a = "cfg_args 61 (cfg_trim l)"
  consider "?m = []" | "?m \<noteq> []" "map lower_byte ?m = lit ''kernel''" | "?m \<noteq> []" "map lower_byte ?m = lit ''arm_control''"
    | "?m \<noteq> []" "map lower_byte ?m \<noteq> lit ''kernel''" "map lower_byte ?m \<noteq> lit ''arm_control''"
    by blast
  then show ?case
  proof cases
    case 1
    then show ?thesis
      using Cons qemu_method_names by (simp add: last_kernel_def Let_def)
  next
    case 2
    then show ?thesis
      using Cons.IH [of "v\<lparr>boot_kernel := ?a\<rparr>"] Cons.prems
      by (auto simp: last_kernel_def qemu_methods_def qemu_method_kernel_def Let_def)
  next
    case 3
    then obtain val e er where "strtol (?a @ [0]) 0 0 = Some (val, e, er)"
      using Cons.prems by (auto simp: control_ok_def)
    then show ?thesis
      using 3 Cons.IH [of "v\<lparr>boot_arm_control := word_of_int val\<rparr>"] Cons.prems qemu_method_names
      by (auto simp: last_kernel_def qemu_methods_def qemu_method_arm_control_def Let_def)
  next
    case 4
    then show ?thesis
      using Cons.IH [of v] Cons.prems by (auto simp: last_kernel_def qemu_methods_def Let_def)
  qed
qed (simp add: last_kernel_def)

text \<open>The name of the kernel on a device is two bytes longer than its block.\<close>

lemma qemu_name_too_long:
  assumes "open_config slack (vfs_get_device_list (ld_vfs st)) st = Some (Some (d, fp), st1)" "slack < 2"
  shows "qemu_find_and_run_config env slack v st = None"
proof -
  have "kernel_fname slack (Some d) k = None" for k
    using assms(2) by (simp add: kernel_fname_def name_in_block_def lit_def)
  then show ?thesis
    using assms(1) by (auto simp: qemu_find_and_run_config_def split: option.splits Option.bind_splits prod.splits)
qed

context input_file
begin

lemma read_config_ok:
  assumes "at f (ld_dev st) 0" "content \<noteq> []" "overrun B (be_heap env (ld_mallocs st)) 0 (length content) = 0"
    and "0 \<notin> set content" "list_all control_ok (qemu_commands content)"
  shows "\<exists>v' w. read_config env f v st = Some (v', st\<lparr>ld_mallocs := ld_mallocs st + 1, ld_dev := w\<rparr>) \<and> wok w
    \<and> boot_kernel v' = last_kernel (boot_kernel v) (qemu_commands content)"
proof -
  obtain f' w e where rd: "fsize f = Some (int (length content), e)"
    "put_byte (replicate (nat (int (length content) + 1)) 0) (length content) 0 = Some (replicate (length content + 1) 0)"
    "fread (replicate (length content + 1) 0) (be_heap env (ld_mallocs st)) 1 (word_of_nat (length content)) f (ld_dev st)
      = Some (word_of_nat (length content), content @ [0], f', w)" "at f' w (length content)"
    using reads_with_nul [OF assms(1-3) refl] by blast
  obtain w' where cl: "fclose None f' w = Some (0, None, w')" "wok w'"
    using close [OF rd(4)] by blast
  obtain r ms v' where v: "cfg_run 61 qemu_methods (Some v) (cfg_lines content) = (r, ms, Some v')"
      "boot_kernel v' = last_kernel (boot_kernel v) (qemu_commands content)"
    using qemu_run [of "cfg_lines content" v] assms(5) unfolding qemu_commands_def by blast
  have "cstr_at (content @ [0]) 0 content"
    using assms(4) by (simp add: cstr_at_iff nth_append)
  then have "config_parse (content @ [0]) 0 61 qemu_methods (Some v) = Some (r, ms, Some v')"
    using config_loop_cstr [of "content @ [0]" 0 content "length (content @ [0]) + 1" 61 61 qemu_methods "Some v"] v(1)
    by (simp add: config_parse_def)
  then have "read_config env f v st = Some (v', st\<lparr>ld_mallocs := ld_mallocs st + 1, ld_dev := w'\<rparr>)"
    using rd(2,3) cl(1) unfolding read_config_def
    by (simp add: rd(1) fresh_buffer_def ld_fclose_def del: put_byte_Some replicate_Suc)
  with cl(2) v(2) show ?thesis
    by blast
qed

lemma call_kernel_ok:
  assumes "at fp (ld_dev st) 0" "content \<noteq> []" "0x80000 + length content + 16 \<le> length (ld_mem st)"
  shows "\<exists>mem' w'. call_kernel fp st = Some (st\<lparr>ld_mem := mem', ld_dev := w',
      jumps := jumps st @ [\<lparr>j_entry = qemu_entry, j_args = [Word_arg 0, Word_arg 0, Word_arg 0]\<rparr>]\<rparr>)
    \<and> wok w' \<and> written (ld_mem st) mem' 0x80000 content 16"
proof -
  let ?n = "word_of_nat (length content) :: u32" and ?a = "unat qemu_entry"
  have a: "?a = 0x80000"
    by (simp add: qemu_entry_def)
  obtain e where len: "fsize fp = Some (int (length content), e)"
    using sound [OF assms(1)] by blast
  have room: "length content + 16 \<le> length (drop ?a (ld_mem st))"
    using assms(3) a by simp
  obtain sub fp' w1 where rd: "fread (drop ?a (ld_mem st)) qemu_entry 1 ?n fp (ld_dev st) = Some (?n, sub, fp', w1)"
    "written (drop ?a (ld_mem st)) sub 0 (take (length content) (drop 0 content)) 16" "at fp' w1 (0 + length content)"
    using read_inside [OF assms(1) _ _ room, of qemu_entry] assms(2) by auto
  obtain w' where cl: "fclose None fp' w1 = Some (0, None, w')" "wok w'"
    using close [OF rd(3)] by blast
  let ?mem = "take ?a (ld_mem st) @ sub"
  have mem: "fread_mem (ld_mem st) qemu_entry ?n fp (ld_dev st) = Some (?n, ?mem, fp', w1)"
      "written (ld_mem st) ?mem 0x80000 content 16"
    using rd(1,2) assms(3) a by (simp_all add: fread_mem_def written_def add_ac)
  have "call_kernel fp st = Some (st\<lparr>ld_mem := ?mem, ld_dev := w',
      jumps := jumps st @ [\<lparr>j_entry = qemu_entry, j_args = [Word_arg 0, Word_arg 0, Word_arg 0]\<rparr>]\<rparr>)"
    using len mem(1) cl(1) by (simp add: call_kernel_def ld_fread_mem_def ld_fclose_def)
  with mem(2) cl(2) show ?thesis
    by blast
qed

text \<open>Whatever the configuration gave, a kernel that can be opened is called.\<close>

lemma qemu_calls_kernel:
  assumes "open_config slack (vfs_get_device_list (ld_vfs st)) st = Some (f, st1)"
    and "(case f of Some (_, fp) \<Rightarrow> read_config env fp v st1 | None \<Rightarrow> Some (v, st1)) = Some (v', st2)"
    and "kernel_fname slack (map_option fst f) (boot_kernel v') = Some name"
    and "fopen (ld_vfs st2) (Some name) (lit ''r'') (ld_dev st2) = Some (Inr fp, w)"
    and "at fp w 0" "content \<noteq> []" "0x80000 + length content + 16 \<le> length (ld_mem st2)"
  shows "\<exists>mem' w'. qemu_find_and_run_config env slack v st = Some (v', st2\<lparr>ld_mem := mem', ld_dev := w',
      jumps := jumps st2 @ [\<lparr>j_entry = qemu_entry, j_args = [Word_arg 0, Word_arg 0, Word_arg 0]\<rparr>]\<rparr>)
    \<and> wok w' \<and> written (ld_mem st2) mem' 0x80000 content 16"
  using call_kernel_ok [of fp "st2\<lparr>ld_dev := w\<rparr>"] assms
  by (auto simp: qemu_find_and_run_config_def ld_fopen_def)

end

end
