(* ===== verification/Emmc.thy ===== *)
theory Emmc
  imports Mmio BlockDev
begin

text \<open>
  The driver of the SD card, emmc.c, over the hardware of Mmio: the command tables, the
  clock divider, issuing a command with its interrupts and its data, the initialisation
  of a card, and the two operations of the block device.  The build has
  \<open>SD_1_8V_SUPPORT\<close>, \<open>SD_4BIT_DATA\<close>, \<open>SD_WRITE_SUPPORT\<close> and \<open>EMMC_ALLOW_OLD_SDHCI\<close>; without
  \<open>SDMA_SUPPORT\<close> the flag \<open>use_sdma\<close> is never set, and the branches for it are left out.  The
  statics that hold the version and the capabilities are never read again.  A pointer to a
  buffer in the device (\<open>buf\<close>) is the buffer.  \<open>None\<close> is an access outside a buffer or a wait
  that does not end.
\<close>

section \<open>Constants\<close>

definition SD_CLOCK_ID :: u32 where "SD_CLOCK_ID = 400000"
definition SD_CLOCK_NORMAL :: u32 where "SD_CLOCK_NORMAL = 25000000"

definition EMMC_BLKSIZECNT :: u32 where "EMMC_BLKSIZECNT = 4"
definition EMMC_ARG1 :: u32 where "EMMC_ARG1 = 8"
definition EMMC_CMDTM :: u32 where "EMMC_CMDTM = 0xc"
definition EMMC_RESP0 :: u32 where "EMMC_RESP0 = 0x10"
definition EMMC_RESP1 :: u32 where "EMMC_RESP1 = 0x14"
definition EMMC_RESP2 :: u32 where "EMMC_RESP2 = 0x18"
definition EMMC_RESP3 :: u32 where "EMMC_RESP3 = 0x1c"
definition EMMC_DATA :: u32 where "EMMC_DATA = 0x20"
definition EMMC_STATUS :: u32 where "EMMC_STATUS = 0x24"
definition EMMC_CONTROL0 :: u32 where "EMMC_CONTROL0 = 0x28"
definition EMMC_CONTROL1 :: u32 where "EMMC_CONTROL1 = 0x2c"
definition EMMC_INTERRUPT :: u32 where "EMMC_INTERRUPT = 0x30"
definition EMMC_IRPT_MASK :: u32 where "EMMC_IRPT_MASK = 0x34"
definition EMMC_IRPT_EN :: u32 where "EMMC_IRPT_EN = 0x38"
definition EMMC_CONTROL2 :: u32 where "EMMC_CONTROL2 = 0x3c"
definition EMMC_CAPABILITIES_0 :: u32 where "EMMC_CAPABILITIES_0 = 0x40"
definition EMMC_CAPABILITIES_1 :: u32 where "EMMC_CAPABILITIES_1 = 0x44"
definition EMMC_SLOTISR_VER :: u32 where "EMMC_SLOTISR_VER = 0xfc"

definition SD_CMD_INDEX :: "nat \<Rightarrow> u32" where "SD_CMD_INDEX a = push_bit 24 (word_of_nat a)"
definition SD_CMD_RESERVED :: "nat \<Rightarrow> u32" where "SD_CMD_RESERVED a = 0xffffffff"
definition SD_CMD_TYPE_ABORT :: u32 where "SD_CMD_TYPE_ABORT = 0xc00000"
definition SD_CMD_TYPE_MASK :: u32 where "SD_CMD_TYPE_MASK = 0xc00000"
definition SD_CMD_ISDATA :: u32 where "SD_CMD_ISDATA = 0x200000"
definition SD_CMD_CRCCHK_EN :: u32 where "SD_CMD_CRCCHK_EN = 0x80000"
definition SD_CMD_RSPNS_TYPE_NONE :: u32 where "SD_CMD_RSPNS_TYPE_NONE = 0"
definition SD_CMD_RSPNS_TYPE_136 :: u32 where "SD_CMD_RSPNS_TYPE_136 = 0x10000"
definition SD_CMD_RSPNS_TYPE_48 :: u32 where "SD_CMD_RSPNS_TYPE_48 = 0x20000"
definition SD_CMD_RSPNS_TYPE_48B :: u32 where "SD_CMD_RSPNS_TYPE_48B = 0x30000"
definition SD_CMD_RSPNS_TYPE_MASK :: u32 where "SD_CMD_RSPNS_TYPE_MASK = 0x30000"
definition SD_CMD_MULTI_BLOCK :: u32 where "SD_CMD_MULTI_BLOCK = 0x20"
definition SD_CMD_DAT_DIR_HC :: u32 where "SD_CMD_DAT_DIR_HC = 0"
definition SD_CMD_DAT_DIR_CH :: u32 where "SD_CMD_DAT_DIR_CH = 0x10"
definition SD_CMD_BLKCNT_EN :: u32 where "SD_CMD_BLKCNT_EN = 2"

definition SD_RESP_R1 :: u32 where "SD_RESP_R1 = SD_CMD_RSPNS_TYPE_48 OR SD_CMD_CRCCHK_EN"
definition SD_RESP_R1b :: u32 where "SD_RESP_R1b = SD_CMD_RSPNS_TYPE_48B OR SD_CMD_CRCCHK_EN"
definition SD_RESP_R2 :: u32 where "SD_RESP_R2 = SD_CMD_RSPNS_TYPE_136 OR SD_CMD_CRCCHK_EN"
definition SD_RESP_R3 :: u32 where "SD_RESP_R3 = SD_CMD_RSPNS_TYPE_48"
definition SD_RESP_R4 :: u32 where "SD_RESP_R4 = SD_CMD_RSPNS_TYPE_136"
definition SD_RESP_R6 :: u32 where "SD_RESP_R6 = SD_CMD_RSPNS_TYPE_48 OR SD_CMD_CRCCHK_EN"
definition SD_RESP_R7 :: u32 where "SD_RESP_R7 = SD_CMD_RSPNS_TYPE_48 OR SD_CMD_CRCCHK_EN"
definition SD_DATA_READ :: u32 where "SD_DATA_READ = SD_CMD_ISDATA OR SD_CMD_DAT_DIR_CH"
definition SD_DATA_WRITE :: u32 where "SD_DATA_WRITE = SD_CMD_ISDATA OR SD_CMD_DAT_DIR_HC"

definition SD_COMMAND_COMPLETE :: u32 where "SD_COMMAND_COMPLETE = 1"
definition SD_TRANSFER_COMPLETE :: u32 where "SD_TRANSFER_COMPLETE = 2"
definition SD_BLOCK_GAP_EVENT :: u32 where "SD_BLOCK_GAP_EVENT = 4"
definition SD_DMA_INTERRUPT :: u32 where "SD_DMA_INTERRUPT = 8"
definition SD_BUFFER_WRITE_READY :: u32 where "SD_BUFFER_WRITE_READY = 0x10"
definition SD_BUFFER_READ_READY :: u32 where "SD_BUFFER_READ_READY = 0x20"
definition SD_CARD_INSERTION :: u32 where "SD_CARD_INSERTION = 0x40"
definition SD_CARD_REMOVAL :: u32 where "SD_CARD_REMOVAL = 0x80"
definition SD_CARD_INTERRUPT :: u32 where "SD_CARD_INTERRUPT = 0x100"

definition GO_IDLE_STATE :: u32 where "GO_IDLE_STATE = 0"
definition ALL_SEND_CID :: u32 where "ALL_SEND_CID = 2"
definition SEND_RELATIVE_ADDR :: u32 where "SEND_RELATIVE_ADDR = 3"
definition IO_SET_OP_COND :: u32 where "IO_SET_OP_COND = 5"
definition SELECT_CARD :: u32 where "SELECT_CARD = 7"
definition SEND_IF_COND :: u32 where "SEND_IF_COND = 8"
definition VOLTAGE_SWITCH :: u32 where "VOLTAGE_SWITCH = 11"
definition STOP_TRANSMISSION :: u32 where "STOP_TRANSMISSION = 12"
definition SEND_STATUS :: u32 where "SEND_STATUS = 13"
definition SET_BLOCKLEN :: u32 where "SET_BLOCKLEN = 16"
definition READ_SINGLE_BLOCK :: u32 where "READ_SINGLE_BLOCK = 17"
definition READ_MULTIPLE_BLOCK :: u32 where "READ_MULTIPLE_BLOCK = 18"
definition WRITE_BLOCK :: u32 where "WRITE_BLOCK = 24"
definition WRITE_MULTIPLE_BLOCK :: u32 where "WRITE_MULTIPLE_BLOCK = 25"
definition APP_CMD :: u32 where "APP_CMD = 55"
definition IS_APP_CMD :: u32 where "IS_APP_CMD = 0x80000000"
definition ACMD :: "u32 \<Rightarrow> u32" where "ACMD a = a OR IS_APP_CMD"
definition SET_BUS_WIDTH :: u32 where "SET_BUS_WIDTH = 6 OR IS_APP_CMD"
definition SEND_SCR :: u32 where "SEND_SCR = 51 OR IS_APP_CMD"
definition SD_RESET_CMD :: u32 where "SD_RESET_CMD = 0x2000000"
definition SD_RESET_DAT :: u32 where "SD_RESET_DAT = 0x4000000"
definition SD_ERR_MASK_CMD_TIMEOUT :: u32 where "SD_ERR_MASK_CMD_TIMEOUT = 0x10000"
definition SD_GET_CLOCK_DIVIDER_FAIL :: u32 where "SD_GET_CLOCK_DIVIDER_FAIL = 0xffffffff"

definition sd_commands :: "u32 list" where
  "sd_commands =
    [SD_CMD_INDEX 0, SD_CMD_RESERVED 1, SD_CMD_INDEX 2 OR SD_RESP_R2, SD_CMD_INDEX 3 OR SD_RESP_R6,
     SD_CMD_INDEX 4, SD_CMD_INDEX 5 OR SD_RESP_R4, SD_CMD_INDEX 6 OR SD_RESP_R1,
     SD_CMD_INDEX 7 OR SD_RESP_R1b, SD_CMD_INDEX 8 OR SD_RESP_R7, SD_CMD_INDEX 9 OR SD_RESP_R2,
     SD_CMD_INDEX 10 OR SD_RESP_R2, SD_CMD_INDEX 11 OR SD_RESP_R1,
     SD_CMD_INDEX 12 OR SD_RESP_R1b OR SD_CMD_TYPE_ABORT, SD_CMD_INDEX 13 OR SD_RESP_R1, SD_CMD_RESERVED 14,
     SD_CMD_INDEX 15, SD_CMD_INDEX 16 OR SD_RESP_R1, SD_CMD_INDEX 17 OR SD_RESP_R1 OR SD_DATA_READ,
     SD_CMD_INDEX 18 OR SD_RESP_R1 OR SD_DATA_READ OR SD_CMD_MULTI_BLOCK OR SD_CMD_BLKCNT_EN,
     SD_CMD_INDEX 19 OR SD_RESP_R1 OR SD_DATA_READ, SD_CMD_INDEX 20 OR SD_RESP_R1b, SD_CMD_RESERVED 21,
     SD_CMD_RESERVED 22, SD_CMD_INDEX 23 OR SD_RESP_R1, SD_CMD_INDEX 24 OR SD_RESP_R1 OR SD_DATA_WRITE,
     SD_CMD_INDEX 25 OR SD_RESP_R1 OR SD_DATA_WRITE OR SD_CMD_MULTI_BLOCK OR SD_CMD_BLKCNT_EN,
     SD_CMD_RESERVED 26, SD_CMD_INDEX 27 OR SD_RESP_R1 OR SD_DATA_WRITE, SD_CMD_INDEX 28 OR SD_RESP_R1b,
     SD_CMD_INDEX 29 OR SD_RESP_R1b, SD_CMD_INDEX 30 OR SD_RESP_R1 OR SD_DATA_READ, SD_CMD_RESERVED 31,
     SD_CMD_INDEX 32 OR SD_RESP_R1, SD_CMD_INDEX 33 OR SD_RESP_R1, SD_CMD_RESERVED 34, SD_CMD_RESERVED 35,
     SD_CMD_RESERVED 36, SD_CMD_RESERVED 37, SD_CMD_INDEX 38 OR SD_RESP_R1b, SD_CMD_RESERVED 39,
     SD_CMD_RESERVED 40, SD_CMD_RESERVED 41, SD_CMD_RESERVED 42 OR SD_RESP_R1, SD_CMD_RESERVED 43,
     SD_CMD_RESERVED 44, SD_CMD_RESERVED 45, SD_CMD_RESERVED 46, SD_CMD_RESERVED 47, SD_CMD_RESERVED 48,
     SD_CMD_RESERVED 49, SD_CMD_RESERVED 50, SD_CMD_RESERVED 51, SD_CMD_RESERVED 52, SD_CMD_RESERVED 53,
     SD_CMD_RESERVED 54, SD_CMD_INDEX 55 OR SD_RESP_R1, SD_CMD_INDEX 56 OR SD_RESP_R1 OR SD_CMD_ISDATA,
     SD_CMD_RESERVED 57, SD_CMD_RESERVED 58, SD_CMD_RESERVED 59, SD_CMD_RESERVED 60, SD_CMD_RESERVED 61,
     SD_CMD_RESERVED 62, SD_CMD_RESERVED 63]"

definition sd_acommands :: "u32 list" where
  "sd_acommands =
    [SD_CMD_RESERVED 0, SD_CMD_RESERVED 1, SD_CMD_RESERVED 2, SD_CMD_RESERVED 3, SD_CMD_RESERVED 4,
     SD_CMD_RESERVED 5, SD_CMD_INDEX 6 OR SD_RESP_R1, SD_CMD_RESERVED 7, SD_CMD_RESERVED 8,
     SD_CMD_RESERVED 9, SD_CMD_RESERVED 10, SD_CMD_RESERVED 11, SD_CMD_RESERVED 12,
     SD_CMD_INDEX 13 OR SD_RESP_R1, SD_CMD_RESERVED 14, SD_CMD_RESERVED 15, SD_CMD_RESERVED 16,
     SD_CMD_RESERVED 17, SD_CMD_RESERVED 18, SD_CMD_RESERVED 19, SD_CMD_RESERVED 20, SD_CMD_RESERVED 21,
     SD_CMD_INDEX 22 OR SD_RESP_R1 OR SD_DATA_READ, SD_CMD_INDEX 23 OR SD_RESP_R1, SD_CMD_RESERVED 24,
     SD_CMD_RESERVED 25, SD_CMD_RESERVED 26, SD_CMD_RESERVED 27, SD_CMD_RESERVED 28, SD_CMD_RESERVED 29,
     SD_CMD_RESERVED 30, SD_CMD_RESERVED 31, SD_CMD_RESERVED 32, SD_CMD_RESERVED 33, SD_CMD_RESERVED 34,
     SD_CMD_RESERVED 35, SD_CMD_RESERVED 36, SD_CMD_RESERVED 37, SD_CMD_RESERVED 38, SD_CMD_RESERVED 39,
     SD_CMD_RESERVED 40, SD_CMD_INDEX 41 OR SD_RESP_R3, SD_CMD_INDEX 42 OR SD_RESP_R1, SD_CMD_RESERVED 43,
     SD_CMD_RESERVED 44, SD_CMD_RESERVED 45, SD_CMD_RESERVED 46, SD_CMD_RESERVED 47, SD_CMD_RESERVED 48,
     SD_CMD_RESERVED 49, SD_CMD_RESERVED 50, SD_CMD_INDEX 51 OR SD_RESP_R1 OR SD_DATA_READ,
     SD_CMD_RESERVED 52, SD_CMD_RESERVED 53, SD_CMD_RESERVED 54, SD_CMD_RESERVED 55, SD_CMD_RESERVED 56,
     SD_CMD_RESERVED 57, SD_CMD_RESERVED 58, SD_CMD_RESERVED 59, SD_CMD_RESERVED 60, SD_CMD_RESERVED 61,
     SD_CMD_RESERVED 62, SD_CMD_RESERVED 63]"

section \<open>The device\<close>

text \<open>The fields of \<open>bd\<close> other than the identifier are constants; see \<open>emmc_device\<close>.\<close>

record sd_scr =
  scr_bytes :: buf
  sd_bus_widths :: u32
  sd_version :: int

definition SD_VER_UNKNOWN :: int where "SD_VER_UNKNOWN = 0"
definition SD_VER_1 :: int where "SD_VER_1 = 1"
definition SD_VER_1_1 :: int where "SD_VER_1_1 = 2"
definition SD_VER_2 :: int where "SD_VER_2 = 3"
definition SD_VER_3 :: int where "SD_VER_3 = 4"
definition SD_VER_4 :: int where "SD_VER_4 = 5"

record emmc_block_dev =
  ed_device_id :: "u32 list"
  card_supports_sdhc :: u32
  card_supports_18v :: u32
  card_ocr :: u32
  card_rca :: u32
  last_interrupt :: u32
  last_error :: u32
  ed_scr :: "sd_scr option"
  failed_voltage_switch :: bool
  last_cmd_reg :: u32
  last_cmd :: u32
  last_cmd_success :: bool
  last_r0 :: u32
  last_r1 :: u32
  last_r2 :: u32
  last_r3 :: u32
  ed_buf :: buf
  blocks_to_transfer :: int
  ed_block_size :: u32
  card_removal :: bool
  base_clock :: u32

definition emmc_zero :: emmc_block_dev where
  "emmc_zero = \<lparr>ed_device_id = [], card_supports_sdhc = 0, card_supports_18v = 0, card_ocr = 0, card_rca = 0,
     last_interrupt = 0, last_error = 0, ed_scr = None, failed_voltage_switch = False, last_cmd_reg = 0, last_cmd = 0,
     last_cmd_success = False, last_r0 = 0, last_r1 = 0, last_r2 = 0, last_r3 = 0, ed_buf = [], blocks_to_transfer = 0,
     ed_block_size = 0, card_removal = False, base_clock = 0\<rparr>"

definition TIMEOUT :: "emmc_block_dev \<Rightarrow> bool" where
  "TIMEOUT dev \<longleftrightarrow> \<not> last_cmd_success dev \<and> last_error dev = 0"

definition CMD_TIMEOUT :: "emmc_block_dev \<Rightarrow> bool" where
  "CMD_TIMEOUT dev \<longleftrightarrow> \<not> last_cmd_success dev \<and> last_error dev AND 0x10000 \<noteq> 0"

definition emmc_read :: "'h hw \<Rightarrow> u32 \<Rightarrow> 'h \<Rightarrow> u32 \<times> 'h" where
  "emmc_read hw reg h = mmio_read hw (emmc_base hw + reg) h"

definition emmc_write :: "'h hw \<Rightarrow> u32 \<Rightarrow> u32 \<Rightarrow> 'h \<Rightarrow> 'h" where
  "emmc_write hw reg data h = mmio_write hw (emmc_base hw + reg) data h"

section \<open>Power and clock\<close>

definition sd_power_off :: "'h hw \<Rightarrow> 'h \<Rightarrow> 'h" where
  "sd_power_off hw h =
     (let (control0, h) = emmc_read hw EMMC_CONTROL0 h in emmc_write hw EMMC_CONTROL0 (control0 AND NOT 0x100) h)"

definition sd_get_base_clock_hz :: "'h hw \<Rightarrow> 'h \<Rightarrow> (u32 \<times> 'h) option" where
  "sd_get_base_clock_hz hw h = do {
     h \<leftarrow> mail_call hw 0x7000 [32, 0, 0x00030002, 8, 4, 1, 0, 0] h;
     let (code, h) = mail_word hw 0x7000 1 h;
     if code \<noteq> MBOX_SUCCESS then Some (0, h)
     else
       let (clock_id, h) = mail_word hw 0x7000 5 h in
       if clock_id \<noteq> 1 then Some (0, h) else Some (mail_word hw 0x7000 6 h) }"

definition bcm_2708_power :: "u32 \<Rightarrow> u32 \<Rightarrow> 'h hw \<Rightarrow> 'h \<Rightarrow> (int \<times> 'h) option" where
  "bcm_2708_power request state hw h = do {
     h \<leftarrow> mail_call hw 0x40007000 [32, 0, 0x00028001, 8, 8, 0, request, 0] h;
     let (code, h) = mail_word hw 0x40007000 1 h;
     if code \<noteq> MBOX_SUCCESS then Some (-1, h)
     else
       let (device, h) = mail_word hw 0x40007000 5 h in
       if device \<noteq> 0 then Some (-1, h)
       else let (now, h) = mail_word hw 0x40007000 6 h in Some (if now AND 3 \<noteq> state then 1 else 0, h) }"

definition bcm_2708_power_off :: "'h hw \<Rightarrow> 'h \<Rightarrow> (int \<times> 'h) option" where
  "bcm_2708_power_off = bcm_2708_power 2 0"

definition bcm_2708_power_on :: "'h hw \<Rightarrow> 'h \<Rightarrow> (int \<times> 'h) option" where
  "bcm_2708_power_on = bcm_2708_power 3 1"

definition bcm_2708_power_cycle :: "'h hw \<Rightarrow> 'h \<Rightarrow> (int \<times> 'h) option" where
  "bcm_2708_power_cycle hw h = do {
     (r, h) \<leftarrow> bcm_2708_power_off hw h;
     if r < 0 then Some (-1, h)
     else do {
       h \<leftarrow> hw_usleep hw 5000 h;
       bcm_2708_power_on hw h } }"

text \<open>The search for the highest bit, and the divider for the clock.\<close>

definition highest_bit :: "u32 \<Rightarrow> nat option" where
  "highest_bit x = find (\<lambda>first_bit. x AND push_bit first_bit 1 \<noteq> 0) (rev [0..<32])"

definition sd_get_clock_divider :: "u32 \<Rightarrow> u32 \<Rightarrow> u32" where
  "sd_get_clock_divider base target =
     (let targetted_divisor =
            (if target > base then 1
             else
               let q = base div target;
                   r = base mod target
               in if r \<noteq> 0 then q - 1 else q);
          divisor =
            (case highest_bit targetted_divisor of
               None \<Rightarrow> (-1 :: int)
             | Some first_bit \<Rightarrow>
                 let rest = targetted_divisor AND NOT (push_bit first_bit 1)
                 in if rest \<noteq> 0 then int first_bit + 1 else int first_bit);
          divisor = (if divisor = -1 then 31 else divisor);
          divisor = (if divisor \<ge> 32 then 31 else divisor);
          divisor = (if divisor \<noteq> 0 then 2 ^ nat (divisor - 1) else divisor);
          divisor = (if divisor \<ge> 0x400 then 0x3ff else divisor);
          freq_select = (word_of_int divisor :: u32) AND 0xff;
          upper_bits = drop_bit 8 (word_of_int divisor :: u32) AND 3
      in push_bit 8 freq_select OR push_bit 6 upper_bits)"

definition sd_switch_clock_rate :: "'h hw \<Rightarrow> u32 \<Rightarrow> u32 \<Rightarrow> 'h \<Rightarrow> (int \<times> 'h) option" where
  "sd_switch_clock_rate hw base target h =
     (let divider = sd_get_clock_divider base target in
      if divider = SD_GET_CLOCK_DIVIDER_FAIL then Some (-1, h)
      else do {
        h \<leftarrow> poll_clear hw (emmc_base hw + EMMC_STATUS) 3 (Some 1000) h;
        let (control1, h) = emmc_read hw EMMC_CONTROL1 h;
        let control1 = control1 AND NOT 4;
        h \<leftarrow> hw_usleep hw 2000 (emmc_write hw EMMC_CONTROL1 control1 h);
        let control1 = (control1 AND NOT 0xffe0) OR divider;
        h \<leftarrow> hw_usleep hw 2000 (emmc_write hw EMMC_CONTROL1 control1 h);
        let control1 = control1 OR 4;
        h \<leftarrow> hw_usleep hw 2000 (emmc_write hw EMMC_CONTROL1 control1 h);
        Some (0, h) })"

definition sd_reset_line :: "u32 \<Rightarrow> 'h hw \<Rightarrow> 'h \<Rightarrow> (int \<times> 'h) option" where
  "sd_reset_line reset hw h = do {
     let (control1, h) = emmc_read hw EMMC_CONTROL1 h;
     let h = emmc_write hw EMMC_CONTROL1 (control1 OR reset) h;
     h \<leftarrow> hw_timeout_wait hw (emmc_base hw + EMMC_CONTROL1) (\<lambda>x. x AND reset = 0) 1000000 h;
     let (control1, h) = emmc_read hw EMMC_CONTROL1 h;
     Some (if control1 AND reset \<noteq> 0 then -1 else 0, h) }"

definition sd_reset_cmd :: "'h hw \<Rightarrow> 'h \<Rightarrow> (int \<times> 'h) option" where
  "sd_reset_cmd = sd_reset_line SD_RESET_CMD"

definition sd_reset_dat :: "'h hw \<Rightarrow> 'h \<Rightarrow> (int \<times> 'h) option" where
  "sd_reset_dat = sd_reset_line SD_RESET_DAT"

section \<open>Commands\<close>

definition sd_wait_irpt :: "'h hw \<Rightarrow> u32 \<Rightarrow> int \<Rightarrow> 'h \<Rightarrow> (u32 \<times> 'h) option" where
  "sd_wait_irpt hw bits timeout h = do {
     h \<leftarrow> hw_timeout_wait hw (emmc_base hw + EMMC_INTERRUPT) (\<lambda>x. x AND bits \<noteq> 0) timeout h;
     Some (emmc_read hw EMMC_INTERRUPT h) }"

definition sd_irpt_error :: "u32 \<Rightarrow> emmc_block_dev \<Rightarrow> emmc_block_dev" where
  "sd_irpt_error irpts dev = dev\<lparr>last_error := irpts AND 0xffff0000, last_interrupt := irpts\<rparr>"

definition sd_get_response :: "'h hw \<Rightarrow> u32 \<Rightarrow> emmc_block_dev \<Rightarrow> 'h \<Rightarrow> emmc_block_dev \<times> 'h" where
  "sd_get_response hw cmd_reg dev h =
     (let ty = cmd_reg AND SD_CMD_RSPNS_TYPE_MASK in
      if ty = SD_CMD_RSPNS_TYPE_48 \<or> ty = SD_CMD_RSPNS_TYPE_48B then
        let (r0, h) = emmc_read hw EMMC_RESP0 h in (dev\<lparr>last_r0 := r0\<rparr>, h)
      else if ty = SD_CMD_RSPNS_TYPE_136 then
        let (r0, h) = emmc_read hw EMMC_RESP0 h;
            (r1, h) = emmc_read hw EMMC_RESP1 h;
            (r2, h) = emmc_read hw EMMC_RESP2 h;
            (r3, h) = emmc_read hw EMMC_RESP3 h
        in (dev\<lparr>last_r0 := r0, last_r1 := r1, last_r2 := r2, last_r3 := r3\<rparr>, h)
      else (dev, h))"

text \<open>The words of a block, n of them, from an offset of the buffer.\<close>

primrec sd_transfer_words :: "'h hw \<Rightarrow> bool \<Rightarrow> nat \<Rightarrow> nat \<Rightarrow> buf \<Rightarrow> 'h \<Rightarrow> (buf \<times> 'h) option" where
  "sd_transfer_words hw is_write 0 p b h = Some (b, h)"
| "sd_transfer_words hw is_write (Suc n) p b h =
     (if is_write then do {
        data \<leftarrow> read_word b p;
        sd_transfer_words hw is_write n (p + 4) b (emmc_write hw EMMC_DATA data h) }
      else do {
        let (data, h) = emmc_read hw EMMC_DATA h;
        b \<leftarrow> write_word data b p;
        sd_transfer_words hw is_write n (p + 4) b h })"

text \<open>The blocks of a transfer; a word more than the block when its size is not a multiple
  of four.  The first component of the result says whether the command goes on.\<close>

primrec sd_transfer_blocks ::
  "'h hw \<Rightarrow> bool \<Rightarrow> int \<Rightarrow> nat \<Rightarrow> nat \<Rightarrow> emmc_block_dev \<Rightarrow> 'h \<Rightarrow> (bool \<times> emmc_block_dev \<times> 'h) option" where
  "sd_transfer_blocks hw is_write timeout 0 p dev h = Some (True, dev, h)"
| "sd_transfer_blocks hw is_write timeout (Suc k) p dev h = do {
     let wr_irpt = (if is_write then 0x10 else 0x20);
     (irpts, h) \<leftarrow> sd_wait_irpt hw (wr_irpt OR 0x8000) timeout h;
     let h = emmc_write hw EMMC_INTERRUPT (0xffff0000 OR wr_irpt) h;
     if irpts AND (0xffff0000 OR wr_irpt) \<noteq> wr_irpt then Some (False, sd_irpt_error irpts dev, h)
     else do {
       let n = (unat (ed_block_size dev) + 3) div 4;
       (b, h) \<leftarrow> sd_transfer_words hw is_write n p (ed_buf dev) h;
       sd_transfer_blocks hw is_write timeout k (p + 4 * n) (dev\<lparr>ed_buf := b\<rparr>) h } }"

definition sd_wait_transfer :: "'h hw \<Rightarrow> int \<Rightarrow> emmc_block_dev \<Rightarrow> 'h \<Rightarrow> (bool \<times> emmc_block_dev \<times> 'h) option" where
  "sd_wait_transfer hw timeout dev h =
     (let (status, h) = emmc_read hw EMMC_STATUS h in
      if status AND 2 = 0 then Some (True, dev, emmc_write hw EMMC_INTERRUPT 0xffff0002 h)
      else do {
        (irpts, h) \<leftarrow> sd_wait_irpt hw 0x8002 timeout h;
        let h = emmc_write hw EMMC_INTERRUPT 0xffff0002 h;
        if irpts AND 0xffff0002 \<noteq> 2 \<and> irpts AND 0xffff0002 \<noteq> 0x100002
        then Some (False, sd_irpt_error irpts dev, h)
        else Some (True, dev, emmc_write hw EMMC_INTERRUPT 0xffff0002 h) })"

text \<open>What follows the write of the command register.\<close>

definition sd_finish_command ::
  "'h hw \<Rightarrow> u32 \<Rightarrow> int \<Rightarrow> emmc_block_dev \<times> 'h \<Rightarrow> (emmc_block_dev \<times> 'h) option" where
  "sd_finish_command hw cmd_reg timeout s = do {
     let (dev, h) = s;
     h \<leftarrow> hw_usleep hw 2000 h;
     (irpts, h) \<leftarrow> sd_wait_irpt hw 0x8001 timeout h;
     let h = emmc_write hw EMMC_INTERRUPT 0xffff0001 h;
     if irpts AND 0xffff0001 \<noteq> 1 then Some (sd_irpt_error irpts dev, h)
     else do {
       h \<leftarrow> hw_usleep hw 2000 h;
       let (dev, h) = sd_get_response hw cmd_reg dev h;
       (ok, dev, h) \<leftarrow>
         (if cmd_reg AND SD_CMD_ISDATA \<noteq> 0
          then sd_transfer_blocks hw (cmd_reg AND SD_CMD_DAT_DIR_CH = 0) timeout (nat (blocks_to_transfer dev)) 0 dev h
          else Some (True, dev, h));
       if \<not> ok then Some (dev, h)
       else do {
         (ok, dev, h) \<leftarrow>
           (if cmd_reg AND SD_CMD_RSPNS_TYPE_MASK = SD_CMD_RSPNS_TYPE_48B \<or> cmd_reg AND SD_CMD_ISDATA \<noteq> 0
            then sd_wait_transfer hw timeout dev h else Some (True, dev, h));
         Some (if ok then dev\<lparr>last_cmd_success := True\<rparr> else dev, h) } } }"

definition sd_issue_command_int ::
  "'h hw \<Rightarrow> u32 \<Rightarrow> u32 \<Rightarrow> int \<Rightarrow> emmc_block_dev \<times> 'h \<Rightarrow> (emmc_block_dev \<times> 'h) option" where
  "sd_issue_command_int hw cmd_reg argument timeout s = do {
     let (dev, h) = s;
     let dev = dev\<lparr>last_cmd_reg := cmd_reg, last_cmd_success := False\<rparr>;
     h \<leftarrow> poll_clear hw (emmc_base hw + EMMC_STATUS) 1 (Some 1000) h;
     h \<leftarrow> (if cmd_reg AND SD_CMD_RSPNS_TYPE_MASK = SD_CMD_RSPNS_TYPE_48B \<and> cmd_reg AND SD_CMD_TYPE_MASK \<noteq> SD_CMD_TYPE_ABORT
          then poll_clear hw (emmc_base hw + EMMC_STATUS) 2 (Some 1000) h else Some h);
     if blocks_to_transfer dev > 0xffff then Some (dev, h)
     else do {
       let blksizecnt = ed_block_size dev OR push_bit 16 (word_of_int (blocks_to_transfer dev));
       let h = emmc_write hw EMMC_BLKSIZECNT blksizecnt h;
       let h = emmc_write hw EMMC_ARG1 argument h;
       sd_finish_command hw cmd_reg timeout (dev, emmc_write hw EMMC_CMDTM cmd_reg h) } }"

definition sd_handle_card_interrupt :: "'h hw \<Rightarrow> emmc_block_dev \<times> 'h \<Rightarrow> (emmc_block_dev \<times> 'h) option" where
  "sd_handle_card_interrupt hw s =
     (let (dev, h) = s in
      if card_rca dev \<noteq> 0
      then sd_issue_command_int hw (sd_commands ! unat SEND_STATUS) (push_bit 16 (card_rca dev)) 500000 (dev, h)
      else Some (dev, h))"

definition sd_handle_interrupts :: "'h hw \<Rightarrow> emmc_block_dev \<times> 'h \<Rightarrow> (emmc_block_dev \<times> 'h) option" where
  "sd_handle_interrupts hw s = do {
     let (dev, h) = s;
     let (irpts, h) = emmc_read hw EMMC_INTERRUPT h;
     let reset_mask = 0;
     let reset_mask = (if irpts AND SD_COMMAND_COMPLETE \<noteq> 0 then reset_mask OR SD_COMMAND_COMPLETE else reset_mask);
     let reset_mask = (if irpts AND SD_TRANSFER_COMPLETE \<noteq> 0 then reset_mask OR SD_TRANSFER_COMPLETE else reset_mask);
     let reset_mask = (if irpts AND SD_BLOCK_GAP_EVENT \<noteq> 0 then reset_mask OR SD_BLOCK_GAP_EVENT else reset_mask);
     let reset_mask = (if irpts AND SD_DMA_INTERRUPT \<noteq> 0 then reset_mask OR SD_DMA_INTERRUPT else reset_mask);
     (reset_mask, h) \<leftarrow>
       (if irpts AND SD_BUFFER_WRITE_READY \<noteq> 0
        then do { (_, h) \<leftarrow> sd_reset_dat hw h; Some (reset_mask OR SD_BUFFER_WRITE_READY, h) }
        else Some (reset_mask, h));
     (reset_mask, h) \<leftarrow>
       (if irpts AND SD_BUFFER_READ_READY \<noteq> 0
        then do { (_, h) \<leftarrow> sd_reset_dat hw h; Some (reset_mask OR SD_BUFFER_READ_READY, h) }
        else Some (reset_mask, h));
     let reset_mask = (if irpts AND SD_CARD_INSERTION \<noteq> 0 then reset_mask OR SD_CARD_INSERTION else reset_mask);
     let (reset_mask, dev) =
       (if irpts AND SD_CARD_REMOVAL \<noteq> 0 then (reset_mask OR SD_CARD_REMOVAL, dev\<lparr>card_removal := True\<rparr>)
        else (reset_mask, dev));
     (reset_mask, dev, h) \<leftarrow>
       (if irpts AND SD_CARD_INTERRUPT \<noteq> 0
        then do { (dev, h) \<leftarrow> sd_handle_card_interrupt hw (dev, h); Some (reset_mask OR SD_CARD_INTERRUPT, dev, h) }
        else Some (reset_mask, dev, h));
     let reset_mask = (if irpts AND 0x8000 \<noteq> 0 then reset_mask OR 0xffff0000 else reset_mask);
     Some (dev, emmc_write hw EMMC_INTERRUPT reset_mask h) }"

text \<open>A command beyond the table is undefined.\<close>

definition table_entry :: "u32 list \<Rightarrow> u32 \<Rightarrow> u32 option" where
  "table_entry t c = (if unat c < length t then Some (t ! unat c) else None)"

definition sd_issue_command ::
  "'h hw \<Rightarrow> u32 \<Rightarrow> u32 \<Rightarrow> int \<Rightarrow> emmc_block_dev \<times> 'h \<Rightarrow> (emmc_block_dev \<times> 'h) option" where
  "sd_issue_command hw command argument timeout s = do {
     (dev, h) \<leftarrow> sd_handle_interrupts hw s;
     if card_removal dev then Some (dev\<lparr>last_cmd_success := False\<rparr>, h)
     else if command AND IS_APP_CMD \<noteq> 0 then do {
       let command = command AND 0xff;
       cmd_reg \<leftarrow> table_entry sd_acommands command;
       if cmd_reg = SD_CMD_RESERVED 0 then Some (dev\<lparr>last_cmd_success := False\<rparr>, h)
       else do {
         let rca = (if card_rca dev \<noteq> 0 then push_bit 16 (card_rca dev) else 0);
         (dev, h) \<leftarrow> sd_issue_command_int hw (sd_commands ! unat APP_CMD) rca timeout (dev\<lparr>last_cmd := APP_CMD\<rparr>, h);
         if last_cmd_success dev
         then sd_issue_command_int hw cmd_reg argument timeout (dev\<lparr>last_cmd := command OR IS_APP_CMD\<rparr>, h)
         else Some (dev, h) } }
     else do {
       cmd_reg \<leftarrow> table_entry sd_commands command;
       if cmd_reg = SD_CMD_RESERVED 0 then Some (dev\<lparr>last_cmd_success := False\<rparr>, h)
       else sd_issue_command_int hw cmd_reg argument timeout (dev\<lparr>last_cmd := command\<rparr>, h) } }"

section \<open>Initialising a card\<close>

text \<open>The controller, up to the device structure: its result is the base clock.\<close>

definition sd_start_controller :: "'h hw \<Rightarrow> 'h \<Rightarrow> (u32 option \<times> 'h) option" where
  "sd_start_controller hw h = do {
     (_, h) \<leftarrow> bcm_2708_power_cycle hw h;
     let (_, h) = emmc_read hw EMMC_SLOTISR_VER h;
     let (control1, h) = emmc_read hw EMMC_CONTROL1 h;
     let control1 = (control1 OR 0x1000000) AND NOT 4 AND NOT 1;
     let h = emmc_write hw EMMC_CONTROL1 control1 h;
     h \<leftarrow> hw_timeout_wait hw (emmc_base hw + EMMC_CONTROL1) (\<lambda>x. x AND 0x7000000 = 0) 1000000 h;
     let (x, h) = emmc_read hw EMMC_CONTROL1 h;
     if x AND 0x7000000 \<noteq> 0 then Some (None, h)
     else do {
       let (_, h) = emmc_read hw EMMC_CAPABILITIES_0 h;
       let (_, h) = emmc_read hw EMMC_CAPABILITIES_1 h;
       h \<leftarrow> hw_timeout_wait hw (emmc_base hw + EMMC_STATUS) (\<lambda>x. x AND 0x10000 \<noteq> 0) 500000 h;
       let (status_reg, h) = emmc_read hw EMMC_STATUS h;
       if status_reg AND 0x10000 = 0 then Some (None, h)
       else do {
         let h = emmc_write hw EMMC_CONTROL2 0 h;
         (base, h) \<leftarrow> sd_get_base_clock_hz hw h;
         let base = (if base = 0 then 100000000 else base);
         let (control1, h) = emmc_read hw EMMC_CONTROL1 h;
         let f_id = sd_get_clock_divider base SD_CLOCK_ID;
         if f_id = SD_GET_CLOCK_DIVIDER_FAIL then Some (None, h)
         else do {
           let h = emmc_write hw EMMC_CONTROL1 (control1 OR 1 OR f_id OR 0x70000) h;
           h \<leftarrow> hw_timeout_wait hw (emmc_base hw + EMMC_CONTROL1) (\<lambda>x. x AND 2 \<noteq> 0) 0x1000000 h;
           let (x, h) = emmc_read hw EMMC_CONTROL1 h;
           if x AND 2 = 0 then Some (None, h)
           else do {
             h \<leftarrow> hw_usleep hw 2000 h;
             let (control1, h) = emmc_read hw EMMC_CONTROL1 h;
             h \<leftarrow> hw_usleep hw 2000 (emmc_write hw EMMC_CONTROL1 (control1 OR 4) h);
             let h = emmc_write hw EMMC_IRPT_EN 0 h;
             let h = emmc_write hw EMMC_INTERRUPT 0xffffffff h;
             h \<leftarrow> hw_usleep hw 2000 (emmc_write hw EMMC_IRPT_MASK (NOT SD_CARD_INTERRUPT) h);
             Some (Some base, h) } } } } }"

text \<open>How an attempt to initialise a card ends: before there is a device, with an error, with
  an error and the device released, with a failed voltage switch (which starts over), or
  with a card that is ready.\<close>

datatype sd_outcome =
  Sd_early | Sd_failed emmc_block_dev | Sd_freed | Sd_retry emmc_block_dev | Sd_ready emmc_block_dev

text \<open>A stage either ends the attempt or goes on with the device.\<close>

type_synonym 'h sd_stage = "'h hw \<Rightarrow> emmc_block_dev \<times> 'h \<Rightarrow> ((sd_outcome + emmc_block_dev) \<times> 'h) option"

text \<open>After a timeout of an optional command the command line is reset.\<close>

definition sd_clear_timeout :: "'h sd_stage" where
  "sd_clear_timeout hw s = do {
     let (dev, h) = s;
     (r, h) \<leftarrow> sd_reset_cmd hw h;
     if r = -1 then Some (Inl (Sd_failed dev), h)
     else Some (Inr dev, emmc_write hw EMMC_INTERRUPT SD_ERR_MASK_CMD_TIMEOUT h) }"

text \<open>CMD8: the result says whether the card is of version 2 or later.\<close>

definition sd_check_version ::
  "'h hw \<Rightarrow> emmc_block_dev \<times> 'h \<Rightarrow> ((sd_outcome + bool \<times> emmc_block_dev) \<times> 'h) option" where
  "sd_check_version hw s = do {
     (dev, h) \<leftarrow> sd_issue_command hw SEND_IF_COND 0x1aa 500000 s;
     if TIMEOUT dev then Some (Inr (False, dev), h)
     else if CMD_TIMEOUT dev then do {
       (r, h) \<leftarrow> sd_clear_timeout hw (dev, h);
       Some (case r of Inl e \<Rightarrow> Inl e | Inr dev \<Rightarrow> Inr (False, dev), h) }
     else if \<not> last_cmd_success dev then Some (Inl (Sd_failed dev), h)
     else if last_r0 dev AND 0xfff \<noteq> 0x1aa then Some (Inl (Sd_failed dev), h)
     else Some (Inr (True, dev), h) }"

text \<open>CMD5: an SDIO card is not supported.\<close>

definition sd_check_sdio :: "'h sd_stage" where
  "sd_check_sdio hw s = do {
     (dev, h) \<leftarrow> sd_issue_command hw IO_SET_OP_COND 0 10000 s;
     if TIMEOUT dev then Some (Inr dev, h)
     else if CMD_TIMEOUT dev then sd_clear_timeout hw (dev, h)
     else Some (Inl (Sd_failed dev), h) }"

text \<open>ACMD41 until the card is no longer busy.\<close>

partial_function (option) sd_init_loop ::
  "'h hw \<Rightarrow> bool \<Rightarrow> emmc_block_dev \<times> 'h \<Rightarrow> ((sd_outcome + emmc_block_dev) \<times> 'h) option" where
  "sd_init_loop hw v2_later s = do {
     let v2_flags = (if v2_later then 0x40000000 OR (if \<not> failed_voltage_switch (fst s) then 0x1000000 else 0) else 0);
     (dev, h) \<leftarrow> sd_issue_command hw (ACMD 41) (0x00ff8000 OR v2_flags) 500000 s;
     if \<not> last_cmd_success dev then Some (Inl (Sd_failed dev), h)
     else if drop_bit 31 (last_r0 dev) AND 1 \<noteq> 0 then
       let dev = dev\<lparr>card_ocr := drop_bit 8 (last_r0 dev) AND 0xffff,
                     card_supports_sdhc := drop_bit 30 (last_r0 dev) AND 1\<rparr>;
           dev = (if \<not> failed_voltage_switch dev then dev\<lparr>card_supports_18v := drop_bit 24 (last_r0 dev) AND 1\<rparr> else dev)
       in Some (Inr dev, h)
     else do {
       h \<leftarrow> hw_usleep hw 500000 h;
       sd_init_loop hw v2_later (dev, h) } }"

definition sd_identify :: "'h sd_stage" where
  "sd_identify hw s = do {
     (dev, h) \<leftarrow> sd_issue_command hw GO_IDLE_STATE 0 500000 s;
     if \<not> last_cmd_success dev then Some (Inl (Sd_failed dev), h)
     else do {
       (r, h) \<leftarrow> sd_check_version hw (dev, h);
       (case r of
          Inl e \<Rightarrow> Some (Inl e, h)
        | Inr (v2_later, dev) \<Rightarrow> do {
            (r, h) \<leftarrow> sd_check_sdio hw (dev, h);
            (case r of
               Inl e \<Rightarrow> Some (Inl e, h)
             | Inr dev \<Rightarrow> do {
                 (dev, h) \<leftarrow> sd_issue_command hw (ACMD 41) 0 500000 (dev, h);
                 if \<not> last_cmd_success dev then Some (Inl (Sd_failed dev), h)
                 else sd_init_loop hw v2_later (dev, h) }) }) } }"

text \<open>The switch to 1.8 volts; its failure powers the card off and starts over.\<close>

definition sd_give_up_switch :: "'h hw \<Rightarrow> emmc_block_dev \<Rightarrow> 'h \<Rightarrow> (sd_outcome + emmc_block_dev) \<times> 'h" where
  "sd_give_up_switch hw dev h = (Inl (Sd_retry (dev\<lparr>failed_voltage_switch := True\<rparr>)), sd_power_off hw h)"

definition sd_voltage_switch :: "'h sd_stage" where
  "sd_voltage_switch hw s =
     (let (dev, h) = s in
      if card_supports_18v dev = 0 then Some (Inr dev, h)
      else do {
        (dev, h) \<leftarrow> sd_issue_command hw VOLTAGE_SWITCH 0 500000 (dev, h);
        if \<not> last_cmd_success dev then Some (sd_give_up_switch hw dev h)
        else do {
          let (control1, h) = emmc_read hw EMMC_CONTROL1 h;
          let h = emmc_write hw EMMC_CONTROL1 (control1 AND NOT 4) h;
          let (status_reg, h) = emmc_read hw EMMC_STATUS h;
          if drop_bit 20 status_reg AND 0xf \<noteq> 0 then Some (sd_give_up_switch hw dev h)
          else do {
            let (control0, h) = emmc_read hw EMMC_CONTROL0 h;
            h \<leftarrow> hw_usleep hw 5000 (emmc_write hw EMMC_CONTROL0 (control0 OR 0x100) h);
            let (control0, h) = emmc_read hw EMMC_CONTROL0 h;
            if drop_bit 8 control0 AND 1 = 0 then Some (sd_give_up_switch hw dev h)
            else do {
              let (control1, h) = emmc_read hw EMMC_CONTROL1 h;
              h \<leftarrow> hw_usleep hw 10000 (emmc_write hw EMMC_CONTROL1 (control1 OR 4) h);
              let (status_reg, h) = emmc_read hw EMMC_STATUS h;
              if drop_bit 20 status_reg AND 0xf \<noteq> 0xf then Some (sd_give_up_switch hw dev h)
              else Some (Inr dev, h) } } } })"

text \<open>CMD2, CMD3 and CMD7 bring the card to the transfer state.\<close>

definition sd_select :: "'h sd_stage" where
  "sd_select hw s = do {
     (dev, h) \<leftarrow> sd_issue_command hw ALL_SEND_CID 0 500000 s;
     if \<not> last_cmd_success dev then Some (Inl (Sd_failed dev), h)
     else do {
       let dev = dev\<lparr>ed_device_id := [last_r0 dev, last_r1 dev, last_r2 dev, last_r3 dev]\<rparr>;
       (dev, h) \<leftarrow> sd_issue_command hw SEND_RELATIVE_ADDR 0 500000 (dev, h);
       if \<not> last_cmd_success dev then Some (Inl Sd_freed, h)
       else do {
         let cmd3_resp = last_r0 dev;
         let dev = dev\<lparr>card_rca := drop_bit 16 cmd3_resp AND 0xffff\<rparr>;
         if drop_bit 15 cmd3_resp AND 1 \<noteq> 0 \<or> drop_bit 14 cmd3_resp AND 1 \<noteq> 0 \<or> drop_bit 13 cmd3_resp AND 1 \<noteq> 0
            \<or> drop_bit 8 cmd3_resp AND 1 = 0
         then Some (Inl Sd_freed, h)
         else do {
           (dev, h) \<leftarrow> sd_issue_command hw SELECT_CARD (push_bit 16 (card_rca dev)) 500000 (dev, h);
           if \<not> last_cmd_success dev then Some (Inl Sd_freed, h)
           else
             let status = drop_bit 9 (last_r0 dev) AND 0xf in
             if status \<noteq> 3 \<and> status \<noteq> 4 then Some (Inl Sd_freed, h)
             else if card_supports_sdhc dev = 0 then do {
               (dev, h) \<leftarrow> sd_issue_command hw SET_BLOCKLEN 512 500000 (dev, h);
               if \<not> last_cmd_success dev then Some (Inl Sd_freed, h) else Some (Inr dev, h) }
             else Some (Inr dev, h) } } } }"

text \<open>The version of the card, from the first word of the register SCR.\<close>

definition sd_scr_version :: "u32 \<Rightarrow> int" where
  "sd_scr_version scr0 =
     (let sd_spec = drop_bit 24 scr0 AND 0xf;
          sd_spec3 = drop_bit 15 scr0 AND 1;
          sd_spec4 = drop_bit 10 scr0 AND 1
      in if sd_spec = 0 then SD_VER_1
         else if sd_spec = 1 then SD_VER_1_1
         else if sd_spec = 2 then
           (if sd_spec3 = 0 then SD_VER_2
            else if sd_spec3 = 1 then
              (if sd_spec4 = 0 then SD_VER_3 else if sd_spec4 = 1 then SD_VER_4 else SD_VER_UNKNOWN)
            else SD_VER_UNKNOWN)
         else SD_VER_UNKNOWN)"

definition sd_configure :: "'h sd_stage" where
  "sd_configure hw s = do {
     let (dev, h) = s;
     let (blksize, h) = emmc_read hw EMMC_BLKSIZECNT h;
     let h = emmc_write hw EMMC_BLKSIZECNT ((blksize AND NOT 0xfff) OR 0x200) h;
     let dev = dev\<lparr>ed_buf := replicate 8 0, ed_block_size := 8, blocks_to_transfer := 1\<rparr>;
     (dev, h) \<leftarrow> sd_issue_command hw SEND_SCR 0 500000 (dev, h);
     let dev = dev\<lparr>ed_block_size := 512\<rparr>;
     if \<not> last_cmd_success dev then Some (Inl Sd_freed, h)
     else do {
       w \<leftarrow> read_word (ed_buf dev) 0;
       let scr0 = byte_swap w;
       let widths = drop_bit 16 scr0 AND 0xf;
       let dev = dev\<lparr>ed_scr := Some \<lparr>scr_bytes = ed_buf dev, sd_bus_widths = widths, sd_version = sd_scr_version scr0\<rparr>\<rparr>;
       (dev, h) \<leftarrow>
         (if widths AND 4 \<noteq> 0 then do {
            let (old_irpt_mask, h) = emmc_read hw EMMC_IRPT_MASK h;
            let h = emmc_write hw EMMC_IRPT_MASK (old_irpt_mask AND NOT 0x100) h;
            (dev, h) \<leftarrow> sd_issue_command hw SET_BUS_WIDTH 2 500000 (dev, h);
            if \<not> last_cmd_success dev then Some (dev, h)
            else
              let (control0, h) = emmc_read hw EMMC_CONTROL0 h;
                  h = emmc_write hw EMMC_CONTROL0 (control0 OR 2) h
              in Some (dev, emmc_write hw EMMC_IRPT_MASK old_irpt_mask h) }
          else Some (dev, h));
       Some (Inr dev, emmc_write hw EMMC_INTERRUPT 0xffffffff h) } }"

text \<open>One pass of \<open>sd_card_init\<close>; the device that is passed in is cleared before it is used.\<close>

definition sd_card_attempt :: "'h hw \<Rightarrow> 'h \<Rightarrow> (sd_outcome \<times> 'h) option" where
  "sd_card_attempt hw h = do {
     (r, h) \<leftarrow> sd_start_controller hw h;
     (case r of
        None \<Rightarrow> Some (Sd_early, h)
      | Some base \<Rightarrow> do {
          (r, h) \<leftarrow> sd_identify hw (emmc_zero\<lparr>base_clock := base\<rparr>, h);
          (case r of
             Inl e \<Rightarrow> Some (e, h)
           | Inr dev \<Rightarrow> do {
               (_, h) \<leftarrow> sd_switch_clock_rate hw base SD_CLOCK_NORMAL h;
               h \<leftarrow> hw_usleep hw 5000 h;
               (r, h) \<leftarrow> sd_voltage_switch hw (dev, h);
               (case r of
                  Inl e \<Rightarrow> Some (e, h)
                | Inr dev \<Rightarrow> do {
                    (r, h) \<leftarrow> sd_select hw (dev, h);
                    (case r of
                       Inl e \<Rightarrow> Some (e, h)
                     | Inr dev \<Rightarrow> do {
                         (r, h) \<leftarrow> sd_configure hw (dev, h);
                         Some (case r of Inl e \<Rightarrow> e | Inr dev \<Rightarrow> Sd_ready dev, h) }) }) }) }) }"

text \<open>The argument and the second component of the result are the device the caller's
  pointer shows before and after the call; \<open>None\<close> is a null pointer or a released device.
  After a failed voltage switch the function calls itself with a pointer of its own.\<close>

partial_function (option) sd_card_init ::
  "'h hw \<Rightarrow> emmc_block_dev option \<Rightarrow> 'h \<Rightarrow> (int \<times> emmc_block_dev option \<times> 'h) option" where
  "sd_card_init hw d h = do {
     (r, h) \<leftarrow> sd_card_attempt hw h;
     (case r of
        Sd_early \<Rightarrow> Some (-1, d, h)
      | Sd_failed dev \<Rightarrow> Some (-1, if d = None then None else Some dev, h)
      | Sd_freed \<Rightarrow> Some (-1, None, h)
      | Sd_retry dev \<Rightarrow> do {
          (ret, d', h) \<leftarrow> sd_card_init hw (Some dev) h;
          Some (ret, if d = None then None else d', h) }
      | Sd_ready dev \<Rightarrow> Some (0, Some dev, h)) }"

section \<open>Reading and writing\<close>

definition sd_check_status :: "'h hw \<Rightarrow> emmc_block_dev \<times> 'h \<Rightarrow> (u32 option \<times> emmc_block_dev \<times> 'h) option" where
  "sd_check_status hw s = do {
     (edev, h) \<leftarrow> sd_issue_command hw SEND_STATUS (push_bit 16 (card_rca (fst s))) 500000 s;
     Some (if \<not> last_cmd_success edev then (None, edev\<lparr>card_rca := 0\<rparr>, h)
           else (Some (drop_bit 9 (last_r0 edev) AND 0xf), edev, h)) }"

text \<open>What brings the card to the transfer state from another one.\<close>

definition sd_leave_state ::
  "'h hw \<Rightarrow> u32 \<Rightarrow> emmc_block_dev \<times> 'h \<Rightarrow> (int \<times> emmc_block_dev option \<times> 'h) option" where
  "sd_leave_state hw cur_state s =
     (let (edev, h) = s in
      if cur_state = 3 then do {
        (edev, h) \<leftarrow> sd_issue_command hw SELECT_CARD (push_bit 16 (card_rca edev)) 500000 (edev, h);
        Some (if \<not> last_cmd_success edev then (-1, Some (edev\<lparr>card_rca := 0\<rparr>), h) else (0, Some edev, h)) }
      else if cur_state = 5 then do {
        (edev, h) \<leftarrow> sd_issue_command hw STOP_TRANSMISSION 0 500000 (edev, h);
        if \<not> last_cmd_success edev then Some (-1, Some (edev\<lparr>card_rca := 0\<rparr>), h)
        else do {
          (_, h) \<leftarrow> sd_reset_dat hw h;
          Some (0, Some edev, h) } }
      else if cur_state \<noteq> 4 then sd_card_init hw (Some edev) h
      else Some (0, Some edev, h))"

definition sd_ensure_data_mode ::
  "'h hw \<Rightarrow> emmc_block_dev \<times> 'h \<Rightarrow> (int \<times> emmc_block_dev option \<times> 'h) option" where
  "sd_ensure_data_mode hw s = do {
     let (edev, h) = s;
     (ret, d, h) \<leftarrow> (if card_rca edev = 0 then sd_card_init hw (Some edev) h else Some (0, Some edev, h));
     (case d of
        None \<Rightarrow> Some (ret, None, h)
      | Some edev \<Rightarrow>
          if ret \<noteq> 0 then Some (ret, Some edev, h)
          else do {
            (st, edev, h) \<leftarrow> sd_check_status hw (edev, h);
            (case st of
               None \<Rightarrow> Some (-1, Some edev, h)
             | Some cur_state \<Rightarrow> do {
                 (ret, d, h) \<leftarrow> sd_leave_state hw cur_state (edev, h);
                 (case d of
                    None \<Rightarrow> Some (ret, None, h)
                  | Some edev \<Rightarrow>
                      if ret \<noteq> 0 then Some (ret, Some edev, h)
                      else if cur_state \<noteq> 4 then do {
                        (st, edev, h) \<leftarrow> sd_check_status hw (edev, h);
                        Some (case st of
                            None \<Rightarrow> (-1, Some edev, h)
                          | Some cur_state \<Rightarrow>
                              if cur_state \<noteq> 4 then (-1, Some (edev\<lparr>card_rca := 0\<rparr>), h) else (0, Some edev, h)) }
                      else Some (0, Some edev, h)) }) }) }"

text \<open>Up to k tries of a data command.\<close>

primrec sd_try :: "nat \<Rightarrow> 'h hw \<Rightarrow> u32 \<Rightarrow> u32 \<Rightarrow> emmc_block_dev \<times> 'h \<Rightarrow> (int \<times> emmc_block_dev \<times> 'h) option" where
  "sd_try 0 hw command block_no s = (let (edev, h) = s in Some (-1, edev\<lparr>card_rca := 0\<rparr>, h))"
| "sd_try (Suc k) hw command block_no s = do {
     (edev, h) \<leftarrow> sd_issue_command hw command block_no 5000000 s;
     if last_cmd_success edev then Some (0, edev, h) else sd_try k hw command block_no (edev, h) }"

text \<open>The second component of the result is the caller's buffer.\<close>

definition sd_do_data_command ::
  "'h hw \<Rightarrow> bool \<Rightarrow> buf \<Rightarrow> u32 \<Rightarrow> u32 \<Rightarrow> emmc_block_dev \<times> 'h \<Rightarrow> (int \<times> buf \<times> emmc_block_dev \<times> 'h) option" where
  "sd_do_data_command hw is_write b buf_size block_no s =
     (let (edev, h) = s;
          block_no = (if card_supports_sdhc edev = 0 then block_no * 512 else block_no)
      in if buf_size < ed_block_size edev then Some (-1, b, edev, h)
         else if ed_block_size edev = 0 then None
         else
           let edev = edev\<lparr>blocks_to_transfer := sint (buf_size div ed_block_size edev)\<rparr> in
           if buf_size mod ed_block_size edev \<noteq> 0 then Some (-1, b, edev, h)
           else do {
             let edev = edev\<lparr>ed_buf := b\<rparr>;
             let command =
               (if is_write then (if blocks_to_transfer edev > 1 then WRITE_MULTIPLE_BLOCK else WRITE_BLOCK)
                else (if blocks_to_transfer edev > 1 then READ_MULTIPLE_BLOCK else READ_SINGLE_BLOCK));
             (ret, edev, h) \<leftarrow> sd_try 3 hw command block_no (edev, h);
             Some (ret, ed_buf edev, edev, h) })"

definition sd_transfer ::
  "'h hw \<Rightarrow> bool \<Rightarrow> buf \<Rightarrow> u32 \<Rightarrow> u32 \<Rightarrow> emmc_block_dev \<times> 'h \<Rightarrow> (int \<times> buf \<times> emmc_block_dev option \<times> 'h) option" where
  "sd_transfer hw is_write b buf_size block_no s = do {
     (ret, d, h) \<leftarrow> sd_ensure_data_mode hw s;
     (case (ret = 0, d) of
        (True, Some edev) \<Rightarrow> do {
          (ret, b, edev, h) \<leftarrow> sd_do_data_command hw is_write b buf_size block_no (edev, h);
          Some (if ret < 0 then -1 else sint buf_size, b, Some edev, h) }
      | _ \<Rightarrow> Some (-1, b, d, h)) }"

definition sd_read ::
  "'h hw \<Rightarrow> buf \<Rightarrow> u32 \<Rightarrow> u32 \<Rightarrow> emmc_block_dev \<times> 'h \<Rightarrow> (int \<times> buf \<times> emmc_block_dev option \<times> 'h) option" where
  "sd_read hw = sd_transfer hw False"

definition sd_write ::
  "'h hw \<Rightarrow> buf \<Rightarrow> u32 \<Rightarrow> u32 \<Rightarrow> emmc_block_dev \<times> 'h \<Rightarrow> (int \<times> emmc_block_dev option \<times> 'h) option" where
  "sd_write hw b buf_size block_no s = do {
     (ret, _, d, h) \<leftarrow> sd_transfer hw True b buf_size block_no s;
     Some (ret, d, h) }"

end
