(* ===== verification/EmmcClock.thy ===== *)
theory EmmcClock
  imports Emmc
begin

text \<open>
  The clock that the divider of emmc.c produces.  The register field holds half of a power
  of two; the controller divides the base clock by twice the field, or not at all when it
  is zero.
\<close>

section \<open>The divisor in the register\<close>

definition sd_denominator :: "u32 \<Rightarrow> nat" where
  "sd_denominator divider =
     (let divisor = unat (drop_bit 8 divider AND 0xff) + 256 * unat (drop_bit 6 divider AND 3)
      in if divisor \<noteq> 0 then divisor * 2 else 1)"

lemma find_rev_upt:
  "find P (rev [0..<n]) = Some b \<longleftrightarrow> b < n \<and> P b \<and> (\<forall>c. b < c \<and> c < n \<longrightarrow> \<not> P c)"
  by (induction n) (auto simp: less_Suc_eq)

lemma find_rev_upt_None: "find P (rev [0..<n]) = None \<longleftrightarrow> (\<forall>c < n. \<not> P c)"
  by (auto simp: find_None_iff)

lemma and_push_bit_1: "(x :: u32) AND push_bit b 1 \<noteq> 0 \<longleftrightarrow> bit x b"
  by (simp add: push_bit_eq_mult and_exp_eq_0_iff_not_bit)

lemma highest_bit_alt: "highest_bit x = find (bit x) (rev [0..<32])"
  unfolding highest_bit_def and_push_bit_1 ..

lemma highest_bit_None: "highest_bit x = None \<longleftrightarrow> x = 0"
  unfolding highest_bit_alt find_rev_upt_None by (auto simp: bit_eq_iff)

lemma highest_bit_Some:
  assumes "highest_bit x = Some b"
  shows "2 ^ b \<le> unat x" "unat x < 2 ^ (b + 1)" "b < 32" "bit x b"
proof -
  have h: "b < 32" "bit x b" "\<And>c. b < c \<Longrightarrow> c < 32 \<Longrightarrow> \<not> bit x c"
    using assms unfolding highest_bit_alt find_rev_upt by blast+
  show "b < 32" "bit x b" by fact+
  have "bit (unat x) b" using h(2) by (simp add: bit_unsigned_iff)
  then have "odd (unat x div 2 ^ b)" by (simp add: bit_iff_odd)
  then have "unat x div 2 ^ b \<noteq> 0" by (metis even_zero)
  then show "2 ^ b \<le> unat x" by (metis div_less linorder_not_less)
  have "take_bit (b + 1) x = x"
  proof (rule bit_word_eqI)
    fix n assume "n < LENGTH(32)"
    then show "bit (take_bit (b + 1) x) n = bit x n" using h(3) [of n] by (cases "n \<le> b") (auto simp: bit_take_bit_iff)
  qed
  then have "unat x = take_bit (b + 1) (unat x)" by (metis unsigned_take_bit_eq)
  then show "unat x < 2 ^ (b + 1)" by (metis take_bit_nat_less_exp)
qed

lemma highest_bit_alone:
  assumes "highest_bit x = Some b"
  shows "x AND NOT (push_bit b 1) = 0 \<longleftrightarrow> unat x = 2 ^ b"
proof -
  note hb = highest_bit_Some [OF assms]
  have "unat (word_of_nat (2 ^ b) :: u32) = 2 ^ b"
    using hb(3) by (simp only: unsigned_of_nat) (simp add: take_bit_nat_eq_self)
  then have eq: "unat (push_bit b 1 :: u32) = 2 ^ b" by (simp add: push_bit_eq_mult)
  define p :: u32 where "p = push_bit b 1"
  have p: "bit p n \<longleftrightarrow> n = b" for n
    using hb(3) by (auto simp: p_def bit_push_bit_iff bit_1_iff simp del: push_bit_of_1)
  have "x AND NOT p = 0 \<longleftrightarrow> (\<forall>n < 32. bit x n \<longrightarrow> n = b)"
    by (auto simp: bit_eq_iff bit_and_iff bit_not_iff p)
  also have "\<dots> \<longleftrightarrow> (\<forall>n < 32. bit x n = bit p n)" using hb(4) by (auto simp: p)
  also have "\<dots> \<longleftrightarrow> x = p" by (auto simp: bit_eq_iff)
  finally show ?thesis using eq by (simp add: p_def word_unat_eq_iff del: push_bit_of_1)
qed

text \<open>The register value for the exponent that the search ends with.\<close>

definition divider_of :: "nat \<Rightarrow> u32" where
  "divider_of e =
     (let divisor = (if e = 0 then 0 else if e \<le> 10 then 2 ^ (e - 1) else 0x3ff :: u32)
      in push_bit 8 (divisor AND 0xff) OR push_bit 6 (drop_bit 8 divisor AND 3))"

lemma sd_denominator_divider_of: "sd_denominator (divider_of e) = (if e \<le> 10 then 2 ^ e else 2046)"
proof (cases "e \<le> 10")
  case True
  then have "e = 0 \<or> e = 1 \<or> e = 2 \<or> e = 3 \<or> e = 4 \<or> e = 5 \<or> e = 6 \<or> e = 7 \<or> e = 8 \<or> e = 9 \<or> e = 10"
    by presburger
  then show ?thesis by (auto simp: divider_of_def sd_denominator_def Let_def)
next
  case False
  then show ?thesis by (simp add: divider_of_def sd_denominator_def Let_def)
qed

definition divider_exp :: "u32 \<Rightarrow> nat" where
  "divider_exp t =
     (case highest_bit t of None \<Rightarrow> 31
      | Some b \<Rightarrow> min 31 (if unat t = 2 ^ b then b else b + 1))"

definition divider_bits :: "u32 \<Rightarrow> u32" where
  "divider_bits t =
     (let divisor =
            (case highest_bit t of
               None \<Rightarrow> (-1 :: int)
             | Some first_bit \<Rightarrow>
                 let rest = t AND NOT (push_bit first_bit 1)
                 in if rest \<noteq> 0 then int first_bit + 1 else int first_bit);
          divisor = (if divisor = -1 then 31 else divisor);
          divisor = (if divisor \<ge> 32 then 31 else divisor);
          divisor = (if divisor \<noteq> 0 then 2 ^ nat (divisor - 1) else divisor);
          divisor = (if divisor \<ge> 0x400 then 0x3ff else divisor);
          freq_select = (word_of_int divisor :: u32) AND 0xff;
          upper_bits = drop_bit 8 (word_of_int divisor :: u32) AND 3
      in push_bit 8 freq_select OR push_bit 6 upper_bits)"

definition wanted_divisor :: "u32 \<Rightarrow> u32 \<Rightarrow> u32" where
  "wanted_divisor base target =
     (if target > base then 1
      else if base mod target \<noteq> 0 then base div target - 1 else base div target)"

lemma sd_get_clock_divider_bits: "sd_get_clock_divider base target = divider_bits (wanted_divisor base target)"
  unfolding sd_get_clock_divider_def divider_bits_def wanted_divisor_def Let_def ..

lemma divider_bits_eq: "divider_bits t = divider_of (divider_exp t)"
proof (cases "highest_bit t")
  case None
  then show ?thesis by (simp add: divider_bits_def divider_exp_def divider_of_def)
next
  case (Some b)
  define e where "e = (if unat t = 2 ^ b then b else b + 1)"
  have "b < 32" using Some by (rule highest_bit_Some)
  then have e: "divider_exp t = min 31 e"
    by (simp add: divider_exp_def Some e_def)
  have d: "(if t AND NOT (push_bit b 1) \<noteq> 0 then int b + 1 else int b) = int e"
    using highest_bit_alone [OF Some] by (simp add: e_def del: push_bit_of_1)
  have pow: "(2 :: int) ^ nat (int k - 1) \<ge> 0x400 \<longleftrightarrow> k > 10" if "k \<noteq> 0" for k
  proof -
    have "(2 :: int) ^ 10 \<le> 2 ^ (k - 1) \<longleftrightarrow> 10 \<le> k - 1" by (rule power_increasing_iff) simp
    moreover have "nat (int k - 1) = k - 1" using that by simp
    ultimately show ?thesis using that by auto
  qed
  have m: "(if int e \<ge> 32 then 31 else int e) = int (min 31 e)" by simp
  have "divider_bits t =
      (let divisor = (if int (min 31 e) \<noteq> 0 then 2 ^ nat (int (min 31 e) - 1) else int (min 31 e));
           divisor = (if divisor \<ge> 0x400 then 0x3ff else divisor)
       in push_bit 8 ((word_of_int divisor :: u32) AND 0xff) OR push_bit 6 (drop_bit 8 (word_of_int divisor :: u32) AND 3))"
    unfolding divider_bits_def Some option.case Let_def d m by simp
  also have "\<dots> = divider_of (min 31 e)"
  proof (cases "e = 0 \<or> e > 10")
    case True
    then show ?thesis using pow [of "min 31 e"] by (auto simp: divider_of_def)
  next
    case False
    then have "2 ^ nat (int e - 1) < (0x400 :: int)" "min 31 e = e" "nat (int e - 1) = e - 1" using pow [of e] by auto
    with False show ?thesis by (simp add: divider_of_def Let_def)
  qed
  finally show ?thesis by (simp add: e)
qed

lemma divider_exp_bounds:
  assumes "t \<noteq> 0"
  shows "unat t \<le> 2 ^ divider_exp t \<or> divider_exp t = 31" "2 ^ divider_exp t < 2 * unat t"
proof -
  obtain b where b: "highest_bit t = Some b" using assms highest_bit_None [of t] by (cases "highest_bit t") auto
  note hb = highest_bit_Some [OF b]
  show "unat t \<le> 2 ^ divider_exp t \<or> divider_exp t = 31"
    using hb(2) by (auto simp: divider_exp_def b min_def)
  show "2 ^ divider_exp t < 2 * unat t"
  proof (cases "unat t = 2 ^ b")
    case True
    moreover have "min 31 b = b" using hb(3) by simp
    ultimately show ?thesis by (simp add: divider_exp_def b)
  next
    case False
    then have "(2 :: nat) ^ (b + 1) < 2 * unat t" using hb(1) by simp
    moreover have "(2 :: nat) ^ min 31 (b + 1) \<le> 2 ^ (b + 1)" by (rule power_increasing) auto
    ultimately have "(2 :: nat) ^ min 31 (b + 1) < 2 * unat t" by (rule le_less_trans [rotated])
    then show ?thesis using False by (simp only: divider_exp_def b option.case if_False)
  qed
qed

text \<open>A denominator against a bound below the largest one.\<close>

lemma denominator_le_iff:
  assumes "t \<noteq> 0" "n < 2046" "unat t \<le> n"
  shows "sd_denominator (divider_bits t) \<le> n \<longleftrightarrow> 2 ^ divider_exp t \<le> n"
    and "unat t \<le> sd_denominator (divider_bits t)"
proof -
  note db = divider_exp_bounds [OF assms(1)]
  have big: "(2048 :: nat) \<le> 2 ^ divider_exp t" if "\<not> divider_exp t \<le> 10"
    using power_increasing [of 11 "divider_exp t" "2 :: nat"] that by simp
  have "(2 :: nat) ^ 31 > 2 * 2046" by simp
  then have "divider_exp t \<noteq> 31" using db(2) assms(2,3) by auto
  with db(1) have le: "unat t \<le> 2 ^ divider_exp t" by blast
  show "sd_denominator (divider_bits t) \<le> n \<longleftrightarrow> 2 ^ divider_exp t \<le> n"
    using big assms(2) by (auto simp: divider_bits_eq sd_denominator_divider_of)
  show "unat t \<le> sd_denominator (divider_bits t)"
    using le assms(2,3) by (auto simp: divider_bits_eq sd_denominator_divider_of)
qed

lemma power_two_between:
  assumes "t \<noteq> 0" "unat t \<le> 2 ^ divider_exp t"
  shows "2 ^ divider_exp t \<le> Suc (unat t) \<longleftrightarrow> (\<exists>k. Suc (unat t) = 2 ^ k + 1 \<or> k \<noteq> 0 \<and> Suc (unat t) = 2 ^ k)"
proof
  assume "2 ^ divider_exp t \<le> Suc (unat t)"
  then have "Suc (unat t) = 2 ^ divider_exp t + 1 \<or> Suc (unat t) = 2 ^ divider_exp t" using assms(2) by linarith
  moreover have "unat t \<noteq> 0" using assms(1) by (simp add: unat_eq_0)
  then have "Suc (unat t) \<noteq> 2 ^ 0" by simp
  ultimately show "\<exists>k. Suc (unat t) = 2 ^ k + 1 \<or> k \<noteq> 0 \<and> Suc (unat t) = 2 ^ k" by metis
next
  assume "\<exists>k. Suc (unat t) = 2 ^ k + 1 \<or> k \<noteq> 0 \<and> Suc (unat t) = 2 ^ k"
  then obtain k where k: "unat t \<le> 2 ^ k" "2 ^ k \<le> Suc (unat t)" by force
  have "(2 :: nat) ^ divider_exp t < 2 ^ (k + 1)" using divider_exp_bounds(2) [OF assms(1)] k(1) by simp
  then have "divider_exp t < k + 1" by (rule power_less_imp_less_exp [rotated]) simp
  then have "(2 :: nat) ^ divider_exp t \<le> 2 ^ k" by (intro power_increasing) auto
  with k(2) show "2 ^ divider_exp t \<le> Suc (unat t)" by linarith
qed



end
