(* ===== verification/EmmcData.thy ===== *)
theory EmmcData
  imports Emmc
begin

text \<open>
  What a transfer of the card driver does.  The hardware is arbitrary; a job is what an
  observer at its registers has seen: the block count, the argument and the command that
  were written last, and the words that passed the data register since that command.
\<close>

section \<open>The observer\<close>

record sd_job =
  job_blocks :: u32
  job_arg :: u32
  job_cmd :: u32
  job_data :: "u32 list"

definition emmc_addr :: "'h hw \<Rightarrow> u32 \<Rightarrow> u32" where
  "emmc_addr hw reg = emmc_base hw + reg + base_adjust hw"

definition see_data :: "'h hw \<Rightarrow> u32 \<Rightarrow> u32 \<Rightarrow> sd_job \<Rightarrow> sd_job" where
  "see_data hw a x j = (if a = emmc_addr hw EMMC_DATA then j\<lparr>job_data := job_data j @ [x]\<rparr> else j)"

definition see_write :: "'h hw \<Rightarrow> u32 \<Rightarrow> u32 \<Rightarrow> sd_job \<Rightarrow> sd_job" where
  "see_write hw a x j =
     (if a = emmc_addr hw EMMC_BLKSIZECNT then j\<lparr>job_blocks := x\<rparr>
      else if a = emmc_addr hw EMMC_ARG1 then j\<lparr>job_arg := x\<rparr>
      else if a = emmc_addr hw EMMC_CMDTM then j\<lparr>job_cmd := x, job_data := []\<rparr>
      else see_data hw a x j)"

text \<open>\<open>job\<close> observes the hardware, whose counter is not a register of the controller.\<close>

definition observes :: "'h hw \<Rightarrow> ('h \<Rightarrow> sd_job) \<Rightarrow> bool" where
  "observes hw job \<longleftrightarrow>
     (\<forall>a h. job (snd (bus_read hw a h)) = see_data hw a (fst (bus_read hw a h)) (job h)) \<and>
     (\<forall>a x h. job (bus_write hw a x h) = see_write hw a x (job h)) \<and>
     timer_base hw + TIMER_CLO + base_adjust hw \<noteq> emmc_addr hw EMMC_DATA"

lemmas emmc_regs = EMMC_BLKSIZECNT_def EMMC_ARG1_def EMMC_CMDTM_def EMMC_RESP0_def EMMC_RESP1_def
  EMMC_RESP2_def EMMC_RESP3_def EMMC_DATA_def EMMC_STATUS_def EMMC_INTERRUPT_def

lemma emmc_addr_eq [simp]: "emmc_addr hw r = emmc_addr hw r' \<longleftrightarrow> r = r'"
  by (simp add: emmc_addr_def)

lemma job_emmc_read:
  assumes "observes hw job" "emmc_read hw r h = (x, h')"
  shows "job h' = (if r = EMMC_DATA then (job h)\<lparr>job_data := job_data (job h) @ [x]\<rparr> else job h)"
proof -
  have "bus_read hw (emmc_addr hw r) h = (x, h')"
    using assms(2) by (simp add: emmc_read_def mmio_read_def emmc_addr_def)
  moreover have "job (snd (bus_read hw (emmc_addr hw r) h)) = see_data hw (emmc_addr hw r) (fst (bus_read hw (emmc_addr hw r) h)) (job h)"
    using assms(1) by (simp add: observes_def)
  ultimately show ?thesis by (simp add: see_data_def)
qed

lemma job_emmc_write:
  assumes "observes hw job"
  shows "job (emmc_write hw r x h) = see_write hw (emmc_addr hw r) x (job h)"
proof -
  have "job (bus_write hw (emmc_addr hw r) x h) = see_write hw (emmc_addr hw r) x (job h)"
    using assms by (simp add: observes_def)
  then show ?thesis by (simp add: emmc_write_def mmio_write_def emmc_addr_def)
qed

lemma job_clock:
  assumes "observes hw job" "read_clock hw h = (c, h')"
  shows "job h' = job h"
proof -
  have "bus_read hw (timer_base hw + TIMER_CLO + base_adjust hw) h = (c, h')"
    using assms(2) by (simp add: read_clock_def mmio_read_def)
  moreover have "job (snd (bus_read hw a h)) = see_data hw a (fst (bus_read hw a h)) (job h)" for a
    using assms(1) by (simp add: observes_def)
  ultimately show ?thesis using assms(1) by (metis observes_def see_data_def sndI)
qed

lemma job_timer:
  assumes "observes hw job" "hw_register_timer hw usec h = (tw, h')"
  shows "job h' = job h"
  using assms by (auto simp: hw_register_timer_def job_clock split: if_splits prod.splits)

lemma job_timer_loop:
  assumes "observes hw job" "hw_timer_loop hw tw h = Some h'"
  shows "job h' = job h"
proof -
  have "hw' = hw \<longrightarrow> job h' = job h" if "hw_timer_loop hw' tw h = Some h'" for hw'
    using that
    by (rule hw_timer_loop.raw_induct [rotated])
      (use assms(1) in \<open>fastforce simp: job_clock split: if_splits prod.splits\<close>)
  with assms(2) show ?thesis by blast
qed

lemma job_usleep:
  assumes "observes hw job" "hw_usleep hw usec h = Some h'"
  shows "job h' = job h"
  using assms job_timer job_timer_loop by (fastforce simp: hw_usleep_def split: prod.splits)

lemma job_timeout_loop:
  assumes "observes hw job" "r \<noteq> EMMC_DATA" "hw_timeout_loop hw (emmc_base hw + r) stop tw h = Some h'"
  shows "job h' = job h"
proof -
  have rd: "job h'' = job h" if "mmio_read hw (emmc_base hw + r) h = (x, h'')" for x h h''
    using job_emmc_read [OF assms(1), of r h x h''] that assms(2) by (simp add: emmc_read_def)
  have "hw' = hw \<and> reg = emmc_base hw + r \<longrightarrow> job h' = job h" if "hw_timeout_loop hw' reg stop tw h = Some h'" for hw' reg
    using that
  proof (rule hw_timeout_loop.raw_induct [rotated])
    fix loop and hw' :: "'a hw" and reg stop tw h h'
    assume IH: "\<And>hw' reg stop tw h h'. loop hw' reg stop tw h = Some h' \<Longrightarrow> hw' = hw \<and> reg = emmc_base hw + r \<longrightarrow> job h' = job h"
      and step: "(let (x, h) = mmio_read hw' reg h
         in if stop x then Some h
            else let (c, h) = read_clock hw' h in if compare_timer c tw = 0 then loop hw' reg stop tw h else Some h) = Some h'"
    show "hw' = hw \<and> reg = emmc_base hw + r \<longrightarrow> job h' = job h"
      using step IH rd job_clock [OF assms(1)] by (fastforce split: if_splits prod.splits)
  qed
  with assms(3) show ?thesis by blast
qed

lemma job_wait_irpt:
  assumes "observes hw job" "sd_wait_irpt hw bits t h = Some (x, h')"
  shows "job h' = job h"
proof -
  obtain tw h1 h2 where 1: "hw_register_timer hw t h = (tw, h1)"
    and 2: "hw_timeout_loop hw (emmc_base hw + EMMC_INTERRUPT) (\<lambda>x. x AND bits \<noteq> 0) tw h1 = Some h2"
    and 3: "emmc_read hw EMMC_INTERRUPT h2 = (x, h')"
    using assms(2) by (auto simp: sd_wait_irpt_def hw_timeout_wait_def bind_eq_Some_conv split: prod.splits)
  have "EMMC_INTERRUPT \<noteq> EMMC_DATA" by (simp add: emmc_regs)
  then show ?thesis
    using job_timer [OF assms(1) 1] job_timeout_loop [OF assms(1) _ 2] job_emmc_read [OF assms(1) 3] by simp
qed

lemma job_clear_irpt [simp]: "observes hw job \<Longrightarrow> job (emmc_write hw EMMC_INTERRUPT x h) = job h"
  by (simp add: job_emmc_write see_write_def see_data_def emmc_regs)

section \<open>The words of a transfer\<close>

text \<open>The words ws stand in the buffer from p on, and the other bytes are as before.\<close>

definition moved :: "u32 list \<Rightarrow> nat \<Rightarrow> buf \<Rightarrow> buf \<Rightarrow> bool" where
  "moved ws p b b' \<longleftrightarrow> length b' = length b
     \<and> (\<forall>i < length ws. read_word b' (p + 4 * i) = Some (ws ! i))
     \<and> (\<forall>j. j < p \<or> p + 4 * length ws \<le> j \<longrightarrow> b' ! j = b ! j)"

lemma moved_Nil [simp]: "moved [] p b b" by (simp add: moved_def)

lemma moved_append:
  assumes "moved ws p b b1" "moved vs (p + 4 * length ws) b1 b2"
  shows "moved (ws @ vs) p b b2"
proof -
  have "read_word b2 (p + 4 * i) = Some ((ws @ vs) ! i)" if "i < length ws + length vs" for i
  proof (cases "i < length ws")
    case True
    have "read_word b2 (p + 4 * i) = read_word b1 (p + 4 * i)"
      by (rule read_word_cong) (use assms(2) True in \<open>auto simp: moved_def\<close>)
    then show ?thesis using assms(1) True by (simp add: moved_def nth_append)
  next
    case False
    then have eq: "p + 4 * i = p + 4 * length ws + 4 * (i - length ws)" by simp
    have "i - length ws < length vs" using False that by simp
    with assms(2) have "read_word b2 (p + 4 * length ws + 4 * (i - length ws)) = Some (vs ! (i - length ws))"
      unfolding moved_def by blast
    with False show ?thesis unfolding eq by (simp add: nth_append)
  qed
  then show ?thesis using assms by (auto simp: moved_def)
qed

lemma moved_in: "write_word x b p = Some b' \<Longrightarrow> moved [x] p b b'"
  using word_field.wr_length word_field.rd_wr word_field.wr_frame by (fastforce simp: moved_def)

lemma moved_out: "read_word b p = Some x \<Longrightarrow> moved [x] p b b"
  by (simp add: moved_def)

lemma sd_transfer_words_moves:
  assumes "observes hw job" "sd_transfer_words hw is_write n p b h = Some (b', h')"
  shows "\<exists>ws. length ws = n \<and> job h' = (job h)\<lparr>job_data := job_data (job h) @ ws\<rparr> \<and> moved ws p b b'
    \<and> (is_write \<longrightarrow> b' = b)"
  using assms(2)
proof (induction n arbitrary: p b h)
  case 0
  then show ?case by (simp add: exI [of _ "[]"])
next
  case (Suc n)
  have "\<exists>x b1 h1. job h1 = (job h)\<lparr>job_data := job_data (job h) @ [x]\<rparr> \<and> moved [x] p b b1
    \<and> (is_write \<longrightarrow> b1 = b) \<and> sd_transfer_words hw is_write n (p + 4) b1 h1 = Some (b', h')"
  proof (cases is_write)
    case True
    then obtain x where x: "read_word b p = Some x"
      and rec: "sd_transfer_words hw is_write n (p + 4) b (emmc_write hw EMMC_DATA x h) = Some (b', h')"
      using Suc.prems by (auto simp: bind_eq_Some_conv)
    have "job (emmc_write hw EMMC_DATA x h) = (job h)\<lparr>job_data := job_data (job h) @ [x]\<rparr>"
      by (simp add: job_emmc_write [OF assms(1)] see_write_def see_data_def emmc_regs)
    with moved_out [OF x] rec show ?thesis by blast
  next
    case False
    then obtain x h1 b1 where x: "emmc_read hw EMMC_DATA h = (x, h1)" and w: "write_word x b p = Some b1"
      and rec: "sd_transfer_words hw is_write n (p + 4) b1 h1 = Some (b', h')"
      using Suc.prems by (auto simp: bind_eq_Some_conv split: prod.splits)
    show ?thesis
      using job_emmc_read [OF assms(1) x] moved_in [OF w] rec False by auto
  qed
  then obtain x b1 h1 where 1: "job h1 = (job h)\<lparr>job_data := job_data (job h) @ [x]\<rparr>" "moved [x] p b b1"
    "is_write \<longrightarrow> b1 = b" "sd_transfer_words hw is_write n (p + 4) b1 h1 = Some (b', h')" by blast
  from Suc.IH [OF 1(4)] obtain ws where 2: "length ws = n"
    "job h' = (job h1)\<lparr>job_data := job_data (job h1) @ ws\<rparr>" "moved ws (p + 4) b1 b'" "is_write \<longrightarrow> b' = b1" by blast
  have "moved (x # ws) p b b'" using moved_append [OF 1(2), of ws b'] 2(3) by simp
  with 1 2 show ?case by (intro exI [of _ "x # ws"]) simp
qed

text \<open>What the fields of the device become: only the buffer and the results of the last
  command change.\<close>

definition same_card :: "emmc_block_dev \<Rightarrow> emmc_block_dev \<Rightarrow> bool" where
  "same_card dev dev' \<longleftrightarrow> ed_block_size dev' = ed_block_size dev \<and> blocks_to_transfer dev' = blocks_to_transfer dev
     \<and> card_supports_sdhc dev' = card_supports_sdhc dev"

lemma same_card_refl [simp]: "same_card dev dev" by (simp add: same_card_def)

lemma same_card_trans: "same_card d1 d2 \<Longrightarrow> same_card d2 d3 \<Longrightarrow> same_card d1 d3" by (simp add: same_card_def)

lemma sd_transfer_blocks_moves:
  assumes "observes hw job" "sd_transfer_blocks hw is_write t k p dev h = Some (ok, dev', h')"
  shows "same_card dev dev' \<and> last_cmd_success dev' = last_cmd_success dev \<and>
    (\<exists>ws. length ws \<le> k * ((unat (ed_block_size dev) + 3) div 4) \<and> moved ws p (ed_buf dev) (ed_buf dev')
       \<and> (is_write \<longrightarrow> ed_buf dev' = ed_buf dev)
       \<and> (ok \<longrightarrow> length ws = k * ((unat (ed_block_size dev) + 3) div 4)
            \<and> job h' = (job h)\<lparr>job_data := job_data (job h) @ ws\<rparr>))"
  using assms(2)
proof (induction k arbitrary: p dev h)
  case 0
  then show ?case by (auto intro: exI [of _ "[]"])
next
  case (Suc k)
  let ?n = "(unat (ed_block_size dev) + 3) div 4"
  let ?w = "if is_write then 0x10 else 0x20"
  obtain irpts h1 where i: "sd_wait_irpt hw (?w OR 0x8000) t h = Some (irpts, h1)"
    and c: "(if irpts AND (0xffff0000 OR ?w) \<noteq> ?w then Some (False, sd_irpt_error irpts dev, emmc_write hw EMMC_INTERRUPT (0xffff0000 OR ?w) h1)
       else do {
         (b, h) \<leftarrow> sd_transfer_words hw is_write ?n p (ed_buf dev) (emmc_write hw EMMC_INTERRUPT (0xffff0000 OR ?w) h1);
         sd_transfer_blocks hw is_write t k (p + 4 * ?n) (dev\<lparr>ed_buf := b\<rparr>) h }) = Some (ok, dev', h')"
    using Suc.prems unfolding sd_transfer_blocks.simps Let_def bind_eq_Some_conv by force
  show ?case
  proof (cases "irpts AND (0xffff0000 OR ?w) \<noteq> ?w")
    case True
    then have "\<not> ok" "dev' = sd_irpt_error irpts dev" using c by auto
    then show ?thesis by (auto simp: same_card_def sd_irpt_error_def intro: exI [of _ "[]"])
  next
    case False
    obtain b h2 where w: "sd_transfer_words hw is_write ?n p (ed_buf dev) (emmc_write hw EMMC_INTERRUPT (0xffff0000 OR ?w) h1) = Some (b, h2)"
      and rec: "sd_transfer_blocks hw is_write t k (p + 4 * ?n) (dev\<lparr>ed_buf := b\<rparr>) h2 = Some (ok, dev', h')"
      using c False by (simp add: bind_eq_Some_conv split: prod.splits) blast
    from sd_transfer_words_moves [OF assms(1) w] obtain ws where 1: "length ws = ?n"
      "job h2 = (job h)\<lparr>job_data := job_data (job h) @ ws\<rparr>" "moved ws p (ed_buf dev) b" "is_write \<longrightarrow> b = ed_buf dev"
      using job_wait_irpt [OF assms(1) i] assms(1) by auto
    note IH = Suc.IH [OF rec]
    have same: "same_card dev dev'" "last_cmd_success dev' = last_cmd_success dev"
      using IH by (simp_all add: same_card_def)
    from IH obtain vs where 2: "length vs \<le> k * ?n" "moved vs (p + 4 * ?n) b (ed_buf dev')"
      "is_write \<longrightarrow> ed_buf dev' = b"
      "ok \<longrightarrow> length vs = k * ?n \<and> job h' = (job h2)\<lparr>job_data := job_data (job h2) @ vs\<rparr>" by auto
    have "moved (ws @ vs) p (ed_buf dev) (ed_buf dev')"
      by (rule moved_append [OF 1(3)]) (use 1(1) 2(2) in simp)
    with 1 2 same show ?thesis by (intro conjI exI [of _ "ws @ vs"]) auto
  qed
qed

section \<open>A command\<close>

lemma sd_get_response_keeps:
  assumes "observes hw job" "sd_get_response hw cmd dev h = (dev', h')"
  shows "same_card dev dev' \<and> last_cmd_success dev' = last_cmd_success dev \<and> ed_buf dev' = ed_buf dev \<and> job h' = job h"
proof -
  have rd: "job h2 = job h1" if "emmc_read hw r h1 = (x, h2)" "r \<noteq> EMMC_DATA" for r x h1 h2
    using job_emmc_read [OF assms(1) that(1)] that(2) by simp
  note rs = rd [of EMMC_RESP0] rd [of EMMC_RESP1] rd [of EMMC_RESP2] rd [of EMMC_RESP3]
  have "EMMC_RESP0 \<noteq> EMMC_DATA" "EMMC_RESP1 \<noteq> EMMC_DATA" "EMMC_RESP2 \<noteq> EMMC_DATA" "EMMC_RESP3 \<noteq> EMMC_DATA"
    by (simp_all add: emmc_regs)
  then show ?thesis
    using assms(2) rs by (auto simp: sd_get_response_def Let_def same_card_def split: if_splits prod.splits)
qed

lemma sd_wait_transfer_keeps:
  assumes "observes hw job" "sd_wait_transfer hw t dev h = Some (ok, dev', h')"
  shows "same_card dev dev' \<and> last_cmd_success dev' = last_cmd_success dev \<and> ed_buf dev' = ed_buf dev \<and> job h' = job h"
proof -
  have "job h2 = job h1" if "emmc_read hw EMMC_STATUS h1 = (x, h2)" for x h1 h2
    using job_emmc_read [OF assms(1) that] by (simp add: emmc_regs)
  then show ?thesis
    using assms job_wait_irpt [OF assms(1)]
    by (fastforce simp: sd_wait_transfer_def Let_def same_card_def sd_irpt_error_def bind_eq_Some_conv
        split: if_splits prod.splits)
qed

text \<open>What a command does to the device and to the job.\<close>

definition command_effect ::
  "('h \<Rightarrow> sd_job) \<Rightarrow> u32 \<Rightarrow> emmc_block_dev \<Rightarrow> sd_job \<Rightarrow> emmc_block_dev \<Rightarrow> 'h \<Rightarrow> bool" where
  "command_effect job cmd dev j dev' h' \<longleftrightarrow> same_card dev dev' \<and>
     (\<exists>ws. length ws \<le> nat (blocks_to_transfer dev) * ((unat (ed_block_size dev) + 3) div 4)
        \<and> moved ws 0 (ed_buf dev) (ed_buf dev')
        \<and> (cmd AND SD_CMD_ISDATA = 0 \<or> cmd AND SD_CMD_DAT_DIR_CH = 0 \<longrightarrow> ed_buf dev' = ed_buf dev)
        \<and> (last_cmd_success dev' \<and> cmd AND SD_CMD_ISDATA \<noteq> 0 \<longrightarrow>
             length ws = nat (blocks_to_transfer dev) * ((unat (ed_block_size dev) + 3) div 4)
             \<and> job h' = j\<lparr>job_data := job_data j @ ws\<rparr>))"

lemma command_effect_failed:
  "same_card dev dev' \<Longrightarrow> ed_buf dev' = ed_buf dev \<Longrightarrow> \<not> last_cmd_success dev' \<Longrightarrow> command_effect job cmd dev j dev' h'"
  by (auto simp: command_effect_def intro: exI [of _ "[]"])

lemma sd_finish_command_effect:
  assumes obs: "observes hw job" and run: "sd_finish_command hw cmd t (dev, h) = Some (dev', h')" and "\<not> last_cmd_success dev"
  shows "command_effect job cmd dev (job h) dev' h'"
proof -
  obtain h1 irpts h2 where 1: "hw_usleep hw 2000 h = Some h1" "sd_wait_irpt hw 0x8001 t h1 = Some (irpts, h2)"
    and c1: "(if irpts AND 0xffff0001 \<noteq> 1 then Some (sd_irpt_error irpts dev, emmc_write hw EMMC_INTERRUPT 0xffff0001 h2)
     else do {
      h \<leftarrow> hw_usleep hw 2000 (emmc_write hw EMMC_INTERRUPT 0xffff0001 h2);
      let (dev, h) = sd_get_response hw cmd dev h;
      (ok, dev, h) \<leftarrow>
         (if cmd AND SD_CMD_ISDATA \<noteq> 0
          then sd_transfer_blocks hw (cmd AND SD_CMD_DAT_DIR_CH = 0) t (nat (blocks_to_transfer dev)) 0 dev h
          else Some (True, dev, h));
       if \<not> ok then Some (dev, h)
       else do {
         (ok, dev, h) \<leftarrow>
           (if cmd AND SD_CMD_RSPNS_TYPE_MASK = SD_CMD_RSPNS_TYPE_48B \<or> cmd AND SD_CMD_ISDATA \<noteq> 0
            then sd_wait_transfer hw t dev h else Some (True, dev, h));
         Some (if ok then dev\<lparr>last_cmd_success := True\<rparr> else dev, h) } }) = Some (dev', h')"
    using run unfolding sd_finish_command_def Let_def bind_eq_Some_conv by force
  have j2: "job h2 = job h" using job_usleep [OF obs 1(1)] job_wait_irpt [OF obs 1(2)] by simp
  show ?thesis
  proof (cases "irpts AND 0xffff0001 \<noteq> 1")
    case True
    then have "dev' = sd_irpt_error irpts dev" using c1 by simp
    then show ?thesis using assms(3) by (auto simp: sd_irpt_error_def same_card_def intro: command_effect_failed)
  next
    case False
    obtain h3 where 3: "hw_usleep hw 2000 (emmc_write hw EMMC_INTERRUPT 0xffff0001 h2) = Some h3"
      using c1 False by (cases "hw_usleep hw 2000 (emmc_write hw EMMC_INTERRUPT 0xffff0001 h2)") simp_all
    obtain dev1 h4 where 4: "sd_get_response hw cmd dev h3 = (dev1, h4)" by fastforce
    have c2: "do { (ok, dev, h) \<leftarrow>
         (if cmd AND SD_CMD_ISDATA \<noteq> 0
          then sd_transfer_blocks hw (cmd AND SD_CMD_DAT_DIR_CH = 0) t (nat (blocks_to_transfer dev1)) 0 dev1 h4
          else Some (True, dev1, h4));
       if \<not> ok then Some (dev, h)
       else do {
         (ok, dev, h) \<leftarrow>
           (if cmd AND SD_CMD_RSPNS_TYPE_MASK = SD_CMD_RSPNS_TYPE_48B \<or> cmd AND SD_CMD_ISDATA \<noteq> 0
            then sd_wait_transfer hw t dev h else Some (True, dev, h));
         Some (if ok then dev\<lparr>last_cmd_success := True\<rparr> else dev, h) } } = Some (dev', h')"
      using c1 False 3 4 by simp
    have d1: "same_card dev dev1" "\<not> last_cmd_success dev1" "ed_buf dev1 = ed_buf dev" "job h4 = job h"
      using sd_get_response_keeps [OF obs 4] job_usleep [OF obs 3] obs j2 assms(3) by auto
    obtain ok dev2 h5 where 5: "(if cmd AND SD_CMD_ISDATA \<noteq> 0
          then sd_transfer_blocks hw (cmd AND SD_CMD_DAT_DIR_CH = 0) t (nat (blocks_to_transfer dev1)) 0 dev1 h4
          else Some (True, dev1, h4)) = Some (ok, dev2, h5)"
      and c3: "(if \<not> ok then Some (dev2, h5)
       else do {
         (ok, dev, h) \<leftarrow>
           (if cmd AND SD_CMD_RSPNS_TYPE_MASK = SD_CMD_RSPNS_TYPE_48B \<or> cmd AND SD_CMD_ISDATA \<noteq> 0
            then sd_wait_transfer hw t dev2 h5 else Some (True, dev2, h5));
         Some (if ok then dev\<lparr>last_cmd_success := True\<rparr> else dev, h) }) = Some (dev', h')"
      using c2 unfolding bind_eq_Some_conv by force
    let ?N = "nat (blocks_to_transfer dev) * ((unat (ed_block_size dev) + 3) div 4)"
    have "\<exists>ws. same_card dev1 dev2 \<and> \<not> last_cmd_success dev2 \<and> length ws \<le> ?N \<and> moved ws 0 (ed_buf dev) (ed_buf dev2)
        \<and> (cmd AND SD_CMD_ISDATA = 0 \<or> cmd AND SD_CMD_DAT_DIR_CH = 0 \<longrightarrow> ed_buf dev2 = ed_buf dev)
        \<and> (ok \<and> cmd AND SD_CMD_ISDATA \<noteq> 0 \<longrightarrow> length ws = ?N \<and> job h5 = (job h)\<lparr>job_data := job_data (job h) @ ws\<rparr>)"
    proof (cases "cmd AND SD_CMD_ISDATA = 0")
      case True
      then show ?thesis using 5 d1 by (auto intro: exI [of _ "[]"])
    next
      case False
      then have "sd_transfer_blocks hw (cmd AND SD_CMD_DAT_DIR_CH = 0) t (nat (blocks_to_transfer dev1)) 0 dev1 h4 = Some (ok, dev2, h5)"
        using 5 by simp
      from sd_transfer_blocks_moves [OF obs this] d1 False show ?thesis by (auto simp: same_card_def)
    qed
    then obtain ws where ws: "same_card dev1 dev2" "\<not> last_cmd_success dev2" "length ws \<le> ?N" "moved ws 0 (ed_buf dev) (ed_buf dev2)"
      "cmd AND SD_CMD_ISDATA = 0 \<or> cmd AND SD_CMD_DAT_DIR_CH = 0 \<longrightarrow> ed_buf dev2 = ed_buf dev"
      "ok \<and> cmd AND SD_CMD_ISDATA \<noteq> 0 \<longrightarrow> length ws = ?N \<and> job h5 = (job h)\<lparr>job_data := job_data (job h) @ ws\<rparr>" by blast
    have "same_card dev2 dev' \<and> ed_buf dev' = ed_buf dev2 \<and> (last_cmd_success dev' \<longrightarrow> ok \<and> job h' = job h5)"
    proof (cases ok)
      case False
      then show ?thesis using c3 ws(2) by auto
    next
      case True
      then obtain ok2 dev3 where 6: "(if cmd AND SD_CMD_RSPNS_TYPE_MASK = SD_CMD_RSPNS_TYPE_48B \<or> cmd AND SD_CMD_ISDATA \<noteq> 0
            then sd_wait_transfer hw t dev2 h5 else Some (True, dev2, h5)) = Some (ok2, dev3, h')"
        and dev': "dev' = (if ok2 then dev3\<lparr>last_cmd_success := True\<rparr> else dev3)"
        using c3 unfolding bind_eq_Some_conv by auto
      have "same_card dev2 dev3 \<and> ed_buf dev3 = ed_buf dev2 \<and> job h' = job h5"
        using 6 sd_wait_transfer_keeps [OF obs] by (fastforce split: if_splits)
      then show ?thesis using dev' True by (simp add: same_card_def)
    qed
    with ws d1 show ?thesis unfolding command_effect_def
      by (intro conjI exI [of _ ws]) (auto simp: same_card_def)
  qed
qed

lemma command_effect_same: "command_effect job cmd dev j dev' h' \<Longrightarrow> same_card dev dev'"
  by (simp add: command_effect_def)

lemma command_effect_no_data:
  "command_effect job cmd dev j dev' h' \<Longrightarrow> cmd AND SD_CMD_ISDATA = 0 \<Longrightarrow> ed_buf dev' = ed_buf dev"
  by (auto simp: command_effect_def)

lemma command_effect_cong:
  assumes "same_card dev1 dev2" "ed_buf dev2 = ed_buf dev1" "command_effect job cmd dev2 j dev' h'"
  shows "command_effect job cmd dev1 j dev' h'"
proof -
  have "blocks_to_transfer dev2 = blocks_to_transfer dev1" "ed_block_size dev2 = ed_block_size dev1"
    using assms(1) by (simp_all add: same_card_def)
  then show ?thesis
    using assms(2,3) same_card_trans [OF assms(1)] unfolding command_effect_def by metis
qed

definition job_of :: "emmc_block_dev \<Rightarrow> u32 \<Rightarrow> u32 \<Rightarrow> sd_job" where
  "job_of dev cmd argument =
     \<lparr>job_blocks = ed_block_size dev OR push_bit 16 (word_of_int (blocks_to_transfer dev)),
      job_arg = argument, job_cmd = cmd, job_data = []\<rparr>"

lemma job_of_cong: "same_card dev dev' \<Longrightarrow> job_of dev' cmd a = job_of dev cmd a"
  by (simp add: job_of_def same_card_def)

lemma job_start:
  assumes "observes hw job"
  shows "job (emmc_write hw EMMC_CMDTM cmd (emmc_write hw EMMC_ARG1 a (emmc_write hw EMMC_BLKSIZECNT
      (ed_block_size dev OR push_bit 16 (word_of_int (blocks_to_transfer dev))) h))) = job_of dev cmd a"
  by (rule sd_job.equality) (simp_all add: job_emmc_write [OF assms] see_write_def job_of_def emmc_regs)

lemma sd_issue_command_int_effect:
  assumes obs: "observes hw job" and run: "sd_issue_command_int hw cmd a t (dev, h) = Some (dev', h')"
  shows "command_effect job cmd dev (job_of dev cmd a) dev' h' \<and> (last_cmd_success dev' \<longrightarrow> blocks_to_transfer dev \<le> 0xffff)"
proof -
  let ?dev = "dev\<lparr>last_cmd_reg := cmd, last_cmd_success := False\<rparr>"
  have same: "same_card dev ?dev" by (simp add: same_card_def)
  obtain h1 where c: "(if blocks_to_transfer ?dev > 0xffff then Some (?dev, h1)
     else sd_finish_command hw cmd t (?dev, emmc_write hw EMMC_CMDTM cmd (emmc_write hw EMMC_ARG1 a (emmc_write hw EMMC_BLKSIZECNT
       (ed_block_size ?dev OR push_bit 16 (word_of_int (blocks_to_transfer ?dev))) h1)))) = Some (dev', h')"
    using run unfolding sd_issue_command_int_def Let_def bind_eq_Some_conv by auto
  show ?thesis
  proof (cases "blocks_to_transfer dev > 0xffff")
    case True
    then have "dev' = ?dev" using c by simp
    with True same show ?thesis by (auto intro: command_effect_failed)
  next
    case False
    then have "sd_finish_command hw cmd t (?dev, emmc_write hw EMMC_CMDTM cmd (emmc_write hw EMMC_ARG1 a (emmc_write hw EMMC_BLKSIZECNT
       (ed_block_size ?dev OR push_bit 16 (word_of_int (blocks_to_transfer ?dev))) h1))) = Some (dev', h')"
      using c by simp
    from sd_finish_command_effect [OF obs this] have "command_effect job cmd ?dev (job_of dev cmd a) dev' h'"
      unfolding job_start [OF obs] using job_of_cong [OF same] by simp
    with False show ?thesis by (auto intro: command_effect_cong [OF same])
  qed
qed

lemma sd_commands_no_data:
  "(sd_commands ! unat SEND_STATUS) AND SD_CMD_ISDATA = 0"
  by (simp add: sd_commands_def SEND_STATUS_def SD_CMD_INDEX_def SD_RESP_R1_def SD_CMD_RSPNS_TYPE_48_def
      SD_CMD_CRCCHK_EN_def SD_CMD_ISDATA_def)

lemma sd_handle_card_interrupt_keeps:
  assumes obs: "observes hw job" and run: "sd_handle_card_interrupt hw (dev, h) = Some (dev', h')"
  shows "same_card dev dev' \<and> ed_buf dev' = ed_buf dev"
proof (cases "card_rca dev = 0")
  case True
  then show ?thesis using run by (simp add: sd_handle_card_interrupt_def)
next
  case False
  then have "sd_issue_command_int hw (sd_commands ! unat SEND_STATUS) (push_bit 16 (card_rca dev)) 500000 (dev, h) = Some (dev', h')"
    using run by (simp add: sd_handle_card_interrupt_def)
  note effect = conjunct1 [OF sd_issue_command_int_effect [OF obs this]]
  show ?thesis
    using command_effect_same [OF effect] command_effect_no_data [OF effect sd_commands_no_data] by blast
qed

text \<open>The steps of a sequence, one by one.\<close>

lemma let_Some: "(let x = e in f x) = Some y \<longleftrightarrow> (\<exists>x. x = e \<and> f x = Some y)"
  by simp

lemma case_prod_Some: "(case p of (a, b) \<Rightarrow> f a b) = Some y \<longleftrightarrow> (\<exists>a b. p = (a, b) \<and> f a b = Some y)"
  by (cases p) simp

lemmas steps = let_Some case_prod_Some bind_eq_Some_conv

lemma removal_keeps:
  "r = (if c then (m, dev\<lparr>card_removal := True\<rparr>) else (m', dev)) \<Longrightarrow> r = (m2, dev')
   \<Longrightarrow> same_card dev dev' \<and> ed_buf dev' = ed_buf dev"
  by (auto simp: same_card_def split: if_splits)

lemma card_irpt_keeps:
  "(if c then do { (dev, h) \<leftarrow> sd_handle_card_interrupt hw (dev, h); Some (m, dev, h) } else Some (m', dev, h)) = Some r
   \<Longrightarrow> observes hw job \<Longrightarrow> r = (m2, s) \<Longrightarrow> s = (dev', h') \<Longrightarrow> same_card dev dev' \<and> ed_buf dev' = ed_buf dev"
  using sd_handle_card_interrupt_keeps by (fastforce simp: bind_eq_Some_conv split: if_splits prod.splits)

lemma sd_handle_interrupts_keeps:
  assumes obs: "observes hw job" and run: "sd_handle_interrupts hw (dev, h) = Some (dev', h')"
  shows "same_card dev dev' \<and> ed_buf dev' = ed_buf dev"
  using run unfolding sd_handle_interrupts_def steps
  by (elim exE conjE)
    (drule (1) removal_keeps, drule card_irpt_keeps [OF _ obs], assumption, assumption,
      simp only: prod.inject option.inject, blast intro: same_card_trans)

lemma sd_issue_command_effect:
  assumes obs: "observes hw job" and run: "sd_issue_command hw c a t (dev, h) = Some (dev', h')"
    and c: "c AND IS_APP_CMD = 0" "table_entry sd_commands c = Some cmd" "cmd \<noteq> SD_CMD_RESERVED 0"
  shows "command_effect job cmd dev (job_of dev cmd a) dev' h' \<and> (last_cmd_success dev' \<longrightarrow> blocks_to_transfer dev \<le> 0xffff)"
proof -
  obtain dev1 h1 where 1: "sd_handle_interrupts hw (dev, h) = Some (dev1, h1)"
    and 2: "(if card_removal dev1 then Some (dev1\<lparr>last_cmd_success := False\<rparr>, h1)
       else sd_issue_command_int hw cmd a t (dev1\<lparr>last_cmd := c\<rparr>, h1)) = Some (dev', h')"
    using run c unfolding sd_issue_command_def by (auto simp: bind_eq_Some_conv split: if_splits)
  note k1 = sd_handle_interrupts_keeps [OF obs 1]
  show ?thesis
  proof (cases "card_removal dev1")
    case True
    then have "dev' = dev1\<lparr>last_cmd_success := False\<rparr>" using 2 by simp
    then show ?thesis using k1 by (auto simp: same_card_def intro!: command_effect_failed)
  next
    case False
    let ?dev = "dev1\<lparr>last_cmd := c\<rparr>"
    have same: "same_card dev ?dev" "ed_buf ?dev = ed_buf dev" using k1 by (simp_all add: same_card_def)
    from False 2 have "sd_issue_command_int hw cmd a t (?dev, h1) = Some (dev', h')" by simp
    from sd_issue_command_int_effect [OF obs this] show ?thesis
      using command_effect_cong [OF same, of job cmd "job_of dev cmd a" dev' h'] job_of_cong [OF same(1)] same(1)
      by (simp add: same_card_def)
  qed
qed

lemma sd_issue_command_same:
  assumes obs: "observes hw job" and run: "sd_issue_command hw c a t (dev, h) = Some (dev', h')"
  shows "same_card dev dev'"
proof -
  obtain dev1 h1 where 1: "sd_handle_interrupts hw (dev, h) = Some (dev1, h1)"
    and 2: "(if card_removal dev1 then Some (dev1\<lparr>last_cmd_success := False\<rparr>, h1)
     else if c AND IS_APP_CMD \<noteq> 0 then do {
       let command = c AND 0xff;
       cmd_reg \<leftarrow> table_entry sd_acommands command;
       if cmd_reg = SD_CMD_RESERVED 0 then Some (dev1\<lparr>last_cmd_success := False\<rparr>, h1)
       else do {
         let rca = (if card_rca dev1 \<noteq> 0 then push_bit 16 (card_rca dev1) else 0);
         (dev, h) \<leftarrow> sd_issue_command_int hw (sd_commands ! unat APP_CMD) rca t (dev1\<lparr>last_cmd := APP_CMD\<rparr>, h1);
         if last_cmd_success dev
         then sd_issue_command_int hw cmd_reg a t (dev\<lparr>last_cmd := command OR IS_APP_CMD\<rparr>, h)
         else Some (dev, h) } }
     else do {
       cmd_reg \<leftarrow> table_entry sd_commands c;
       if cmd_reg = SD_CMD_RESERVED 0 then Some (dev1\<lparr>last_cmd_success := False\<rparr>, h1)
       else sd_issue_command_int hw cmd_reg a t (dev1\<lparr>last_cmd := c\<rparr>, h1) }) = Some (dev', h')"
    using run unfolding sd_issue_command_def bind_eq_Some_conv by auto
  have int: "same_card d d'" if "sd_issue_command_int hw cmd a t (d\<lparr>last_cmd := x\<rparr>, h) = Some (d', h')" for cmd a t d x h d' h'
    using command_effect_same [OF conjunct1 [OF sd_issue_command_int_effect [OF obs that]]] by (simp add: same_card_def)
  have "same_card dev1 dev'"
    using 2 unfolding Let_def
    by (auto simp: bind_eq_Some_conv same_card_def [of _ "_\<lparr>last_cmd_success := False\<rparr>"] split: if_splits
        dest: int intro: same_card_trans)
  then show ?thesis using sd_handle_interrupts_keeps [OF obs 1] same_card_trans by blast
qed

section \<open>A card that is ready has blocks of 512 bytes\<close>

lemma sd_configure_block_size:
  assumes obs: "observes hw job" and run: "sd_configure hw (dev, h) = Some (Inr dev', h')"
  shows "ed_block_size dev' = 512"
proof -
  have keeps: "ed_block_size d' = ed_block_size d" if "sd_issue_command hw c a t (d, h) = Some (d', h')" for c a t d h d' h'
    using sd_issue_command_same [OF obs that] by (simp add: same_card_def)
  have bus: "ed_block_size (fst r) = ed_block_size dev1" if
    "(if c then do {
            let (old_irpt_mask, h) = emmc_read hw EMMC_IRPT_MASK h1;
            let h = emmc_write hw EMMC_IRPT_MASK (old_irpt_mask AND NOT 0x100) h;
            (dev, h) \<leftarrow> sd_issue_command hw SET_BUS_WIDTH 2 500000 (dev1, h);
            if \<not> last_cmd_success dev then Some (dev, h)
            else
              let (control0, h) = emmc_read hw EMMC_CONTROL0 h;
                  h = emmc_write hw EMMC_CONTROL0 (control0 OR 2) h
              in Some (dev, emmc_write hw EMMC_IRPT_MASK old_irpt_mask h) }
          else Some (dev1, h1)) = Some r" for c dev1 h1 r
    using that by (auto simp: steps split: if_splits dest!: keeps)
  obtain dev1 h1 h2 where 1: "sd_issue_command hw SEND_SCR 0 500000 (dev\<lparr>ed_buf := replicate 8 0, ed_block_size := 8, blocks_to_transfer := 1\<rparr>, h1) = Some (dev1, h2)"
    and 2: "(let dev = dev1\<lparr>ed_block_size := 512\<rparr> in
     if \<not> last_cmd_success dev then Some (Inl Sd_freed, h2)
     else do {
       w \<leftarrow> read_word (ed_buf dev) 0;
       let scr0 = byte_swap w;
       let widths = drop_bit 16 scr0 AND 0xf;
       let dev = dev\<lparr>ed_scr := Some \<lparr>scr_bytes = ed_buf dev, sd_bus_widths = widths, sd_version = sd_scr_version scr0\<rparr>\<rparr>;
       (dev, h) \<leftarrow>
         (if widths AND 4 \<noteq> 0 then do {
            let (old_irpt_mask, h) = emmc_read hw EMMC_IRPT_MASK h2;
            let h = emmc_write hw EMMC_IRPT_MASK (old_irpt_mask AND NOT 0x100) h;
            (dev, h) \<leftarrow> sd_issue_command hw SET_BUS_WIDTH 2 500000 (dev, h);
            if \<not> last_cmd_success dev then Some (dev, h)
            else
              let (control0, h) = emmc_read hw EMMC_CONTROL0 h;
                  h = emmc_write hw EMMC_CONTROL0 (control0 OR 2) h
              in Some (dev, emmc_write hw EMMC_IRPT_MASK old_irpt_mask h) }
          else Some (dev, h2));
       Some (Inr dev, emmc_write hw EMMC_INTERRUPT 0xffffffff h) }) = Some (Inr dev', h')"
    using run unfolding sd_configure_def steps by blast
  show ?thesis
  proof (cases "last_cmd_success dev1")
    case True
    with 2 show ?thesis
      by (simp add: Let_def [of "_\<lparr>ed_block_size := 512\<rparr>"] bind_eq_Some_conv [of "read_word _ _"])
        (elim exE conjE, unfold steps, elim exE conjE, drule bus, simp)
  qed (use 2 in simp)
qed

text \<open>A stage before the last one never says that the card is ready.\<close>

definition not_ready :: "sd_outcome + 'a \<Rightarrow> bool" where
  "not_ready r \<longleftrightarrow> (\<forall>d. r \<noteq> Inl (Sd_ready d))"

lemma not_ready_simps [simp]:
  "not_ready (Inr x)" "not_ready (Inl e) \<longleftrightarrow> (\<forall>d. e \<noteq> Sd_ready d)"
  "not_ready (case r of Inl e \<Rightarrow> Inl e | Inr x \<Rightarrow> Inr (f x)) \<longleftrightarrow> not_ready r"
  by (auto simp: not_ready_def split: sum.splits)

lemma sum_case_Some:
  "(case r of Inl e \<Rightarrow> f e | Inr x \<Rightarrow> g x) = Some y \<longleftrightarrow> (\<exists>e. r = Inl e \<and> f e = Some y) \<or> (\<exists>x. r = Inr x \<and> g x = Some y)"
  by (cases r) auto

lemma option_case_Some:
  "(case r of None \<Rightarrow> a | Some x \<Rightarrow> g x) = Some y \<longleftrightarrow> (r = None \<and> a = Some y) \<or> (\<exists>x. r = Some x \<and> g x = Some y)"
  by (cases r) auto

lemma if_Some: "(if c then a else b) = Some y \<longleftrightarrow> c \<and> a = Some y \<or> \<not> c \<and> b = Some y"
  by simp

lemma sum_case_eq:
  "(case r of Inl e \<Rightarrow> f e | Inr x \<Rightarrow> g x) = y \<longleftrightarrow> (\<exists>e. r = Inl e \<and> f e = y) \<or> (\<exists>x. r = Inr x \<and> g x = y)"
  by (cases r) auto

lemmas branches = steps sum_case_Some option_case_Some if_Some

lemma sd_clear_timeout_not_ready: "sd_clear_timeout hw s = Some (r, h') \<Longrightarrow> not_ready r"
  by (auto simp: sd_clear_timeout_def steps Let_def split: if_splits)

lemma sd_check_version_not_ready: "sd_check_version hw s = Some (r, h') \<Longrightarrow> not_ready r"
  unfolding sd_check_version_def
  by (auto simp: branches dest!: sd_clear_timeout_not_ready)

lemma sd_check_sdio_not_ready: "sd_check_sdio hw s = Some (r, h') \<Longrightarrow> not_ready r"
  unfolding sd_check_sdio_def
  by (auto simp: bind_eq_Some_conv split: if_splits dest!: sd_clear_timeout_not_ready)

lemma sd_init_loop_not_ready: "sd_init_loop hw v s = Some y \<Longrightarrow> not_ready (fst y)"
  by (rule sd_init_loop.raw_induct [rotated, of hw v s y "\<lambda>hw v s y. not_ready (fst y)"])
    (auto simp: bind_eq_Some_conv Let_def split: if_splits)

lemma sd_identify_not_ready: "sd_identify hw s = Some (r, h') \<Longrightarrow> not_ready r"
  unfolding sd_identify_def
  by (auto simp: branches dest!: sd_check_version_not_ready sd_check_sdio_not_ready sd_init_loop_not_ready)

lemma sd_voltage_switch_not_ready: "sd_voltage_switch hw s = Some (r, h') \<Longrightarrow> not_ready r"
  unfolding sd_voltage_switch_def sd_give_up_switch_def
  by (auto simp: steps split: if_splits)

lemma sd_select_not_ready: "sd_select hw s = Some (r, h') \<Longrightarrow> not_ready r"
  unfolding sd_select_def branches by (elim exE conjE disjE) auto

lemma not_ready_result:
  "Some (Inl Sd_freed, h) = Some (r, h') \<Longrightarrow> not_ready r" "Some (Inr d, h) = Some (r, h') \<Longrightarrow> not_ready r"
  by auto

lemma sd_configure_not_ready: "sd_configure hw s = Some (r, h') \<Longrightarrow> not_ready r"
  unfolding sd_configure_def
  apply (unfold steps, elim exE conjE)
  apply (unfold if_Some, elim exE conjE disjE)
   apply (erule not_ready_result)
  apply (unfold bind_eq_Some_conv, elim exE conjE)
  apply (unfold let_Some, elim exE conjE)
  apply (unfold bind_eq_Some_conv, elim exE conjE)
  apply (unfold case_prod_Some, elim exE conjE)
  apply (erule not_ready_result)
  done

lemma never_ready [simp]:
  "sd_identify hw s \<noteq> Some (Inl (Sd_ready d), h')" "sd_voltage_switch hw s \<noteq> Some (Inl (Sd_ready d), h')"
  "sd_select hw s \<noteq> Some (Inl (Sd_ready d), h')" "sd_configure hw s \<noteq> Some (Inl (Sd_ready d), h')"
  by (auto dest: sd_identify_not_ready sd_voltage_switch_not_ready sd_select_not_ready sd_configure_not_ready)

lemma sd_card_attempt_ready:
  assumes "sd_card_attempt hw h = Some (Sd_ready dev, h')"
  shows "\<exists>d h1. sd_configure hw (d, h1) = Some (Inr dev, h')"
proof -
  show ?thesis
    using assms unfolding sd_card_attempt_def branches
    by (elim exE conjE disjE) (auto simp: sum_case_eq)
qed

lemma sd_card_init_ready:
  assumes obs: "observes hw job" and run: "sd_card_init hw d h = Some (0, Some dev, h')"
  shows "ed_block_size dev = 512"
proof -
  have "hw' = hw \<longrightarrow> (case y of (r, d', h') \<Rightarrow> r = 0 \<longrightarrow> (case d' of None \<Rightarrow> True | Some dev \<Rightarrow> ed_block_size dev = 512))"
    if "sd_card_init hw' d h = Some y" for hw' y
    using that
  proof (rule sd_card_init.raw_induct [rotated])
    fix init :: "'a hw \<Rightarrow> emmc_block_dev option \<Rightarrow> 'a \<Rightarrow> (int \<times> emmc_block_dev option \<times> 'a) option" and hw' d h y
    assume IH: "\<And>hw' d h y. init hw' d h = Some y \<Longrightarrow>
        hw' = hw \<longrightarrow> (case y of (r, d', h') \<Rightarrow> r = 0 \<longrightarrow> (case d' of None \<Rightarrow> True | Some dev \<Rightarrow> ed_block_size dev = 512))"
      and step: "do {
         (r, h) \<leftarrow> sd_card_attempt hw' h;
         (case r of
            Sd_early \<Rightarrow> Some (-1, d, h)
          | Sd_failed dev \<Rightarrow> Some (-1, if d = None then None else Some dev, h)
          | Sd_freed \<Rightarrow> Some (-1, None, h)
          | Sd_retry dev \<Rightarrow> do {
              (ret, d', h) \<leftarrow> init hw' (Some dev) h;
              Some (ret, if d = None then None else d', h) }
          | Sd_ready dev \<Rightarrow> Some (0, Some dev, h)) } = Some y"
    obtain r h1 where 1: "sd_card_attempt hw' h = Some (r, h1)"
      and 2: "(case r of
            Sd_early \<Rightarrow> Some (-1, d, h1)
          | Sd_failed dev \<Rightarrow> Some (-1, if d = None then None else Some dev, h1)
          | Sd_freed \<Rightarrow> Some (-1, None, h1)
          | Sd_retry dev \<Rightarrow> do {
              (ret, d', h) \<leftarrow> init hw' (Some dev) h1;
              Some (ret, if d = None then None else d', h) }
          | Sd_ready dev \<Rightarrow> Some (0, Some dev, h1)) = Some y"
      using step by (auto simp: bind_eq_Some_conv)
    show "hw' = hw \<longrightarrow> (case y of (r, d', h') \<Rightarrow> r = 0 \<longrightarrow> (case d' of None \<Rightarrow> True | Some dev \<Rightarrow> ed_block_size dev = 512))"
    proof
      assume [simp]: "hw' = hw"
      show "case y of (r, d', h') \<Rightarrow> r = 0 \<longrightarrow> (case d' of None \<Rightarrow> True | Some dev \<Rightarrow> ed_block_size dev = 512)"
      proof (cases r)
        case (Sd_retry dev)
        then show ?thesis using 2 by (auto simp: bind_eq_Some_conv dest!: IH)
      next
        case (Sd_ready dev)
        then have "ed_block_size dev = 512"
          using 1 sd_card_attempt_ready sd_configure_block_size [OF obs] by fastforce
        then show ?thesis using 2 Sd_ready by auto
      qed (use 2 in auto)
    qed
  qed
  with run show ?thesis by fastforce
qed

lemma sd_check_status_same:
  assumes obs: "observes hw job" and run: "sd_check_status hw (dev, h) = Some (st, dev', h')"
  shows "same_card dev dev'"
  using run sd_issue_command_same [OF obs]
  by (fastforce simp: sd_check_status_def bind_eq_Some_conv same_card_def split: if_splits)

lemma sd_leave_state_block_size:
  assumes obs: "observes hw job" and run: "sd_leave_state hw st (dev, h) = Some (0, Some dev', h')"
    and "ed_block_size dev = 512"
  shows "ed_block_size dev' = 512"
proof -
  have keeps: "ed_block_size d' = ed_block_size d" if "sd_issue_command hw c a t (d, h) = Some (d', h')" for c a t d h d' h'
    using sd_issue_command_same [OF obs that] by (simp add: same_card_def)
  show ?thesis
    using run assms(3) sd_card_init_ready [OF obs] unfolding sd_leave_state_def
    by (auto simp: bind_eq_Some_conv split: if_splits dest: keeps)
qed

lemma sd_ensure_data_mode_block_size:
  assumes obs: "observes hw job" and run: "sd_ensure_data_mode hw (dev, h) = Some (0, Some dev', h')"
    and "ed_block_size dev = 512"
  shows "ed_block_size dev' = 512"
proof -
  obtain r d h1 where 1: "(if card_rca dev = 0 then sd_card_init hw (Some dev) h else Some (0, Some dev, h)) = Some (r, d, h1)"
    and 2: "(case d of
        None \<Rightarrow> Some (r, None, h1)
      | Some edev \<Rightarrow>
          if r \<noteq> 0 then Some (r, Some edev, h1)
          else do {
            (st, edev, h) \<leftarrow> sd_check_status hw (edev, h1);
            (case st of
               None \<Rightarrow> Some (-1, Some edev, h)
             | Some cur_state \<Rightarrow> do {
                 (ret, d, h) \<leftarrow> sd_leave_state hw cur_state (edev, h);
                 (case d of
                    None \<Rightarrow> Some (ret, None, h)
                  | Some edev \<Rightarrow>
                      if ret \<noteq> 0 then Some (ret, Some edev, h)
                      else if cur_state \<noteq> 4 then do {
                        (st, edev, h) \<leftarrow> sd_check_status hw (edev, h);
                        Some (case st of
                            None \<Rightarrow> (-1, Some edev, h)
                          | Some cur_state \<Rightarrow>
                              if cur_state \<noteq> 4 then (-1, Some (edev\<lparr>card_rca := 0\<rparr>), h) else (0, Some edev, h)) }
                      else Some (0, Some edev, h)) }) }) = Some (0, Some dev', h')"
    using run unfolding sd_ensure_data_mode_def Let_def bind_eq_Some_conv by auto
  have status: "ed_block_size e' = ed_block_size e" if "sd_check_status hw (e, h) = Some (st, e', h')" for e h st e' h'
    using sd_check_status_same [OF obs that] by (simp add: same_card_def)
  have last: "dev' = e" if
    "(case st of None \<Rightarrow> (-1, Some e, h) | Some c \<Rightarrow> if c \<noteq> 4 then (-1, Some (e\<lparr>card_rca := 0\<rparr>), h) else (0, Some e, h)) = (0 :: int, Some dev', h')"
    for st :: "u32 option" and e h
    using that by (auto split: option.splits if_splits)
  have "\<exists>e st e1 h2 e2 h3. r = 0 \<and> d = Some e \<and> sd_check_status hw (e, h1) = Some (Some st, e1, h2)
      \<and> sd_leave_state hw st (e1, h2) = Some (0, Some e2, h3) \<and> ed_block_size dev' = ed_block_size e2"
    using 2 unfolding branches
    by (elim exE conjE disjE) (auto dest!: status last)
  then obtain e st e1 h2 e2 h3 where r: "r = 0" "d = Some e" and 3: "sd_check_status hw (e, h1) = Some (Some st, e1, h2)"
    "sd_leave_state hw st (e1, h2) = Some (0, Some e2, h3)" "ed_block_size dev' = ed_block_size e2" by blast
  have "ed_block_size e = 512"
    using 1 r assms(3) sd_card_init_ready [OF obs] by (auto split: if_splits)
  then show ?thesis using status [OF 3(1)] sd_leave_state_block_size [OF obs 3(2)] 3(3) by simp
qed

section \<open>The data of a transfer\<close>

lemma sd_try_effect:
  assumes obs: "observes hw job" and run: "sd_try k hw c a (dev, h) = Some (0, dev', h')"
    and c: "c AND IS_APP_CMD = 0" "table_entry sd_commands c = Some cmd" "cmd \<noteq> SD_CMD_RESERVED 0"
    and data: "cmd AND SD_CMD_ISDATA \<noteq> 0"
  shows "same_card dev dev' \<and> blocks_to_transfer dev \<le> 0xffff \<and>
    (\<exists>ws. length ws = nat (blocks_to_transfer dev) * ((unat (ed_block_size dev) + 3) div 4)
      \<and> moved ws 0 (ed_buf dev) (ed_buf dev') \<and> (cmd AND SD_CMD_DAT_DIR_CH = 0 \<longrightarrow> ed_buf dev' = ed_buf dev)
      \<and> job h' = (job_of dev cmd a)\<lparr>job_data := ws\<rparr>)"
  using run
proof (induction k arbitrary: dev h)
  case 0
  then show ?case by simp
next
  case (Suc k)
  let ?N = "nat (blocks_to_transfer dev) * ((unat (ed_block_size dev) + 3) div 4)"
  obtain dev1 h1 where 1: "sd_issue_command hw c a 5000000 (dev, h) = Some (dev1, h1)"
    and 2: "(if last_cmd_success dev1 then Some (0, dev1, h1) else sd_try k hw c a (dev1, h1)) = Some (0, dev', h')"
    using Suc.prems by (auto simp: bind_eq_Some_conv)
  note effect = sd_issue_command_effect [OF obs 1 c]
  from effect obtain ws where ws: "same_card dev dev1" "length ws \<le> ?N" "moved ws 0 (ed_buf dev) (ed_buf dev1)"
    "cmd AND SD_CMD_DAT_DIR_CH = 0 \<longrightarrow> ed_buf dev1 = ed_buf dev"
    "last_cmd_success dev1 \<longrightarrow> length ws = ?N \<and> blocks_to_transfer dev \<le> 0xffff
       \<and> job h1 = (job_of dev cmd a)\<lparr>job_data := job_data (job_of dev cmd a) @ ws\<rparr>"
    using data unfolding command_effect_def by blast
  show ?case
  proof (cases "last_cmd_success dev1")
    case True
    then have "dev' = dev1" "h' = h1" using 2 by simp_all
    with ws True show ?thesis by (auto simp: job_of_def)
  next
    case False
    with 2 have "sd_try k hw c a (dev1, h1) = Some (0, dev', h')" by simp
    from Suc.IH [OF this] obtain vs where vs: "same_card dev1 dev'" "blocks_to_transfer dev1 \<le> 0xffff"
      "length vs = nat (blocks_to_transfer dev1) * ((unat (ed_block_size dev1) + 3) div 4)"
      "moved vs 0 (ed_buf dev1) (ed_buf dev')" "cmd AND SD_CMD_DAT_DIR_CH = 0 \<longrightarrow> ed_buf dev' = ed_buf dev1"
      "job h' = (job_of dev1 cmd a)\<lparr>job_data := vs\<rparr>" by blast
    have same: "blocks_to_transfer dev1 = blocks_to_transfer dev" "ed_block_size dev1 = ed_block_size dev"
      using ws(1) by (simp_all add: same_card_def)
    have "moved vs 0 (ed_buf dev) (ed_buf dev')"
      using vs(3,4) ws(2,3) same by (auto simp: moved_def)
    with vs ws same show ?thesis
      using same_card_trans [OF ws(1) vs(1)] job_of_cong [OF ws(1)] by auto
  qed
qed

lemma sd_try_result: "sd_try k hw c a s = Some (r, s') \<Longrightarrow> r = 0 \<or> r = -1"
  by (induction k arbitrary: s) (auto simp: bind_eq_Some_conv split: if_splits prod.splits)

lemmas command_consts = WRITE_MULTIPLE_BLOCK_def WRITE_BLOCK_def READ_MULTIPLE_BLOCK_def READ_SINGLE_BLOCK_def

lemmas command_words = SD_CMD_INDEX_def SD_RESP_R1_def SD_CMD_RSPNS_TYPE_48_def SD_CMD_CRCCHK_EN_def
  SD_DATA_READ_def SD_DATA_WRITE_def SD_CMD_ISDATA_def SD_CMD_DAT_DIR_CH_def SD_CMD_DAT_DIR_HC_def
  SD_CMD_MULTI_BLOCK_def SD_CMD_BLKCNT_EN_def SD_CMD_RESERVED_def

lemma sd_commands_data:
  "sd_commands ! 17 = SD_CMD_INDEX 17 OR SD_RESP_R1 OR SD_DATA_READ"
  "sd_commands ! 18 = SD_CMD_INDEX 18 OR SD_RESP_R1 OR SD_DATA_READ OR SD_CMD_MULTI_BLOCK OR SD_CMD_BLKCNT_EN"
  "sd_commands ! 24 = SD_CMD_INDEX 24 OR SD_RESP_R1 OR SD_DATA_WRITE"
  "sd_commands ! 25 = SD_CMD_INDEX 25 OR SD_RESP_R1 OR SD_DATA_WRITE OR SD_CMD_MULTI_BLOCK OR SD_CMD_BLKCNT_EN"
  "length sd_commands = 64"
  by (simp_all add: sd_commands_def)

text \<open>The command of a transfer of n blocks.\<close>

definition data_command :: "bool \<Rightarrow> u32 \<Rightarrow> u32" where
  "data_command is_write n =
     (if is_write then (if n > 1 then WRITE_MULTIPLE_BLOCK else WRITE_BLOCK)
      else (if n > 1 then READ_MULTIPLE_BLOCK else READ_SINGLE_BLOCK))"

lemma data_command_word:
  "data_command is_write n AND IS_APP_CMD = 0"
  "table_entry sd_commands (data_command is_write n) = Some (sd_commands ! unat (data_command is_write n))"
  "sd_commands ! unat (data_command is_write n) \<noteq> SD_CMD_RESERVED 0"
  "sd_commands ! unat (data_command is_write n) AND SD_CMD_ISDATA \<noteq> 0"
  "sd_commands ! unat (data_command is_write n) AND SD_CMD_DAT_DIR_CH = 0 \<longleftrightarrow> is_write"
  by (auto simp: data_command_def command_consts IS_APP_CMD_def table_entry_def sd_commands_data command_words)

text \<open>C2: A transfer that succeeds asked the card for exactly the blocks of the request, and the
  words that passed the data register since are the words of the buffer, in order: a read
  leaves them there and changes nothing behind them, a write has sent them.  This holds
  for every card and every controller, after errors, retries and a new initialisation.\<close>

theorem sd_transfer_moves_data:
  assumes "observes hw job" "ed_block_size edev = 512"
    and "sd_transfer hw is_write b n block (edev, h) = Some (ret, b', d, h')" "0 \<le> ret"
  shows "\<exists>dev' ws. d = Some dev' \<and> ret = sint n \<and> 512 dvd unat n \<and> 4 * length ws = unat n
    \<and> job h' = \<lparr>job_blocks = 512 OR push_bit 16 (n div 512),
         job_arg = (if card_supports_sdhc dev' = 0 then block * 512 else block),
         job_cmd = sd_commands ! unat (data_command is_write (n div 512)), job_data = ws\<rparr>
    \<and> moved ws 0 b b' \<and> (is_write \<longrightarrow> b' = b)"
proof -
  note obs = assms(1)
  obtain ret0 d0 h0 where 0: "sd_ensure_data_mode hw (edev, h) = Some (ret0, d0, h0)"
    and 1: "(case (ret0 = 0, d0) of
        (True, Some edev) \<Rightarrow> do {
          (ret, b, edev, h) \<leftarrow> sd_do_data_command hw is_write b n block (edev, h0);
          Some (if ret < 0 then -1 else sint n, b, Some edev, h) }
      | _ \<Rightarrow> Some (-1, b, d0, h0)) = Some (ret, b', d, h')"
    using assms(3) unfolding sd_transfer_def bind_eq_Some_conv by auto
  obtain e where e: "ret0 = 0" "d0 = Some e"
    using 1 assms(4) by (auto split: bool.split_asm option.split_asm)
  then obtain r1 e' where 2: "sd_do_data_command hw is_write b n block (e, h0) = Some (r1, b', e', h')"
    and ret: "ret = (if r1 < 0 then -1 else sint n)" and d: "d = Some e'"
    using 1 by (auto simp: bind_eq_Some_conv)
  have r1: "\<not> r1 < 0" using ret assms(4) by auto
  have size: "ed_block_size e = 512"
    using sd_ensure_data_mode_block_size [OF obs _ assms(2)] 0 e by simp
  let ?block = "if card_supports_sdhc e = 0 then block * 512 else block"
  let ?e = "e\<lparr>blocks_to_transfer := sint (n div 512), ed_buf := b\<rparr>"
  have pos: "sint (n div 512) = int (unat n div 512)"
  proof -
    have "unat n div 512 < 2 ^ 31" using le_less_trans [OF order.refl unat_u32_less [of n], THEN less_trans, of "2 ^ 40"]
      by (simp add: div_less_iff_less_mult)
    then show ?thesis by (simp add: sint_small_u32 unat_div_distrib)
  qed
  have gt: "sint (n div 512) > 1 \<longleftrightarrow> n div 512 > 1"
    by (simp add: pos word_less_nat_alt unat_div_distrib)
  from 2 r1 have dvd: "n mod 512 = 0"
    and 3: "sd_try 3 hw (data_command is_write (n div 512)) ?block (?e, h0) = Some (r1, e', h')" and b': "b' = ed_buf e'"
    unfolding sd_do_data_command_def
    by (auto simp: size Let_def bind_eq_Some_conv gt data_command_def split: if_splits)
  have "r1 = 0" using sd_try_result [OF 3] r1 by auto
  with 3 have "sd_try 3 hw (data_command is_write (n div 512)) ?block (?e, h0) = Some (0, e', h')" by simp
  from sd_try_effect [OF obs this data_command_word(1-4)] obtain ws where ws: "same_card ?e e'"
    "blocks_to_transfer ?e \<le> 0xffff" "length ws = nat (blocks_to_transfer ?e) * ((unat (ed_block_size ?e) + 3) div 4)"
    "moved ws 0 b (ed_buf e')" "is_write \<longrightarrow> ed_buf e' = b"
    "job h' = (job_of ?e (sd_commands ! unat (data_command is_write (n div 512))) ?block)\<lparr>job_data := ws\<rparr>"
    by (auto simp: data_command_word(5))
  have len: "512 dvd unat n" "4 * length ws = unat n"
  proof -
    have "unat n mod 512 = 0" using dvd by (simp add: word_unat_eq_iff unat_mod_distrib)
    then show "512 dvd unat n" by (simp add: mod_eq_0_iff_dvd)
    then show "4 * length ws = unat n" using ws(3) by (auto simp: size pos)
  qed
  have "job h' = \<lparr>job_blocks = 512 OR push_bit 16 (n div 512), job_arg = ?block,
     job_cmd = sd_commands ! unat (data_command is_write (n div 512)), job_data = ws\<rparr>"
    unfolding ws(6) job_of_def by (simp add: size)
  moreover have "card_supports_sdhc e' = card_supports_sdhc e" using ws(1) by (simp add: same_card_def)
  ultimately show ?thesis
    using d ret r1 len ws(4,5) b' by (intro exI [of _ e'] exI [of _ ws]) simp
qed

section \<open>Hardware without waits\<close>

text \<open>When the counter reads zero every wait ends at once, and reading a register other than
  the data register has no effect.\<close>

definition quiet :: "'h hw \<Rightarrow> bool" where
  "quiet hw \<longleftrightarrow> (\<forall>h. read_clock hw h = (0, h)) \<and> (\<forall>r h. r \<noteq> EMMC_DATA \<longrightarrow> snd (emmc_read hw r h) = h)"

lemma quiet_timer:
  "quiet hw \<Longrightarrow> hw_register_timer hw t h = (\<lparr>trigger_value = 0, rollover = rollover (fst (hw_register_timer hw t h))\<rparr>, h)"
  by (simp add: hw_register_timer_def quiet_def register_timer_def)

lemma quiet_usleep:
  assumes "quiet hw"
  shows "hw_usleep hw t h = Some h"
proof -
  have "read_clock hw h = (0, h)" using assms by (simp add: quiet_def)
  then show ?thesis
    by (subst hw_usleep_def, subst quiet_timer [OF assms]) (simp add: hw_timer_loop.simps compare_timer_def)
qed

lemma quiet_timeout:
  assumes "quiet hw" "r \<noteq> EMMC_DATA"
  shows "hw_timeout_wait hw (emmc_base hw + r) stop t h = Some h"
proof -
  have "read_clock hw h = (0, h)" "snd (mmio_read hw (emmc_base hw + r) h) = h"
    using assms by (simp_all add: quiet_def emmc_read_def)
  then show ?thesis
    by (subst hw_timeout_wait_def, subst quiet_timer [OF assms(1)])
      (auto simp: hw_timeout_loop.simps compare_timer_def split: prod.splits)
qed

lemma quiet_poll:
  assumes "quiet hw" "r \<noteq> EMMC_DATA" "fst (emmc_read hw r h) AND bits = 0"
  shows "poll_clear hw (emmc_base hw + r) bits p h = Some h"
proof -
  have "snd (mmio_read hw (emmc_base hw + r) h) = h" "fst (mmio_read hw (emmc_base hw + r) h) AND bits = 0"
    using assms by (simp_all add: quiet_def emmc_read_def)
  then show ?thesis by (subst poll_clear.simps) (auto split: prod.splits)
qed

section \<open>A card that answers\<close>

text \<open>A sample of hardware whose state is the job: its counter reads zero, the data register
  gives the numbers from zero on, and every command completes at once.\<close>

definition answering :: "sd_job hw" where
  "answering =
     \<lparr>bus_read = (\<lambda>a j. if a = 0x20300030 then (0x21, j) else if a = 0x20300010 then (0x800, j)
         else if a = 0x20300020
           then (word_of_nat (length (job_data j)), j\<lparr>job_data := job_data j @ [word_of_nat (length (job_data j))]\<rparr>)
         else (0, j)),
      bus_write = (\<lambda>a x j. if a = 0x20300004 then j\<lparr>job_blocks := x\<rparr> else if a = 0x20300008 then j\<lparr>job_arg := x\<rparr>
         else if a = 0x2030000c then j\<lparr>job_cmd := x, job_data := []\<rparr>
         else if a = 0x20300020 then j\<lparr>job_data := job_data j @ [x]\<rparr> else j),
      base_adjust = 0, timer_base = 0x20003000, mbox_base = 0x2000b880, uart_base = 0x20201000,
      gpio_base = 0x20200000, emmc_base = 0x20300000\<rparr>"

lemma answering_observes: "observes answering id"
  by (auto simp: observes_def answering_def see_data_def see_write_def emmc_addr_def emmc_regs TIMER_CLO_def)

lemma answering_read:
  "emmc_read answering r j =
     (if r = EMMC_INTERRUPT then (0x21, j) else if r = EMMC_RESP0 then (0x800, j)
      else if r = EMMC_DATA then (word_of_nat (length (job_data j)), j\<lparr>job_data := job_data j @ [word_of_nat (length (job_data j))]\<rparr>)
      else (0, j))"
  by (auto simp: emmc_read_def mmio_read_def answering_def emmc_regs)

lemma answering_quiet: "quiet answering"
  by (simp add: quiet_def answering_read read_clock_def mmio_read_def) (simp add: answering_def TIMER_CLO_def)

lemma answering_usleep [simp]: "hw_usleep answering t j = Some j"
  by (rule quiet_usleep [OF answering_quiet])

lemma answering_timeout [simp]:
  "r \<noteq> EMMC_DATA \<Longrightarrow> hw_timeout_wait answering (emmc_base answering + r) stop t j = Some j"
  by (rule quiet_timeout [OF answering_quiet])

lemma answering_poll [simp]: "poll_clear answering (emmc_base answering + EMMC_STATUS) bits p j = Some j"
  by (rule quiet_poll [OF answering_quiet]) (simp_all add: answering_read, simp_all add: emmc_regs)

lemma answering_wait [simp]: "sd_wait_irpt answering bits t j = Some (0x21, j)"
  by (simp add: sd_wait_irpt_def answering_read) (simp add: emmc_regs)

lemma answering_write:
  "emmc_write answering r x j =
     (if r = EMMC_BLKSIZECNT then j\<lparr>job_blocks := x\<rparr> else if r = EMMC_ARG1 then j\<lparr>job_arg := x\<rparr>
      else if r = EMMC_CMDTM then j\<lparr>job_cmd := x, job_data := []\<rparr>
      else if r = EMMC_DATA then j\<lparr>job_data := job_data j @ [x]\<rparr> else j)"
  by (auto simp: emmc_write_def mmio_write_def answering_def emmc_regs)

lemma EMMC_CONTROL1_other: "EMMC_CONTROL1 \<notin> {EMMC_INTERRUPT, EMMC_RESP0, EMMC_DATA, EMMC_BLKSIZECNT, EMMC_ARG1, EMMC_CMDTM}"
  by (simp add: emmc_regs EMMC_CONTROL1_def)

lemma answering_reset [simp]: "sd_reset_dat answering j = Some (0, j)"
  using EMMC_CONTROL1_other
  by (simp add: sd_reset_dat_def sd_reset_line_def answering_read answering_write)

lemma answering_irpt_read [simp]: "emmc_read answering EMMC_INTERRUPT j = (0x21, j)"
  by (simp add: answering_read)

lemma answering_irpt_write [simp]: "emmc_write answering EMMC_INTERRUPT x j = j"
  by (simp add: answering_write) (simp add: emmc_regs)

lemma answering_interrupts [simp]: "sd_handle_interrupts answering (dev, j) = Some (dev, j)"
  by (simp add: sd_handle_interrupts_def answering_irpt_read answering_irpt_write SD_COMMAND_COMPLETE_def SD_TRANSFER_COMPLETE_def
      SD_BLOCK_GAP_EVENT_def SD_DMA_INTERRUPT_def SD_BUFFER_WRITE_READY_def SD_BUFFER_READ_READY_def SD_CARD_INSERTION_def
      SD_CARD_REMOVAL_def SD_CARD_INTERRUPT_def)

definition ready_card :: emmc_block_dev where
  "ready_card = emmc_zero\<lparr>card_rca := 1, ed_block_size := 512, card_supports_sdhc := 1\<rparr>"

lemma answering_finish:
  "sd_finish_command answering cmd t (dev, j) =
     (let (dev, j) = sd_get_response answering cmd dev j in
      do {
       (ok, dev, j) \<leftarrow>
         (if cmd AND SD_CMD_ISDATA \<noteq> 0
          then sd_transfer_blocks answering (cmd AND SD_CMD_DAT_DIR_CH = 0) t (nat (blocks_to_transfer dev)) 0 dev j
          else Some (True, dev, j));
       if \<not> ok then Some (dev, j)
       else do {
         (ok, dev, j) \<leftarrow>
           (if cmd AND SD_CMD_RSPNS_TYPE_MASK = SD_CMD_RSPNS_TYPE_48B \<or> cmd AND SD_CMD_ISDATA \<noteq> 0
            then sd_wait_transfer answering t dev j else Some (True, dev, j));
         Some (if ok then dev\<lparr>last_cmd_success := True\<rparr> else dev, j) } })"
  by (simp add: sd_finish_command_def answering_irpt_write)

lemma answering_response:
  "cmd AND SD_CMD_RSPNS_TYPE_MASK = SD_CMD_RSPNS_TYPE_48 \<Longrightarrow> sd_get_response answering cmd dev j = (dev\<lparr>last_r0 := 0x800\<rparr>, j)"
  by (simp add: sd_get_response_def answering_read) (simp add: emmc_regs)

lemma answering_issue:
  assumes "\<not> card_removal dev" "blocks_to_transfer dev \<le> 0xffff" "c AND IS_APP_CMD = 0"
    and "table_entry sd_commands c = Some cmd" "cmd \<noteq> SD_CMD_RESERVED 0" "cmd AND SD_CMD_RSPNS_TYPE_MASK \<noteq> SD_CMD_RSPNS_TYPE_48B"
  shows "sd_issue_command answering c a t (dev, j) =
    sd_finish_command answering cmd t (dev\<lparr>last_cmd := c, last_cmd_reg := cmd, last_cmd_success := False\<rparr>, job_of dev cmd a)"
proof -
  have "emmc_write answering EMMC_CMDTM cmd (emmc_write answering EMMC_ARG1 a (emmc_write answering EMMC_BLKSIZECNT
      (ed_block_size dev OR push_bit 16 (word_of_int (blocks_to_transfer dev))) j)) = job_of dev cmd a"
    using job_start [OF answering_observes] by simp
  then show ?thesis
    using assms by (simp add: sd_issue_command_def sd_issue_command_int_def)
qed

lemma answering_status:
  assumes "\<not> card_removal dev" "blocks_to_transfer dev \<le> 0xffff"
  shows "\<exists>j'. sd_check_status answering (dev, j) =
    Some (Some 4, dev\<lparr>last_cmd := SEND_STATUS, last_cmd_reg := 0xd0a0000, last_r0 := 0x800, last_cmd_success := True\<rparr>, j')"
proof -
  have t: "table_entry sd_commands SEND_STATUS = Some 0xd0a0000"
    by (simp add: table_entry_def SEND_STATUS_def sd_commands_def command_words)
  have "sd_issue_command answering SEND_STATUS a 500000 (dev, j) =
     Some (dev\<lparr>last_cmd := SEND_STATUS, last_cmd_reg := 0xd0a0000, last_r0 := 0x800, last_cmd_success := True\<rparr>, job_of dev 0xd0a0000 a)" for a
    by (subst answering_issue [OF assms _ t])
      (simp_all add: answering_finish answering_response SEND_STATUS_def IS_APP_CMD_def SD_CMD_RESERVED_def SD_CMD_RSPNS_TYPE_MASK_def
        SD_CMD_RSPNS_TYPE_48B_def SD_CMD_RSPNS_TYPE_48_def SD_CMD_ISDATA_def)
  then show ?thesis by (simp add: sd_check_status_def)
qed

lemma sd_transfer_words_in:
  "p + 4 * n \<le> length b \<Longrightarrow> \<exists>b' h'. sd_transfer_words hw False n p b h = Some (b', h')"
proof (induction n arbitrary: p b h)
  case (Suc n)
  obtain x h1 where x: "emmc_read hw EMMC_DATA h = (x, h1)" by fastforce
  obtain b1 where b1: "write_word x b p = Some b1" using word_field.wr_ok [of p b x] Suc.prems by auto
  have "p + 4 + 4 * n \<le> length b1" using Suc.prems word_field.wr_length [OF b1] by simp
  from Suc.IH [OF this] show ?case using x b1 by simp
qed simp

lemma answering_read_block:
  assumes "\<not> card_removal dev" "blocks_to_transfer dev = 1" "ed_block_size dev = 512" "512 \<le> length (ed_buf dev)"
  shows "\<exists>dev' j'. sd_issue_command answering READ_SINGLE_BLOCK a t (dev, j) = Some (dev', j') \<and> last_cmd_success dev'"
proof -
  have t: "table_entry sd_commands READ_SINGLE_BLOCK = Some 0x112a0010"
    by (simp add: table_entry_def READ_SINGLE_BLOCK_def sd_commands_def command_words)
  obtain b' j' where w: "sd_transfer_words answering False 128 0 (ed_buf dev) (job_of dev 0x112a0010 a) = Some (b', j')"
    using sd_transfer_words_in [of 0 128 "ed_buf dev" answering "job_of dev 0x112a0010 a"] assms(4) by auto
  have wt: "sd_wait_transfer answering t d j = Some (True, d, j)" for d j
    by (simp add: sd_wait_transfer_def answering_read) (simp add: emmc_regs)
  show ?thesis
    using assms(1-3) w wt
    by (subst answering_issue [OF _ _ _ t])
      (simp_all add: answering_finish answering_response READ_SINGLE_BLOCK_def IS_APP_CMD_def SD_CMD_RESERVED_def SD_CMD_RSPNS_TYPE_MASK_def
        SD_CMD_RSPNS_TYPE_48B_def SD_CMD_RSPNS_TYPE_48_def SD_CMD_ISDATA_def SD_CMD_DAT_DIR_CH_def)
qed

lemma answering_reads:
  "\<exists>b' d h'. sd_transfer answering False (replicate 600 0xff) 512 7 (ready_card, \<lparr>job_blocks = 0, job_arg = 0, job_cmd = 0, job_data = []\<rparr>)
     = Some (512, b', d, h')"
proof -
  let ?j = "\<lparr>job_blocks = 0, job_arg = 0, job_cmd = 0, job_data = []\<rparr>"
  let ?e = "ready_card\<lparr>last_cmd := SEND_STATUS, last_cmd_reg := 0xd0a0000, last_r0 := 0x800, last_cmd_success := True\<rparr>"
  obtain j1 where 1: "sd_check_status answering (ready_card, ?j) = Some (Some 4, ?e, j1)"
    using answering_status [of ready_card ?j] by (auto simp: ready_card_def emmc_zero_def)
  then have 2: "sd_ensure_data_mode answering (ready_card, ?j) = Some (0, Some ?e, j1)"
    by (simp add: sd_ensure_data_mode_def sd_leave_state_def) (simp add: ready_card_def)
  let ?e2 = "?e\<lparr>blocks_to_transfer := 1, ed_buf := replicate 600 0xff\<rparr>"
  obtain dev' j' where 3: "sd_issue_command answering READ_SINGLE_BLOCK 7 5000000 (?e2, j1) = Some (dev', j')" "last_cmd_success dev'"
    using answering_read_block [of ?e2 7 5000000 j1] by (auto simp: ready_card_def emmc_zero_def)
  then have "sd_do_data_command answering False (replicate 600 0xff) 512 7 (?e, j1) = Some (0, ed_buf dev', dev', j')"
    by (simp add: sd_do_data_command_def numeral_3_eq_3 ready_card_def emmc_zero_def)
  with 2 show ?thesis by (simp add: sd_transfer_def)
qed

lemma sd_transfer_moves_data_witness:
  "\<exists>b' d h' ws. sd_transfer answering False (replicate 600 0xff) 512 7
      (ready_card, \<lparr>job_blocks = 0, job_arg = 0, job_cmd = 0, job_data = []\<rparr>) = Some (512, b', d, h')
    \<and> 4 * length ws = 512 \<and> job_data h' = ws \<and> job_blocks h' = 0x10200 \<and> moved ws 0 (replicate 600 0xff) b'"
proof -
  obtain b' d h' where r: "sd_transfer answering False (replicate 600 0xff) 512 7
      (ready_card, \<lparr>job_blocks = 0, job_arg = 0, job_cmd = 0, job_data = []\<rparr>) = Some (512, b', d, h')"
    using answering_reads by blast
  have "ed_block_size ready_card = 512" by (simp add: ready_card_def)
  from sd_transfer_moves_data [OF answering_observes this r] obtain ws where
    "4 * length ws = 512" "job_data h' = ws" "job_blocks h' = 0x10200" "moved ws 0 (replicate 600 0xff) b'"
    by auto
  with r show ?thesis by blast
qed

end
