(* ===== verification/EmmcRetry.thy ===== *)
theory EmmcRetry
  imports EmmcData
begin

text \<open>
  The initialisation of a card that starts over.  A failed switch to 1.8 volts sets
  a flag in the device and calls \<open>sd_card_init\<close> again for that device, so that the switch is
  not tried a second time; but the device is cleared before it is used.  When the function
  returns, and a card for which it does not.
\<close>

section \<open>When the initialisation returns\<close>

inductive sd_restarts :: "'h hw \<Rightarrow> 'h \<Rightarrow> 'h \<Rightarrow> bool" for hw where
  restarts_none: "sd_restarts hw h h"
| restarts_again: "sd_card_attempt hw h = Some (Sd_retry dev, h1) \<Longrightarrow> sd_restarts hw h1 h2 \<Longrightarrow> sd_restarts hw h h2"

definition sd_ends :: "'h hw \<Rightarrow> 'h \<Rightarrow> bool" where
  "sd_ends hw h \<longleftrightarrow> (\<exists>h1 r h2. sd_restarts hw h h1 \<and> sd_card_attempt hw h1 = Some (r, h2) \<and> (\<forall>dev. r \<noteq> Sd_retry dev))"

lemma sd_ends_unfold:
  "sd_ends hw h \<longleftrightarrow> (\<exists>r h1. sd_card_attempt hw h = Some (r, h1) \<and> (\<forall>dev. r = Sd_retry dev \<longrightarrow> sd_ends hw h1))"
  (is "_ \<longleftrightarrow> ?R")
proof
  assume "sd_ends hw h"
  then obtain h1 r h2 where 1: "sd_restarts hw h h1" "sd_card_attempt hw h1 = Some (r, h2)" "\<forall>dev. r \<noteq> Sd_retry dev"
    unfolding sd_ends_def by blast
  from 1(1) show ?R
  proof (cases rule: sd_restarts.cases)
    case restarts_none
    with 1 show ?R by blast
  next
    case (restarts_again dev h3)
    then have "sd_ends hw h3" using 1 unfolding sd_ends_def by blast
    with restarts_again show ?R by blast
  qed
next
  assume ?R
  then obtain r h1 where 1: "sd_card_attempt hw h = Some (r, h1)" "\<forall>dev. r = Sd_retry dev \<longrightarrow> sd_ends hw h1" by blast
  show "sd_ends hw h"
  proof (cases "\<exists>dev. r = Sd_retry dev")
    case True
    with 1 show ?thesis unfolding sd_ends_def by (metis restarts_again)
  next
    case False
    with 1(1) show ?thesis unfolding sd_ends_def by (metis restarts_none)
  qed
qed

lemma sd_card_init_ends:
  assumes "sd_card_init hw d h = Some y"
  shows "sd_ends hw h"
proof (rule sd_card_init.raw_induct [rotated, OF assms, of "\<lambda>hw d h y. sd_ends hw h"])
  fix init :: "'a hw \<Rightarrow> emmc_block_dev option \<Rightarrow> 'a \<Rightarrow> (int \<times> emmc_block_dev option \<times> 'a) option" and hw d h y
  assume IH: "\<And>hw d h y. init hw d h = Some y \<Longrightarrow> sd_ends hw h"
    and step: "do {
       (r, h) \<leftarrow> sd_card_attempt hw h;
       (case r of
          Sd_early \<Rightarrow> Some (-1, d, h)
        | Sd_failed dev \<Rightarrow> Some (-1, if d = None then None else Some dev, h)
        | Sd_freed \<Rightarrow> Some (-1, None, h)
        | Sd_retry dev \<Rightarrow> do {
            (ret, d', h) \<leftarrow> init hw (Some dev) h;
            Some (ret, if d = None then None else d', h) }
        | Sd_ready dev \<Rightarrow> Some (0, Some dev, h)) } = Some y"
  show "sd_ends hw h"
    using step IH by (subst sd_ends_unfold) (fastforce simp: bind_eq_Some_conv)
qed

lemma sd_card_init_returns:
  assumes "sd_restarts hw h h1" "sd_card_attempt hw h1 = Some (r, h2)" "\<forall>dev. r \<noteq> Sd_retry dev"
  shows "\<exists>y. sd_card_init hw d h = Some y"
  using assms
proof (induction arbitrary: d rule: sd_restarts.induct)
  case (restarts_none h)
  then show ?case by (subst sd_card_init.simps) (cases r; simp)
next
  case (restarts_again h dev h1 h2)
  then obtain y where "sd_card_init hw (Some dev) h1 = Some y" by blast
  with restarts_again(1) show ?case by (subst sd_card_init.simps) (simp split: prod.splits)
qed


section \<open>A card that refuses the lower voltage\<close>

text \<open>The state of this hardware is the last command; the card offers 1.8 volts and its lines
  stay high after the command for the switch.\<close>

definition refusing :: "u32 hw" where
  "refusing =
     \<lparr>bus_read = (\<lambda>a c. (if a = 0x20300024 then 0x00f10000 else if a = 0x2030002c then 2
         else if a = 0x20300030 then (if c = 0x5010000 then 0 else 1)
         else if a = 0x20300010 then (if c = 0x80a0000 then 0x1aa else 0x81ff8000)
         else if a = 0x2000b880 then 8 else 0, c)),
      bus_write = (\<lambda>a x c. if a = 0x2030000c then x else c),
      base_adjust = 0, timer_base = 0x20003000, mbox_base = 0x2000b880, uart_base = 0x20201000,
      gpio_base = 0x20200000, emmc_base = 0x20300000\<rparr>"

lemmas all_regs = emmc_regs EMMC_CONTROL0_def EMMC_CONTROL1_def EMMC_CONTROL2_def EMMC_IRPT_MASK_def EMMC_IRPT_EN_def
  EMMC_CAPABILITIES_0_def EMMC_CAPABILITIES_1_def EMMC_SLOTISR_VER_def

lemma refusing_read:
  "emmc_read refusing EMMC_STATUS c = (0x00f10000, c)" "emmc_read refusing EMMC_CONTROL1 c = (2, c)"
  "emmc_read refusing EMMC_CONTROL0 c = (0, c)" "emmc_read refusing EMMC_CAPABILITIES_0 c = (0, c)"
  "emmc_read refusing EMMC_CAPABILITIES_1 c = (0, c)" "emmc_read refusing EMMC_SLOTISR_VER c = (0, c)"
  "emmc_read refusing EMMC_INTERRUPT c = (if c = 0x5010000 then 0 else 1, c)"
  "emmc_read refusing EMMC_RESP0 c = (if c = 0x80a0000 then 0x1aa else 0x81ff8000, c)"
  by (simp_all add: emmc_read_def mmio_read_def refusing_def all_regs)

lemma refusing_write:
  "emmc_write refusing r x c = (if r = EMMC_CMDTM then x else c)"
  by (simp add: emmc_write_def mmio_write_def refusing_def all_regs)

lemma refusing_quiet: "quiet refusing"
  by (simp add: quiet_def read_clock_def mmio_read_def emmc_read_def refusing_def TIMER_CLO_def)

lemmas quiet_all = quiet_usleep [OF refusing_quiet] quiet_timeout [OF refusing_quiet]

lemma refusing_poll:
  "bits AND 0x00f10000 = 0 \<Longrightarrow> poll_clear refusing (emmc_base refusing + EMMC_STATUS) bits p c = Some c"
  by (rule quiet_poll [OF refusing_quiet]) (simp_all add: refusing_read and.commute, simp add: all_regs)

lemma refusing_mail_write: "mbox_write refusing ch x c = Some c"
  by (simp add: mbox_write_def poll_clear.simps mmio_read_def mmio_write_def refusing_def MBOX_STATUS_def MBOX_WRITE_def)

lemma refusing_mail_read: "mbox_read refusing 8 c = Some (0, c)"
  by (simp add: mbox_read.simps poll_clear.simps mmio_read_def refusing_def MBOX_STATUS_def MBOX_READ_def)

lemma refusing_mail_words: "addr \<in> {0x7000, 0x40007000} \<Longrightarrow> mail_words refusing addr [a, b, c, d, e, f, g, k] s = s"
  by (auto simp: refusing_def)

lemma refusing_mail: "addr \<in> {0x7000, 0x40007000} \<Longrightarrow> mail_call refusing addr [a, b, c, d, e, f, g, k] s = Some s"
  by (auto simp: mail_call_def MBOX_PROP_def refusing_mail_write refusing_mail_read refusing_mail_words
      simp del: mail_words.simps)

lemma refusing_mail_word: "addr \<in> {0x7000, 0x40007000} \<Longrightarrow> mail_word refusing addr (Suc 0) c = (0, c)"
  by (auto simp: mail_word_def refusing_def)

lemma refusing_power: "bcm_2708_power_cycle refusing c = Some (-1, c)"
  by (simp add: bcm_2708_power_cycle_def bcm_2708_power_off_def bcm_2708_power_def refusing_mail refusing_mail_word MBOX_SUCCESS_def)

lemma refusing_clock: "sd_get_base_clock_hz refusing c = Some (0, c)"
  by (simp add: sd_get_base_clock_hz_def refusing_mail refusing_mail_word MBOX_SUCCESS_def)

lemma divider_ok: "sd_get_clock_divider base target \<noteq> SD_GET_CLOCK_DIVIDER_FAIL"
proof -
  have "\<exists>x y. sd_get_clock_divider base target = push_bit 8 x OR push_bit 6 y"
    unfolding sd_get_clock_divider_def Let_def by blast
  then have "\<not> bit (sd_get_clock_divider base target) 0" by (auto simp: bit_simps)
  then show ?thesis unfolding SD_GET_CLOCK_DIVIDER_FAIL_def by (metis bit_numeral_iff bit_numeral_Bit1_0)
qed

lemma regs_apart [simp]:
  "EMMC_STATUS \<noteq> EMMC_DATA" "EMMC_CONTROL1 \<noteq> EMMC_DATA" "EMMC_INTERRUPT \<noteq> EMMC_DATA"
  "EMMC_CONTROL0 \<noteq> EMMC_CMDTM" "EMMC_CONTROL1 \<noteq> EMMC_CMDTM" "EMMC_CONTROL2 \<noteq> EMMC_CMDTM" "EMMC_INTERRUPT \<noteq> EMMC_CMDTM"
  "EMMC_IRPT_MASK \<noteq> EMMC_CMDTM" "EMMC_IRPT_EN \<noteq> EMMC_CMDTM" "EMMC_ARG1 \<noteq> EMMC_CMDTM" "EMMC_BLKSIZECNT \<noteq> EMMC_CMDTM"
  by (simp_all add: all_regs)

lemma refusing_start: "sd_start_controller refusing c = Some (Some 100000000, c)"
  by (simp add: sd_start_controller_def refusing_power refusing_clock refusing_read refusing_write quiet_all divider_ok Let_def)

lemma refusing_switch_clock: "sd_switch_clock_rate refusing base target c = Some (0, c)"
  by (simp add: sd_switch_clock_rate_def divider_ok refusing_poll refusing_read refusing_write quiet_all)

lemma refusing_power_off: "sd_power_off refusing c = c"
  by (simp add: sd_power_off_def refusing_read refusing_write)

section \<open>Its commands\<close>

lemma refusing_interrupts: "sd_handle_interrupts refusing (dev, c) = Some (dev, c)"
  by (cases "c = 0x5010000")
    (simp_all add: sd_handle_interrupts_def refusing_read refusing_write SD_COMMAND_COMPLETE_def SD_TRANSFER_COMPLETE_def
      SD_BLOCK_GAP_EVENT_def SD_DMA_INTERRUPT_def SD_BUFFER_WRITE_READY_def SD_BUFFER_READ_READY_def SD_CARD_INSERTION_def
      SD_CARD_REMOVAL_def SD_CARD_INTERRUPT_def)

lemma refusing_wait: "sd_wait_irpt refusing bits t c = Some (if c = 0x5010000 then 0 else 1, c)"
  by (simp add: sd_wait_irpt_def refusing_read quiet_all)

text \<open>A command without data and without busy.\<close>

definition answer :: "u32 \<Rightarrow> u32 \<Rightarrow> u32" where
  "answer cmd r = (if cmd AND SD_CMD_RSPNS_TYPE_MASK = SD_CMD_RSPNS_TYPE_48 then if cmd = 0x80a0000 then 0x1aa else 0x81ff8000 else r)"

lemma refusing_command:
  assumes "blocks_to_transfer dev = 0" "cmd AND SD_CMD_ISDATA = 0" "cmd AND SD_CMD_RSPNS_TYPE_MASK \<noteq> SD_CMD_RSPNS_TYPE_48B"
    "cmd AND SD_CMD_RSPNS_TYPE_MASK \<noteq> SD_CMD_RSPNS_TYPE_136" "cmd \<noteq> 0x5010000"
  shows "sd_issue_command_int refusing cmd a t (dev, c) =
    Some (dev\<lparr>last_cmd_reg := cmd, last_r0 := answer cmd (last_r0 dev), last_cmd_success := True\<rparr>, cmd)"
  using assms
  by (cases "cmd AND SD_CMD_RSPNS_TYPE_MASK = SD_CMD_RSPNS_TYPE_48")
    (auto simp: sd_issue_command_int_def sd_finish_command_def refusing_poll refusing_write refusing_wait quiet_all sd_get_response_def refusing_read
      answer_def intro!: emmc_block_dev.equality)

lemma refusing_cmd5:
  assumes "blocks_to_transfer dev = 0"
  shows "sd_issue_command_int refusing 0x5010000 a t (dev, c) =
    Some (dev\<lparr>last_cmd_reg := 0x5010000, last_cmd_success := False, last_error := 0, last_interrupt := 0\<rparr>, 0x5010000)"
  using assms
  by (simp add: sd_issue_command_int_def sd_finish_command_def refusing_poll refusing_write refusing_wait quiet_all sd_irpt_error_def
      SD_CMD_RSPNS_TYPE_MASK_def SD_CMD_RSPNS_TYPE_48B_def)

lemmas cmd_masks = SD_CMD_ISDATA_def SD_CMD_RSPNS_TYPE_MASK_def SD_CMD_RSPNS_TYPE_48B_def SD_CMD_RSPNS_TYPE_136_def
  SD_CMD_RSPNS_TYPE_48_def SD_CMD_RESERVED_def IS_APP_CMD_def

lemma entries:
  "table_entry sd_commands 0 = Some 0" "table_entry sd_commands 8 = Some 0x80a0000" "table_entry sd_commands 5 = Some 0x5010000"
  "table_entry sd_commands 11 = Some 0xb0a0000" "sd_commands ! 55 = 0x370a0000" "table_entry sd_acommands 41 = Some 0x29020000"
  by (simp_all add: table_entry_def sd_commands_def sd_acommands_def SD_CMD_INDEX_def SD_RESP_R1_def SD_RESP_R3_def SD_RESP_R4_def
      SD_RESP_R7_def SD_CMD_RSPNS_TYPE_48_def SD_CMD_RSPNS_TYPE_136_def SD_CMD_CRCCHK_EN_def)

lemma refusing_issue:
  assumes "\<not> card_removal dev" "blocks_to_transfer dev = 0"
  shows "sd_issue_command refusing GO_IDLE_STATE a t (dev, c) =
      Some (dev\<lparr>last_cmd := 0, last_cmd_reg := 0, last_cmd_success := True\<rparr>, 0)"
    and "sd_issue_command refusing SEND_IF_COND a t (dev, c) =
      Some (dev\<lparr>last_cmd := 8, last_cmd_reg := 0x80a0000, last_r0 := 0x1aa, last_cmd_success := True\<rparr>, 0x80a0000)"
    and "sd_issue_command refusing IO_SET_OP_COND a t (dev, c) =
      Some (dev\<lparr>last_cmd := 5, last_cmd_reg := 0x5010000, last_cmd_success := False, last_error := 0, last_interrupt := 0\<rparr>, 0x5010000)"
    and "sd_issue_command refusing VOLTAGE_SWITCH a t (dev, c) =
      Some (dev\<lparr>last_cmd := 11, last_cmd_reg := 0xb0a0000, last_r0 := 0x81ff8000, last_cmd_success := True\<rparr>, 0xb0a0000)"
    and "sd_issue_command refusing (ACMD 41) a t (dev, c) =
      Some (dev\<lparr>last_cmd := 0x80000029, last_cmd_reg := 0x29020000, last_r0 := 0x81ff8000, last_cmd_success := True\<rparr>, 0x29020000)"
  using assms
  by (simp_all add: sd_issue_command_def refusing_interrupts refusing_command refusing_cmd5 entries cmd_masks answer_def
      GO_IDLE_STATE_def SEND_IF_COND_def IO_SET_OP_COND_def VOLTAGE_SWITCH_def ACMD_def APP_CMD_def)

lemma refusing_identify:
  "\<exists>dev. sd_identify refusing (emmc_zero\<lparr>base_clock := f\<rparr>, c) = Some (Inr dev, 0x29020000)
    \<and> card_supports_18v dev = 1 \<and> \<not> card_removal dev \<and> blocks_to_transfer dev = 0"
  by (simp add: sd_identify_def sd_check_version_def sd_check_sdio_def TIMEOUT_def CMD_TIMEOUT_def emmc_zero_def refusing_issue
      sd_init_loop.simps)

lemma refusing_attempt: "\<exists>dev. sd_card_attempt refusing c = Some (Sd_retry dev, 0xb0a0000)"
proof -
  obtain dev where "sd_identify refusing (emmc_zero\<lparr>base_clock := 100000000\<rparr>, c) = Some (Inr dev, 0x29020000)"
    "card_supports_18v dev = 1" "\<not> card_removal dev" "blocks_to_transfer dev = 0"
    using refusing_identify by blast
  then show ?thesis
    by (simp add: sd_card_attempt_def refusing_start refusing_switch_clock quiet_all sd_voltage_switch_def refusing_issue
        refusing_read refusing_write sd_give_up_switch_def refusing_power_off)
qed

text \<open>So the initialisation of this card never returns.\<close>

lemma refusing_never_returns: "sd_card_init refusing d c = None"
proof -
  have "\<not> sd_ends refusing c"
  proof
    assume "sd_ends refusing c"
    then obtain h1 r h2 where 1: "sd_restarts refusing c h1" "sd_card_attempt refusing h1 = Some (r, h2)" "\<forall>dev. r \<noteq> Sd_retry dev"
      unfolding sd_ends_def by blast
    with refusing_attempt [of h1] show False by auto
  qed
  then show ?thesis using sd_card_init_ends [of refusing d c] by (cases "sd_card_init refusing d c") auto
qed

end
