(* ===== verification/Console.thy ===== *)
theory Console
  imports Font CString Mmio "HOL-Library.Signed_Division"
begin

text \<open>
  The frame buffer and the console on it: fb.c and console.c with the built-in font.  The
  frame buffer is a buffer whose length is the size that the firmware gives; a screen is
  its geometry, the cursor and the colours.  The signed offsets of the code are \<open>int\<close>; an
  access outside the frame buffer or the font is \<open>None\<close>.
\<close>

section \<open>The frame buffer\<close>

definition WIDTH :: u32 where "WIDTH = 640"
definition HEIGHT :: u32 where "HEIGHT = 480"
definition BYTES_PER_PIXEL :: int where "BYTES_PER_PIXEL = 2"
definition BPP :: int where "BPP = 16"
definition TAG_GET_PHYS_WH :: u32 where "TAG_GET_PHYS_WH = 0x40003"
definition TAG_SET_PHYS_WH :: u32 where "TAG_SET_PHYS_WH = 0x48003"
definition TAG_SET_VIRT_WH :: u32 where "TAG_SET_VIRT_WH = 0x48004"
definition TAG_SET_DEPTH :: u32 where "TAG_SET_DEPTH = 0x48005"
definition TAG_ALLOCATE_BUFFER :: u32 where "TAG_ALLOCATE_BUFFER = 0x40001"
definition TAG_GET_PITCH :: u32 where "TAG_GET_PITCH = 0x40008"
definition FB_FAIL_GET_RESOLUTION :: int where "FB_FAIL_GET_RESOLUTION = -1"
definition FB_FAIL_INVALID_RESOLUTION :: int where "FB_FAIL_INVALID_RESOLUTION = -2"
definition FB_FAIL_SETUP_FB :: int where "FB_FAIL_SETUP_FB = -3"
definition FB_FAIL_INVALID_TAG_RESPONSE :: int where "FB_FAIL_INVALID_TAG_RESPONSE = -5"
definition FB_FAIL_INVALID_TAG_DATA :: int where "FB_FAIL_INVALID_TAG_DATA = -6"
definition FB_FAIL_INVALID_PITCH_RESPONSE :: int where "FB_FAIL_INVALID_PITCH_RESPONSE = -7"
definition FB_FAIL_INVALID_PITCH_DATA :: int where "FB_FAIL_INVALID_PITCH_DATA = -8"

record fb_state =
  phys_w :: u32
  phys_h :: u32
  virt_w :: u32
  virt_h :: u32
  pitch :: u32
  fb_addr :: u32
  fb_size :: u32

text \<open>The display size, the allocation with the returned address and size, and the pitch: the
  three messages of \<open>fb_init\<close>.\<close>

definition fb_resolution :: "'h hw \<Rightarrow> fb_state \<Rightarrow> 'h \<Rightarrow> (int \<times> fb_state \<times> 'h) option" where
  "fb_resolution hw fb h = do {
     h \<leftarrow> mail_call hw 0x7000 [32, 0, TAG_GET_PHYS_WH, 8, 0, 0, 0, 0] h;
     let (code, h) = mail_word hw 0x7000 1 h;
     if code \<noteq> MBOX_SUCCESS then Some (FB_FAIL_GET_RESOLUTION, fb, h)
     else
       let (w, h) = mail_word hw 0x7000 5 h;
           (ht, h) = mail_word hw 0x7000 6 h;
           fb = fb\<lparr>phys_w := w, phys_h := ht\<rparr>;
           fb = (if w = 0 \<and> ht = 0 then fb\<lparr>phys_w := WIDTH, phys_h := HEIGHT\<rparr> else fb)
       in if phys_w fb = 0 \<or> phys_h fb = 0 then Some (FB_FAIL_INVALID_RESOLUTION, fb, h)
          else Some (0, fb\<lparr>virt_w := phys_w fb, virt_h := phys_h fb\<rparr>, h) }"

definition fb_allocate :: "'h hw \<Rightarrow> fb_state \<Rightarrow> 'h \<Rightarrow> (int \<times> fb_state \<times> 'h) option" where
  "fb_allocate hw fb h = do {
     h \<leftarrow> mail_call hw 0x7000
        [88, 0, TAG_SET_PHYS_WH, 8, 8, phys_w fb, phys_h fb, TAG_SET_VIRT_WH, 8, 8, virt_w fb, virt_h fb,
         TAG_SET_DEPTH, 4, 4, word_of_int BPP, TAG_ALLOCATE_BUFFER, 8, 4, 16, 0, 0] h;
     let (code, h) = mail_word hw 0x7000 1 h;
     if code \<noteq> MBOX_SUCCESS then Some (FB_FAIL_SETUP_FB, fb, h)
     else
       let (tag, h) = mail_word hw 0x7000 18 h in
       if tag \<noteq> MBOX_SUCCESS OR 8 then Some (FB_FAIL_INVALID_TAG_RESPONSE, fb, h)
       else
         let (addr, h) = mail_word hw 0x7000 19 h;
             (size, h) = mail_word hw 0x7000 20 h;
             fb = fb\<lparr>fb_addr := addr, fb_size := size\<rparr>
         in Some (if addr = 0 \<or> size = 0 then FB_FAIL_INVALID_TAG_DATA else 0, fb, h) }"

definition fb_read_pitch :: "'h hw \<Rightarrow> fb_state \<Rightarrow> 'h \<Rightarrow> (int \<times> fb_state \<times> 'h) option" where
  "fb_read_pitch hw fb h = do {
     h \<leftarrow> mail_call hw 0x7000 [28, 0, TAG_GET_PITCH, 4, 0, 0, 0] h;
     let (code, h) = mail_word hw 0x7000 1 h;
     if code \<noteq> MBOX_SUCCESS then Some (FB_FAIL_INVALID_PITCH_RESPONSE, fb, h)
     else
       let (tag, h) = mail_word hw 0x7000 4 h in
       if tag \<noteq> MBOX_SUCCESS OR 4 then Some (FB_FAIL_INVALID_PITCH_RESPONSE, fb, h)
       else
         let (p, h) = mail_word hw 0x7000 5 h
         in Some (if p = 0 then FB_FAIL_INVALID_PITCH_DATA else 0, fb\<lparr>pitch := p\<rparr>, h) }"

definition fb_init :: "'h hw \<Rightarrow> fb_state \<Rightarrow> 'h \<Rightarrow> (int \<times> fb_state \<times> 'h) option" where
  "fb_init hw fb h = do {
     (r, fb, h) \<leftarrow> fb_resolution hw fb h;
     if r \<noteq> 0 then Some (r, fb, h)
     else do {
       (r, fb, h) \<leftarrow> fb_allocate hw fb h;
       if r \<noteq> 0 then Some (r, fb, h) else fb_read_pitch hw fb h } }"

definition fb_get_bpp :: int where "fb_get_bpp = BPP"

definition fb_get_byte_size :: "fb_state \<Rightarrow> int" where
  "fb_get_byte_size fb = sint (virt_w fb * virt_h fb * word_of_int BYTES_PER_PIXEL)"

definition fb_get_width :: "fb_state \<Rightarrow> int" where "fb_get_width fb = sint (virt_w fb)"
definition fb_get_height :: "fb_state \<Rightarrow> int" where "fb_get_height fb = sint (virt_h fb)"
definition fb_get_pitch :: "fb_state \<Rightarrow> int" where "fb_get_pitch fb = sint (pitch fb)"

section \<open>The console\<close>

definition CHAR_W :: int where "CHAR_W = 8"
definition CHAR_H :: int where "CHAR_H = 8"
definition DEF_FORE :: u32 where "DEF_FORE = 0xffffffff"
definition DEF_BACK :: u32 where "DEF_BACK = 0"

record screen =
  scr_fb :: fb_state
  scr_mem :: buf
  cur_x :: int
  cur_y :: int
  cur_fore :: u32
  cur_back :: u32

definition screen_start :: "fb_state \<Rightarrow> buf \<Rightarrow> screen" where
  "screen_start fb m = \<lparr>scr_fb = fb, scr_mem = m, cur_x = 0, cur_y = 0, cur_fore = DEF_FORE, cur_back = DEF_BACK\<rparr>"

text \<open>Offsets are signed.\<close>

definition put_at :: "buf \<Rightarrow> int \<Rightarrow> u8 \<Rightarrow> buf option" where
  "put_at m i v = (if i < 0 then None else put_byte m (nat i) v)"

definition fill_at :: "buf \<Rightarrow> int \<Rightarrow> int \<Rightarrow> buf option" where
  "fill_at m i n = (if i < 0 \<or> n < 0 then None else memset m (nat i) 0 (nat n))"

definition copy_at :: "buf \<Rightarrow> int \<Rightarrow> int \<Rightarrow> int \<Rightarrow> buf option" where
  "copy_at m d s n = (if d < 0 \<or> s < 0 \<or> n < 0 then None else quick_memcpy m (nat d) (nat s) (nat n))"

text \<open>Lines from l on, n of them: clearing, and copying from the line of characters below.\<close>

primrec clear_lines :: "int \<Rightarrow> int \<Rightarrow> nat \<Rightarrow> int \<Rightarrow> buf \<Rightarrow> buf option" where
  "clear_lines p line_byte_width 0 l m = Some m"
| "clear_lines p line_byte_width (Suc n) l m = do {
     m \<leftarrow> fill_at m (l * p) line_byte_width;
     clear_lines p line_byte_width n (l + 1) m }"

primrec scroll_lines :: "int \<Rightarrow> int \<Rightarrow> nat \<Rightarrow> int \<Rightarrow> buf \<Rightarrow> buf option" where
  "scroll_lines p line_byte_width 0 l m = Some m"
| "scroll_lines p line_byte_width (Suc n) l m = do {
     m \<leftarrow> copy_at m (l * p) ((l + CHAR_H) * p) line_byte_width;
     scroll_lines p line_byte_width n (l + 1) m }"

definition line_byte_width_of :: "fb_state \<Rightarrow> int" where
  "line_byte_width_of fb = fb_get_width fb * (fb_get_bpp div 8)"

definition clear :: "screen \<Rightarrow> screen option" where
  "clear s = do {
     let fb = scr_fb s;
     m \<leftarrow> clear_lines (fb_get_pitch fb) (line_byte_width_of fb) (nat (fb_get_height fb)) 0 (scr_mem s);
     Some (s\<lparr>scr_mem := m, cur_x := 0, cur_y := 0\<rparr>) }"

definition newline :: "screen \<Rightarrow> screen option" where
  "newline s =
     (let s = s\<lparr>cur_y := cur_y s + 1, cur_x := 0\<rparr>;
          fb = scr_fb s;
          ht = fb_get_height fb
      in if cur_y s = ht sdiv CHAR_H then do {
           m \<leftarrow> scroll_lines (fb_get_pitch fb) (line_byte_width_of fb) (nat (ht - CHAR_H)) 0 (scr_mem s);
           m \<leftarrow> clear_lines (fb_get_pitch fb) (line_byte_width_of fb) (nat CHAR_H) (ht - CHAR_H) m;
           Some (s\<lparr>scr_mem := m, cur_y := cur_y s - 1\<rparr>) }
         else Some s)"

text \<open>A character: pixels of a line, lines of the character.\<close>

primrec put_colour :: "nat \<Rightarrow> int \<Rightarrow> u32 \<Rightarrow> buf \<Rightarrow> buf option" where
  "put_colour 0 d colour m = Some m"
| "put_colour (Suc n) d colour m = do {
     m \<leftarrow> put_at m d (ucast (colour AND 0xff));
     put_colour n (d + 1) (drop_bit 8 colour) m }"

definition font_byte :: "int \<Rightarrow> u8 option" where
  "font_byte i = (if 0 \<le> i \<and> nat i < length vgafont8 then Some (vgafont8 ! nat i) else None)"

primrec draw_line :: "nat \<Rightarrow> u32 \<Rightarrow> u32 \<Rightarrow> int \<Rightarrow> int \<Rightarrow> buf \<Rightarrow> buf option" where
  "draw_line 0 fore back d_offset s_offset m = Some m"
| "draw_line (Suc n) fore back d_offset s_offset m = do {
     s_byte \<leftarrow> font_byte (s_offset sdiv 8);
     let colour = (if drop_bit (nat (7 - s_offset smod 8)) s_byte AND 1 \<noteq> 0 then fore else back);
     m \<leftarrow> put_colour (nat (fb_get_bpp div 8)) d_offset colour m;
     draw_line n fore back (d_offset + fb_get_bpp div 8) (s_offset + 1) m }"

primrec draw_lines :: "nat \<Rightarrow> int \<Rightarrow> u32 \<Rightarrow> u32 \<Rightarrow> int \<Rightarrow> int \<Rightarrow> buf \<Rightarrow> buf option" where
  "draw_lines 0 p fore back d_offset s_offset m = Some m"
| "draw_lines (Suc n) p fore back d_offset s_offset m = do {
     m \<leftarrow> draw_line (nat CHAR_W) fore back d_offset s_offset m;
     draw_lines n p fore back (d_offset + p) (s_offset + CHAR_W) m }"

text \<open>The plain \<open>char\<close> of the target has no sign.\<close>

definition draw_char :: "u8 \<Rightarrow> int \<Rightarrow> int \<Rightarrow> u32 \<Rightarrow> u32 \<Rightarrow> screen \<Rightarrow> screen option" where
  "draw_char c x y fore back s = do {
     let p = fb_get_pitch (scr_fb s);
     m \<leftarrow> draw_lines (nat CHAR_H) p fore back (y * CHAR_H * p + x * (fb_get_bpp div 8) * CHAR_W)
        (uint c * CHAR_W * CHAR_H) (scr_mem s);
     Some (s\<lparr>scr_mem := m\<rparr>) }"

definition console_putc :: "int \<Rightarrow> screen \<Rightarrow> (int \<times> screen) option" where
  "console_putc c s = do {
     let line_w = fb_get_width (scr_fb s) sdiv CHAR_W;
     s \<leftarrow> (if c = 10 then newline s
          else do {
            s \<leftarrow> draw_char (word_of_int c) (cur_x s) (cur_y s) (cur_fore s) (cur_back s) s;
            let s = s\<lparr>cur_x := cur_x s + 1\<rparr>;
            if cur_x s = line_w then newline s else Some s });
     Some (c, s) }"

end
