(* ===== verification/Stdio.thy ===== *)
theory Stdio
  imports CString
begin

text \<open>
  The output functions of stdio.c and stream.c.  The three function pointers are a
  record; what they write to is the type variable.
\<close>

datatype 'f stream = Stdout | Stderr | Stream 'f

record ('f, 'w) streams =
  stdout_putc :: "int \<Rightarrow> 'w \<Rightarrow> (int \<times> 'w) option"
  stderr_putc :: "int \<Rightarrow> 'w \<Rightarrow> (int \<times> 'w) option"
  stream_putc :: "int \<Rightarrow> 'f \<Rightarrow> 'w \<Rightarrow> (int \<times> 'w) option"

definition def_stream_putc :: "int \<Rightarrow> 'f \<Rightarrow> 'w \<Rightarrow> (int \<times> 'w) option" where
  "def_stream_putc c stream w = Some (0, w)"

definition lowercase :: "u8 list" where
  "lowercase = [48, 49, 50, 51, 52, 53, 54, 55, 56, 57, 97, 98, 99, 100, 101, 102]"

text \<open>The table for upper case has the same letters.\<close>

definition uppercase :: "u8 list" where
  "uppercase = [48, 49, 50, 51, 52, 53, 54, 55, 56, 57, 97, 98, 99, 100, 101, 102]"

definition fputc :: "('f, 'w) streams \<Rightarrow> int \<Rightarrow> 'f stream \<Rightarrow> 'w \<Rightarrow> (int \<times> 'w) option" where
  "fputc io c stream w =
     (case stream of Stdout \<Rightarrow> stdout_putc io c w | Stderr \<Rightarrow> stderr_putc io c w | Stream f \<Rightarrow> stream_putc io c f w)"

definition putc :: "('f, 'w) streams \<Rightarrow> int \<Rightarrow> 'f stream \<Rightarrow> 'w \<Rightarrow> (int \<times> 'w) option" where
  "putc io c stream w = fputc io c stream w"

definition putchar :: "('f, 'w) streams \<Rightarrow> int \<Rightarrow> 'w \<Rightarrow> (int \<times> 'w) option" where
  "putchar io c w = fputc io c Stdout w"

text \<open>The characters of a string before its end.\<close>

primrec fputs :: "('f, 'w) streams \<Rightarrow> u8 list \<Rightarrow> 'f stream \<Rightarrow> 'w \<Rightarrow> (int \<times> 'w) option" where
  "fputs io [] stream w = Some (0, w)"
| "fputs io (c # cs) stream w = do {
     (_, w) \<leftarrow> fputc io (uint c) stream w;
     fputs io cs stream w }"

definition puts :: "('f, 'w) streams \<Rightarrow> u8 list \<Rightarrow> 'w \<Rightarrow> (int \<times> 'w) option" where
  "puts io s w = do {
     (_, w) \<leftarrow> fputs io s Stdout w;
     (_, w) \<leftarrow> fputc io 10 Stdout w;
     Some (0, w) }"

text \<open>The digits from number i - 1 down.\<close>

primrec puthex_loop :: "('f, 'w) streams \<Rightarrow> u32 \<Rightarrow> nat \<Rightarrow> 'w \<Rightarrow> 'w option" where
  "puthex_loop io val 0 w = Some w"
| "puthex_loop io val (Suc i) w = do {
     (_, w) \<leftarrow> putchar io (uint (lowercase ! unat (drop_bit (i * 4) val AND 0xf))) w;
     puthex_loop io val i w }"

definition puthex :: "('f, 'w) streams \<Rightarrow> u32 \<Rightarrow> 'w \<Rightarrow> 'w option" where
  "puthex io val w = puthex_loop io val 8 w"

text \<open>A number into a buffer, from the right.  The digits go to the last places counted
  from the start, which are outside the buffer when the start is not zero.\<close>

definition put_dest :: "buf \<Rightarrow> int \<Rightarrow> u8 \<Rightarrow> buf option" where
  "put_dest dest i c = (if i < 0 then None else put_byte dest (nat i) c)"

primrec putval_pad :: "nat \<Rightarrow> int \<Rightarrow> buf \<Rightarrow> buf option" where
  "putval_pad 0 i dest = Some dest"
| "putval_pad (Suc n) i dest = do {
     dest \<leftarrow> put_dest dest i 48;
     putval_pad n (i + 1) dest }"

function putval_digits :: "u32 \<Rightarrow> int \<Rightarrow> int \<Rightarrow> int \<Rightarrow> u8 list \<Rightarrow> int \<Rightarrow> buf \<Rightarrow> buf option" where
  "putval_digits val base dest_size dest_start case_str i dest =
     (if val = 0 \<or> i \<ge> dest_size - dest_start then Some dest
      else if word_of_int base = (0 :: u32) then None
      else
        let digit = val mod word_of_int base in
        do {
          c \<leftarrow> get_byte case_str (unat digit);
          dest \<leftarrow> put_dest dest (dest_size - i - 1 + dest_start) c;
          putval_digits (val div word_of_int base) base dest_size dest_start case_str (i + 1) dest })"
  by pat_completeness auto
termination by (relation "measure (\<lambda>(val, base, dest_size, dest_start, case_str, i, dest). nat (dest_size - dest_start - i))") auto

declare putval_digits.simps [simp del]

definition putval :: "u32 \<Rightarrow> int \<Rightarrow> buf \<Rightarrow> int \<Rightarrow> int \<Rightarrow> int \<Rightarrow> u8 list \<Rightarrow> buf option" where
  "putval val base dest dest_size dest_start padding case_str = do {
     let padding = (if padding > dest_size - dest_start then dest_size - dest_start else padding);
     dest \<leftarrow> putval_pad (nat padding) dest_start dest;
     putval_digits val base dest_size dest_start case_str 0 dest }"

end
