(* ===== verification/Terminal.thy ===== *)
theory Terminal
  imports Console Stdio
begin

text \<open>
  The console of console.c refines a terminal of characters: an array of cells with a
  cursor, which goes to the next line at the right edge and moves all lines up at the
  bottom.
\<close>

section \<open>The terminal\<close>

record terminal =
  t_cell :: "nat \<Rightarrow> nat \<Rightarrow> u8"
  t_x :: nat
  t_y :: nat

definition t_blank :: terminal where
  "t_blank = \<lparr>t_cell = (\<lambda>r c. 0x20), t_x = 0, t_y = 0\<rparr>"

definition t_newline :: "nat \<Rightarrow> terminal \<Rightarrow> terminal" where
  "t_newline rows t =
     (if Suc (t_y t) = rows then t\<lparr>t_cell := (\<lambda>r c. if Suc r < rows then t_cell t (Suc r) c else 0x20), t_x := 0\<rparr>
      else t\<lparr>t_x := 0, t_y := Suc (t_y t)\<rparr>)"

definition t_putc :: "nat \<Rightarrow> nat \<Rightarrow> u8 \<Rightarrow> terminal \<Rightarrow> terminal" where
  "t_putc rows cols c t =
     (if c = 10 then t_newline rows t
      else
        let t = t\<lparr>t_cell := (t_cell t)(t_y t := (t_cell t (t_y t))(t_x t := c)), t_x := Suc (t_x t)\<rparr>
        in if t_x t = cols then t_newline rows t else t)"

section \<open>Bytes of a line\<close>

lemma line_index_eq:
  assumes "j < p" "j' < p"
  shows "k * p + j = l * p + j' \<longleftrightarrow> k = l \<and> j = (j' :: nat)"
proof -
  have "(k * p + j) div p = k" "(k * p + j) mod p = j" "(l * p + j') div p = l" "(l * p + j') mod p = j'"
    using assms by auto
  then show ?thesis by metis
qed

lemma line_index_less:
  assumes "k < (h :: nat)" "j < p"
  shows "k * p + j < h * p"
proof -
  have "k * p + j < Suc k * p" using assms(2) by simp
  also have "\<dots> \<le> h * p" using assms(1) by (intro mult_right_mono) auto
  finally show ?thesis .
qed

lemma view_blit:
  assumes "a + length xs \<le> p" "l < h" "h * p \<le> length m" "k < h" "j < p"
  shows "blit m (l * p + a) xs ! (k * p + j) =
    (if k = l \<and> a \<le> j \<and> j < a + length xs then xs ! (j - a) else m ! (k * p + j))"
proof -
  have len: "l * p + a + length xs \<le> length m"
  proof (cases "xs = []")
    case True
    then show ?thesis using assms(1-3) mult_right_mono [of "Suc l" h p] by simp
  next
    case False
    then have "a + length xs - 1 < p" using assms(1) by (cases xs) auto
    from line_index_less [OF assms(2) this] assms(3) False show ?thesis by (cases xs) auto
  qed
  have in_buf: "k * p + j < length m" using line_index_less [OF assms(4,5)] assms(3) by simp
  have "l * p + a \<le> k * p + j \<and> k * p + j < l * p + a + length xs \<longleftrightarrow> k = l \<and> a \<le> j \<and> j < a + length xs"
  proof (cases "k = l")
    case True
    then show ?thesis by auto
  next
    case False
    then consider "Suc k \<le> l" | "Suc l \<le> k" by linarith
    then show ?thesis
    proof cases
      case 1
      then have "k * p + p \<le> l * p" using mult_right_mono [of "Suc k" l p] by simp
      then show ?thesis using assms(5) False by auto
    next
      case 2
      then have "l * p + p \<le> k * p" using mult_right_mono [of "Suc l" k p] by simp
      then show ?thesis using assms(1) False by auto
    qed
  qed
  then show ?thesis using nth_blit [OF len in_buf] by auto
qed

section \<open>Clearing and scrolling\<close>

lemma line_in:
  assumes "w \<le> p" "l < h" "h * p \<le> length m"
  shows "l * p + w \<le> length (m :: buf)"
  using assms mult_right_mono [of "Suc l" h p] by simp

lemma clear_lines_ok:
  assumes "w \<le> p" "h * p \<le> length m" "l + n \<le> h"
  shows "\<exists>m'. clear_lines (int p) (int w) n (int l) m = Some m' \<and> length m' = length m
    \<and> (\<forall>k < h. \<forall>j < p. m' ! (k * p + j) = (if l \<le> k \<and> k < l + n \<and> j < w then 0 else m ! (k * p + j)))"
  using assms(2,3)
proof (induction n arbitrary: l m)
  case 0
  then show ?case by auto
next
  case (Suc n)
  let ?m1 = "blit m (l * p) (replicate w 0)"
  have l: "l < h" using Suc.prems by simp
  have len: "l * p + w \<le> length m" by (rule line_in [OF assms(1) l Suc.prems(1)])
  have "int l * int p = int (l * p)" by simp
  then have 1: "fill_at m (int l * int p) (int w) = Some ?m1"
    using len by (simp add: fill_at_def memset_blit del: of_nat_mult)
  have len1: "length ?m1 = length m" using len by simp
  have sl: "int l + 1 = int (Suc l)" by simp
  obtain m' where m': "clear_lines (int p) (int w) n (int (Suc l)) ?m1 = Some m'" "length m' = length ?m1"
    "\<forall>k < h. \<forall>j < p. m' ! (k * p + j) = (if Suc l \<le> k \<and> k < Suc l + n \<and> j < w then 0 else ?m1 ! (k * p + j))"
    using Suc.IH [of ?m1 "Suc l"] Suc.prems len1 by auto
  have "?m1 ! (k * p + j) = (if k = l \<and> j < w then 0 else m ! (k * p + j))" if "k < h" "j < p" for k j
    using view_blit [of 0 "replicate w 0" p l h m k j] assms(1) l Suc.prems(1) that by simp
  then show ?case using 1 m' len1 unfolding clear_lines.simps by (simp add: sl del: of_nat_Suc)
qed

lemma scroll_lines_ok:
  assumes "w \<le> p" "w mod 16 = 0" "0 < w" "h * p \<le> length m" "l + n + 8 \<le> h"
  shows "\<exists>m'. scroll_lines (int p) (int w) n (int l) m = Some m' \<and> length m' = length m
    \<and> (\<forall>k < h. \<forall>j < p. m' ! (k * p + j) = (if l \<le> k \<and> k < l + n \<and> j < w then m ! ((k + 8) * p + j) else m ! (k * p + j)))"
  using assms(4,5)
proof (induction n arbitrary: l m)
  case 0
  then show ?case by auto
next
  case (Suc n)
  let ?xs = "take w (drop ((l + 8) * p) m)"
  let ?m1 = "blit m (l * p) ?xs"
  have l: "l < h" "l + 8 < h" using Suc.prems by simp_all
  have len: "l * p + w \<le> length m" "(l + 8) * p + w \<le> length m"
    using line_in [OF assms(1) l(1) Suc.prems(1)] line_in [OF assms(1) l(2) Suc.prems(1)] by simp_all
  have lx: "length ?xs = w" using len by simp
  have ints: "int l * int p = int (l * p)" "(int l + 8) * int p = int ((l + 8) * p)" by simp_all
  have "l * p + w \<le> (l + 8) * p" using assms(1) by (simp add: distrib_right)
  then have 1: "copy_at m (int l * int p) ((int l + CHAR_H) * int p) (int w) = Some ?m1"
    using len assms(2,3) quick_memcpy_disjoint [of "(l + 8) * p" w "l * p" m]
    by (simp add: copy_at_def CHAR_H_def ints del: of_nat_mult)
  have len1: "length ?m1 = length m" using len lx by simp
  have sl: "int l + 1 = int (Suc l)" by simp
  obtain m' where m': "scroll_lines (int p) (int w) n (int (Suc l)) ?m1 = Some m'" "length m' = length ?m1"
    "\<forall>k < h. \<forall>j < p. m' ! (k * p + j) =
       (if Suc l \<le> k \<and> k < Suc l + n \<and> j < w then ?m1 ! ((k + 8) * p + j) else ?m1 ! (k * p + j))"
    using Suc.IH [of ?m1 "Suc l"] Suc.prems len1 by auto
  have v: "?m1 ! (k * p + j) = (if k = l \<and> j < w then m ! ((l + 8) * p + j) else m ! (k * p + j))" if "k < h" "j < p" for k j
    using view_blit [of 0 ?xs p l h m k j] assms(1) l Suc.prems(1) that lx len by auto
  have "m' ! (k * p + j) = (if l \<le> k \<and> k < l + Suc n \<and> j < w then m ! ((k + 8) * p + j) else m ! (k * p + j))"
    if "k < h" "j < p" for k j
    using m'(3) that v [OF that] v [of "k + 8" j] Suc.prems(2) by auto
  then show ?case using 1 m' len1 unfolding scroll_lines.simps by (simp add: sl del: of_nat_Suc)
qed

section \<open>Drawing\<close>

text \<open>The two bytes of a pixel, and the sixteen of a line of a character.\<close>

definition pixel_bytes :: "u32 \<Rightarrow> u8 list" where
  "pixel_bytes colour = [ucast (colour AND 0xff), ucast (drop_bit 8 colour AND 0xff)]"

definition line_pixels :: "u32 \<Rightarrow> u32 \<Rightarrow> u8 \<Rightarrow> nat \<Rightarrow> nat \<Rightarrow> u8 list" where
  "line_pixels fg bg g i n = concat (map (\<lambda>t. pixel_bytes (if bit g (7 - t) then fg else bg)) [i..<i + n])"

lemma length_line_pixels [simp]: "length (line_pixels fg bg g i n) = 2 * n"
  by (induction n) (simp_all add: line_pixels_def pixel_bytes_def)

lemma line_pixels_Suc:
  "line_pixels fg bg g i (Suc n) = pixel_bytes (if bit g (7 - i) then fg else bg) @ line_pixels fg bg g (Suc i) n"
  by (simp add: line_pixels_def upt_conv_Cons del: upt_Suc)

lemma bpp_2: "fb_get_bpp div 8 = 2"
  by (simp add: fb_get_bpp_def BPP_def)

lemma put_colour_2:
  assumes "d + 2 \<le> length m"
  shows "put_colour 2 (int d) colour m = Some (blit m d (pixel_bytes colour))"
proof -
  have "nat (int d + 1) = Suc d" by simp
  moreover have "blit m d (pixel_bytes colour) = m[d := ucast (colour AND 0xff), Suc d := ucast (drop_bit 8 colour AND 0xff)]"
    using assms by (intro nth_equalityI) (auto simp: nth_blit pixel_bytes_def nth_list_update nth_Cons' split: if_splits)
  ultimately show ?thesis using assms by (simp add: numeral_2_eq_2 put_at_def)
qed

lemma drop_bit_and_1: "drop_bit n (g :: u8) AND 1 \<noteq> 0 \<longleftrightarrow> bit g n"
  by (simp add: and_one_eq bit_iff_odd_drop_bit odd_iff_mod_2_eq_one)

lemma signed_div_8:
  assumes "i < 8"
  shows "int (8 * q + i) sdiv 8 = int q" "int (8 * q + i) smod 8 = int i"
proof -
  have "(8 * q + i) div 8 = q" "(8 * q + i) mod 8 = i" using assms by presburger+
  then have "int (8 * q + i) div 8 = int q" "int (8 * q + i) mod 8 = int i"
    by (metis of_nat_numeral zdiv_int, metis of_nat_numeral zmod_int)
  moreover have "sgn (int (8 * q + i)) = 1 \<or> 8 * q + i = 0" by (simp add: sgn_if)
  ultimately show "int (8 * q + i) sdiv 8 = int q" "int (8 * q + i) smod 8 = int i"
    by (auto simp: signed_divide_int_def signed_modulo_int_def)
qed

lemma draw_line_ok:
  assumes "q < 1024" "i + n = 8" "d + 2 * n \<le> length m"
  shows "draw_line n fg bg (int d) (int (8 * q + i)) m = Some (blit m d (line_pixels fg bg (vgafont8 ! q) i n))"
  using assms(2,3)
proof (induction n arbitrary: i d m)
  case 0
  then show ?case by (simp add: line_pixels_def)
next
  case (Suc n)
  let ?g = "vgafont8 ! q"
  let ?c = "if bit ?g (7 - i) then fg else bg"
  have i: "i < 8" using Suc.prems by simp
  have f: "font_byte (int (8 * q + i) sdiv 8) = Some ?g" "nat (7 - int (8 * q + i) smod 8) = 7 - i"
    using assms(1) unfolding signed_div_8 [OF i] by (simp_all add: font_byte_def)
  let ?m1 = "blit m d (pixel_bytes ?c)"
  have len1: "length ?m1 = length m" using Suc.prems by (simp add: pixel_bytes_def)
  have p: "put_colour (nat 2) (int d) ?c m = Some ?m1" using put_colour_2 [of d m ?c] Suc.prems by simp
  have "draw_line n fg bg (int (d + 2)) (int (8 * q + Suc i)) ?m1 =
      Some (blit ?m1 (d + 2) (line_pixels fg bg ?g (Suc i) n))"
    by (rule Suc.IH) (use Suc.prems len1 in simp_all)
  moreover have "blit ?m1 (d + 2) (line_pixels fg bg ?g (Suc i) n) = blit m d (line_pixels fg bg ?g i (Suc n))"
    using blit_append [of d "pixel_bytes ?c" "line_pixels fg bg ?g (Suc i) n" m] Suc.prems
    by (simp add: line_pixels_Suc pixel_bytes_def)
  ultimately show ?case using p f drop_bit_and_1 [of "7 - i" ?g]
    unfolding draw_line.simps bpp_2 by (simp add: add.commute add.left_commute)
qed

lemma draw_lines_ok:
  assumes "a + 16 \<le> p" "h * p \<le> length m" "l + n \<le> h" "q + n \<le> 1024"
  shows "\<exists>m'. draw_lines n (int p) fg bg (int (l * p + a)) (int (8 * q)) m = Some m' \<and> length m' = length m
    \<and> (\<forall>k < h. \<forall>j < p. m' ! (k * p + j) =
         (if l \<le> k \<and> k < l + n \<and> a \<le> j \<and> j < a + 16 then line_pixels fg bg (vgafont8 ! (q + (k - l))) 0 8 ! (j - a)
          else m ! (k * p + j)))"
  using assms(2-4)
proof (induction n arbitrary: l q m)
  case 0
  then show ?case by auto
next
  case (Suc n)
  let ?xs = "line_pixels fg bg (vgafont8 ! q) 0 8"
  let ?m1 = "blit m (l * p + a) ?xs"
  have l: "l < h" using Suc.prems by simp
  have len: "l * p + a + 16 \<le> length m"
    using line_in [OF assms(1) l Suc.prems(1)] by simp
  have 1: "draw_line (nat CHAR_W) fg bg (int (l * p + a)) (int (8 * q)) m = Some ?m1"
    using draw_line_ok [of q 0 8 "l * p + a" m fg bg] len Suc.prems(3) by (simp add: CHAR_W_def)
  have len1: "length ?m1 = length m" using len by simp
  have nxt: "int (l * p + a) + int p = int (Suc l * p + a)" "int (8 * q) + CHAR_W = int (8 * Suc q)"
    by (simp_all add: CHAR_W_def)
  obtain m' where m': "draw_lines n (int p) fg bg (int (Suc l * p + a)) (int (8 * Suc q)) ?m1 = Some m'" "length m' = length ?m1"
    "\<forall>k < h. \<forall>j < p. m' ! (k * p + j) =
       (if Suc l \<le> k \<and> k < Suc l + n \<and> a \<le> j \<and> j < a + 16
        then line_pixels fg bg (vgafont8 ! (Suc q + (k - Suc l))) 0 8 ! (j - a) else ?m1 ! (k * p + j))"
    using Suc.IH [of ?m1 "Suc l" "Suc q"] Suc.prems len1 by auto
  have v: "?m1 ! (k * p + j) = (if k = l \<and> a \<le> j \<and> j < a + 16 then ?xs ! (j - a) else m ! (k * p + j))" if "k < h" "j < p" for k j
    using view_blit [of a ?xs p l h m k j] assms(1) l Suc.prems(1) that by simp
  have q: "Suc q + (k - Suc l) = q + (k - l)" if "Suc l \<le> k" for k using that by simp
  have "m' ! (k * p + j) =
      (if l \<le> k \<and> k < l + Suc n \<and> a \<le> j \<and> j < a + 16 then line_pixels fg bg (vgafont8 ! (q + (k - l))) 0 8 ! (j - a)
       else m ! (k * p + j))" if "k < h" "j < p" for k j
    using m'(3) that v [OF that] q [of k] by (cases "k = l") auto
  then show ?case using 1 m' len1 unfolding draw_lines.simps nxt by simp
qed

section \<open>The screen shows a terminal\<close>

text \<open>A frame buffer whose lines hold whole characters and lie inside its memory.\<close>

definition fb_ok :: "fb_state \<Rightarrow> buf \<Rightarrow> bool" where
  "fb_ok fb m \<longleftrightarrow> 0 < unat (virt_w fb) \<and> unat (virt_w fb) mod 8 = 0 \<and> 8 \<le> unat (virt_h fb)
     \<and> 2 * unat (virt_w fb) \<le> unat (pitch fb) \<and> unat (virt_h fb) * unat (pitch fb) \<le> length m
     \<and> unat (virt_h fb) * unat (pitch fb) < 2147483648"

definition fb_cols :: "fb_state \<Rightarrow> nat" where "fb_cols fb = unat (virt_w fb) div 8"
definition fb_rows :: "fb_state \<Rightarrow> nat" where "fb_rows fb = unat (virt_h fb) div 8"

definition glyph_byte :: "u8 \<Rightarrow> nat \<Rightarrow> nat \<Rightarrow> u8" where
  "glyph_byte c r j = line_pixels DEF_FORE DEF_BACK (vgafont8 ! (8 * unat c + r)) 0 8 ! j"

definition shown_byte :: "nat \<Rightarrow> (nat \<Rightarrow> nat \<Rightarrow> u8) \<Rightarrow> nat \<Rightarrow> nat \<Rightarrow> u8" where
  "shown_byte rows g k j = (if k div 8 < rows then glyph_byte (g (k div 8) (j div 16)) (k mod 8) (j mod 16) else 0)"

definition shows_term :: "screen \<Rightarrow> terminal \<Rightarrow> bool" where
  "shows_term s t \<longleftrightarrow>
     (let fb = scr_fb s in
      fb_ok fb (scr_mem s) \<and> cur_fore s = DEF_FORE \<and> cur_back s = DEF_BACK
      \<and> cur_x s = int (t_x t) \<and> cur_y s = int (t_y t) \<and> t_x t < fb_cols fb \<and> t_y t < fb_rows fb
      \<and> (\<forall>k < unat (virt_h fb). \<forall>j < 2 * unat (virt_w fb).
           scr_mem s ! (k * unat (pitch fb) + j) = shown_byte (fb_rows fb) (t_cell t) k j))"

text \<open>The geometry in natural numbers.\<close>

lemma fb_ok_geometry:
  assumes "fb_ok fb m"
  shows "fb_get_pitch fb = int (unat (pitch fb))" "fb_get_height fb = int (unat (virt_h fb))"
    "fb_get_width fb = int (unat (virt_w fb))" "line_byte_width_of fb = int (2 * unat (virt_w fb))"
    "2 * unat (virt_w fb) = 16 * fb_cols fb" "0 < fb_cols fb" "0 < fb_rows fb" "8 * fb_rows fb \<le> unat (virt_h fb)"
    "unat (virt_h fb) < 8 * fb_rows fb + 8"
proof -
  have p: "0 < unat (pitch fb)" "8 \<le> unat (virt_h fb)" using assms by (auto simp: fb_ok_def)
  have "unat (virt_h fb) * unat (pitch fb) < 2147483648" using assms by (simp add: fb_ok_def)
  moreover have "unat (virt_h fb) \<le> unat (virt_h fb) * unat (pitch fb)" "unat (pitch fb) \<le> unat (virt_h fb) * unat (pitch fb)"
    using p by simp_all
  ultimately have less: "unat (virt_h fb) < 2147483648" "unat (pitch fb) < 2147483648" by linarith+
  moreover have "unat (virt_w fb) < 2147483648" using less(2) assms by (simp add: fb_ok_def)
  ultimately show "fb_get_pitch fb = int (unat (pitch fb))" "fb_get_height fb = int (unat (virt_h fb))"
    and w: "fb_get_width fb = int (unat (virt_w fb))"
    by (simp_all add: fb_get_pitch_def fb_get_height_def fb_get_width_def sint_small_u32)
  show "line_byte_width_of fb = int (2 * unat (virt_w fb))"
    by (simp add: line_byte_width_of_def bpp_2 w)
  show "2 * unat (virt_w fb) = 16 * fb_cols fb" using assms by (auto simp: fb_ok_def fb_cols_def)
  show "0 < fb_cols fb" "0 < fb_rows fb" using assms by (auto simp: fb_ok_def fb_cols_def fb_rows_def div_greater_zero_iff)
  show "8 * fb_rows fb \<le> unat (virt_h fb)" "unat (virt_h fb) < 8 * fb_rows fb + 8" unfolding fb_rows_def by presburger+
qed

lemma glyph_blank: "r < 8 \<Longrightarrow> j < 16 \<Longrightarrow> glyph_byte 0x20 r j = 0"
proof -
  assume r: "r < 8" and j: "j < 16"
  have "\<forall>r \<in> set [0..<8]. vgafont8 ! (256 + r) = 0" by (simp add: vgafont8_def upt_rec)
  then have "vgafont8 ! (256 + r) = 0" using r by simp
  moreover have "line_pixels fg 0 0 0 8 = replicate 16 0" for fg
    by (simp add: line_pixels_def pixel_bytes_def upt_rec numeral_eq_Suc)
  ultimately show ?thesis using j by (simp add: glyph_byte_def DEF_BACK_def)
qed

lemma clear_shows:
  assumes "fb_ok fb m"
  shows "\<exists>s. clear (screen_start fb m) = Some s \<and> shows_term s t_blank \<and> scr_fb s = fb \<and> length (scr_mem s) = length m"
proof -
  note geo = fb_ok_geometry [OF assms]
  let ?w = "2 * unat (virt_w fb)" and ?p = "unat (pitch fb)" and ?h = "unat (virt_h fb)"
  have b: "?w \<le> ?p" "?h * ?p \<le> length m" using assms by (simp_all add: fb_ok_def)
  obtain m' where m': "clear_lines (int ?p) (int ?w) ?h (int 0) m = Some m'" "length m' = length m"
    "\<forall>k < ?h. \<forall>j < ?p. m' ! (k * ?p + j) = (if 0 \<le> k \<and> k < 0 + ?h \<and> j < ?w then 0 else m ! (k * ?p + j))"
    using clear_lines_ok [OF b, of 0 ?h] by auto
  have "clear (screen_start fb m) = Some ((screen_start fb m)\<lparr>scr_mem := m', cur_x := 0, cur_y := 0\<rparr>)"
    using m'(1) by (simp add: clear_def screen_start_def geo(1,2,4))
  moreover have "m' ! (k * ?p + j) = 0" if "k < ?h" "j < ?w" for k j
    using m'(3) that b(1) by simp
  moreover have "shown_byte n (\<lambda>r c. 0x20) k j = 0" for n k j
    by (simp add: shown_byte_def glyph_blank)
  moreover have "fb_ok fb m'" using assms m'(2) by (simp add: fb_ok_def)
  ultimately show ?thesis using geo(6,7) m'(2)
    by (simp add: shows_term_def screen_start_def t_blank_def)
qed

lemma shown_scrolled:
  assumes "k < h" "8 * rows \<le> h" "h < 8 * rows + 8" "0 < rows"
  shows "shown_byte rows (\<lambda>r c. if Suc r < rows then g (Suc r) c else 0x20) k j =
    (if k < h - 8 then shown_byte rows g (k + 8) j else 0)"
proof -
  have d: "(k + 8) div 8 = Suc (k div 8)" "(k + 8) mod 8 = k mod 8" by simp_all
  have last: "\<not> Suc (k div 8) < rows" if "\<not> k < h - 8"
    using div_le_mono [of "8 * rows" "k + 8" 8] that assms(2) by simp
  show ?thesis
  proof (cases "Suc (k div 8) < rows")
    case True
    then show ?thesis using last by (auto simp: shown_byte_def d)
  next
    case False
    then show ?thesis by (simp add: shown_byte_def d glyph_blank)
  qed
qed

lemma newline_shows:
  assumes ok: "fb_ok (scr_fb s) (scr_mem s)" and col: "cur_fore s = DEF_FORE" "cur_back s = DEF_BACK"
    and y: "cur_y s = int (t_y t)" "t_y t < fb_rows (scr_fb s)"
    and px: "\<forall>k < unat (virt_h (scr_fb s)). \<forall>j < 2 * unat (virt_w (scr_fb s)).
      scr_mem s ! (k * unat (pitch (scr_fb s)) + j) = shown_byte (fb_rows (scr_fb s)) (t_cell t) k j"
  shows "\<exists>s'. newline s = Some s' \<and> shows_term s' (t_newline (fb_rows (scr_fb s)) t)
    \<and> scr_fb s' = scr_fb s \<and> length (scr_mem s') = length (scr_mem s)"
proof -
  let ?fb = "scr_fb s" and ?m = "scr_mem s"
  define w p h where "w = 2 * unat (virt_w ?fb)" and "p = unat (pitch ?fb)" and "h = unat (virt_h ?fb)"
  note geo = fb_ok_geometry [OF ok, folded w_def p_def h_def]
  have b: "w \<le> p" "h * p \<le> length ?m" "w mod 16 = 0" "0 < w" "8 \<le> h"
    using ok geo(5,6) by (simp_all add: fb_ok_def w_def p_def h_def)
  have px': "\<forall>k < h. \<forall>j < w. ?m ! (k * p + j) = shown_byte (fb_rows ?fb) (t_cell t) k j"
    using px by (simp add: w_def p_def h_def)
  have rows: "int h sdiv CHAR_H = int (fb_rows ?fb)"
  proof -
    have "8 * fb_rows ?fb + h mod 8 = h" unfolding fb_rows_def h_def by presburger
    then show ?thesis using signed_div_8(1) [of "h mod 8" "fb_rows ?fb"] by (simp add: CHAR_H_def)
  qed
  show ?thesis
  proof (cases "Suc (t_y t) = fb_rows ?fb")
    case False
    let ?s = "s\<lparr>cur_y := cur_y s + 1, cur_x := 0\<rparr>"
    have "newline s = Some ?s" using False y(1) by (simp add: newline_def geo(2) rows Let_def)
    moreover have "shows_term ?s (t_newline (fb_rows ?fb) t)"
      using False ok col y px geo(6) by (simp add: shows_term_def t_newline_def)
    ultimately show ?thesis by simp
  next
    case True
    obtain m1 where m1: "scroll_lines (int p) (int w) (h - 8) (int 0) ?m = Some m1" "length m1 = length ?m"
      "\<forall>k < h. \<forall>j < p. m1 ! (k * p + j) =
         (if 0 \<le> k \<and> k < 0 + (h - 8) \<and> j < w then ?m ! ((k + 8) * p + j) else ?m ! (k * p + j))"
      using scroll_lines_ok [OF b(1,3,4,2), of 0 "h - 8"] b(5) by auto
    have b1: "h * p \<le> length m1" using b(2) m1(2) by simp
    obtain m2 where m2: "clear_lines (int p) (int w) 8 (int (h - 8)) m1 = Some m2" "length m2 = length m1"
      "\<forall>k < h. \<forall>j < p. m2 ! (k * p + j) = (if h - 8 \<le> k \<and> k < h - 8 + 8 \<and> j < w then 0 else m1 ! (k * p + j))"
      using clear_lines_ok [OF b(1) b1, of "h - 8" 8] b(5) by auto
    let ?s = "s\<lparr>cur_y := cur_y s, cur_x := 0, scr_mem := m2\<rparr>"
    have sub: "int h - CHAR_H = int (h - 8)" "nat CHAR_H = 8" using b(5) by (simp_all add: CHAR_H_def)
    have "newline s = Some ?s"
      using m1(1) m2(1) True y(1) unfolding newline_def Let_def by (simp add: geo(1,2,4) rows sub)
    moreover have "m2 ! (k * p + j) =
        shown_byte (fb_rows ?fb) (\<lambda>r c. if Suc r < fb_rows ?fb then t_cell t (Suc r) c else 0x20) k j" if "k < h" "j < w" for k j
    proof -
      have "m2 ! (k * p + j) = (if k < h - 8 then ?m ! ((k + 8) * p + j) else 0)"
        using m2(3) m1(3) that b(1,5) by simp
      also have "\<dots> = (if k < h - 8 then shown_byte (fb_rows ?fb) (t_cell t) (k + 8) j else 0)"
        using px' that by simp
      finally show ?thesis unfolding shown_scrolled [OF that(1) geo(8,9,7)] .
    qed
    moreover have "fb_ok ?fb m2" using ok m1(2) m2(2) by (simp add: fb_ok_def)
    ultimately show ?thesis
      using True col y geo(6) m1(2) m2(2)
      by (intro exI [of _ ?s]) (simp add: shows_term_def t_newline_def w_def p_def h_def)
  qed
qed

lemma cell_of:
  assumes "0 < (n :: nat)"
  shows "n * y \<le> k \<and> k < n * y + n \<longleftrightarrow> k div n = y"
proof
  assume "n * y \<le> k \<and> k < n * y + n"
  then show "k div n = y" by (intro div_nat_eqI) (auto simp: mult.commute)
next
  assume "k div n = y"
  then have "k = n * y + k mod n" by (metis mult_div_mod_eq)
  moreover have "k mod n < n" using assms by simp
  ultimately show "n * y \<le> k \<and> k < n * y + n" by linarith
qed

lemma cell_offset: "k div n = y \<Longrightarrow> k - n * y = k mod (n :: nat)"
  by (metis minus_mult_div_eq_mod)

lemma draw_char_shows:
  assumes sh: "shows_term s t" and c: "c < 128"
  shows "\<exists>s'. draw_char c (cur_x s) (cur_y s) (cur_fore s) (cur_back s) s = Some s'
    \<and> s' = s\<lparr>scr_mem := scr_mem s'\<rparr> \<and> fb_ok (scr_fb s) (scr_mem s') \<and> length (scr_mem s') = length (scr_mem s)
    \<and> (\<forall>k < unat (virt_h (scr_fb s)). \<forall>j < 2 * unat (virt_w (scr_fb s)).
      scr_mem s' ! (k * unat (pitch (scr_fb s)) + j) =
        shown_byte (fb_rows (scr_fb s)) ((t_cell t)(t_y t := (t_cell t (t_y t))(t_x t := c))) k j)"
proof -
  let ?fb = "scr_fb s" and ?m = "scr_mem s" and ?g = "(t_cell t)(t_y t := (t_cell t (t_y t))(t_x t := c))"
  have ok: "fb_ok ?fb ?m" using sh by (simp add: shows_term_def Let_def)
  define w p h where "w = 2 * unat (virt_w ?fb)" and "p = unat (pitch ?fb)" and "h = unat (virt_h ?fb)"
  note geo = fb_ok_geometry [OF ok, folded w_def p_def h_def]
  have t: "cur_x s = int (t_x t)" "cur_y s = int (t_y t)" "t_x t < fb_cols ?fb" "t_y t < fb_rows ?fb"
    "cur_fore s = DEF_FORE" "cur_back s = DEF_BACK"
    and px: "\<forall>k < h. \<forall>j < w. ?m ! (k * p + j) = shown_byte (fb_rows ?fb) (t_cell t) k j"
    using sh by (simp_all add: shows_term_def Let_def w_def p_def h_def)
  have b: "w \<le> p" "h * p \<le> length ?m" using ok by (simp_all add: fb_ok_def w_def p_def h_def)
  have a: "16 * t_x t + 16 \<le> w" using t(3) geo(5) by simp
  have l: "8 * t_y t + 8 \<le> h" using t(4) geo(8) by simp
  have q: "8 * unat c + 8 \<le> 1024" using c by (simp add: word_less_nat_alt)
  obtain m' where m': "draw_lines 8 (int p) DEF_FORE DEF_BACK (int (8 * t_y t * p + 16 * t_x t)) (int (8 * (8 * unat c))) ?m = Some m'"
    "length m' = length ?m"
    "\<forall>k < h. \<forall>j < p. m' ! (k * p + j) =
         (if 8 * t_y t \<le> k \<and> k < 8 * t_y t + 8 \<and> 16 * t_x t \<le> j \<and> j < 16 * t_x t + 16
          then line_pixels DEF_FORE DEF_BACK (vgafont8 ! (8 * unat c + (k - 8 * t_y t))) 0 8 ! (j - 16 * t_x t) else ?m ! (k * p + j))"
    using draw_lines_ok [of "16 * t_x t" p h ?m "8 * t_y t" 8 "8 * unat c" DEF_FORE DEF_BACK] a b l q by auto
  have offs: "int (t_y t) * CHAR_H * int p + int (t_x t) * (fb_get_bpp div 8) * CHAR_W = int (8 * t_y t * p + 16 * t_x t)"
    "uint c * CHAR_W * CHAR_H = int (8 * (8 * unat c))" "nat CHAR_H = 8"
    by (simp_all add: CHAR_H_def CHAR_W_def bpp_2)
  have "draw_char c (cur_x s) (cur_y s) (cur_fore s) (cur_back s) s = Some (s\<lparr>scr_mem := m'\<rparr>)"
    using m'(1) unfolding draw_char_def Let_def t(1,2,5,6) geo(1) offs by simp
  moreover have "m' ! (k * p + j) = shown_byte (fb_rows ?fb) ?g k j" if k: "k < h" "j < w" for k j
  proof -
    have m: "m' ! (k * p + j) = (if k div 8 = t_y t \<and> j div 16 = t_x t
        then line_pixels DEF_FORE DEF_BACK (vgafont8 ! (8 * unat c + (k - 8 * t_y t))) 0 8 ! (j - 16 * t_x t) else ?m ! (k * p + j))"
      using m'(3) k b(1) cell_of [of 8 "t_y t" k] cell_of [of 16 "t_x t" j] by auto
    show ?thesis
    proof (cases "k div 8 = t_y t \<and> j div 16 = t_x t")
      case True
      then show ?thesis using m t(4) cell_offset [of k 8 "t_y t"] cell_offset [of j 16 "t_x t"]
        by (simp add: shown_byte_def glyph_byte_def)
    next
      case False
      then have "?g (k div 8) (j div 16) = t_cell t (k div 8) (j div 16)" by auto
      then show ?thesis using m False k px by (simp add: shown_byte_def)
    qed
  qed
  moreover have "fb_ok ?fb m'" using ok m'(2) by (simp add: fb_ok_def)
  ultimately show ?thesis using m'(2)
    by (intro exI [of _ "s\<lparr>scr_mem := m'\<rparr>"]) (simp add: w_def p_def h_def)
qed

lemma console_putc_shows:
  assumes sh: "shows_term s t" and c: "c < 128"
  shows "\<exists>s'. console_putc (uint c) s = Some (uint c, s')
    \<and> shows_term s' (t_putc (fb_rows (scr_fb s)) (fb_cols (scr_fb s)) c t)
    \<and> scr_fb s' = scr_fb s \<and> length (scr_mem s') = length (scr_mem s)"
proof -
  let ?fb = "scr_fb s"
  note sh' = sh [unfolded shows_term_def Let_def]
  note geo = fb_ok_geometry [OF conjunct1 [OF sh']]
  show ?thesis
  proof (cases "c = 10")
    case True
    obtain s' where "newline s = Some s'" "shows_term s' (t_newline (fb_rows ?fb) t)" "scr_fb s' = ?fb" "length (scr_mem s') = length (scr_mem s)"
      using newline_shows [of s t] sh' by blast
    then show ?thesis using True by (simp add: console_putc_def t_putc_def)
  next
    case False
    then have c10: "uint c \<noteq> 10" by (metis of_int_numeral word_of_int_uint)
    have lw: "fb_get_width ?fb sdiv CHAR_W = int (fb_cols ?fb)"
    proof -
      have "unat (virt_w ?fb) = 8 * fb_cols ?fb" using geo(5) by simp
      then show ?thesis using signed_div_8(1) [of 0 "fb_cols ?fb"] geo(3) by (simp add: CHAR_W_def)
    qed
    let ?t = "t\<lparr>t_cell := (t_cell t)(t_y t := (t_cell t (t_y t))(t_x t := c)), t_x := Suc (t_x t)\<rparr>"
    from draw_char_shows [OF assms] obtain s1 where s1:
      "draw_char c (cur_x s) (cur_y s) (cur_fore s) (cur_back s) s = Some s1" "s1 = s\<lparr>scr_mem := scr_mem s1\<rparr>"
      "fb_ok ?fb (scr_mem s1)" "length (scr_mem s1) = length (scr_mem s)"
      "\<forall>k < unat (virt_h ?fb). \<forall>j < 2 * unat (virt_w ?fb).
        scr_mem s1 ! (k * unat (pitch ?fb) + j) = shown_byte (fb_rows ?fb) (t_cell ?t) k j"
      by auto
    let ?s2 = "s1\<lparr>cur_x := cur_x s1 + 1\<rparr>"
    have f: "scr_fb s1 = ?fb" "cur_x s1 = int (t_x t)" "cur_y s1 = int (t_y t)" "cur_fore s1 = DEF_FORE" "cur_back s1 = DEF_BACK"
      by (subst s1(2), use sh' in simp)+
    have put: "console_putc (uint c) s =
        (if int (Suc (t_x t)) = int (fb_cols ?fb) then do { s \<leftarrow> newline ?s2; Some (uint c, s) } else Some (uint c, ?s2))"
      using c10 s1(1) f by (simp add: console_putc_def lw)
    show ?thesis
    proof (cases "Suc (t_x t) = fb_cols ?fb")
      case True
      obtain s' where "newline ?s2 = Some s'" "shows_term s' (t_newline (fb_rows ?fb) ?t)" "scr_fb s' = ?fb" "length (scr_mem s') = length (scr_mem s1)"
        using newline_shows [of ?s2 ?t] f s1(3,5) sh' by auto
      then show ?thesis using put True False s1(4) by (simp add: t_putc_def)
    next
      case no: False
      have "shows_term ?s2 ?t" using f s1(3,5) sh' no by (simp add: shows_term_def)
      then show ?thesis using put no False s1(4) f(1) by (simp add: t_putc_def)
    qed
  qed
qed

section \<open>Text on the screen\<close>

lemma fputs_shows:
  assumes "stdout_putc io = console_putc" "shows_term s t" "\<forall>c \<in> set cs. c < 128"
  shows "\<exists>s'. fputs io cs Stdout s = Some (0, s') \<and> shows_term s' (fold (t_putc (fb_rows (scr_fb s)) (fb_cols (scr_fb s))) cs t)
    \<and> length (scr_mem s') = length (scr_mem s)"
  using assms(2,3)
proof (induction cs arbitrary: s t)
  case (Cons c cs)
  from console_putc_shows [OF Cons.prems(1), of c] Cons.prems(2) obtain s1 where 1:
    "console_putc (uint c) s = Some (uint c, s1)" "shows_term s1 (t_putc (fb_rows (scr_fb s)) (fb_cols (scr_fb s)) c t)"
    "scr_fb s1 = scr_fb s" "length (scr_mem s1) = length (scr_mem s)" by auto
  from Cons.IH [OF 1(2)] Cons.prems(2) show ?case
    using 1 assms(1) by (simp add: fputc_def)
qed simp

text \<open>C21: After the screen is cleared, printing any text shows exactly what the terminal shows:
  every pixel of every character cell is that of the glyph of the character the
  terminal has there, line breaks, full lines and scrolling included, and no access
  leaves the frame buffer or the font.\<close>

theorem console_refines_terminal:
  assumes "fb_ok fb m" "stdout_putc io = console_putc" "\<forall>c \<in> set cs. c < 128"
  shows "\<exists>s0 s. clear (screen_start fb m) = Some s0 \<and> fputs io cs Stdout s0 = Some (0, s)
    \<and> shows_term s (fold (t_putc (fb_rows fb) (fb_cols fb)) cs t_blank) \<and> length (scr_mem s) = length m"
proof -
  obtain s0 where 0: "clear (screen_start fb m) = Some s0" "shows_term s0 t_blank" "scr_fb s0 = fb" "length (scr_mem s0) = length m"
    using clear_shows [OF assms(1)] by blast
  with fputs_shows [OF assms(2) 0(2) assms(3)] show ?thesis by auto
qed

definition small_fb :: fb_state where
  "small_fb = \<lparr>phys_w = 16, phys_h = 20, virt_w = 16, virt_h = 20, pitch = 40, fb_addr = 0x1000, fb_size = 800\<rparr>"

definition console_streams :: "(unit, screen) streams" where
  "console_streams = \<lparr>stdout_putc = console_putc, stderr_putc = console_putc, stream_putc = def_stream_putc\<rparr>"

lemma console_refines_terminal_witness:
  "\<exists>s0 s. clear (screen_start small_fb (replicate 800 7)) = Some s0 \<and> fputs console_streams [65, 66, 67, 10, 68] Stdout s0 = Some (0, s)
    \<and> shows_term s (fold (t_putc 2 2) [65, 66, 67, 10, 68] t_blank) \<and> length (scr_mem s) = 800
    \<and> t_cell (fold (t_putc 2 2) [65, 66, 67, 10, 68] t_blank) 0 0 = 67"
proof -
  have "fb_ok small_fb (replicate 800 7)" "fb_rows small_fb = 2" "fb_cols small_fb = 2"
    by (simp_all add: fb_ok_def small_fb_def fb_rows_def fb_cols_def)
  moreover have "stdout_putc console_streams = console_putc" by (simp add: console_streams_def)
  moreover have "t_cell (fold (t_putc 2 2) [65, 66, 67, 10, 68] t_blank) 0 0 = 67"
    by (simp add: t_putc_def t_newline_def t_blank_def)
  ultimately show ?thesis
    using console_refines_terminal [of small_fb "replicate 800 7" console_streams "[65, 66, 67, 10, 68]"] by simp
qed

end
