(* ===== verification/Printf.thy ===== *)
theory Printf
  imports Stdio
begin

text \<open>
  Formatted output (printf.c, for the 32-bit target).  A format is the list of its
  characters before the terminating NUL; the arguments are a list of typed values, and
  an argument of another kind than the one the conversion takes is \<open>None\<close>, as are the
  other undefined operations: reading behind the format, a division by zero, a signed
  overflow.  The characters are those passed to the output function, in order.
\<close>

section \<open>Numbers\<close>

definition hex2ascii_data :: "u8 list" where
  "hex2ascii_data =
     [48, 49, 50, 51, 52, 53, 54, 55, 56, 57, 97, 98, 99, 100, 101, 102, 103, 104, 105, 106, 107, 108, 109,
      110, 111, 112, 113, 114, 115, 116, 117, 118, 119, 120, 121, 122, 0]"

definition kv_upper :: "u8 \<Rightarrow> u8" where
  "kv_upper c = c - 0x20 * (if 97 \<le> c \<and> c \<le> 122 then 1 else 0)"

definition MAXNBUF :: nat where "MAXNBUF = 4 * 8 + 1"

function ksprintn_loop :: "buf \<Rightarrow> nat \<Rightarrow> u32 \<Rightarrow> int \<Rightarrow> bool \<Rightarrow> (buf \<times> nat) option" where
  "ksprintn_loop nbuf p num base upper =
     (if (word_of_int base :: u32) = 0 then None
      else do {
        c \<leftarrow> get_byte hex2ascii_data (unat (num mod word_of_int base));
        nbuf' \<leftarrow> put_byte nbuf (p + 1) (if upper then kv_upper c else c);
        let num = num div word_of_int base;
        if num \<noteq> 0 then ksprintn_loop nbuf' (p + 1) num base upper else Some (nbuf', p + 1) })"
  by pat_completeness auto
termination by (relation "measure (\<lambda>(nbuf, p, _). length nbuf - p)") (auto simp: put_byte_eq_Some)

declare ksprintn_loop.simps [simp del]

definition ksprintn :: "buf \<Rightarrow> u32 \<Rightarrow> int \<Rightarrow> bool \<Rightarrow> (buf \<times> nat) option" where
  "ksprintn nbuf num base upper = do {
     nbuf \<leftarrow> put_byte nbuf 0 0;
     ksprintn_loop nbuf 0 num base upper }"

text \<open>From the last digit of the buffer down to the NUL before the first.\<close>

fun nbuf_chars :: "buf \<Rightarrow> nat \<Rightarrow> cstring option" where
  "nbuf_chars nbuf p = do {
     c \<leftarrow> get_byte nbuf p;
     if c = 0 then Some []
     else (case p of 0 \<Rightarrow> None | Suc p \<Rightarrow> do { cs \<leftarrow> nbuf_chars nbuf p; Some (c # cs) }) }"

declare nbuf_chars.simps [simp del]

section \<open>State\<close>

datatype arg = A_int u32 | A_quad u64 | A_str "cstring option" | A_mem buf | A_ptr u32

definition int_arg :: "arg list \<Rightarrow> (u32 \<times> arg list) option" where
  "int_arg ap = (case ap of A_int w # ap \<Rightarrow> Some (w, ap) | _ \<Rightarrow> None)"

definition quad_arg :: "arg list \<Rightarrow> (u64 \<times> arg list) option" where
  "quad_arg ap = (case ap of A_quad w # ap \<Rightarrow> Some (w, ap) | _ \<Rightarrow> None)"

definition str_arg :: "arg list \<Rightarrow> (cstring option \<times> arg list) option" where
  "str_arg ap = (case ap of A_str s # ap \<Rightarrow> Some (s, ap) | _ \<Rightarrow> None)"

definition mem_arg :: "arg list \<Rightarrow> (buf \<times> arg list) option" where
  "mem_arg ap = (case ap of A_mem b # ap \<Rightarrow> Some (b, ap) | _ \<Rightarrow> None)"

definition ptr_arg :: "arg list \<Rightarrow> (u32 \<times> arg list) option" where
  "ptr_arg ap = (case ap of A_ptr w # ap \<Rightarrow> Some (w, ap) | _ \<Rightarrow> None)"

text \<open>The characters put so far, and the stores made by \<open>%n\<close>: address, size, value.\<close>

record prt =
  prt_chars :: "u32 list"
  prt_stores :: "(u32 \<times> nat \<times> nat) list"

definition pchar :: "u32 \<Rightarrow> prt \<Rightarrow> prt" where
  "pchar c st = st\<lparr>prt_chars := prt_chars st @ [c]\<rparr>"

definition pchars :: "cstring \<Rightarrow> prt \<Rightarrow> prt" where
  "pchars cs st = fold (\<lambda>c. pchar (ucast c)) cs st"

definition retval :: "prt \<Rightarrow> nat" where "retval st = length (prt_chars st)"

record conv =
  padc :: u8
  width :: int
  dwidth :: int
  dot :: bool
  sharpflag :: bool
  sign :: bool
  ladjust :: bool
  upper :: bool
  jflag :: bool
  qflag :: bool
  tflag :: bool
  lflag :: bool
  zflag :: bool
  hflag :: bool
  cflag :: bool

definition conv_start :: conv where
  "conv_start = \<lparr>padc = 32, width = 0, dwidth = 0, dot = False, sharpflag = False, sign = False, ladjust = False,
     upper = False, jflag = False, qflag = False, tflag = False, lflag = False, zflag = False, hflag = False, cflag = False\<rparr>"

section \<open>Flags\<close>

definition INT_MAX :: int where "INT_MAX = 2147483647"
definition INT_MIN :: int where "INT_MIN = -2147483648"

definition is_dec :: "u8 \<Rightarrow> bool" where "is_dec c \<longleftrightarrow> 48 \<le> c \<and> c \<le> 57"

primrec kv_width :: "cstring \<Rightarrow> int \<Rightarrow> u8 \<Rightarrow> (int \<times> cstring) option" where
  "kv_width [] n ch = (if n * 10 + uint ch > INT_MAX then None else Some (n * 10 + uint ch - 48, []))"
| "kv_width (c # fmt) n ch =
     (if n * 10 + uint ch > INT_MAX then None
      else let n = n * 10 + uint ch - 48 in
        if \<not> is_dec c then Some (n, c # fmt) else kv_width fmt n c)"

lemma kv_width_shorter: "kv_width fmt n ch = Some (k, r) \<Longrightarrow> length r \<le> length fmt"
  by (induction fmt arbitrary: n ch) (fastforce simp: Let_def split: if_splits)+

text \<open>The characters from the percent sign to the conversion.  A format that ends here has
  its NUL taken for a conversion, and is read on behind it.\<close>

definition star_arg :: "arg list \<Rightarrow> conv \<Rightarrow> (arg list \<times> conv) option" where
  "star_arg ap cv = do {
     (w, ap) \<leftarrow> int_arg ap;
     if dot cv then Some (ap, cv\<lparr>dwidth := sint w\<rparr>)
     else if sint w < 0 then
       if sint w = INT_MIN then None else Some (ap, cv\<lparr>ladjust := \<not> ladjust cv, width := - sint w\<rparr>)
     else Some (ap, cv\<lparr>width := sint w\<rparr>) }"

function kv_flags :: "cstring \<Rightarrow> arg list \<Rightarrow> conv \<Rightarrow> (u8 \<times> cstring \<times> arg list \<times> conv) option" where
  "kv_flags [] ap cv = None"
| "kv_flags (ch # fmt) ap cv =
     (if ch = 46 then kv_flags fmt ap (cv\<lparr>dot := True\<rparr>)
      else if ch = 35 then kv_flags fmt ap (cv\<lparr>sharpflag := True\<rparr>)
      else if ch = 43 then kv_flags fmt ap (cv\<lparr>sign := True\<rparr>)
      else if ch = 45 then kv_flags fmt ap (cv\<lparr>ladjust := True\<rparr>)
      else if ch = 42 then do { (ap, cv) \<leftarrow> star_arg ap cv; kv_flags fmt ap cv }
      else if ch = 48 \<and> \<not> dot cv then kv_flags fmt ap (cv\<lparr>padc := 48\<rparr>)
      else if is_dec ch then do {
        (n, fmt') \<leftarrow> kv_width fmt 0 ch;
        kv_flags fmt' ap (if dot cv then cv\<lparr>dwidth := n\<rparr> else cv\<lparr>width := n\<rparr>) }
      else if ch = 104 then kv_flags fmt ap (if hflag cv then cv\<lparr>hflag := False, cflag := True\<rparr> else cv\<lparr>hflag := True\<rparr>)
      else if ch = 106 then kv_flags fmt ap (cv\<lparr>jflag := True\<rparr>)
      else if ch = 108 then kv_flags fmt ap (if lflag cv then cv\<lparr>lflag := False, qflag := True\<rparr> else cv\<lparr>lflag := True\<rparr>)
      else if ch = 113 then kv_flags fmt ap (cv\<lparr>qflag := True\<rparr>)
      else if ch = 116 then kv_flags fmt ap (cv\<lparr>tflag := True\<rparr>)
      else if ch = 122 then kv_flags fmt ap (cv\<lparr>zflag := True\<rparr>)
      else Some (ch, fmt, ap, cv))"
  by pat_completeness auto
termination by (relation "measure (\<lambda>(fmt, ap, cv). length fmt)") (auto dest!: kv_width_shorter)

declare kv_flags.simps [simp del]

section \<open>Conversions\<close>

text \<open>Padding to a width: nothing when no width is left, and then the counter of the loop is -1.\<close>

definition pad_step :: "u8 \<Rightarrow> int \<Rightarrow> prt \<Rightarrow> prt \<times> int" where
  "pad_step c w st = (if w > 0 then (pchars (replicate (nat w) c) st, -1) else (st, w))"

text \<open>From the label \<open>number\<close> on.\<close>

definition kv_number :: "conv \<Rightarrow> int \<Rightarrow> u32 \<Rightarrow> prt \<Rightarrow> prt option" where
  "kv_number cv base num st =
     (let neg = (sign cv \<and> sint num < 0);
          num = (if neg then - num else num)
      in do {
        (nbuf, p) \<leftarrow> ksprintn (replicate MAXNBUF 0) num base (upper cv);
        let tmp = int p;
        let tmp = (if sharpflag cv \<and> num \<noteq> 0 then if base = 8 then tmp + 1 else if base = 16 then tmp + 2 else tmp else tmp);
        let tmp = (if neg then tmp + 1 else tmp);
        let (st, w) = (if \<not> ladjust cv \<and> padc cv \<noteq> 48 \<and> width cv \<noteq> 0 then pad_step (padc cv) (width cv - tmp) st else (st, width cv));
        let st = (if neg then pchars [45] st else st);
        let st = (if sharpflag cv \<and> num \<noteq> 0 then if base = 8 then pchars [48] st else if base = 16 then pchars [48, 120] st else st else st);
        let (st, w) = (if \<not> ladjust cv \<and> w \<noteq> 0 then pad_step (padc cv) (w - tmp) st else (st, w));
        cs \<leftarrow> nbuf_chars nbuf p;
        let st = pchars cs st;
        Some (if ladjust cv \<and> w \<noteq> 0 then fst (pad_step (padc cv) (w - tmp) st) else st) })"

definition unsigned_arg :: "conv \<Rightarrow> arg list \<Rightarrow> (u32 \<times> arg list) option" where
  "unsigned_arg cv ap =
     (if jflag cv then int_arg ap
      else if qflag cv then map_option (\<lambda>(w, ap). (ucast w, ap)) (quad_arg ap)
      else if tflag cv \<or> lflag cv \<or> zflag cv then int_arg ap
      else if hflag cv then map_option (\<lambda>(w, ap). (ucast (ucast w :: u16), ap)) (int_arg ap)
      else if cflag cv then map_option (\<lambda>(w, ap). (ucast (ucast w :: u8), ap)) (int_arg ap)
      else int_arg ap)"

definition signed_arg :: "conv \<Rightarrow> arg list \<Rightarrow> (u32 \<times> arg list) option" where
  "signed_arg cv ap =
     (if jflag cv then int_arg ap
      else if qflag cv then map_option (\<lambda>(w, ap). (ucast w, ap)) (quad_arg ap)
      else if tflag cv \<or> lflag cv \<or> zflag cv then int_arg ap
      else if hflag cv then map_option (\<lambda>(w, ap). (scast (ucast w :: u16), ap)) (int_arg ap)
      else if cflag cv then map_option (\<lambda>(w, ap). (ucast (ucast w :: u8), ap)) (int_arg ap)
      else int_arg ap)"

definition handle_nosign :: "conv \<Rightarrow> int \<Rightarrow> arg list \<Rightarrow> prt \<Rightarrow> (arg list \<times> prt) option" where
  "handle_nosign cv base ap st = do {
     (num, ap) \<leftarrow> unsigned_arg cv ap;
     st \<leftarrow> kv_number (cv\<lparr>sign := False\<rparr>) base num st;
     Some (ap, st) }"

definition handle_sign :: "conv \<Rightarrow> int \<Rightarrow> arg list \<Rightarrow> prt \<Rightarrow> (arg list \<times> prt) option" where
  "handle_sign cv base ap st = do {
     (num, ap) \<leftarrow> signed_arg cv ap;
     st \<leftarrow> kv_number cv base num st;
     Some (ap, st) }"

text \<open>The names of the bits of a register.\<close>

function kv_bits :: "u32 \<Rightarrow> bool \<Rightarrow> cstring \<Rightarrow> prt \<Rightarrow> (bool \<times> prt) option" where
  "kv_bits num tmp [] st = Some (tmp, st)"
| "kv_bits num tmp (n # p) st =
     (if n = 0 \<or> n > 32 then None
      else if bit num (unat n - 1) then
        kv_bits num True (dropWhile (\<lambda>c. c > 32) p)
          (pchars ((if tmp then 44 else 60) # takeWhile (\<lambda>c. c > 32) p) st)
      else kv_bits num tmp (dropWhile (\<lambda>c. c > 32) p) st)"
  by pat_completeness auto
termination by (relation "measure (\<lambda>(num, tmp, p, st). length p)") (auto simp: le_imp_less_Suc length_dropWhile_le)

declare kv_bits.simps [simp del]

definition kv_b :: "arg list \<Rightarrow> prt \<Rightarrow> (arg list \<times> prt) option" where
  "kv_b ap st = do {
     (num, ap) \<leftarrow> int_arg ap;
     (s, ap) \<leftarrow> str_arg ap;
     p \<leftarrow> s;
     (case p of [] \<Rightarrow> None
      | b # p \<Rightarrow> do {
          (nbuf, q) \<leftarrow> ksprintn (replicate MAXNBUF 0) num (uint b) False;
          cs \<leftarrow> nbuf_chars nbuf q;
          let st = pchars cs st;
          if num = 0 then Some (ap, st)
          else do {
            (tmp, st) \<leftarrow> kv_bits num False p st;
            Some (ap, if tmp then pchars [62] st else st) } }) }"

text \<open>The dump of bytes with a separator, which is read only between two bytes.\<close>

primrec kv_dump :: "nat \<Rightarrow> buf \<Rightarrow> cstring option \<Rightarrow> prt \<Rightarrow> prt option" where
  "kv_dump 0 up s st = Some st"
| "kv_dump (Suc w) up s st = do {
     b \<leftarrow> get_byte up 0;
     hi \<leftarrow> get_byte hex2ascii_data (unat (drop_bit 4 b));
     lo \<leftarrow> get_byte hex2ascii_data (unat (b AND 0x0f));
     let st = pchars [hi, lo] st;
     if w = 0 then Some st
     else do { p \<leftarrow> s; kv_dump w (drop 1 up) s (pchars p st) } }"

definition kv_D :: "conv \<Rightarrow> arg list \<Rightarrow> prt \<Rightarrow> (arg list \<times> prt) option" where
  "kv_D cv ap st = do {
     (up, ap) \<leftarrow> mem_arg ap;
     (s, ap) \<leftarrow> str_arg ap;
     let w = (if width cv = 0 then 16 else width cv);
     st \<leftarrow> kv_dump (nat w) up s st;
     Some (ap, st) }"

definition kv_n :: "conv \<Rightarrow> arg list \<Rightarrow> prt \<Rightarrow> (arg list \<times> prt) option" where
  "kv_n cv ap st = do {
     (p, ap) \<leftarrow> ptr_arg ap;
     let n = (if jflag cv then 4 else if qflag cv then 8 else if lflag cv then 4 else if zflag cv then 4
              else if hflag cv then 2 else if cflag cv then 1 else 4 :: nat);
     Some (ap, st\<lparr>prt_stores := prt_stores st @ [(p, n, retval st)]\<rparr>) }"

definition kv_null :: cstring where "kv_null = [40, 110, 117, 108, 108, 41]"

definition kv_s :: "conv \<Rightarrow> arg list \<Rightarrow> prt \<Rightarrow> (arg list \<times> prt) option" where
  "kv_s cv ap st = do {
     (s, ap) \<leftarrow> str_arg ap;
     let p = (case s of None \<Rightarrow> kv_null | Some p \<Rightarrow> p);
     let n = (if \<not> dot cv then length p else min (nat (dwidth cv)) (length p));
     let w = width cv - int n;
     let (st, w) = (if \<not> ladjust cv \<and> w > 0 then pad_step (padc cv) w st else (st, w));
     let st = pchars (take n p) st;
     Some (ap, if ladjust cv \<and> w > 0 then fst (pad_step (padc cv) w st) else st) }"

text \<open>The switch: the arguments left, the output, and whether conversions go on.  The text is
  what was read from the percent sign on.\<close>

definition kv_conv :: "int \<Rightarrow> cstring \<Rightarrow> u8 \<Rightarrow> conv \<Rightarrow> arg list \<Rightarrow> prt \<Rightarrow> (arg list \<times> prt \<times> bool) option" where
  "kv_conv radix seen ch cv ap st =
     (let go = map_option (\<lambda>(ap, st). (ap, st, False)) in
      if ch = 37 then Some (ap, pchars [ch] st, False)
      else if ch = 98 then go (kv_b ap st)
      else if ch = 99 then do { (w, ap) \<leftarrow> int_arg ap; Some (ap, pchar w st, False) }
      else if ch = 68 then go (kv_D cv ap st)
      else if ch = 100 \<or> ch = 105 then go (handle_sign (cv\<lparr>sign := True\<rparr>) 10 ap st)
      else if ch = 110 then go (kv_n cv ap st)
      else if ch = 111 then go (handle_nosign cv 8 ap st)
      else if ch = 112 then do {
        (num, ap) \<leftarrow> ptr_arg ap;
        st \<leftarrow> kv_number (cv\<lparr>sharpflag := (width cv = 0), sign := False\<rparr>) 16 num st;
        Some (ap, st, False) }
      else if ch = 114 then go (if sign cv then handle_sign cv radix ap st else handle_nosign cv radix ap st)
      else if ch = 115 then go (kv_s cv ap st)
      else if ch = 117 then go (handle_nosign cv 10 ap st)
      else if ch = 88 then go (handle_nosign (cv\<lparr>upper := True\<rparr>) 16 ap st)
      else if ch = 120 then go (handle_nosign cv 16 ap st)
      else if ch = 121 then go (handle_sign (cv\<lparr>sign := True\<rparr>) 16 ap st)
      else Some (ap, pchars seen st, True))"

lemma kv_flags_shorter: "kv_flags fmt ap cv = Some (ch, r, ap', cv') \<Longrightarrow> length r < length fmt"
proof (induction "length fmt" arbitrary: fmt ap cv rule: less_induct)
  case less
  show ?case
  proof (cases fmt)
    case (Cons c cs)
    have 1: "length r < length fmt" if "kv_flags cs ap1 cv1 = Some (ch, r, ap', cv')" for ap1 cv1
      using less.hyps [of cs] that Cons by (metis length_Cons lessI less_trans)
    have 2: "length r < length fmt" if "kv_width cs 0 c = Some (n, cs1)" "kv_flags cs1 ap1 cv1 = Some (ch, r, ap', cv')" for n cs1 ap1 cv1
      using less.hyps [of cs1] kv_width_shorter [OF that(1)] that(2) Cons by fastforce
    show ?thesis
      using less.prems unfolding Cons kv_flags.simps(2)
      by (auto simp: bind_eq_Some_conv simp flip: Cons split: if_splits intro: 1 2)
        (simp_all add: Cons)
  qed (use less.prems in \<open>simp add: kv_flags.simps\<close>)
qed

function kv_loop :: "int \<Rightarrow> bool \<Rightarrow> cstring \<Rightarrow> arg list \<Rightarrow> prt \<Rightarrow> prt option" where
  "kv_loop radix stop [] ap st = Some st"
| "kv_loop radix stop (ch # fmt) ap st =
     (if ch \<noteq> 37 \<or> stop then kv_loop radix stop fmt ap (pchars [ch] st)
      else (case kv_flags fmt ap conv_start of None \<Rightarrow> None
        | Some (c, fmt', ap, cv) \<Rightarrow>
            (case kv_conv radix (take (Suc (length fmt) - length fmt') (ch # fmt)) c cv ap st of None \<Rightarrow> None
             | Some (ap, st, stop) \<Rightarrow> kv_loop radix stop fmt' ap st)))"
  by pat_completeness auto
termination by (relation "measure (\<lambda>(radix, stop, fmt, ap, st). length fmt)") (auto dest!: kv_flags_shorter)

declare kv_loop.simps [simp del]

definition fmt_null :: cstring where "fmt_null = [40, 102, 109, 116, 32, 110, 117, 108, 108, 41, 10]"

definition kvprintf :: "cstring option \<Rightarrow> int \<Rightarrow> arg list \<Rightarrow> prt option" where
  "kvprintf fmt radix ap =
     (let fmt = (case fmt of None \<Rightarrow> fmt_null | Some fmt \<Rightarrow> fmt);
          radix = (if radix < 2 \<or> radix > 36 then 10 else radix)
      in kv_loop radix False fmt ap \<lparr>prt_chars = [], prt_stores = []\<rparr>)"

text \<open>\<open>printf\<close> passes each character to \<open>putc\<close> of stdio.c with the standard output; \<open>sprintf\<close>
  stores them one after the other, and no NUL behind them.\<close>

primrec put_all :: "('f, 'w) streams \<Rightarrow> u32 list \<Rightarrow> 'w \<Rightarrow> 'w option" where
  "put_all io [] w = Some w"
| "put_all io (c # cs) w = do { (_, w) \<leftarrow> putc io (sint c) Stdout w; put_all io cs w }"

definition printf :: "('f, 'w) streams \<Rightarrow> cstring option \<Rightarrow> arg list \<Rightarrow> 'w \<Rightarrow> 'w option" where
  "printf io fmt ap w = do {
     st \<leftarrow> kvprintf fmt 10 ap;
     put_all io (prt_chars st) w }"

primrec put_chars :: "buf \<Rightarrow> nat \<Rightarrow> u32 list \<Rightarrow> buf option" where
  "put_chars m d [] = Some m"
| "put_chars m d (c # cs) = do { m \<leftarrow> put_byte m d (ucast c); put_chars m (d + 1) cs }"

definition sprintf :: "buf \<Rightarrow> nat \<Rightarrow> cstring option \<Rightarrow> arg list \<Rightarrow> buf option" where
  "sprintf m p fmt ap = do {
     st \<leftarrow> kvprintf fmt 10 ap;
     put_chars m p (prt_chars st) }"

end
