(* ===== verification/PrintfText.thy ===== *)
theory PrintfText
  imports Printf Strtol
begin

text \<open>
  What formatted output is: numerals, fields padded to a width, and the text of a
  format.  A format is described by its pieces, literal text and conversions with their
  flags; \<open>kvprintf\<close> puts the text of the pieces in order.
\<close>

section \<open>Numerals\<close>

function rev_digits :: "nat \<Rightarrow> nat \<Rightarrow> nat list" where
  "rev_digits b n = (if n < b \<or> b < 2 then [n] else n mod b # rev_digits b (n div b))"
  by pat_completeness auto
termination by (relation "measure (\<lambda>(b, n). n)") auto

declare rev_digits.simps [simp del]

definition digit_char :: "bool \<Rightarrow> nat \<Rightarrow> u8" where
  "digit_char up d = (let c = hex2ascii_data ! d in if up then kv_upper c else c)"

definition numeral_text :: "nat \<Rightarrow> bool \<Rightarrow> nat \<Rightarrow> cstring" where
  "numeral_text b up n = map (digit_char up) (rev (rev_digits b n))"

lemma rev_digits_less: "2 \<le> b \<Longrightarrow> d \<in> set (rev_digits b n) \<Longrightarrow> d < b"
proof (induction b n rule: rev_digits.induct)
  case (1 b n)
  then show ?case by (subst (asm) rev_digits.simps) (auto split: if_splits)
qed

lemma length_rev_digits: "2 \<le> b \<Longrightarrow> n < b ^ k \<Longrightarrow> 0 < k \<Longrightarrow> length (rev_digits b n) \<le> k"
proof (induction k arbitrary: n)
  case (Suc k)
  show ?case
  proof (cases "n < b")
    case True
    then show ?thesis by (subst rev_digits.simps) simp
  next
    case False
    then have "0 < k" using Suc.prems by (cases k) auto
    moreover have "n div b < b ^ k" using Suc.prems by (simp add: less_mult_imp_div_less mult.commute)
    ultimately show ?thesis using Suc.IH [of "n div b"] Suc.prems False by (subst rev_digits.simps) simp
  qed
qed simp

lemma length_rev_digits_32: "2 \<le> b \<Longrightarrow> length (rev_digits b (unat (n :: u32))) \<le> 32"
proof (rule length_rev_digits)
  assume "2 \<le> b"
  have "unat n < 2 ^ 32" using unat_u32_less [of n] by simp
  also have "(2::nat) ^ 32 \<le> b ^ 32" using \<open>2 \<le> b\<close> by (rule power_mono) simp
  finally show "unat n < b ^ 32" .
qed simp_all

lemma rev_digits_nonempty [simp]: "rev_digits b n \<noteq> []"
  by (subst rev_digits.simps) simp

lemma numeral_text_nonempty [simp]: "numeral_text b up n \<noteq> []"
  by (simp add: numeral_text_def)

lemma length_hex2ascii_data [simp]: "length hex2ascii_data = 37"
  by (simp add: hex2ascii_data_def)

lemma all_digit_chars: "\<forall>d \<in> set [0..<36]. digit_char up d \<noteq> 0 \<and> digit_val (digit_char up d) = Some (of_nat d)"
  by (cases up) (simp_all add: upt_rec digit_char_def hex2ascii_data_def kv_upper_def digit_val_def word_le_nat_alt)

lemma digit_char_props: "d < 36 \<Longrightarrow> digit_char up d \<noteq> 0" "d < 36 \<Longrightarrow> digit_val (digit_char up d) = Some (of_nat d)"
  using all_digit_chars [of up] by simp_all

lemma digit_char_dec: "d < 10 \<Longrightarrow> is_dec (digit_char False d)"
proof -
  assume "d < 10"
  moreover have "\<forall>d \<in> set [0..<10]. is_dec (digit_char False d)"
    by (simp add: upt_rec digit_char_def hex2ascii_data_def is_dec_def)
  ultimately show ?thesis by simp
qed

lemma numeral_value_snoc: "numeral_value base (xs @ [x]) = numeral_value base xs * base + uint (the (digit_val x))"
  by (simp add: numeral_value_def)

lemma numeral_value_text:
  "2 \<le> b \<Longrightarrow> b \<le> 36 \<Longrightarrow> numeral_value (int b) (numeral_text b up n) = int n"
proof (induction b n rule: rev_digits.induct)
  case (1 b n)
  have u: "uint (of_nat d :: u8) = int d" if "d < 36" for d using that by (simp add: uint_nat unat_of_nat)
  show ?case
  proof (cases "n < b")
    case True
    then have "rev_digits b n = [n]" by (subst rev_digits.simps) simp
    then show ?thesis using True 1 by (simp add: numeral_text_def numeral_value_def digit_char_props u)
  next
    case False
    then have d: "numeral_text b up n = numeral_text b up (n div b) @ [digit_char up (n mod b)]"
      using 1 by (subst numeral_text_def, subst rev_digits.simps) (simp add: numeral_text_def)
    have m: "n mod b < 36" using 1 mod_less_divisor [of b n] by linarith
    have "int (n div b) * int b + int (n mod b) = int n" by (simp flip: of_nat_mult of_nat_add)
    then show ?thesis using False 1 m by (simp add: d numeral_value_snoc digit_char_props u)
  qed
qed

section \<open>The number buffer\<close>

lemma ksprintn_loop_digits:
  assumes "2 \<le> b" "b \<le> 36" "p + length (rev_digits b (unat num)) < length nbuf"
  shows "ksprintn_loop nbuf p num (int b) up =
    Some (blit nbuf (p + 1) (map (digit_char up) (rev_digits b (unat num))), p + length (rev_digits b (unat num)))"
  using assms
proof (induction "unat num" arbitrary: num p nbuf rule: less_induct)
  case less
  have b: "unat (word_of_nat b :: u32) = b" using less.prems unat_of_nat_u32 [of b] by simp
  then have b0: "(word_of_nat b :: u32) \<noteq> 0" using less.prems by (metis not_numeral_le_zero unat_0)
  have mod: "unat (num mod word_of_nat b) = unat num mod b" "unat (num div word_of_nat b) = unat num div b"
    using b by (simp_all add: unat_mod unat_div)
  have m: "unat num mod b < 37" using less.prems mod_less_divisor [of b "unat num"] by linarith
  let ?c = "digit_char up (unat num mod b)"
  have p: "p + 1 < length nbuf"
    using less.prems(3) by (cases "rev_digits b (unat num)") auto
  have step: "ksprintn_loop nbuf p num (int b) up =
      (if num div word_of_nat b \<noteq> 0 then ksprintn_loop (nbuf[p + 1 := ?c]) (p + 1) (num div word_of_nat b) (int b) up
       else Some (nbuf[p + 1 := ?c], p + 1))"
    using b0 m p by (subst ksprintn_loop.simps) (simp add: mod digit_char_def Let_def)
  show ?case
  proof (cases "unat num < b")
    case True
    then have "num div word_of_nat b = 0" using mod(2) by (metis div_less unat_eq_zero)
    moreover have "rev_digits b (unat num) = [unat num mod b]" using True by (subst rev_digits.simps) simp
    ultimately show ?thesis unfolding step using p by (simp add: blit_singleton)
  next
    case False
    then have q: "unat num div b \<noteq> 0" using less.prems by (simp add: div_eq_0_iff)
    then have n0: "num div word_of_nat b \<noteq> 0" using mod(2) by auto
    have d: "rev_digits b (unat num) = unat num mod b # rev_digits b (unat num div b)"
      using False less.prems by (subst rev_digits.simps) simp
    have less': "unat (num div word_of_nat b) < unat num"
      unfolding mod using False less.prems by (intro div_less_dividend) auto
    have len: "p + 1 + length (rev_digits b (unat num div b)) < length nbuf" using less.prems(3) d by simp
    have "ksprintn_loop (nbuf[p + 1 := ?c]) (p + 1) (num div word_of_nat b) (int b) up =
        Some (blit (nbuf[p + 1 := ?c]) (p + 1 + 1) (map (digit_char up) (rev_digits b (unat num div b))),
          p + 1 + length (rev_digits b (unat num div b)))"
      using less.hyps [OF less', of "p + 1" "nbuf[p + 1 := ?c]"] less.prems(1,2) len by (simp add: mod)
    moreover have "blit (nbuf[p + 1 := ?c]) (p + 1 + 1) ys = blit nbuf (p + 1) (?c # ys)"
      if "p + 1 + length ys < length nbuf" for ys
      using blit_append [of "p + 1" "[?c]" ys nbuf] that by (simp add: blit_singleton)
    ultimately show ?thesis unfolding step using n0 len by (simp add: d)
  qed
qed

lemma nbuf_chars_rev: "0 \<notin> set xs \<Longrightarrow> nbuf_chars (0 # xs @ ys) (length xs) = Some (rev xs)"
proof (induction xs arbitrary: ys rule: rev_induct)
  case Nil
  show ?case by (subst nbuf_chars.simps) simp
next
  case (snoc x xs)
  then show ?case using snoc.IH [of "x # ys"] by (subst nbuf_chars.simps) (simp add: nth_append)
qed

lemma blit_zeros: "blit (replicate (Suc n) 0) 1 xs = 0 # xs @ replicate (n - length xs) 0"
  by (simp add: blit_def)

lemma ksprintn_text:
  assumes "2 \<le> b" "b \<le> 36"
  shows "\<exists>nbuf p. ksprintn (replicate MAXNBUF 0) num (int b) up = Some (nbuf, p)
    \<and> nbuf_chars nbuf p = Some (numeral_text b up (unat num)) \<and> p = length (numeral_text b up (unat num))"
proof -
  let ?xs = "map (digit_char up) (rev_digits b (unat num))"
  have len: "length (rev_digits b (unat num)) \<le> 32" by (rule length_rev_digits_32 [OF assms(1)])
  then have 1: "ksprintn (replicate MAXNBUF 0) num (int b) up = Some (blit (replicate MAXNBUF 0) 1 ?xs, length ?xs)"
    using ksprintn_loop_digits [OF assms, of 0 num "replicate MAXNBUF 0" up]
    by (simp add: ksprintn_def MAXNBUF_def list_update_id [of "replicate 33 0" 0, simplified])
  have "blit (replicate MAXNBUF 0) 1 ?xs = 0 # ?xs @ replicate (32 - length ?xs) 0"
    using blit_zeros [of 32 ?xs] by (simp add: MAXNBUF_def)
  moreover have "0 \<notin> set ?xs"
    using rev_digits_less [OF assms(1)] assms(2) digit_char_props(1) [of _ up] by fastforce
  ultimately show ?thesis using 1 nbuf_chars_rev [of ?xs]
    by (simp add: numeral_text_def rev_map)
qed

section \<open>Fields\<close>

text \<open>A body with its prefix in a field: padded with blanks before, with zeros between, or behind.\<close>

definition field :: "bool \<Rightarrow> u8 \<Rightarrow> int \<Rightarrow> cstring \<Rightarrow> cstring \<Rightarrow> cstring" where
  "field left c w pre body =
     (let ps = replicate (nat (w - int (length pre + length body))) c
      in if left then pre @ body @ ps else if c = 48 then pre @ ps @ body else ps @ pre @ body)"

definition number_text :: "conv \<Rightarrow> nat \<Rightarrow> u32 \<Rightarrow> cstring" where
  "number_text cv b num =
     (let neg = (sign cv \<and> sint num < 0);
          num = (if neg then - num else num);
          pre = (if neg then [45] else [])
            @ (if sharpflag cv \<and> num \<noteq> 0 then if b = 8 then [48] else if b = 16 then [48, 120] else [] else [])
      in field (ladjust cv) (padc cv) (width cv) pre (numeral_text b (upper cv) (unat num)))"

lemma pchars_append: "pchars (xs @ ys) st = pchars ys (pchars xs st)"
  by (simp add: pchars_def)

lemma pchars_Nil [simp]: "pchars [] st = st"
  by (simp add: pchars_def)

lemma pad_step_alt: "pad_step c w st = (pchars (replicate (nat w) c) st, if w > 0 then -1 else w)"
  by (simp add: pad_step_def)

lemma kv_number_text:
  assumes "2 \<le> b" "b \<le> 36"
  shows "kv_number cv (int b) num st = Some (pchars (number_text cv b num) st)"
proof -
  define neg where "neg = (sign cv \<and> sint num < 0)"
  define n where "n = (if neg then - num else num)"
  define pre where "pre = (if sharpflag cv \<and> n \<noteq> 0 then if b = 8 then [48] else if b = 16 then [48, 120] else [] else [] :: cstring)"
  define sg where "sg = (if neg then [45] else [] :: cstring)"
  obtain nbuf p where k: "ksprintn (replicate MAXNBUF 0) n (int b) (upper cv) = Some (nbuf, p)"
    "nbuf_chars nbuf p = Some (numeral_text b (upper cv) (unat n))" "p = length (numeral_text b (upper cv) (unat n))"
    using ksprintn_text [OF assms] by blast
  let ?tmp = "int (length (sg @ pre) + p)"
  have tmp: "(if neg then (if sharpflag cv \<and> n \<noteq> 0 then if int b = 8 then int p + 1 else if int b = 16 then int p + 2 else int p else int p) + 1
      else if sharpflag cv \<and> n \<noteq> 0 then if int b = 8 then int p + 1 else if int b = 16 then int p + 2 else int p else int p) = ?tmp"
    by (simp add: sg_def pre_def)
  have sg: "(if neg then pchars [45] st else st) = pchars sg st" for st by (simp add: sg_def)
  have pre: "(if sharpflag cv \<and> n \<noteq> 0 then if int b = 8 then pchars [48] st else if int b = 16 then pchars [48, 120] st else st else st)
      = pchars pre st" for st by (simp add: pre_def)
  have out: "number_text cv b num = field (ladjust cv) (padc cv) (width cv) (sg @ pre) (numeral_text b (upper cv) (unat n))"
    by (simp add: number_text_def Let_def neg_def [symmetric] n_def [symmetric] sg_def pre_def)
  have "kv_number cv (int b) num st =
     (let (st, w) = (if \<not> ladjust cv \<and> padc cv \<noteq> 48 \<and> width cv \<noteq> 0 then pad_step (padc cv) (width cv - ?tmp) st else (st, width cv));
          st = pchars pre (pchars sg st);
          (st, w) = (if \<not> ladjust cv \<and> w \<noteq> 0 then pad_step (padc cv) (w - ?tmp) st else (st, w));
          st = pchars (numeral_text b (upper cv) (unat n)) st
      in Some (if ladjust cv \<and> w \<noteq> 0 then fst (pad_step (padc cv) (w - ?tmp) st) else st))"
    unfolding kv_number_def Let_def neg_def [symmetric] n_def [symmetric] k(1) k(2) bind.simps prod.case tmp sg pre
    by (simp add: k(2) split_def)
  also have "\<dots> = Some (pchars (number_text cv b num) st)"
    unfolding out field_def pad_step_alt
    by (auto simp: k(3) pchars_append Let_def split_def)
  finally show ?thesis .
qed

definition string_text :: "conv \<Rightarrow> cstring option \<Rightarrow> cstring" where
  "string_text cv s =
     (let p = (case s of None \<Rightarrow> kv_null | Some p \<Rightarrow> p);
          p = (if dot cv then take (nat (dwidth cv)) p else p)
      in field (ladjust cv) (padc cv) (width cv) [] p)"

lemma kv_s_text: "kv_s cv (A_str s # ap) st = Some (ap, pchars (string_text cv s) st)"
proof -
  define p where "p = (case s of None \<Rightarrow> kv_null | Some p \<Rightarrow> p)"
  define n where "n = (if \<not> dot cv then length p else min (nat (dwidth cv)) (length p))"
  have q: "(if dot cv then take (nat (dwidth cv)) p else p) = take n p" "length (take n p) = n"
    by (simp_all add: n_def min_def)
  have "kv_s cv (A_str s # ap) st =
     (let w = width cv - int n; (st, w) = (if \<not> ladjust cv \<and> w > 0 then pad_step (padc cv) w st else (st, w));
          st = pchars (take n p) st
      in Some (ap, if ladjust cv \<and> w > 0 then fst (pad_step (padc cv) w st) else st))"
    by (simp add: kv_s_def str_arg_def p_def n_def Let_def split_def)
  also have "\<dots> = Some (ap, pchars (string_text cv s) st)"
    unfolding string_text_def p_def [symmetric] Let_def q field_def pad_step_alt
    using q(2) by (auto simp: pchars_append)
  finally show ?thesis .
qed

section \<open>The flags of a conversion\<close>

lemma dec_digit:
  assumes "is_dec c"
  shows "uint (the (digit_val c)) = uint c - 48" "0 \<le> uint c - 48" "uint c - 48 \<le> 9"
proof -
  have "48 \<le> uint c" "uint c \<le> 57" using assms by (simp_all add: is_dec_def word_le_def)
  moreover from this have "uint (c - 48) = uint c - 48" by (simp add: uint_sub_lem [THEN iffD1])
  ultimately show "uint (the (digit_val c)) = uint c - 48" "0 \<le> uint c - 48" "uint c - 48 \<le> 9"
    using assms by (simp_all add: digit_val_def is_dec_def)
qed

lemma kv_width_digits:
  assumes "is_dec d" "\<forall>c \<in> set ds. is_dec c" "\<not> is_dec x" "0 \<le> n"
    and "foldl (\<lambda>a c. a * 10 + uint (the (digit_val c))) n (d # ds) < 1000000000"
  shows "kv_width (ds @ x # r) n d = Some (foldl (\<lambda>a c. a * 10 + uint (the (digit_val c))) n (d # ds), x # r)"
  using assms
proof (induction ds arbitrary: n d)
  case Nil
  then show ?case using dec_digit [of d] by (simp add: INT_MAX_def)
next
  case (Cons e ds)
  let ?n = "n * 10 + (uint d - 48)"
  note d = dec_digit [OF Cons.prems(1)]
  have "?n \<le> foldl (\<lambda>a c. a * 10 + uint (the (digit_val c))) ?n (e # ds)"
    by (rule foldl_value_ge) (use Cons.prems(4) d in simp_all)
  then have less: "?n < 1000000000" using Cons.prems(5) d by simp
  have 1: "kv_width (ds @ x # r) ?n e = Some (foldl (\<lambda>a c. a * 10 + uint (the (digit_val c))) ?n (e # ds), x # r)"
    using Cons.prems d by (intro Cons.IH) auto
  have 2: "foldl (\<lambda>a c. a * 10 + uint (the (digit_val c))) n (d # e # ds) =
      foldl (\<lambda>a c. a * 10 + uint (the (digit_val c))) ?n (e # ds)" using d(1) by simp
  have 3: "n * 10 + uint d - 48 = ?n" "\<not> n * 10 + uint d > INT_MAX" using less by (simp_all add: INT_MAX_def)
  have "kv_width ((e # ds) @ x # r) n d = kv_width (ds @ x # r) ?n e"
    unfolding append_Cons kv_width.simps(2) Let_def 3(1) using 3(2) Cons.prems(2) by simp
  then show ?case unfolding 2 1 .
qed

lemma dec_text:
  shows "\<forall>c \<in> set (numeral_text 10 False n). is_dec c"
    and "0 < n \<Longrightarrow> hd (numeral_text 10 False n) \<noteq> 48"
proof -
  show "\<forall>c \<in> set (numeral_text 10 False n). is_dec c"
    using rev_digits_less [of 10 _ n] digit_char_dec by (auto simp: numeral_text_def)
  have l: "last (rev_digits b n) \<noteq> 0" if "0 < n" "2 \<le> b" for b
    using that
  proof (induction b n rule: rev_digits.induct)
    case (1 b n)
    then show ?case by (subst rev_digits.simps) (auto simp: div_greater_zero_iff)
  qed
  have "last (rev_digits 10 n) < 10" using rev_digits_less [of 10 "last (rev_digits 10 n)" n] by simp
  moreover have "\<forall>d \<in> set [0..<10]. digit_char False d = 48 \<longrightarrow> d = 0"
    by (simp add: upt_rec digit_char_def hex2ascii_data_def)
  ultimately have "digit_char False (last (rev_digits 10 n)) = 48 \<longrightarrow> last (rev_digits 10 n) = 0" by simp
  moreover have "hd (numeral_text 10 False n) = digit_char False (last (rev_digits 10 n))"
    by (simp add: numeral_text_def hd_map hd_rev)
  ultimately show "hd (numeral_text 10 False n) \<noteq> 48" if "0 < n"
    using l [of 10] that by simp
qed

lemma kv_width_numeral:
  assumes "n < 1000000000" "\<not> is_dec x"
  shows "kv_width (tl (numeral_text 10 False n) @ x # r) 0 (hd (numeral_text 10 False n)) = Some (int n, x # r)"
proof -
  obtain d ds where t: "numeral_text 10 False n = d # ds" by (metis list.exhaust numeral_text_nonempty)
  then have "foldl (\<lambda>a c. a * 10 + uint (the (digit_val c))) 0 (d # ds) = int n"
    using numeral_value_text [of 10 False n] by (simp add: numeral_value_def)
  then show ?thesis using dec_text(1) [of n] t assms kv_width_digits [of d ds x 0 r] by simp
qed

text \<open>The characters that end the flags.\<close>

definition conv_char :: "u8 \<Rightarrow> bool" where
  "conv_char c \<longleftrightarrow> c \<notin> {35, 42, 43, 45, 46, 104, 106, 108, 113, 116, 122} \<and> \<not> is_dec c"

lemma kv_flags_conv: "conv_char c \<Longrightarrow> kv_flags (c # fmt) ap cv = Some (c, fmt, ap, cv)"
  by (subst kv_flags.simps) (auto simp: conv_char_def is_dec_def)

lemma kv_flags_numeral:
  assumes "n < 1000000000" "\<not> is_dec x" "0 < n \<or> dot cv"
  shows "kv_flags (numeral_text 10 False n @ x # r) ap cv =
    kv_flags (x # r) ap (if dot cv then cv\<lparr>dwidth := int n\<rparr> else cv\<lparr>width := int n\<rparr>)"
proof -
  obtain d ds where t: "numeral_text 10 False n = d # ds" by (metis list.exhaust numeral_text_nonempty)
  have d: "is_dec d" "d = 48 \<longrightarrow> dot cv" using dec_text [of n] t assms(3) by auto
  then have "d \<noteq> 46" "d \<noteq> 35" "d \<noteq> 43" "d \<noteq> 45" "d \<noteq> 42" by (auto simp: is_dec_def)
  moreover have "kv_width (ds @ x # r) 0 d = Some (int n, x # r)"
    using kv_width_numeral [OF assms(1,2), of r] t by simp
  moreover have "\<not> (d = 48 \<and> \<not> dot cv)" using d by blast
  ultimately show ?thesis using d(1) unfolding t append_Cons
    by (subst kv_flags.simps(2)) (simp only: if_False if_True bind.simps prod.case)
qed

definition flags_text :: "bool \<Rightarrow> bool \<Rightarrow> bool \<Rightarrow> nat \<Rightarrow> cstring" where
  "flags_text left zero alt w =
     (if alt then [35] else []) @ (if left then [45] else []) @ (if zero then [48] else [])
     @ (if w = 0 then [] else numeral_text 10 False w)"

definition flags_conv :: "bool \<Rightarrow> bool \<Rightarrow> bool \<Rightarrow> nat \<Rightarrow> conv" where
  "flags_conv left zero alt w =
     conv_start\<lparr>ladjust := left, padc := (if zero then 48 else 32), sharpflag := alt, width := int w\<rparr>"

lemma kv_flags_text:
  assumes "w < 1000000000" "\<not> is_dec c"
  shows "kv_flags (flags_text left zero alt w @ c # fmt) ap conv_start = kv_flags (c # fmt) ap (flags_conv left zero alt w)"
proof -
  have n: "kv_flags ((if w = 0 then [] else numeral_text 10 False w) @ c # fmt) ap cv = kv_flags (c # fmt) ap (cv\<lparr>width := int w\<rparr>)"
    if "\<not> dot cv" "width cv = 0" for cv
  proof (cases "w = 0")
    case True
    then have "cv\<lparr>width := int w\<rparr> = cv" using that(2) by (cases cv) simp
    then show ?thesis using True by simp
  next
    case False
    then show ?thesis using kv_flags_numeral [OF assms, of cv] that by simp
  qed
  have z: "kv_flags (48 # xs) ap cv = kv_flags xs ap (cv\<lparr>padc := 48\<rparr>)" if "\<not> dot cv" for cv xs
    using that by (subst kv_flags.simps) simp
  have l: "kv_flags (45 # xs) ap cv = kv_flags xs ap (cv\<lparr>ladjust := True\<rparr>)" for cv xs
    by (subst kv_flags.simps) simp
  have a: "kv_flags (35 # xs) ap cv = kv_flags xs ap (cv\<lparr>sharpflag := True\<rparr>)" for cv xs
    by (subst kv_flags.simps) simp
  show ?thesis
    by (cases left; cases zero; cases alt) (simp_all add: flags_text_def flags_conv_def n z l a conv_start_def)
qed

section \<open>Pieces of a format\<close>

datatype body =
    Dec u32 | Uns u32 | Hex bool u32 | Oct u32 | Ptr u32 | Str "cstring option" | StrN nat "cstring option" | Chr u32 | Percent

text \<open>Literal text, or a conversion with the flags for left adjustment, zeros and the alternative
  form, and a width.\<close>

datatype piece = Lit cstring | Field bool bool bool nat body

primrec body_fmt :: "body \<Rightarrow> cstring" where
  "body_fmt (Dec n) = [100]"
| "body_fmt (Uns n) = [117]"
| "body_fmt (Hex up n) = [if up then 88 else 120]"
| "body_fmt (Oct n) = [111]"
| "body_fmt (Ptr n) = [112]"
| "body_fmt (Str s) = [115]"
| "body_fmt (StrN k s) = 46 # numeral_text 10 False k @ [115]"
| "body_fmt (Chr c) = [99]"
| "body_fmt Percent = [37]"

primrec body_args :: "body \<Rightarrow> arg list" where
  "body_args (Dec n) = [A_int n]"
| "body_args (Uns n) = [A_int n]"
| "body_args (Hex up n) = [A_int n]"
| "body_args (Oct n) = [A_int n]"
| "body_args (Ptr n) = [A_ptr n]"
| "body_args (Str s) = [A_str s]"
| "body_args (StrN k s) = [A_str s]"
| "body_args (Chr c) = [A_int c]"
| "body_args Percent = []"

primrec piece_fmt :: "piece \<Rightarrow> cstring" where
  "piece_fmt (Lit xs) = xs"
| "piece_fmt (Field left zero alt w b) = 37 # flags_text left zero alt w @ body_fmt b"

primrec piece_args :: "piece \<Rightarrow> arg list" where
  "piece_args (Lit xs) = []"
| "piece_args (Field left zero alt w b) = body_args b"

primrec piece_ok :: "piece \<Rightarrow> bool" where
  "piece_ok (Lit xs) \<longleftrightarrow> 37 \<notin> set xs"
| "piece_ok (Field left zero alt w b) \<longleftrightarrow> w < 1000000000 \<and> (case b of StrN k s \<Rightarrow> k < 1000000000 | _ \<Rightarrow> True)"

text \<open>What a piece is printed as.\<close>

definition str_body :: "cstring option \<Rightarrow> cstring" where
  "str_body s = (case s of None \<Rightarrow> kv_null | Some p \<Rightarrow> p)"

primrec body_text :: "bool \<Rightarrow> u8 \<Rightarrow> bool \<Rightarrow> nat \<Rightarrow> body \<Rightarrow> u32 list" where
  "body_text left c alt w (Dec n) =
     map ucast (field left c (int w) (if sint n < 0 then [45] else []) (numeral_text 10 False (nat \<bar>sint n\<bar>)))"
| "body_text left c alt w (Uns n) = map ucast (field left c (int w) [] (numeral_text 10 False (unat n)))"
| "body_text left c alt w (Hex up n) =
     map ucast (field left c (int w) (if alt \<and> n \<noteq> 0 then [48, 120] else []) (numeral_text 16 up (unat n)))"
| "body_text left c alt w (Oct n) =
     map ucast (field left c (int w) (if alt \<and> n \<noteq> 0 then [48] else []) (numeral_text 8 False (unat n)))"
| "body_text left c alt w (Ptr n) =
     map ucast (field left c (int w) (if w = 0 \<and> n \<noteq> 0 then [48, 120] else []) (numeral_text 16 False (unat n)))"
| "body_text left c alt w (Str s) = map ucast (field left c (int w) [] (str_body s))"
| "body_text left c alt w (StrN k s) = map ucast (field left c (int w) [] (take k (str_body s)))"
| "body_text left c alt w (Chr x) = [x]"
| "body_text left c alt w Percent = [37]"

primrec piece_text :: "piece \<Rightarrow> u32 list" where
  "piece_text (Lit xs) = map ucast xs"
| "piece_text (Field left zero alt w b) = body_text left (if zero then 48 else 32) alt w b"

definition put_out :: "u32 list \<Rightarrow> prt \<Rightarrow> prt" where
  "put_out cs st = st\<lparr>prt_chars := prt_chars st @ cs\<rparr>"

lemma pchars_out: "pchars cs st = put_out (map ucast cs) st"
  by (induction cs arbitrary: st) (simp_all add: pchars_def put_out_def pchar_def)

lemma put_out_append: "put_out ys (put_out xs st) = put_out (xs @ ys) st"
  by (simp add: put_out_def)

lemma sint_u32_cases: "sint (n :: u32) = (if unat n < 2147483648 then int (unat n) else int (unat n) - 4294967296)"
proof -
  define k where "k = unat n"
  have "k < 4294967296" using unat_u32_less [of n] by (simp add: k_def)
  then have "int k < 4294967296" by linarith
  moreover have "uint n = int k" by (simp add: k_def)
  ultimately have k: "uint n = int k" "int k < 4294967296" by blast+
  have "sint n = (int k + 2147483648) mod 4294967296 - 2147483648"
    by (simp add: sint_uint signed_take_bit_eq_take_bit_shift take_bit_eq_mod k(1))
  also have "\<dots> = (if k < 2147483648 then int k else int k - 4294967296)"
  proof (cases "k < 2147483648")
    case True
    then have "(int k + 2147483648) mod 4294967296 = int k + 2147483648" by (intro mod_pos_pos_trivial) simp_all
    then show ?thesis using True by simp
  next
    case False
    then have "(int k - 2147483648) mod 4294967296 = int k - 2147483648" using k(2) by (intro mod_pos_pos_trivial) simp_all
    moreover have "int k + 2147483648 = (int k - 2147483648) + 4294967296" by simp
    ultimately have "(int k + 2147483648) mod 4294967296 = int k - 2147483648" by (metis mod_add_self2)
    then show ?thesis using False by simp
  qed
  finally show ?thesis by (simp add: k_def)
qed

lemma uminus_sint: "sint (n :: u32) < 0 \<Longrightarrow> unat (- n) = nat \<bar>sint n\<bar>" "\<not> sint (n :: u32) < 0 \<Longrightarrow> unat n = nat \<bar>sint n\<bar>"
proof -
  assume n: "sint n < 0"
  define k where "k = unat n"
  have k: "\<not> k < 2147483648" "k < 4294967296" using n unat_u32_less [of n] by (simp_all add: k_def sint_u32_cases split: if_splits)
  have "uint (- n) = (- int k) mod 4294967296" by (simp add: uint_word_ariths(4) k_def)
  also have "\<dots> = (4294967296 - int k) mod 4294967296" by (metis minus_mod_self1)
  also have "\<dots> = 4294967296 - int k" using k by (intro mod_pos_pos_trivial) simp_all
  finally have "unat (- n) = 4294967296 - k" using k(2) by (simp add: unat_eq_nat_uint)
  then show "unat (- n) = nat \<bar>sint n\<bar>" using k by (simp add: sint_u32_cases k_def [symmetric])
next
  assume n: "\<not> sint n < 0"
  define k where "k = unat n"
  have "k < 4294967296" using unat_u32_less [of n] by (simp add: k_def)
  then have "sint n = int k" using n by (simp add: sint_u32_cases k_def [symmetric] split: if_splits)
  then show "unat n = nat \<bar>sint n\<bar>" by (simp add: k_def [symmetric])
qed

section \<open>Formats\<close>

definition body_conv :: "body \<Rightarrow> conv \<Rightarrow> conv" where
  "body_conv b cv = (case b of StrN k s \<Rightarrow> cv\<lparr>dot := True, dwidth := int k\<rparr> | _ \<Rightarrow> cv)"

definition body_char :: "body \<Rightarrow> u8" where
  "body_char b = last (body_fmt b)"

lemma body_char_simps [simp]:
  "body_char (Dec n) = 100" "body_char (Uns n) = 117" "body_char (Hex up n) = (if up then 88 else 120)"
  "body_char (Oct n) = 111" "body_char (Ptr n) = 112" "body_char (Str s) = 115" "body_char (StrN k s) = 115"
  "body_char (Chr c) = 99" "body_char Percent = 37"
  by (simp_all add: body_char_def)

lemma body_char_conv: "conv_char (body_char b)"
  by (cases b) (simp_all add: conv_char_def is_dec_def)

lemma body_flags:
  assumes "case b of StrN k s \<Rightarrow> k < 1000000000 | _ \<Rightarrow> True"
  shows "kv_flags (body_fmt b @ r) ap cv = Some (body_char b, r, ap, body_conv b cv)"
proof (cases "\<exists>k s. b = StrN k s")
  case True
  then obtain k s where b: "b = StrN k s" by blast
  have d: "kv_flags (46 # xs) ap cv = kv_flags xs ap (cv\<lparr>dot := True\<rparr>)" for xs by (subst kv_flags.simps) simp
  have 115: "conv_char 115" using body_char_conv [of b] b by simp
  then have "kv_flags (numeral_text 10 False k @ 115 # r) ap (cv\<lparr>dot := True\<rparr>) = Some (115, r, ap, cv\<lparr>dot := True, dwidth := int k\<rparr>)"
    using kv_flags_numeral [of k 115 "cv\<lparr>dot := True\<rparr>" r ap] assms b kv_flags_conv [OF 115]
    by (simp add: conv_char_def)
  then show ?thesis by (simp add: b d body_conv_def)
next
  case False
  then have "body_fmt b = [body_char b]" "body_conv b cv = cv" by (cases b; simp add: body_conv_def)+
  then show ?thesis using kv_flags_conv [OF body_char_conv] by simp
qed

lemma body_first: "\<exists>c xs. body_fmt b = c # xs \<and> \<not> is_dec c"
  by (cases b) (simp_all add: is_dec_def)

lemma number_text_simps:
  "number_text (flags_conv left zero alt w\<lparr>sign := True\<rparr>) 10 n =
     field left (if zero then 48 else 32) (int w) (if sint n < 0 then [45] else []) (numeral_text 10 False (nat \<bar>sint n\<bar>))"
  "number_text (flags_conv left zero alt w\<lparr>sign := False\<rparr>) 10 n =
     field left (if zero then 48 else 32) (int w) [] (numeral_text 10 False (unat n))"
  "number_text (flags_conv left zero alt w\<lparr>upper := up, sign := False\<rparr>) 16 n =
     field left (if zero then 48 else 32) (int w) (if alt \<and> n \<noteq> 0 then [48, 120] else []) (numeral_text 16 up (unat n))"
  "number_text (flags_conv left zero alt w\<lparr>sign := False\<rparr>) 16 n =
     field left (if zero then 48 else 32) (int w) (if alt \<and> n \<noteq> 0 then [48, 120] else []) (numeral_text 16 False (unat n))"
  "number_text (flags_conv left zero alt w\<lparr>sign := False\<rparr>) 8 n =
     field left (if zero then 48 else 32) (int w) (if alt \<and> n \<noteq> 0 then [48] else []) (numeral_text 8 False (unat n))"
  "number_text (flags_conv left zero alt w\<lparr>sharpflag := w = 0, sign := False\<rparr>) 16 n =
     field left (if zero then 48 else 32) (int w) (if w = 0 \<and> n \<noteq> 0 then [48, 120] else []) (numeral_text 16 False (unat n))"
  by (simp_all add: number_text_def flags_conv_def conv_start_def Let_def uminus_sint)

lemma body_printed:
  "kv_conv radix seen (body_char b) (body_conv b (flags_conv left zero alt w)) (body_args b @ ap) st =
     Some (ap, put_out (body_text left (if zero then 48 else 32) alt w b) st, False)"
proof -
  let ?cv = "flags_conv left zero alt w"
  have f: "jflag ?cv = False" "qflag ?cv = False" "tflag ?cv = False" "lflag ?cv = False" "zflag ?cv = False"
    "hflag ?cv = False" "cflag ?cv = False" "dot ?cv = False" "width ?cv = int w" "ladjust ?cv = left"
    "padc ?cv = (if zero then 48 else 32)"
    by (simp_all add: flags_conv_def conv_start_def)
  have n: "kv_number cv 10 m st = Some (put_out (map ucast (number_text cv 10 m)) st)"
    "kv_number cv 8 m st = Some (put_out (map ucast (number_text cv 8 m)) st)"
    "kv_number cv 16 m st = Some (put_out (map ucast (number_text cv 16 m)) st)" for cv m
    using kv_number_text [of 10 cv m st] kv_number_text [of 8 cv m st] kv_number_text [of 16 cv m st]
    by (simp_all add: pchars_out)
  note defs = kv_conv_def Let_def handle_sign_def handle_nosign_def signed_arg_def unsigned_arg_def int_arg_def ptr_arg_def
  show ?thesis
  proof (cases b)
    case (Str s)
    then show ?thesis using kv_s_text [of ?cv s ap st]
      by (simp add: defs body_conv_def string_text_def f pchars_out str_body_def Let_def)
  next
    case (StrN k s)
    then show ?thesis using kv_s_text [of "?cv\<lparr>dot := True, dwidth := int k\<rparr>" s ap st]
      by (simp add: defs body_conv_def string_text_def f pchars_out str_body_def Let_def)
  next
    case (Hex up m)
    have "?cv\<lparr>upper := False\<rparr> = ?cv" by (simp add: flags_conv_def conv_start_def)
    then show ?thesis using Hex
      by (cases up) (simp_all add: defs body_conv_def f n number_text_simps)
  qed (simp_all add: defs body_conv_def f n number_text_simps pchar_def pchars_out put_out_def)
qed

lemma kv_loop_lit:
  "37 \<notin> set xs \<Longrightarrow> kv_loop radix False (xs @ fmt) ap st = kv_loop radix False fmt ap (put_out (map ucast xs) st)"
proof (induction xs arbitrary: st)
  case (Cons x xs)
  then show ?case unfolding append_Cons kv_loop.simps(2) by (simp add: pchars_out put_out_def)
qed (simp add: put_out_def)

lemma kv_loop_piece:
  assumes "piece_ok pc"
  shows "kv_loop radix False (piece_fmt pc @ fmt) (piece_args pc @ ap) st =
    kv_loop radix False fmt ap (put_out (piece_text pc) st)"
proof (cases pc)
  case (Lit xs)
  then show ?thesis using assms by (simp add: kv_loop_lit)
next
  case (Field left zero alt w b)
  obtain c xs where b: "body_fmt b = c # xs" "\<not> is_dec c" using body_first by blast
  have w: "w < 1000000000" "case b of StrN k s \<Rightarrow> k < 1000000000 | _ \<Rightarrow> True"
    using assms Field by (simp_all split: body.splits)
  have "kv_flags (flags_text left zero alt w @ body_fmt b @ fmt) (body_args b @ ap) conv_start =
      Some (body_char b, fmt, body_args b @ ap, body_conv b (flags_conv left zero alt w))"
    using kv_flags_text [OF w(1) b(2), of left zero alt "xs @ fmt"] body_flags [OF w(2), of fmt] b(1) by simp
  then show ?thesis using Field body_printed
    by (simp add: kv_loop.simps(2))
qed

lemma kv_loop_pieces:
  "\<forall>pc \<in> set ps. piece_ok pc \<Longrightarrow>
    kv_loop radix False (concat (map piece_fmt ps) @ fmt) (concat (map piece_args ps) @ ap) st =
    kv_loop radix False fmt ap (put_out (concat (map piece_text ps)) st)"
  by (induction ps arbitrary: st) (simp_all add: kv_loop_piece put_out_append, simp add: put_out_def)

text \<open>C14: Formatted output of a format made of literal text and conversions, with any flags and
  widths, is the text of the pieces in order: numerals in the base of the conversion
  with sign or prefix, strings cut at the precision, padded to the width on the side
  and with the character that the flags select.\<close>

theorem kvprintf_prints_pieces:
  assumes "\<forall>pc \<in> set ps. piece_ok pc"
  shows "kvprintf (Some (concat (map piece_fmt ps))) radix (concat (map piece_args ps) @ ap) =
    Some \<lparr>prt_chars = concat (map piece_text ps), prt_stores = []\<rparr>"
  using kv_loop_pieces [OF assms, of _ "[]"] by (simp add: kvprintf_def Let_def kv_loop.simps(1) put_out_def)

lemma kvprintf_prints_pieces_witness:
  "kvprintf (Some [37, 35, 48, 56, 120, 32, 37, 45, 53, 100, 124, 37, 46, 50, 115]) 10
     ([A_int 0xbeef, A_int (-42), A_str (Some [65, 66, 67])] @ [A_int 1]) =
   Some \<lparr>prt_chars = [48, 120, 48, 48, 98, 101, 101, 102, 32, 45, 52, 50, 32, 32, 124, 65, 66], prt_stores = []\<rparr>"
proof -
  let ?ps = "[Field False True True 8 (Hex False 0xbeef), Lit [32], Field True False False 5 (Dec (-42)), Lit [124],
     Field False False False 0 (StrN 2 (Some [65, 66, 67]))]"
  have f: "concat (map piece_fmt ?ps) = [37, 35, 48, 56, 120, 32, 37, 45, 53, 100, 124, 37, 46, 50, 115]"
    by code_simp
  have "replicate 2 c = [c, c]" for c :: u8 by (simp add: numeral_2_eq_2)
  then have t: "concat (map piece_text ?ps) = [48, 120, 48, 48, 98, 101, 101, 102, 32, 45, 52, 50, 32, 32, 124, 65, 66]"
    by (simp add: field_def numeral_text_def digit_char_def hex2ascii_data_def str_body_def Let_def rev_digits.simps)
  have a: "concat (map piece_args ?ps) = [A_int 0xbeef, A_int (-42), A_str (Some [65, 66, 67])]" by simp
  have "\<forall>pc \<in> set ?ps. piece_ok pc" by simp
  from kvprintf_prints_pieces [OF this, of 10 "[A_int 1]"] show ?thesis unfolding f t a .
qed

end
