(* ===== verification/PrintfProps.thy ===== *)
theory PrintfProps
  imports PrintfText
begin

text \<open>
  What the formatter and the parser of numbers do together, and which formats it handles
  for every argument of the right types.
\<close>

section \<open>Into a buffer and back\<close>

lemma ucast_u32_u8: "ucast (ucast c :: u32) = (c :: u8)"
  by (simp add: ucast_up_ucast_id is_up)

lemma put_chars_blit:
  "d + length cs \<le> length m \<Longrightarrow> put_chars m d (map ucast cs) = Some (blit m d cs)"
proof (induction cs arbitrary: m d)
  case (Cons c cs)
  have "blit (m[d := c]) (d + 1) cs = blit m d (c # cs)"
    using blit_append [of d "[c]" cs m] Cons.prems by (simp add: blit_singleton)
  then show ?case using Cons.IH [of "d + 1" "m[d := c]"] Cons.prems by (simp add: ucast_u32_u8)
qed simp

lemma bytes_at_nth: "\<forall>i < length xs. p + i < length m \<and> m ! (p + i) = xs ! i \<Longrightarrow> bytes_at m p xs"
proof (induction xs arbitrary: p)
  case (Cons x xs)
  have "\<forall>i < length xs. (p + 1) + i < length m \<and> m ! ((p + 1) + i) = xs ! i" using Cons.prems by force
  then show ?case using Cons.IH [of "p + 1"] Cons.prems by (auto simp: get_byte_eq_Some dest: spec [of _ 0])
qed simp

lemma numeral_value_zeros: "numeral_value base (replicate k 48 @ ds) = numeral_value base ds"
proof -
  have "foldl (\<lambda>a c. a * base + uint (the (digit_val c))) 0 (replicate k 48) = 0"
    by (induction k) (simp_all add: digit_val_def)
  then show ?thesis by (simp add: numeral_value_def)
qed

lemma is_digit_text: "2 \<le> b \<Longrightarrow> b \<le> 36 \<Longrightarrow> \<forall>c \<in> set (numeral_text b up n). is_digit (int b) c"
proof -
  assume b: "2 \<le> b" "b \<le> 36"
  have "is_digit (int b) (digit_char up d)" if "d < b" for d
    using that b digit_char_props(2) [of d up] by (simp add: is_digit_def uint_nat unat_of_nat)
  then show ?thesis using rev_digits_less [OF b(1)] by (auto simp: numeral_text_def)
qed

text \<open>A number in blanks, sign and zeros, as \<open>strtol\<close> reads it.\<close>

lemma strtol_reads:
  assumes at: "bytes_at m p (replicate k 32 @ sg @ replicate z 48 @ numeral_text 10 False v @ [x])"
    and x: "\<not> is_digit 10 x" and sg: "sg = [] \<or> sg = [45]" and v: "int v \<le> strtol_limit (sg = [45])"
  shows "strtol m p 10 =
    Some (if sg = [45] then - int v else int v, p + k + length sg + z + length (numeral_text 10 False v), None)"
proof -
  define ds where "ds = replicate z 48 @ numeral_text 10 False v"
  have "is_digit 10 48" by (simp add: is_digit_def digit_val_def)
  then have d: "\<forall>d \<in> set ds. is_digit 10 d" using is_digit_text [of 10 False v] by (auto simp: ds_def)
  have ne: "ds \<noteq> []" by (simp add: ds_def)
  have hd: "hd (ds @ [x]) = hd ds" "is_digit 10 (hd ds)" using ne d by simp_all
  let ?s = "p + k + length sg + 1"
  have e: "hd ds # tl ds @ [x] = ds @ [x]" using ne by (metis append_Cons list.collapse)
  have all: "bytes_at m p (replicate k 32 @ sg @ hd ds # tl ds @ [x])" unfolding e using at by (simp add: ds_def)
  have sp: "bytes_at m p (replicate k 32 @ sg @ [hd ds])" and tl: "bytes_at m ?s (tl (ds @ [x]))"
    using all ne by (simp_all add: bytes_at_append add.assoc)
  have "read_sign m p = Some (sg = [45], hd ds, p + length (replicate k (32 :: u8)) + length sg + 1)"
    by (rule read_sign_chars [OF sp])
      (use sg hd(2) is_digit_not_space [OF hd(2)] is_digit_not_sign [OF hd(2)] in \<open>auto simp: isspace_def sign_chars_def\<close>)
  then have r: "read_sign m p = Some (sg = [45], hd (ds @ [x]), ?s)" using hd(1) by simp
  have b: "read_base m (hd (ds @ [x])) ?s 10 = Some (hd (ds @ [x]), ?s, 10)" by (simp add: read_base_def)
  have "numeral_value 10 ds = int v"
    using numeral_value_text [of 10 False v] by (simp add: ds_def numeral_value_zeros)
  then show ?thesis using strtol_result [OF r tl b d x, of "int v"] v ne by (simp add: ds_def)
qed



section \<open>Types of a format\<close>

text \<open>The kinds of argument a format takes, found by reading the format alone: the flags seen so
  far and the number of digits decide.  A width argument must not be the least integer;
  a number in the format has at most nine digits.  The conversions for registers and
  dumps, whose needs depend on the values of the arguments, are left out.\<close>

datatype arg_kind = K_int | K_width | K_quad | K_str | K_ptr

fun has_kind :: "arg_kind \<Rightarrow> arg \<Rightarrow> bool" where
  "has_kind K_int (A_int w) \<longleftrightarrow> True"
| "has_kind K_width (A_int w) \<longleftrightarrow> sint w \<noteq> INT_MIN"
| "has_kind K_quad (A_quad w) \<longleftrightarrow> True"
| "has_kind K_str (A_str s) \<longleftrightarrow> True"
| "has_kind K_ptr (A_ptr w) \<longleftrightarrow> True"
| "has_kind k a \<longleftrightarrow> False"

record flag_scan =
  sc_j :: bool
  sc_q :: bool
  sc_l :: bool
  sc_digits :: nat

definition conv_kinds :: "u8 \<Rightarrow> flag_scan \<Rightarrow> arg_kind list option" where
  "conv_kinds c sc =
     (if c = 37 then Some []
      else if c = 99 then Some [K_int]
      else if c \<in> {88, 100, 105, 111, 114, 117, 120, 121} then Some [if sc_q sc \<and> \<not> sc_j sc then K_quad else K_int]
      else if c = 110 \<or> c = 112 then Some [K_ptr]
      else if c = 115 then Some [K_str]
      else None)"

primrec fmt_kinds :: "cstring \<Rightarrow> flag_scan option \<Rightarrow> arg_kind list option" where
  "fmt_kinds [] md = (case md of None \<Rightarrow> Some [] | Some sc \<Rightarrow> None)"
| "fmt_kinds (c # fmt) md =
     (case md of
        None \<Rightarrow> fmt_kinds fmt (if c = 37 then Some \<lparr>sc_j = False, sc_q = False, sc_l = False, sc_digits = 0\<rparr> else None)
      | Some sc \<Rightarrow>
          let sc0 = sc\<lparr>sc_digits := 0\<rparr> in
          if c \<in> {35, 43, 45, 46, 104, 116, 122} then fmt_kinds fmt (Some sc0)
          else if c = 42 then map_option (Cons K_width) (fmt_kinds fmt (Some sc0))
          else if is_dec c then if sc_digits sc = 9 then None else fmt_kinds fmt (Some (sc\<lparr>sc_digits := Suc (sc_digits sc)\<rparr>))
          else if c = 106 then fmt_kinds fmt (Some (sc0\<lparr>sc_j := True\<rparr>))
          else if c = 108 then fmt_kinds fmt (Some (if sc_l sc then sc0\<lparr>sc_l := False, sc_q := True\<rparr> else sc0\<lparr>sc_l := True\<rparr>))
          else if c = 113 then fmt_kinds fmt (Some (sc0\<lparr>sc_q := True\<rparr>))
          else do {
            ks \<leftarrow> conv_kinds c sc;
            ks' \<leftarrow> fmt_kinds fmt None;
            Some (ks @ ks') })"

definition scanned :: "flag_scan \<Rightarrow> conv \<Rightarrow> bool" where
  "scanned sc cv \<longleftrightarrow> sc_j sc = jflag cv \<and> sc_q sc = qflag cv \<and> sc_l sc = lflag cv"

lemma dec_bound: "is_dec c \<Longrightarrow> 48 \<le> uint c \<and> uint c \<le> 57"
  by (simp add: is_dec_def word_le_def)

lemma kv_width_ok:
  "fmt_kinds fmt (Some (sc\<lparr>sc_digits := k\<rparr>)) = Some ks \<Longrightarrow> is_dec c \<Longrightarrow> 0 < k \<Longrightarrow> k \<le> 9 \<Longrightarrow> 0 \<le> n \<Longrightarrow> n < 10 ^ (k - 1) \<Longrightarrow>
    \<exists>v r k'. kv_width fmt n c = Some (v, r) \<and> 0 \<le> v \<and> k' \<le> 9 \<and> fmt_kinds r (Some (sc\<lparr>sc_digits := k'\<rparr>)) = Some ks"
proof (induction fmt arbitrary: n c k)
  case Nil
  then show ?case by simp
next
  case (Cons d fmt)
  let ?n = "n * 10 + (uint c - 48)"
  have p: "(10 :: int) ^ (k - 1) * 10 = 10 ^ k" using Cons.prems(3) by (cases k) simp_all
  have n: "0 \<le> ?n" "?n < 10 ^ k" using dec_bound [OF Cons.prems(2)] Cons.prems(5,6) p by linarith+
  have "(10 :: int) ^ k \<le> 10 ^ 9" using Cons.prems(4) by (intro power_increasing) simp_all
  then have m: "\<not> n * 10 + uint c > INT_MAX" "n * 10 + uint c - 48 = ?n" using n by (simp_all add: INT_MAX_def)
  show ?case
  proof (cases "is_dec d")
    case False
    then have "kv_width (d # fmt) n c = Some (?n, d # fmt)" using m by simp
    then show ?thesis using Cons.prems(1,4) n(1) by blast
  next
    case True
    then have "d \<notin> {35, 42, 43, 45, 46, 104, 106, 108, 113, 116, 122}" by (auto simp: is_dec_def)
    then have "k \<noteq> 9 \<and> fmt_kinds fmt (Some (sc\<lparr>sc_digits := Suc k\<rparr>)) = Some ks"
      using Cons.prems(1) True by (simp add: Let_def split: if_splits)
    then obtain v r k' where "kv_width fmt ?n d = Some (v, r)" "0 \<le> v" "k' \<le> 9" "fmt_kinds r (Some (sc\<lparr>sc_digits := k'\<rparr>)) = Some ks"
      using Cons.IH [of "Suc k" d ?n] True Cons.prems(4) n by auto
    moreover have "kv_width (d # fmt) n c = kv_width fmt ?n d" unfolding kv_width.simps(2) Let_def m(2) using m(1) True by simp
    ultimately show ?thesis by metis
  qed
qed

definition kinds_ok :: "arg_kind list \<Rightarrow> arg list \<Rightarrow> bool" where
  "kinds_ok ks ap \<longleftrightarrow> length ks \<le> length ap \<and> list_all2 has_kind ks (take (length ks) ap)"

lemma kinds_ok_Cons: "kinds_ok (k # ks) ap \<longleftrightarrow> (\<exists>a ap'. ap = a # ap' \<and> has_kind k a \<and> kinds_ok ks ap')"
  by (cases ap) (auto simp: kinds_ok_def)

lemma has_kind_cases:
  "has_kind K_int a \<longleftrightarrow> (\<exists>w. a = A_int w)" "has_kind K_width a \<longleftrightarrow> (\<exists>w. a = A_int w \<and> sint w \<noteq> INT_MIN)"
  "has_kind K_quad a \<longleftrightarrow> (\<exists>w. a = A_quad w)" "has_kind K_str a \<longleftrightarrow> (\<exists>s. a = A_str s)"
  "has_kind K_ptr a \<longleftrightarrow> (\<exists>w. a = A_ptr w)"
  by (cases a; simp)+

text \<open>The flags that do not bear on the kinds of arguments.\<close>

definition plain_flag :: "u8 \<Rightarrow> conv \<Rightarrow> conv" where
  "plain_flag c cv =
     (if c = 46 then cv\<lparr>dot := True\<rparr> else if c = 35 then cv\<lparr>sharpflag := True\<rparr> else if c = 43 then cv\<lparr>sign := True\<rparr>
      else if c = 45 then cv\<lparr>ladjust := True\<rparr>
      else if c = 104 then if hflag cv then cv\<lparr>hflag := False, cflag := True\<rparr> else cv\<lparr>hflag := True\<rparr>
      else if c = 116 then cv\<lparr>tflag := True\<rparr> else cv\<lparr>zflag := True\<rparr>)"

lemma kv_flags_plain:
  assumes "c \<in> {35, 43, 45, 46, 104, 116, 122}"
  shows "kv_flags (c # fm) ap cv = kv_flags fm ap (plain_flag c cv)"
proof -
  from assms consider "c = 35" | "c = 43" | "c = 45" | "c = 46" | "c = 104" | "c = 116" | "c = 122" by blast
  then show ?thesis
    by cases (subst kv_flags.simps(2), simp add: plain_flag_def is_dec_def)+
qed

lemma scanned_plain: "scanned (sc\<lparr>sc_digits := k\<rparr>) (plain_flag c cv) = scanned sc cv"
  by (simp add: scanned_def plain_flag_def)

lemma kv_flags_ok:
  "fmt_kinds fmt (Some sc) = Some ks \<Longrightarrow> kinds_ok ks ap \<Longrightarrow> scanned sc cv \<Longrightarrow> sc_digits sc \<le> 9 \<Longrightarrow>
    \<exists>c r ap' cv' sc' ks1 ks2. kv_flags fmt ap cv = Some (c, r, ap', cv') \<and> scanned sc' cv'
      \<and> conv_kinds c sc' = Some ks1 \<and> fmt_kinds r None = Some ks2 \<and> kinds_ok (ks1 @ ks2) ap'"
proof (induction "length fmt" arbitrary: fmt sc ks ap cv rule: less_induct)
  case less
  obtain c fm where f: "fmt = c # fm" using less.prems(1) by (cases fmt) auto
  let ?sc0 = "sc\<lparr>sc_digits := 0\<rparr>"
  let ?goal = "\<lambda>fmt ap cv. \<exists>c r ap' cv' sc' ks1 ks2. kv_flags fmt ap cv = Some (c, r, ap', cv') \<and> scanned sc' cv'
      \<and> conv_kinds c sc' = Some ks1 \<and> fmt_kinds r None = Some ks2 \<and> kinds_ok (ks1 @ ks2) ap'"
  have IH: "?goal r ap cv" if "length r \<le> length fm" "fmt_kinds r (Some sc) = Some ks" "kinds_ok ks ap" "scanned sc cv" "sc_digits sc \<le> 9"
    for r sc ks ap cv
    using less.hyps [of r sc ks ap cv] that f by simp
  note eq = less.prems(1) [unfolded f fmt_kinds.simps option.case Let_def]
  consider (plain) "c \<in> {35, 43, 45, 46, 104, 116, 122}" | (star) "c = 42" | (digit) "is_dec c" | (j) "c = 106" | (l) "c = 108" | (q) "c = 113"
    | (conv) "c \<notin> {35, 43, 45, 46, 104, 116, 122, 42, 106, 108, 113}" "\<not> is_dec c" by blast
  then have "?goal (c # fm) ap cv"
  proof cases
    case plain
    then have k: "fmt_kinds fm (Some ?sc0) = Some ks" using eq by simp
    have "scanned ?sc0 (plain_flag c cv)" using less.prems(3) by (simp add: scanned_plain)
    from IH [OF order_refl k less.prems(2) this] show ?thesis unfolding kv_flags_plain [OF plain] by simp
  next
    case star
    then obtain ks' where k: "ks = K_width # ks'" "fmt_kinds fm (Some ?sc0) = Some ks'" using eq by auto
    obtain w ap' where a: "ap = A_int w # ap'" "sint w \<noteq> INT_MIN" "kinds_ok ks' ap'"
      using less.prems(2) unfolding k(1) kinds_ok_Cons has_kind_cases by blast
    have "\<exists>cv'. star_arg ap cv = Some (ap', cv') \<and> scanned ?sc0 cv'"
      using a less.prems(3) by (simp add: star_arg_def int_arg_def scanned_def)
    then obtain cv' where s: "star_arg ap cv = Some (ap', cv')" "scanned ?sc0 cv'" by blast
    have "kv_flags (c # fm) ap cv = kv_flags fm ap' cv'" using star s(1) by (subst kv_flags.simps(2)) simp
    then show ?thesis using IH [OF order_refl k(2) a(3) s(2)] by simp
  next
    case digit
    then have c: "c \<notin> {35, 42, 43, 45, 46}" by (auto simp: is_dec_def)
    then have c1: "c \<noteq> 46" "c \<noteq> 35" "c \<noteq> 43" "c \<noteq> 45" "c \<noteq> 42" by simp_all
    let ?sc1 = "sc\<lparr>sc_digits := Suc (sc_digits sc)\<rparr>"
    have k: "sc_digits sc \<noteq> 9" "fmt_kinds fm (Some ?sc1) = Some ks"
      using eq digit c by (auto simp: is_dec_def split: if_splits)
    have s1: "sc_digits ?sc1 \<le> 9" using k(1) less.prems(4) by simp
    show ?thesis
    proof (cases "c = 48 \<and> \<not> dot cv")
      case True
      then have "kv_flags (c # fm) ap cv = kv_flags fm ap (cv\<lparr>padc := 48\<rparr>)" by (subst kv_flags.simps(2)) simp
      then show ?thesis using IH [OF order_refl k(2) less.prems(2) _ s1, of "cv\<lparr>padc := 48\<rparr>"] less.prems(3) by (simp add: scanned_def)
    next
      case False
      obtain v r k' where w: "kv_width fm 0 c = Some (v, r)" "k' \<le> 9" "fmt_kinds r (Some (sc\<lparr>sc_digits := k'\<rparr>)) = Some ks"
        using kv_width_ok [OF k(2) digit, of 0] s1 by auto
      let ?cv = "if dot cv then cv\<lparr>dwidth := v\<rparr> else cv\<lparr>width := v\<rparr>"
      have "kv_flags (c # fm) ap cv = kv_flags r ap ?cv"
        using False digit w(1) c1 by (subst kv_flags.simps(2)) (simp only: if_False if_True bind.simps prod.case)
      moreover have "length r \<le> length fm" by (rule kv_width_shorter [OF w(1)])
      moreover have "scanned (sc\<lparr>sc_digits := k'\<rparr>) ?cv" using less.prems(3) by (simp add: scanned_def)
      ultimately show ?thesis using IH [of r "sc\<lparr>sc_digits := k'\<rparr>" ks ap ?cv] w(2,3) less.prems(2) by simp
    qed
  next
    case j
    then have k: "fmt_kinds fm (Some (?sc0\<lparr>sc_j := True\<rparr>)) = Some ks" using eq by (simp add: is_dec_def)
    have "kv_flags (c # fm) ap cv = kv_flags fm ap (cv\<lparr>jflag := True\<rparr>)" using j by (subst kv_flags.simps(2)) (simp add: is_dec_def)
    then show ?thesis using IH [OF order_refl k less.prems(2), of "cv\<lparr>jflag := True\<rparr>"] less.prems(3) by (simp add: scanned_def)
  next
    case l
    let ?sc1 = "if sc_l sc then ?sc0\<lparr>sc_l := False, sc_q := True\<rparr> else ?sc0\<lparr>sc_l := True\<rparr>"
    let ?cv = "if lflag cv then cv\<lparr>lflag := False, qflag := True\<rparr> else cv\<lparr>lflag := True\<rparr>"
    have k: "fmt_kinds fm (Some ?sc1) = Some ks" using eq l by (simp add: is_dec_def)
    have "kv_flags (c # fm) ap cv = kv_flags fm ap ?cv" using l by (subst kv_flags.simps(2)) (simp add: is_dec_def)
    moreover have "scanned ?sc1 ?cv" "sc_digits ?sc1 \<le> 9" using less.prems(3) by (simp_all add: scanned_def)
    ultimately show ?thesis using IH [OF order_refl k less.prems(2), of ?cv] by simp
  next
    case q
    then have k: "fmt_kinds fm (Some (?sc0\<lparr>sc_q := True\<rparr>)) = Some ks" using eq by (simp add: is_dec_def)
    have "kv_flags (c # fm) ap cv = kv_flags fm ap (cv\<lparr>qflag := True\<rparr>)" using q by (subst kv_flags.simps(2)) (simp add: is_dec_def)
    then show ?thesis using IH [OF order_refl k less.prems(2), of "cv\<lparr>qflag := True\<rparr>"] less.prems(3) by (simp add: scanned_def)
  next
    case conv
    then obtain ks1 ks2 where "conv_kinds c sc = Some ks1" "fmt_kinds fm None = Some ks2" "ks = ks1 @ ks2"
      using eq by (auto simp: bind_eq_Some_conv split: if_splits)
    moreover have "kv_flags (c # fm) ap cv = Some (c, fm, ap, cv)"
      using conv by (intro kv_flags_conv) (auto simp: conv_char_def)
    ultimately show ?thesis using less.prems(2,3) by metis
  qed
  then show ?case by (simp add: f)
qed

lemma number_ok:
  assumes "2 \<le> b" "b \<le> 36"
  shows "\<exists>st'. kv_number cv b num st = Some st'"
  using kv_number_text [of "nat b" cv num st] assms by auto

lemma args_ok:
  assumes "kinds_ok ((if sc_q sc \<and> \<not> sc_j sc then K_quad else K_int) # ks) ap" "scanned sc cv" "2 \<le> b" "b \<le> 36"
  shows "\<exists>ap' st'. handle_sign cv b ap st = Some (ap', st') \<and> kinds_ok ks ap'"
    and "\<exists>ap' st'. handle_nosign cv b ap st = Some (ap', st') \<and> kinds_ok ks ap'"
proof -
  obtain a ap' where a: "ap = a # ap'" "kinds_ok ks ap'" "has_kind (if sc_q sc \<and> \<not> sc_j sc then K_quad else K_int) a"
    using assms(1) unfolding kinds_ok_Cons by blast
  have "\<exists>w. signed_arg cv ap = Some (w, ap')" "\<exists>w. unsigned_arg cv ap = Some (w, ap')"
    using a(1,3) assms(2)
    by (auto simp: signed_arg_def unsigned_arg_def int_arg_def quad_arg_def scanned_def has_kind_cases split: if_splits)
  then show "\<exists>ap' st'. handle_sign cv b ap st = Some (ap', st') \<and> kinds_ok ks ap'"
    "\<exists>ap' st'. handle_nosign cv b ap st = Some (ap', st') \<and> kinds_ok ks ap'"
    using number_ok [OF assms(3,4)] a(2) by (fastforce simp: handle_sign_def handle_nosign_def)+
qed

lemma scanned_cong: "scanned sc (cv\<lparr>sign := x\<rparr>) = scanned sc cv" "scanned sc (cv\<lparr>upper := x\<rparr>) = scanned sc cv"
  by (simp_all add: scanned_def)

lemma kv_conv_ok:
  assumes "conv_kinds c sc = Some ks1" "kinds_ok (ks1 @ ks2) ap" "scanned sc cv" "2 \<le> radix" "radix \<le> 36"
  shows "\<exists>ap' st'. kv_conv radix seen c cv ap st = Some (ap', st', False) \<and> kinds_ok ks2 ap'"
proof -
  have go: "\<exists>ap' st'. map_option (\<lambda>(ap, st). (ap, st, False)) x = Some (ap', st', False) \<and> kinds_ok ks2 ap'"
    if "\<exists>ap' st'. x = Some (ap', st') \<and> kinds_ok ks2 ap'" for x :: "(arg list \<times> prt) option"
    using that by auto
  consider (pct) "c = 37" | (ch) "c = 99" | (num) "c \<in> {88, 100, 105, 111, 114, 117, 120, 121}" | (n) "c = 110" | (p) "c = 112" | (s) "c = 115"
    using assms(1) by (auto simp: conv_kinds_def split: if_splits)
  then show ?thesis
  proof cases
    case pct
    then show ?thesis using assms(1,2) by (simp add: kv_conv_def conv_kinds_def)
  next
    case ch
    then show ?thesis using assms(1,2)
      by (auto simp: kv_conv_def conv_kinds_def kinds_ok_Cons has_kind_cases int_arg_def)
  next
    case num
    then have k: "kinds_ok ((if sc_q sc \<and> \<not> sc_j sc then K_quad else K_int) # ks2) ap"
      using assms(1,2) by (auto simp: conv_kinds_def)
    have a: "\<exists>ap' st'. handle_sign (cv\<lparr>sign := True\<rparr>) 10 ap st = Some (ap', st') \<and> kinds_ok ks2 ap'"
      "\<exists>ap' st'. handle_sign (cv\<lparr>sign := True\<rparr>) 16 ap st = Some (ap', st') \<and> kinds_ok ks2 ap'"
      "\<exists>ap' st'. handle_sign cv radix ap st = Some (ap', st') \<and> kinds_ok ks2 ap'"
      "\<exists>ap' st'. handle_nosign cv radix ap st = Some (ap', st') \<and> kinds_ok ks2 ap'"
      "\<exists>ap' st'. handle_nosign cv 8 ap st = Some (ap', st') \<and> kinds_ok ks2 ap'"
      "\<exists>ap' st'. handle_nosign cv 10 ap st = Some (ap', st') \<and> kinds_ok ks2 ap'"
      "\<exists>ap' st'. handle_nosign cv 16 ap st = Some (ap', st') \<and> kinds_ok ks2 ap'"
      "\<exists>ap' st'. handle_nosign (cv\<lparr>upper := True\<rparr>) 16 ap st = Some (ap', st') \<and> kinds_ok ks2 ap'"
      using assms(3-5) by (intro args_ok [OF k]; simp add: scanned_cong)+
    from num consider "c = 88" | "c = 100" | "c = 105" | "c = 111" | "c = 114" | "c = 117" | "c = 120" | "c = 121" by blast
    then show ?thesis
      by cases (use a [THEN go] in \<open>simp add: kv_conv_def Let_def\<close>)+
  next
    case n
    then show ?thesis using assms(1,2)
      by (auto simp: kv_conv_def conv_kinds_def kinds_ok_Cons has_kind_cases ptr_arg_def kv_n_def Let_def)
  next
    case p
    then obtain w ap' where a: "ap = A_ptr w # ap'" "kinds_ok ks2 ap'"
      using assms(1,2) by (auto simp: conv_kinds_def kinds_ok_Cons has_kind_cases)
    obtain st' where "kv_number (cv\<lparr>sharpflag := (width cv = 0), sign := False\<rparr>) 16 w st = Some st'"
      using number_ok [of 16] by fastforce
    then show ?thesis using p a by (simp add: kv_conv_def ptr_arg_def)
  next
    case s
    then obtain w ap' where a: "ap = A_str w # ap'" "kinds_ok ks2 ap'"
      using assms(1,2) by (auto simp: conv_kinds_def kinds_ok_Cons has_kind_cases)
    then show ?thesis using s by (simp add: kv_conv_def Let_def kv_s_text)
  qed
qed

lemma kv_loop_ok:
  "fmt_kinds fmt None = Some ks \<Longrightarrow> kinds_ok ks ap \<Longrightarrow> 2 \<le> radix \<Longrightarrow> radix \<le> 36 \<Longrightarrow> \<exists>st'. kv_loop radix False fmt ap st = Some st'"
proof (induction "length fmt" arbitrary: fmt ks ap st rule: less_induct)
  case less
  show ?case
  proof (cases fmt)
    case Nil
    then show ?thesis by (simp add: kv_loop.simps)
  next
    case (Cons c fm)
    show ?thesis
    proof (cases "c = 37")
      case False
      then have "fmt_kinds fm None = Some ks" using less.prems(1) Cons by simp
      then show ?thesis using less.hyps [of fm ks ap "pchars [c] st"] less.prems False Cons by (simp add: kv_loop.simps(2))
    next
      case True
      let ?sc = "\<lparr>sc_j = False, sc_q = False, sc_l = False, sc_digits = 0\<rparr>"
      have k: "fmt_kinds fm (Some ?sc) = Some ks" using less.prems(1) True Cons by simp
      have "scanned ?sc conv_start" "sc_digits ?sc \<le> 9" by (simp_all add: scanned_def conv_start_def)
      from kv_flags_ok [OF k less.prems(2) this] obtain d r ap1 cv sc' ks1 ks2 where f:
        "kv_flags fm ap conv_start = Some (d, r, ap1, cv)" "scanned sc' cv" "conv_kinds d sc' = Some ks1"
        "fmt_kinds r None = Some ks2" "kinds_ok (ks1 @ ks2) ap1" by blast
      obtain ap2 st2 where c: "kv_conv radix (take (Suc (length fm) - length r) (c # fm)) d cv ap1 st = Some (ap2, st2, False)" "kinds_ok ks2 ap2"
        using kv_conv_ok [OF f(3,5,2) less.prems(3,4)] by blast
      have "length r < length fmt" using kv_flags_shorter [OF f(1)] Cons by simp
      then have "\<exists>st'. kv_loop radix False r ap2 st2 = Some st'"
        using less.hyps [of r ks2 ap2 st2] f(4) c(2) less.prems(3,4) by blast
      then show ?thesis using Cons True f(1) c(1) by (simp add: kv_loop.simps(2))
    qed
  qed
qed



end
