(* ===== verification/Raspbootin.thy ===== *)
theory Raspbootin
  imports Crc32 ByteUtil Log Mmio
begin

text \<open>
  The client of the serial protocol (raspbootin.c): messages with a checksum over a
  serial line.  The line is a record of the three operations that the code uses; those of
  uart.c and timer.c are one instance.  The file operations of the client are still
  stubs in the code.
\<close>

section \<open>The line\<close>

record 'w line =
  line_putc :: "int \<Rightarrow> 'w \<Rightarrow> (int \<times> 'w) option"
  line_getc :: "int \<Rightarrow> 'w \<Rightarrow> (int \<times> 'w) option"
  line_usleep :: "int \<Rightarrow> 'w \<Rightarrow> 'w option"

definition uart_line :: "'h hw \<Rightarrow> 'h line" where
  "uart_line hw = \<lparr>line_putc = uart_putc hw, line_getc = uart_getc_timeout hw, line_usleep = hw_usleep hw\<rparr>"

section \<open>Messages\<close>

definition SUCCESS :: int where "SUCCESS = 0"
definition PATH_NOT_FOUND :: int where "PATH_NOT_FOUND = -1"
definition CRC_ERROR :: int where "CRC_ERROR = -3"
definition INVALID_CMD :: int where "INVALID_CMD = -4"
definition UNSUPPORTED_CMD :: int where "UNSUPPORTED_CMD = -5"
definition TIMED_OUT :: int where "TIMED_OUT = -6"
definition INVALID_MAGIC :: int where "INVALID_MAGIC = -7"
definition UNKNOWN_ERROR :: int where "UNKNOWN_ERROR = -8"
definition MAGIC :: u32 where "MAGIC = 0x27594131"

definition UART_TIMEOUT :: int where "UART_TIMEOUT = 10000"
definition READDIR_BUF_LEN :: nat where "READDIR_BUF_LEN = 0x1000"
definition MAX_RETRIES :: nat where "MAX_RETRIES = 3"
definition CLIENT_CAPABILITIES :: u32 where "CLIENT_CAPABILITIES = 0x1f"

record rbtin =
  server_capabilities :: u32
  client_capabilities :: u32

definition rbtin_start :: rbtin where
  "rbtin_start = \<lparr>server_capabilities = 9, client_capabilities = CLIENT_CAPABILITIES\<rparr>"

primrec read_lsb32_loop :: "'w line \<Rightarrow> int \<Rightarrow> nat \<Rightarrow> nat \<Rightarrow> u32 \<Rightarrow> 'w \<Rightarrow> (u32 option \<times> 'w) option" where
  "read_lsb32_loop line timeout 0 i ret w = Some (Some ret, w)"
| "read_lsb32_loop line timeout (Suc n) i ret w = do {
     (rbuf, w) \<leftarrow> line_getc line timeout w;
     if rbuf = -1 then Some (None, w)
     else read_lsb32_loop line timeout n (i + 1) (ret OR push_bit (i * 8) (word_of_int rbuf AND 0xff)) w }"

definition read_lsb32 :: "'w line \<Rightarrow> int \<Rightarrow> 'w \<Rightarrow> (u32 option \<times> 'w) option" where
  "read_lsb32 line timeout w = read_lsb32_loop line timeout 4 0 0 w"

text \<open>The bytes of a number in memory; those that are sent one by one.\<close>

definition word_bytes :: "u32 \<Rightarrow> u8 list" where
  "word_bytes v = [ucast (v AND 0xff), ucast (drop_bit 8 v AND 0xff), ucast (drop_bit 16 v AND 0xff), ucast (drop_bit 24 v AND 0xff)]"

partial_function (option) line_clear :: "'w line \<Rightarrow> 'w \<Rightarrow> 'w option" where
  "line_clear line w = do {
     (r, w) \<leftarrow> line_getc line 1000 w;
     if r \<noteq> -1 then line_clear line w else Some w }"

primrec line_send :: "'w line \<Rightarrow> u8 list \<Rightarrow> 'w \<Rightarrow> 'w option" where
  "line_send line [] w = Some w"
| "line_send line (b # bs) w = do {
     (_, w) \<leftarrow> line_putc line (uint b) w;
     line_send line bs w }"

text \<open>Data into the buffer, from the offset on; \<open>None\<close> in the result is a timeout.\<close>

primrec recv_data :: "'w line \<Rightarrow> nat \<Rightarrow> u32 \<Rightarrow> buf \<Rightarrow> nat \<Rightarrow> 'w \<Rightarrow> (u32 option \<times> buf \<times> nat \<times> 'w) option" where
  "recv_data line 0 crc m p w = Some (Some crc, m, p, w)"
| "recv_data line (Suc n) crc m p w = do {
     (r_buf, w) \<leftarrow> line_getc line UART_TIMEOUT w;
     if r_buf = -1 then Some (None, m, p, w)
     else do {
       crc \<leftarrow> crc32_append crc (word_bytes (word_of_int r_buf)) 1;
       m \<leftarrow> put_byte m p (word_of_int r_buf);
       recv_data line n crc m (p + 1) w } }"

primrec recv_discard :: "'w line \<Rightarrow> nat \<Rightarrow> u32 \<Rightarrow> 'w \<Rightarrow> (u32 option \<times> 'w) option" where
  "recv_discard line 0 crc w = Some (Some crc, w)"
| "recv_discard line (Suc n) crc w = do {
     (r_buf, w) \<leftarrow> line_getc line UART_TIMEOUT w;
     if r_buf = -1 then Some (None, w)
     else do {
       crc \<leftarrow> crc32_append crc (word_bytes (word_of_int r_buf)) 1;
       recv_discard line n crc w } }"

primrec recv_pad :: "nat \<Rightarrow> buf \<Rightarrow> nat \<Rightarrow> buf option" where
  "recv_pad 0 m p = Some m"
| "recv_pad (Suc n) m p = do { m \<leftarrow> put_byte m p 0; recv_pad n m (p + 1) }"

text \<open>The lengths to read, to discard and to pad.  The length to discard is computed after the
  length to read has been cut, and so is always zero.\<close>

definition recv_lengths :: "u32 \<Rightarrow> u32 \<Rightarrow> u32 \<times> u32 \<times> u32" where
  "recv_lengths resp_length recv_buf_len =
     (let data_to_read_to_buffer = resp_length - 8 in
      if data_to_read_to_buffer > recv_buf_len then
        let data_to_read_to_buffer = recv_buf_len in (data_to_read_to_buffer, data_to_read_to_buffer - recv_buf_len, 0)
      else if recv_buf_len > data_to_read_to_buffer then (data_to_read_to_buffer, 0, recv_buf_len - data_to_read_to_buffer)
      else (data_to_read_to_buffer, 0, 0))"

text \<open>From the data to the checksum: the return value, the buffer and the number of bytes read.\<close>

definition recv_body :: "'w line \<Rightarrow> u32 \<Rightarrow> u32 \<Rightarrow> u32 \<Rightarrow> buf \<Rightarrow> u32 \<Rightarrow> 'w \<Rightarrow> (int \<times> buf \<times> nat \<times> 'w) option" where
  "recv_body line magic resp_length error_code m recv_buf_len w = do {
     let (n, discard, pad) = recv_lengths resp_length recv_buf_len;
     let crc = crc32_start;
     crc \<leftarrow> crc32_append crc (word_bytes magic) 4;
     crc \<leftarrow> crc32_append crc (word_bytes resp_length) 4;
     crc \<leftarrow> crc32_append crc (word_bytes error_code) 4;
     (crc, m, p, w) \<leftarrow> recv_data line (unat n) crc m 0 w;
     (case crc of None \<Rightarrow> Some (TIMED_OUT, m, p, w)
      | Some crc \<Rightarrow> do {
          (crc, w) \<leftarrow> recv_discard line (unat discard) crc w;
          (case crc of None \<Rightarrow> Some (TIMED_OUT, m, p, w)
           | Some crc \<Rightarrow> do {
               m \<leftarrow> recv_pad (unat pad) m p;
               let crc = crc32_finish crc;
               (resp_crc, w) \<leftarrow> read_lsb32 line UART_TIMEOUT w;
               Some (case resp_crc of None \<Rightarrow> (TIMED_OUT, m, p, w)
                 | Some resp_crc \<Rightarrow> (if resp_crc \<noteq> crc then CRC_ERROR else 0, m, p, w)) }) }) }"

definition recv_response :: "'w line \<Rightarrow> buf \<Rightarrow> u32 \<Rightarrow> 'w \<Rightarrow> (int \<times> buf \<times> nat \<times> 'w) option" where
  "recv_response line m recv_buf_len w = do {
     (v, w) \<leftarrow> read_lsb32 line UART_TIMEOUT w;
     (case v of None \<Rightarrow> Some (TIMED_OUT, m, 0, w)
      | Some magic \<Rightarrow>
          if magic \<noteq> MAGIC then Some (INVALID_MAGIC, m, 0, w)
          else do {
            (v, w) \<leftarrow> read_lsb32 line UART_TIMEOUT w;
            (case v of None \<Rightarrow> Some (TIMED_OUT, m, 0, w)
             | Some resp_length \<Rightarrow> do {
                 (v, w) \<leftarrow> read_lsb32 line UART_TIMEOUT w;
                 (case v of None \<Rightarrow> Some (TIMED_OUT, m, 0, w)
                  | Some error_code \<Rightarrow>
                      if error_code \<noteq> word_of_int SUCCESS then Some (sint error_code, m, 0, w)
                      else recv_body line magic resp_length error_code m recv_buf_len w) }) }) }"

definition send_message_int ::
  "'w line \<Rightarrow> rbtin \<Rightarrow> int \<Rightarrow> buf \<Rightarrow> nat \<Rightarrow> buf \<Rightarrow> u32 \<Rightarrow> 'l log_state \<Rightarrow> 'w \<Rightarrow> (int \<times> buf \<times> 'l log_state \<times> 'w) option" where
  "send_message_int line st cmd_id send_buf send_buf_len m recv_buf_len lg w =
     (if cmd_id < 0 \<or> cmd_id > 31 then Some (INVALID_CMD, m, lg, w)
      else if cmd_id = 3 then Some (INVALID_CMD, m, lg, w)
      else
        let msg_capabilities = push_bit (nat cmd_id) 1 in
        if client_capabilities st AND msg_capabilities = 0 then Some (UNSUPPORTED_CMD, m, lg, w)
        else if server_capabilities st AND msg_capabilities = 0 then Some (UNSUPPORTED_CMD, m, lg, w)
        else do {
          crc \<leftarrow> crc32 send_buf send_buf_len;
          let os = output_get_state lg;
          let lg = output_disable RPIBOOT_OUTPUT_UART lg;
          w \<leftarrow> line_clear line w;
          (_, w) \<leftarrow> line_putc line 3 w;
          (_, w) \<leftarrow> line_putc line 3 w;
          (_, w) \<leftarrow> line_putc line cmd_id w;
          w \<leftarrow> line_send line (take send_buf_len send_buf) w;
          w \<leftarrow> line_send line (word_bytes crc) w;
          w \<leftarrow> line_usleep line 2000 w;
          (ret, m, data_read, w) \<leftarrow> recv_response line m recv_buf_len w;
          let ret = (if ret = 0 then int data_read else ret);
          w \<leftarrow> line_clear line w;
          Some (ret, m, output_restore_state os lg, w) })"

primrec send_message_loop ::
  "nat \<Rightarrow> 'w line \<Rightarrow> rbtin \<Rightarrow> int \<Rightarrow> buf \<Rightarrow> nat \<Rightarrow> buf \<Rightarrow> u32 \<Rightarrow> 'l log_state \<Rightarrow> 'w \<Rightarrow> (int \<times> buf \<times> 'l log_state \<times> 'w) option" where
  "send_message_loop 0 line st cmd_id send_buf send_buf_len m recv_buf_len lg w = Some (CRC_ERROR, m, lg, w)"
| "send_message_loop (Suc n) line st cmd_id send_buf send_buf_len m recv_buf_len lg w = do {
     (ret, m, lg, w) \<leftarrow> send_message_int line st cmd_id send_buf send_buf_len m recv_buf_len lg w;
     if ret \<ge> 0 then Some (ret, m, lg, w)
     else if ret \<noteq> CRC_ERROR then Some (ret, m, lg, w)
     else send_message_loop n line st cmd_id send_buf send_buf_len m recv_buf_len lg w }"

definition send_message ::
  "'w line \<Rightarrow> rbtin \<Rightarrow> int \<Rightarrow> buf \<Rightarrow> nat \<Rightarrow> buf \<Rightarrow> u32 \<Rightarrow> 'l log_state \<Rightarrow> 'w \<Rightarrow> (int \<times> buf \<times> 'l log_state \<times> 'w) option" where
  "send_message line st cmd_id send_buf send_buf_len m recv_buf_len lg w =
     send_message_loop MAX_RETRIES line st cmd_id send_buf send_buf_len m recv_buf_len lg w"

section \<open>The file system\<close>

definition raspbootin_init :: "'w line \<Rightarrow> rbtin \<Rightarrow> 'l log_state \<Rightarrow> 'w \<Rightarrow> (int \<times> rbtin \<times> 'l log_state \<times> 'w) option" where
  "raspbootin_init line st lg w = do {
     (ret, caps, lg, w) \<leftarrow> send_message line st 0 [] 0 [0, 0, 0, 0] 4 lg w;
     if ret = 4 then do {
       c \<leftarrow> read_word caps 0;
       Some (0, st\<lparr>server_capabilities := c\<rparr>, lg, w) }
     else Some (0, st\<lparr>server_capabilities := push_bit 3 1\<rparr>, lg, w) }"

text \<open>The name is emptied unless it is the root, and goes without its length.\<close>

definition raspbootin_read_directory ::
  "'w line \<Rightarrow> rbtin \<Rightarrow> cstring list \<Rightarrow> 'l log_state \<Rightarrow> 'w \<Rightarrow> (dirent list option \<times> 'l log_state \<times> 'w) option" where
  "raspbootin_read_directory line st name lg w =
     (let dir_name = concat (map (\<lambda>n. n @ [47]) name);
          dir_name = (if dir_name \<noteq> [47] then [] else dir_name)
      in if server_capabilities st AND push_bit 1 1 \<noteq> 0 then do {
           (_, _, lg, w) \<leftarrow> send_message line st 1 dir_name (length dir_name) (replicate READDIR_BUF_LEN 0) (word_of_nat READDIR_BUF_LEN) lg w;
           Some (None, lg, w) }
         else Some (None, lg, w))"

definition raspbootin_fopen :: "dirent option \<Rightarrow> cstring \<Rightarrow> vfs_file option" where
  "raspbootin_fopen path mode = None"

definition raspbootin_fread :: "buf \<Rightarrow> u32 \<Rightarrow> u32 \<Rightarrow> vfs_file \<Rightarrow> u32" where
  "raspbootin_fread ptr sz nmemb stream = 0"

definition raspbootin_fclose :: "vfs_file \<Rightarrow> int" where
  "raspbootin_fclose fp = 0"

end
