(* ===== verification/RaspLink.thy ===== *)
theory RaspLink
  imports Raspbootin
begin

text \<open>
  What the client of the serial protocol makes of the answer of any peer.  The contract of
  a line with a peer is a locale: what is put is queued for the peer, which answers while
  the client sleeps; what is got are the bytes of the answer, and then nothing.
\<close>

section \<open>A line with a peer\<close>

text \<open>\<open>uart_putc\<close> puts a carriage return after each byte 10, whatever the byte means.\<close>

definition wire :: "u8 \<Rightarrow> u8 list" where
  "wire b = (if b = 10 then [10, 13] else [b])"

locale serial_peer =
  fixes line :: "'w line" and inbox outbox :: "'w \<Rightarrow> u8 list"
    and pst :: "'w \<Rightarrow> 'p" and peer :: "'p \<Rightarrow> u8 list \<Rightarrow> 'p \<times> u8 list"
  assumes getc_none: "inbox w = [] \<Longrightarrow>
      \<exists>w'. line_getc line t w = Some (-1, w') \<and> inbox w' = [] \<and> outbox w' = outbox w \<and> pst w' = pst w"
    and getc_byte: "inbox w = b # bs \<Longrightarrow>
      \<exists>w'. line_getc line t w = Some (uint b, w') \<and> inbox w' = bs \<and> outbox w' = outbox w \<and> pst w' = pst w"
    and putc: "0 \<le> c \<Longrightarrow> c < 256 \<Longrightarrow>
      \<exists>w'. line_putc line c w = Some (c, w') \<and> inbox w' = inbox w \<and> outbox w' = outbox w @ wire (word_of_int c) \<and> pst w' = pst w"
    and usleep: "peer (pst w) (outbox w) = (q, bs) \<Longrightarrow>
      \<exists>w'. line_usleep line t w = Some w' \<and> inbox w' = inbox w @ bs \<and> outbox w' = [] \<and> pst w' = q"

text \<open>What the peer gets for a message.\<close>

definition request :: "int \<Rightarrow> u8 list \<Rightarrow> u8 list" where
  "request cmd opts = concat (map wire ([3, 3, word_of_int cmd] @ opts @ word_bytes (crc_spec opts)))"

section \<open>The answer\<close>

text \<open>What an answer means: a failure, or the data, of which as much is taken as fits.  An
  answer is good when its checksum is that of all the bytes before it.\<close>

definition decode :: "u32 \<Rightarrow> u8 list \<Rightarrow> int \<times> u8 list option" where
  "decode rlen rs =
     (case read_word rs 0 of None \<Rightarrow> (TIMED_OUT, None) | Some mg \<Rightarrow>
      if mg \<noteq> MAGIC then (INVALID_MAGIC, None)
      else case read_word rs 4 of None \<Rightarrow> (TIMED_OUT, None) | Some len \<Rightarrow>
        case read_word rs 8 of None \<Rightarrow> (TIMED_OUT, None) | Some e \<Rightarrow>
          if e \<noteq> 0 then (sint e, None)
          else
            let n = unat (min (len - 8) rlen) in
            case read_word rs (12 + n) of None \<Rightarrow> (TIMED_OUT, None) | Some c \<Rightarrow>
              if c \<noteq> crc_spec (take (12 + n) rs) then (CRC_ERROR, None) else (int n, Some (take n (drop 12 rs))))"

lemma get_low: "(ucast (b :: u8) :: u32) AND 0xff = ucast b"
  by (rule bit_word_eqI) (auto simp: bit_simps mask_8 dest: bit_imp_le_length)

lemma word_bytes_of:
  "word_bytes (ucast a OR push_bit 8 (ucast b) OR push_bit 16 (ucast c) OR push_bit 24 (ucast d)) = [a, b, c, d]"
proof -
  have n: "n < 8 \<Longrightarrow> \<not> bit (x :: u8) (8 + n)" "n < 8 \<Longrightarrow> \<not> bit (x :: u8) (16 + n)" "n < 8 \<Longrightarrow> \<not> bit (x :: u8) (24 + n)" for n x
    by (auto dest: bit_imp_le_length)
  show ?thesis unfolding word_bytes_def list.inject
    by (intro conjI; (rule bit_word_eqI)?) (auto simp: bit_simps mask_8 n)
qed

lemma word_bytes_read:
  assumes "read_word rs k = Some v"
  shows "word_bytes v = take 4 (drop k rs)"
proof -
  have len: "k + 4 \<le> length rs" using assms by (metis read_word_Some_iff)
  have "take 4 (drop k rs) = [rs ! k, rs ! (k + 1), rs ! (k + 2), rs ! (k + 3)]"
    using len by (intro nth_equalityI) (auto simp: less_Suc_eq numeral_eq_Suc)
  moreover have "v = ucast (rs ! k) OR push_bit 8 (ucast (rs ! (k + 1))) OR push_bit 16 (ucast (rs ! (k + 2))) OR push_bit 24 (ucast (rs ! (k + 3)))"
    using assms read_word_eq [OF len] by simp
  ultimately show ?thesis by (simp only: word_bytes_of)
qed

lemma read_word_drop: "read_word (drop j rs) k = read_word rs (j + k)"
  by (auto simp: read_word_def get_byte_def add.assoc)

text \<open>The value of bytes from place i on.\<close>

primrec lsb_val :: "u8 list \<Rightarrow> nat \<Rightarrow> u32 \<Rightarrow> u32" where
  "lsb_val [] i ret = ret"
| "lsb_val (b # bs) i ret = lsb_val bs (i + 1) (ret OR push_bit (i * 8) (ucast b))"

lemma lsb_val_read_word: "4 \<le> length rs \<Longrightarrow> read_word rs 0 = Some (lsb_val (take 4 rs) 0 0)"
proof -
  assume "4 \<le> length rs"
  then obtain a b c d bs where "rs = a # b # c # d # bs"
    by (cases rs; cases "tl rs"; cases "tl (tl rs)"; cases "tl (tl (tl rs))") auto
  then show ?thesis by (simp add: read_word_def get_byte_def or.assoc)
qed

context serial_peer
begin

definition moves :: "'w \<Rightarrow> nat \<Rightarrow> 'w \<Rightarrow> bool" where
  "moves w k w' \<longleftrightarrow> inbox w' = drop k (inbox w) \<and> outbox w' = outbox w \<and> pst w' = pst w"

lemma getc_cases:
  "\<exists>w'. line_getc line t w = Some (if inbox w = [] then -1 else uint (hd (inbox w)), w') \<and> moves w 1 w'"
proof (cases "inbox w")
  case Nil
  then show ?thesis using getc_none [of w t] by (auto simp: moves_def)
next
  case (Cons b bs)
  then show ?thesis using getc_byte [OF Cons, of t] by (auto simp: moves_def)
qed

lemma uint_not_minus: "uint (b :: u8) \<noteq> -1"
  using uint_ge_0 [of b] by linarith

lemma read_lsb32_loop_get:
  "\<exists>w'. read_lsb32_loop line t n i ret w =
      Some (if n \<le> length (inbox w) then Some (lsb_val (take n (inbox w)) i ret) else None, w') \<and> moves w n w'"
proof (induction n arbitrary: i ret w)
  case 0
  then show ?case by (simp add: moves_def)
next
  case (Suc n)
  obtain w1 where 1: "line_getc line t w = Some (if inbox w = [] then -1 else uint (hd (inbox w)), w1)" "moves w 1 w1"
    using getc_cases by blast
  show ?case
  proof (cases "inbox w")
    case Nil
    then show ?thesis using 1 by (auto simp: moves_def)
  next
    case (Cons b bs)
    have step: "read_lsb32_loop line t (Suc n) i ret w = read_lsb32_loop line t n (i + 1) (ret OR push_bit (i * 8) (ucast b)) w1"
      unfolding read_lsb32_loop.simps(2) 1(1) bind.simps prod.case
      using Cons uint_not_minus [of b] by (simp add: get_low del: push_bit_and)
    have b: "inbox w1 = bs" "outbox w1 = outbox w" "pst w1 = pst w" using 1(2) Cons by (simp_all add: moves_def)
    show ?thesis using Suc.IH [of "i + 1" "ret OR push_bit (i * 8) (ucast b)" w1] Cons
      unfolding moves_def b step by (cases "n \<le> length bs") simp_all
  qed
qed

lemma read_lsb32_get: "\<exists>w'. read_lsb32 line t w = Some (read_word (inbox w) 0, w') \<and> moves w 4 w'"
proof -
  have "read_word (inbox w) 0 = (if 4 \<le> length (inbox w) then Some (lsb_val (take 4 (inbox w)) 0 0) else None)"
    using lsb_val_read_word [of "inbox w"] by (simp add: read_word_None)
  then show ?thesis unfolding read_lsb32_def using read_lsb32_loop_get [of t 4 0 0 w] by simp
qed

lemma recv_data_get:
  "p + n \<le> length m \<Longrightarrow> \<exists>m' k w'. recv_data line n crc m p w =
      Some (if n \<le> length (inbox w) then Some (foldl crc_byte crc (take n (inbox w))) else None, m', k, w')
    \<and> moves w n w' \<and> length m' = length m
    \<and> (n \<le> length (inbox w) \<longrightarrow> k = p + n \<and> m' = blit m p (take n (inbox w)))"
proof (induction n arbitrary: crc m p w)
  case 0
  then show ?case by (simp add: moves_def)
next
  case (Suc n)
  obtain w1 where 1: "line_getc line UART_TIMEOUT w = Some (if inbox w = [] then -1 else uint (hd (inbox w)), w1)" "moves w 1 w1"
    using getc_cases by blast
  show ?case
  proof (cases "inbox w")
    case Nil
    then show ?thesis using 1 by (auto simp: moves_def)
  next
    case (Cons b bs)
    have b: "inbox w1 = bs" "outbox w1 = outbox w" "pst w1 = pst w" using 1(2) Cons by (simp_all add: moves_def)
    have wb: "word_bytes (word_of_int (uint b)) = b # tl (word_bytes (ucast b))"
      by (simp add: word_bytes_def get_low ucast_up_ucast_id is_up)
    have "crc32_append crc (word_bytes (word_of_int (uint b))) 1 = Some (crc_byte crc b)"
      unfolding wb by (simp add: crc32_append_foldl)
    then have s: "recv_data line (Suc n) crc m p w = recv_data line n (crc_byte crc b) (m[p := b]) (p + 1) w1"
      using Cons Suc.prems uint_not_minus [of b] unfolding recv_data.simps(2) 1(1) bind.simps prod.case by simp
    have "blit (m[p := b]) (p + 1) (take n bs) = blit m p (b # take n bs)" if "n \<le> length bs"
      using blit_append [of p "[b]" "take n bs" m] that Suc.prems by (simp add: blit_singleton)
    then show ?thesis using Suc.IH [of "p + 1" "m[p := b]" "crc_byte crc b" w1] Suc.prems Cons
      unfolding moves_def b s by auto
  qed
qed

lemma recv_pad_fill: "p + n \<le> length m \<Longrightarrow> recv_pad n m p = Some (blit m p (replicate n 0))"
proof (induction n arbitrary: m p)
  case (Suc n)
  then show ?case using blit_append [of p "[0]" "replicate n 0" m] by (simp add: blit_singleton)
qed simp

lemma moves_trans: "moves w j w1 \<Longrightarrow> moves w1 k w2 \<Longrightarrow> moves w (j + k) w2"
  by (simp add: moves_def add.commute)

text \<open>The part after the header, for the bytes of the header before it.\<close>

lemma recv_body_get:
  assumes "unat rlen \<le> length m"
  shows "\<exists>ret m' k j w'. recv_body line mg len e m rlen w = Some (ret, m', k, w') \<and> moves w j w' \<and> length m' = length m
    \<and> (let n = unat (min (len - 8) rlen); rs = inbox w in
         case read_word rs n of None \<Rightarrow> ret = TIMED_OUT
         | Some c \<Rightarrow> if c \<noteq> NOT (foldl crc_byte (NOT 0) (word_bytes mg @ word_bytes len @ word_bytes e @ take n rs)) then ret = CRC_ERROR
           else ret = 0 \<and> k = n \<and> take (unat rlen) m' = take n rs @ replicate (unat rlen - n) 0)"
proof -
  define n where "n = unat (min (len - 8) rlen)"
  have nr: "n \<le> unat rlen" by (simp add: n_def word_le_nat_alt [symmetric])
  have lens: "recv_lengths len rlen = (min (len - 8) rlen, 0, rlen - min (len - 8) rlen)"
    by (auto simp: recv_lengths_def Let_def min_def)
  have pad: "unat (rlen - min (len - 8) rlen) = unat rlen - n"
    unfolding n_def by (rule unat_sub) simp
  let ?crc = "foldl crc_byte (NOT 0) (word_bytes mg @ word_bytes len @ word_bytes e)"
  have len4: "length (word_bytes v) = 4" for v by (simp add: word_bytes_def)
  have crc: "crc32_append c (word_bytes v) 4 = Some (foldl crc_byte c (word_bytes v))" for c v
    by (simp add: crc32_append_foldl len4)
  obtain m1 k w1 where d: "recv_data line n ?crc m 0 w =
      Some (if n \<le> length (inbox w) then Some (foldl crc_byte ?crc (take n (inbox w))) else None, m1, k, w1)"
    "moves w n w1" "length m1 = length m" "n \<le> length (inbox w) \<Longrightarrow> k = 0 + n \<and> m1 = blit m 0 (take n (inbox w))"
    using recv_data_get [of 0 n m ?crc w] nr assms by auto
  show ?thesis
  proof (cases "n \<le> length (inbox w)")
    case False
    then have "read_word (inbox w) n = None" by (simp add: read_word_None)
    then show ?thesis using d False
      by (simp add: recv_body_def lens Let_def crc crc32_start_def n_def [symmetric]) blast
  next
    case True
    let ?m2 = "blit m1 n (replicate (unat rlen - n) 0)"
    have fits: "n + (unat rlen - n) \<le> length m1" using d(3) nr assms by simp
    obtain w2 where w2: "read_lsb32 line UART_TIMEOUT w1 = Some (read_word (inbox w1) 0, w2)" "moves w1 4 w2"
      using read_lsb32_get by blast
    have rw: "read_word (inbox w1) 0 = read_word (inbox w) n" using d(2) by (simp add: moves_def read_word_drop)
    have body: "recv_body line mg len e m rlen w =
        Some (case read_word (inbox w) n of None \<Rightarrow> (TIMED_OUT, ?m2, n, w2)
          | Some c \<Rightarrow> (if c \<noteq> NOT (foldl crc_byte ?crc (take n (inbox w))) then CRC_ERROR else 0, ?m2, n, w2))"
      using d(1,4) True w2(1) rw recv_pad_fill [OF fits]
      by (simp add: recv_body_def lens Let_def crc crc32_start_def crc32_finish_def xor_ones n_def [symmetric] pad split: option.splits)
    have "take (unat rlen) ?m2 = take n (inbox w) @ replicate (unat rlen - n) 0"
      using d(3,4) True nr assms by (simp add: blit_def min_def)
    moreover have "moves w (n + 4) w2" by (rule moves_trans [OF d(2) w2(2)])
    moreover have "length ?m2 = length m" using fits d(3) by simp
    ultimately show ?thesis unfolding body n_def [symmetric] Let_def
      by (cases "read_word (inbox w) n") auto
  qed
qed

lemma recv_response_get:
  assumes "unat rlen = length m"
  shows "\<exists>ret m' k j w'. recv_response line m rlen w = Some (ret, m', k, w') \<and> moves w j w' \<and> length m' = length m
    \<and> (if ret = 0 then int k else ret) = fst (decode rlen (inbox w))
    \<and> (\<forall>d. snd (decode rlen (inbox w)) = Some d \<longrightarrow> m' = d @ replicate (length m - length d) 0)"
proof -
  let ?rs = "inbox w"
  obtain w1 where 1: "read_lsb32 line UART_TIMEOUT w = Some (read_word ?rs 0, w1)" "moves w 4 w1"
    using read_lsb32_get by blast
  obtain w2 where 2: "read_lsb32 line UART_TIMEOUT w1 = Some (read_word (inbox w1) 0, w2)" "moves w1 4 w2"
    using read_lsb32_get by blast
  obtain w3 where 3: "read_lsb32 line UART_TIMEOUT w2 = Some (read_word (inbox w2) 0, w3)" "moves w2 4 w3"
    using read_lsb32_get by blast
  have in1: "inbox w1 = drop 4 ?rs" and in2: "inbox w2 = drop 8 ?rs" and in3: "inbox w3 = drop 12 ?rs"
    using 1(2) 2(2) 3(2) by (simp_all add: moves_def)
  have r: "read_word (inbox w1) 0 = read_word ?rs 4" "read_word (inbox w2) 0 = read_word ?rs 8"
    unfolding in1 in2 by (simp_all add: read_word_drop)
  have mv: "moves w 8 w2" "moves w 12 w3" using moves_trans [OF 1(2) 2(2)] moves_trans [OF moves_trans [OF 1(2) 2(2)] 3(2)] by simp_all
  note codes = TIMED_OUT_def INVALID_MAGIC_def CRC_ERROR_def SUCCESS_def
  consider (mg) "read_word ?rs 0 = None" | (bad) mg where "read_word ?rs 0 = Some mg" "mg \<noteq> MAGIC"
    | (len) "read_word ?rs 0 = Some MAGIC" "read_word ?rs 4 = None"
    | (e) len where "read_word ?rs 0 = Some MAGIC" "read_word ?rs 4 = Some len" "read_word ?rs 8 = None"
    | (err) len e where "read_word ?rs 0 = Some MAGIC" "read_word ?rs 4 = Some len" "read_word ?rs 8 = Some e" "e \<noteq> 0"
    | (ok) len where "read_word ?rs 0 = Some MAGIC" "read_word ?rs 4 = Some len" "read_word ?rs 8 = Some 0"
    by (metis option.exhaust)
  then show ?thesis
  proof cases
    case mg
    then show ?thesis using 1 by (auto simp: recv_response_def decode_def codes)
  next
    case bad
    then show ?thesis using 1 by (auto simp: recv_response_def decode_def codes)
  next
    case len
    then show ?thesis using 1 2 r mv by (auto simp: recv_response_def decode_def codes)
  next
    case e
    then show ?thesis using 1 2 3 r mv by (auto simp: recv_response_def decode_def codes)
  next
    case err
    have "sint e \<noteq> 0" using err(4) by (metis signed_0 signed_word_eqI)
    then show ?thesis using err 1 2 3 r mv by (auto simp: recv_response_def decode_def codes)
  next
    case ok
    define n where "n = unat (min (len - 8) rlen)"
    obtain ret m' k j w' where b: "recv_body line MAGIC len 0 m rlen w3 = Some (ret, m', k, w')" "moves w3 j w'" "length m' = length m"
      "case read_word (inbox w3) n of None \<Rightarrow> ret = TIMED_OUT
         | Some c \<Rightarrow> if c \<noteq> NOT (foldl crc_byte (NOT 0) (word_bytes MAGIC @ word_bytes len @ word_bytes 0 @ take n (inbox w3))) then ret = CRC_ERROR
           else ret = 0 \<and> k = n \<and> take (unat rlen) m' = take n (inbox w3) @ replicate (unat rlen - n) 0"
      using recv_body_get [OF eq_refl [OF assms], of MAGIC len 0 w3] unfolding Let_def n_def [symmetric] by blast
    have "take 12 ?rs = word_bytes MAGIC @ word_bytes len @ word_bytes 0"
    proof -
      have "take 12 ?rs = take 4 ?rs @ take 4 (drop 4 ?rs) @ take 4 (drop 8 ?rs)"
        using take_add [of 4 8 ?rs] take_add [of 4 4 "drop 4 ?rs"] by simp
      then show ?thesis using word_bytes_read [OF ok(1)] word_bytes_read [OF ok(2)] word_bytes_read [OF ok(3)] by simp
    qed
    then have crc: "NOT (foldl crc_byte (NOT 0) (word_bytes MAGIC @ word_bytes len @ word_bytes 0 @ take n (inbox w3))) = crc_spec (take (12 + n) ?rs)"
      unfolding take_add in3 crc_spec_def by simp
    have rw: "read_word (inbox w3) n = read_word ?rs (12 + n)" unfolding in3 by (rule read_word_drop)
    have resp: "recv_response line m rlen w = Some (ret, m', k, w')"
      using ok 1(1) 2(1) 3(1) r b(1) by (simp add: recv_response_def codes)
    have dec: "decode rlen ?rs = (case read_word ?rs (12 + n) of None \<Rightarrow> (TIMED_OUT, None) | Some c \<Rightarrow>
        if c \<noteq> crc_spec (take (12 + n) ?rs) then (CRC_ERROR, None) else (int n, Some (take n (drop 12 ?rs))))"
      unfolding decode_def Let_def n_def using ok by simp
    have m': "take (unat rlen) m' = m'" using assms b(3) by simp
    have mvs: "moves w (12 + j) w'" by (rule moves_trans [OF mv(2) b(2)])
    show ?thesis
    proof (cases "read_word ?rs (12 + n)")
      case None
      then show ?thesis using resp mvs b(3,4) rw by (auto simp: dec codes)
    next
      case (Some c)
      then have "12 + n + 4 \<le> length ?rs" by (metis read_word_Some_iff)
      then have "length (take n (drop 12 ?rs)) = n" by simp
      then show ?thesis using Some resp mvs b(3,4) rw crc m' assms in3 by (auto simp: dec codes)
    qed
  qed
qed

lemma line_clear_empties: "\<exists>w'. line_clear line w = Some w' \<and> inbox w' = [] \<and> outbox w' = outbox w \<and> pst w' = pst w"
proof (induction "inbox w" arbitrary: w)
  case Nil
  then obtain w' where "line_getc line 1000 w = Some (-1, w')" "inbox w' = []" "outbox w' = outbox w" "pst w' = pst w"
    using getc_none [of w 1000] by auto
  then show ?case by (subst line_clear.simps) simp
next
  case (Cons b bs)
  obtain w1 where 1: "line_getc line 1000 w = Some (uint b, w1)" "inbox w1 = bs" "outbox w1 = outbox w" "pst w1 = pst w"
    using getc_byte [OF Cons(2) [symmetric], of 1000] by auto
  then show ?case using Cons(1) [of w1] uint_not_minus [of b] by (subst line_clear.simps) simp
qed

lemma line_send_puts: "\<exists>w'. line_send line bs w = Some w' \<and> inbox w' = inbox w \<and> outbox w' = outbox w @ concat (map wire bs) \<and> pst w' = pst w"
proof (induction bs arbitrary: w)
  case (Cons b bs)
  obtain w1 where 1: "line_putc line (uint b) w = Some (uint b, w1)" "inbox w1 = inbox w" "outbox w1 = outbox w @ wire b" "pst w1 = pst w"
    using putc [of "uint b" w] uint_bounded [of b] by auto
  then show ?case using Cons.IH [of w1] by auto
qed simp

lemma send_message_int_get:
  assumes cmd: "0 \<le> cmd" "cmd \<le> 31" "cmd \<noteq> 3"
    and caps: "client_capabilities st AND push_bit (nat cmd) 1 \<noteq> 0" "server_capabilities st AND push_bit (nat cmd) 1 \<noteq> 0"
    and len: "n \<le> length sb" "unat rlen = length m"
    and ans: "peer (pst w) (outbox w @ request cmd (take n sb)) = (q, rs)"
  shows "\<exists>m' w'. send_message_int line st cmd sb n m rlen lg w = Some (fst (decode rlen rs), m', lg, w')
    \<and> inbox w' = [] \<and> outbox w' = [] \<and> pst w' = q \<and> length m' = length m
    \<and> (\<forall>d. snd (decode rlen rs) = Some d \<longrightarrow> m' = d @ replicate (length m - length d) 0)"
proof -
  obtain a where a: "line_clear line w = Some a" "inbox a = []" "outbox a = outbox w" "pst a = pst w" using line_clear_empties by blast
  obtain b where b: "line_putc line 3 a = Some (3, b)" "inbox b = []" "outbox b = outbox w @ wire 3" "pst b = pst w"
    using putc [of 3 a] a by auto
  obtain c where c: "line_putc line 3 b = Some (3, c)" "inbox c = []" "outbox c = outbox b @ wire 3" "pst c = pst w"
    using putc [of 3 b] b by auto
  obtain d where d: "line_putc line cmd c = Some (cmd, d)" "inbox d = []" "outbox d = outbox c @ wire (word_of_int cmd)" "pst d = pst w"
    using putc [of cmd c] c cmd by auto
  obtain e where e: "line_send line (take n sb) d = Some e" "inbox e = []" "outbox e = outbox d @ concat (map wire (take n sb))" "pst e = pst w"
    using line_send_puts [of "take n sb" d] d by auto
  obtain f where f: "line_send line (word_bytes (crc_spec (take n sb))) e = Some f" "inbox f = []"
    "outbox f = outbox e @ concat (map wire (word_bytes (crc_spec (take n sb))))" "pst f = pst w"
    using line_send_puts [of "word_bytes (crc_spec (take n sb))" e] e by auto
  have "outbox f = outbox w @ request cmd (take n sb)"
    using b(3) c(3) d(3) e(3) f(3) by (simp add: request_def)
  then obtain g where g: "line_usleep line 2000 f = Some g" "inbox g = rs" "outbox g = []" "pst g = q"
    using usleep [of f q rs 2000] f(2,4) ans by auto
  obtain ret m' k j h where h: "recv_response line m rlen g = Some (ret, m', k, h)" "moves g j h" "length m' = length m"
    "(if ret = 0 then int k else ret) = fst (decode rlen (inbox g))"
    "\<forall>d. snd (decode rlen (inbox g)) = Some d \<longrightarrow> m' = d @ replicate (length m - length d) 0"
    using recv_response_get [OF len(2), of g] by blast
  obtain w' where w': "line_clear line h = Some w'" "inbox w' = []" "outbox w' = outbox h" "pst w' = pst h" using line_clear_empties by blast
  have "crc32 sb n = Some (crc_spec (take n sb))"
    using len(1) by (simp add: crc32_def crc32_loop_foldl xor_ones crc_spec_def)
  moreover have "output_restore_state (output_get_state lg) (output_disable RPIBOOT_OUTPUT_UART lg) = lg"
    by (simp add: output_restore_state_def output_get_state_def output_disable_def)
  ultimately have "send_message_int line st cmd sb n m rlen lg w = Some (if ret = 0 then int k else ret, m', lg, w')"
    using cmd caps a(1) b(1) c(1) d(1) e(1) f(1) g(1) h(1) w'(1)
    by (simp add: send_message_int_def Let_def)
  moreover have "outbox w' = []" "pst w' = q" using w'(3,4) h(2) g(3,4) by (simp_all add: moves_def)
  ultimately show ?thesis using h(3-5) w'(2) g(2) by simp
qed

text \<open>A message is sent again while the answer, after the checks, is that a checksum was wrong; the
  queries are answered in the order they are sent.\<close>

primrec tries :: "nat \<Rightarrow> u32 \<Rightarrow> u8 list \<Rightarrow> 'p \<Rightarrow> int \<times> u8 list option \<times> 'p" where
  "tries 0 rlen req p = (CRC_ERROR, None, p)"
| "tries (Suc k) rlen req p =
     (let (p, rs) = peer p req; (ret, d) = decode rlen rs
      in if ret = CRC_ERROR then tries k rlen req p else (ret, d, p))"

lemma decode_codes: "snd (decode rlen rs) \<noteq> None \<Longrightarrow> 0 \<le> fst (decode rlen rs)"
  by (auto simp: decode_def Let_def split: option.splits if_splits)

lemma send_message_get:
  assumes cmd: "0 \<le> cmd" "cmd \<le> 31" "cmd \<noteq> 3"
    and caps: "client_capabilities st AND push_bit (nat cmd) 1 \<noteq> 0" "server_capabilities st AND push_bit (nat cmd) 1 \<noteq> 0"
    and len: "n \<le> length sb" "unat rlen = length m"
    and w: "outbox w = []"
    and t: "tries MAX_RETRIES rlen (request cmd (take n sb)) (pst w) = (ret, d, q)"
  shows "\<exists>m' w'. send_message line st cmd sb n m rlen lg w = Some (ret, m', lg, w')
    \<and> inbox w' = [] \<and> outbox w' = [] \<and> pst w' = q \<and> length m' = length m
    \<and> (\<forall>xs. d = Some xs \<longrightarrow> m' = xs @ replicate (length m - length xs) 0)"
proof -
  have "\<exists>m' w'. send_message_loop k line st cmd sb n m rlen lg w = Some (ret, m', lg, w')
    \<and> (0 < k \<or> inbox w = [] \<longrightarrow> inbox w' = []) \<and> outbox w' = [] \<and> pst w' = q \<and> length m' = length m
    \<and> (\<forall>xs. d = Some xs \<longrightarrow> m' = xs @ replicate (length m - length xs) 0)"
    if "tries k rlen (request cmd (take n sb)) (pst w) = (ret, d, q)" "outbox w = []" "unat rlen = length m" for k m w
    using that
  proof (induction k arbitrary: m w)
    case 0
    then show ?case by auto
  next
    case (Suc k)
    obtain p rs where p: "peer (pst w) (request cmd (take n sb)) = (p, rs)" by force
    from send_message_int_get [OF cmd caps len(1) Suc.prems(3), of w p rs lg] p Suc.prems(2)
    obtain m1 w1 where 1: "send_message_int line st cmd sb n m rlen lg w = Some (fst (decode rlen rs), m1, lg, w1)"
      "inbox w1 = []" "outbox w1 = []" "pst w1 = p" "length m1 = length m"
      "\<forall>d. snd (decode rlen rs) = Some d \<longrightarrow> m1 = d @ replicate (length m - length d) 0" by auto
    show ?case
    proof (cases "fst (decode rlen rs) = CRC_ERROR")
      case True
      then have "tries k rlen (request cmd (take n sb)) (pst w1) = (ret, d, q)"
        using Suc.prems(1) p 1(4) by (simp add: Let_def split_def)
      moreover have "send_message_loop (Suc k) line st cmd sb n m rlen lg w = send_message_loop k line st cmd sb n m1 rlen lg w1"
        using 1(1) True by (simp add: CRC_ERROR_def)
      ultimately show ?thesis using Suc.IH [of w1 m1] Suc.prems(3) 1(2,3,5) by simp
    next
      case False
      then have "ret = fst (decode rlen rs)" "d = snd (decode rlen rs)" "q = p"
        using Suc.prems(1) p by (simp_all add: Let_def split_def)
      then show ?thesis using 1 False by simp
    qed
  qed
  from this [OF t w len(2)] show ?thesis by (simp add: send_message_def MAX_RETRIES_def)
qed

end

end
