(* ===== verification/RaspServer.thy ===== *)
theory RaspServer
  imports Raspbootin CString
begin

text \<open>
  The server of the serial protocol (raspbootin-server.c), which runs on the host.  The
  port is a record of the two operations on its descriptor, the directories of the host are
  parameters.  A variable that the code leaves unset has the bytes \<open>junk\<close>.
\<close>

section \<open>The host\<close>

record 's port =
  serial_read :: "nat \<Rightarrow> 's \<Rightarrow> u8 list \<times> 's"
  serial_write :: "u8 list \<Rightarrow> 's \<Rightarrow> 's"

text \<open>\<open>opendir\<close> with the names that \<open>readdir\<close> gives, or whether the error is that there is no such
  directory; \<open>stat\<close> with size, owner, group and mode.\<close>

record host =
  host_dir :: "cstring \<Rightarrow> bool + cstring list"
  host_stat :: "cstring \<Rightarrow> (u32 \<times> u32 \<times> u32 \<times> u32) option"

definition SERVER_CAPABILITIES :: u32 where "SERVER_CAPABILITIES = 0x1f"

text \<open>A read into memory stores what there is, and its count is not looked at.\<close>

definition read_into :: "'s port \<Rightarrow> u8 list \<Rightarrow> nat \<Rightarrow> 's \<Rightarrow> u8 list \<times> 's" where
  "read_into port old n s = (let (bs, s) = serial_read port n s in (take n bs @ drop (length (take n bs)) old, s))"

definition bytes_word :: "u8 list \<Rightarrow> u32" where
  "bytes_word bs = (case read_word bs 0 of None \<Rightarrow> 0 | Some v \<Rightarrow> v)"

text \<open>The parts of an answer, each in the checksum and then on the port.\<close>

definition parts_crc :: "u8 list list \<Rightarrow> u32 option" where
  "parts_crc parts = map_option crc32_finish (crc32_append_all crc32_start parts)"

definition send_parts :: "'s port \<Rightarrow> u8 list list \<Rightarrow> 's \<Rightarrow> 's" where
  "send_parts port parts s = fold (serial_write port) parts s"

definition send_error_msg :: "'s port \<Rightarrow> int \<Rightarrow> 's \<Rightarrow> 's option" where
  "send_error_msg port error_code s = do {
     let parts = [word_bytes MAGIC, word_bytes 8, word_bytes (word_of_int error_code)];
     crc \<leftarrow> parts_crc parts;
     Some (send_parts port (parts @ [word_bytes crc]) s) }"

section \<open>Commands\<close>

definition identify :: "'s port \<Rightarrow> u8 list \<Rightarrow> 's \<Rightarrow> 's option" where
  "identify port junk s = do {
     let (b, s) = read_into port junk 4 s;
     eccrc \<leftarrow> crc32 [] 0;
     if bytes_word b \<noteq> eccrc then send_error_msg port CRC_ERROR s
     else do {
       let parts = [word_bytes MAGIC, word_bytes 12, word_bytes (word_of_int SUCCESS), word_bytes SERVER_CAPABILITIES];
       crc \<leftarrow> parts_crc parts;
       Some (send_parts port (parts @ [word_bytes crc]) s) } }"

text \<open>One entry of the answer: the length of the name and the number of bytes copied are those of
  the name of the directory.  \<open>d_name\<close> is an array of 256 bytes.\<close>

definition fill_entry :: "host \<Rightarrow> cstring \<Rightarrow> u16 \<Rightarrow> cstring \<Rightarrow> buf \<Rightarrow> nat \<Rightarrow> (buf \<times> nat) option option" where
  "fill_entry host full_dir dir_name_len d_name buf bptr =
     (case host_stat host (full_dir @ [47] @ d_name) of None \<Rightarrow> Some None
      | Some (sz, uid, gid, mode) \<Rightarrow> do {
          buf \<leftarrow> write_word sz buf bptr;
          buf \<leftarrow> write_word uid buf (bptr + 4);
          buf \<leftarrow> write_word gid buf (bptr + 8);
          buf \<leftarrow> write_word mode buf (bptr + 12);
          buf \<leftarrow> write_halfword dir_name_len buf (bptr + 16);
          xs \<leftarrow> load (d_name @ replicate (256 - length d_name) 0) 0 (unat dir_name_len);
          buf \<leftarrow> store buf (bptr + 18) xs;
          Some (Some (buf, bptr + 18 + unat dir_name_len)) })"

primrec fill_entries :: "host \<Rightarrow> cstring \<Rightarrow> u16 \<Rightarrow> cstring list \<Rightarrow> buf \<Rightarrow> nat \<Rightarrow> buf option option" where
  "fill_entries host full_dir dir_name_len [] buf bptr = Some (Some buf)"
| "fill_entries host full_dir dir_name_len (d # ds) buf bptr = do {
     r \<leftarrow> fill_entry host full_dir dir_name_len d buf bptr;
     (case r of None \<Rightarrow> Some None | Some (buf, bptr) \<Rightarrow> fill_entries host full_dir dir_name_len ds buf bptr) }"

definition read_dir :: "'s port \<Rightarrow> host \<Rightarrow> cstring \<Rightarrow> u8 list \<Rightarrow> 's \<Rightarrow> 's option" where
  "read_dir port host base_dir junk s = do {
     let (lb, s) = read_into port (take 2 junk) 2 s;
     dir_name_len \<leftarrow> read_halfword lb 0;
     eccrc \<leftarrow> crc32_append crc32_start lb 2;
     let n = unat dir_name_len;
     let (dir_name, s) = read_into port (replicate (n + 1) 0) n s;
     eccrc \<leftarrow> crc32_append eccrc dir_name n;
     let eccrc = crc32_finish eccrc;
     let (b, s) = read_into port junk 4 s;
     if bytes_word b \<noteq> eccrc then send_error_msg port CRC_ERROR s
     else
       let full_dir = base_dir @ [47] @ takeWhile (\<lambda>c. c \<noteq> 0) dir_name in
       (case host_dir host full_dir of
          Inl absent \<Rightarrow> send_error_msg port (if absent then PATH_NOT_FOUND else UNKNOWN_ERROR) s
        | Inr names \<Rightarrow> do {
            let byte_count = sum_list (map (\<lambda>d. 18 + length d) names);
            r \<leftarrow> fill_entries host full_dir dir_name_len names (replicate byte_count 0) 0;
            (case r of None \<Rightarrow> send_error_msg port UNKNOWN_ERROR s
             | Some buf \<Rightarrow> do {
                 let parts = [word_bytes MAGIC, word_bytes (word_of_nat (16 + byte_count)), word_bytes (word_of_int SUCCESS),
                   word_bytes (word_of_nat (length names)), word_bytes 0, buf];
                 crc \<leftarrow> parts_crc parts;
                 Some (send_parts port (parts @ [word_bytes crc]) s) }) }) }"

definition do_cmd :: "'s port \<Rightarrow> host \<Rightarrow> cstring \<Rightarrow> u8 list \<Rightarrow> u8 \<Rightarrow> 's \<Rightarrow> 's option" where
  "do_cmd port host base_dir junk cmd s =
     (if cmd = 0 then identify port junk s
      else if cmd = 1 then read_dir port host base_dir junk s
      else Some s)"

section \<open>The loop\<close>

text \<open>The number of break characters read, and what was put on the console.\<close>

record 's server =
  breaks_read :: nat
  srv_console :: "u8 list"
  srv_port :: 's

definition server_turn :: "'s port \<Rightarrow> host \<Rightarrow> cstring \<Rightarrow> u8 list \<Rightarrow> 's server \<Rightarrow> 's server option" where
  "server_turn port host base_dir junk sv =
     (let (bs, s) = serial_read port 1 (srv_port sv);
          sv = sv\<lparr>srv_port := s\<rparr>
      in if bs = [] then Some sv
         else
           let b = hd bs in
           if breaks_read sv = 2 then do {
             s \<leftarrow> do_cmd port host base_dir junk b s;
             Some (sv\<lparr>breaks_read := 0, srv_port := s\<rparr>) }
           else if b = 3 then Some (sv\<lparr>breaks_read := breaks_read sv + 1\<rparr>)
           else Some (sv\<lparr>breaks_read := 0, srv_console := srv_console sv @ [b]\<rparr>))"

text \<open>Some turns of the loop, which the code repeats for ever.\<close>

primrec server_turns :: "nat \<Rightarrow> 's port \<Rightarrow> host \<Rightarrow> cstring \<Rightarrow> u8 list \<Rightarrow> 's server \<Rightarrow> 's server option" where
  "server_turns 0 port host base_dir junk sv = Some sv"
| "server_turns (Suc n) port host base_dir junk sv = do {
     sv \<leftarrow> server_turn port host base_dir junk sv;
     server_turns n port host base_dir junk sv }"

end
