(* ===== verification/RaspBoot.thy ===== *)
theory RaspBoot
  imports RaspLink RaspServer
begin

text \<open>
  The two ends of the serial protocol together: a line whose peer is any function of what it
  was sent, and the server as such a peer.
\<close>

section \<open>A line in memory\<close>

record 'p link =
  to_peer :: "u8 list"
  to_client :: "u8 list"
  the_peer :: 'p

definition link_line :: "('p \<Rightarrow> u8 list \<Rightarrow> 'p \<times> u8 list) \<Rightarrow> 'p link line" where
  "link_line peer =
     \<lparr>line_putc = (\<lambda>c l. Some (c, l\<lparr>to_peer := to_peer l @ wire (word_of_int c)\<rparr>)),
      line_getc = (\<lambda>t l. case to_client l of [] \<Rightarrow> Some (-1, l) | b # bs \<Rightarrow> Some (uint b, l\<lparr>to_client := bs\<rparr>)),
      line_usleep = (\<lambda>t l. let (q, bs) = peer (the_peer l) (to_peer l)
         in Some (l\<lparr>to_peer := [], to_client := to_client l @ bs, the_peer := q\<rparr>))\<rparr>"

interpretation any_peer: serial_peer "link_line peer" to_client to_peer the_peer peer for peer
  by unfold_locales (simp_all add: link_line_def)

section \<open>Messages of the protocol\<close>

lemma length_word_bytes [simp]: "length (word_bytes v) = 4"
  by (simp add: word_bytes_def)

lemma read_word_bytes: "read_word (word_bytes v @ ys) 0 = Some v"
  by (simp add: read_word_def word_bytes_def get_byte_def bytes_of_word)

lemma read_word_after: "length xs = k \<Longrightarrow> read_word (xs @ word_bytes v @ ys) k = Some v"
  using read_word_drop [of k "xs @ word_bytes v @ ys" 0] read_word_bytes [of v ys] by simp

definition message :: "u8 list \<Rightarrow> u8 list" where
  "message data = (let h = word_bytes MAGIC @ word_bytes (word_of_nat (length data + 8)) @ word_bytes 0 @ data
     in h @ word_bytes (crc_spec h))"

lemma decode_message:
  assumes "length data \<le> unat rlen" "length data + 8 < 4294967296"
  shows "decode rlen (message data) = (int (length data), Some data)"
proof -
  let ?len = "word_of_nat (length data + 8) :: u32"
  let ?h = "word_bytes MAGIC @ word_bytes ?len @ word_bytes 0 @ data"
  have "?len - 8 = word_of_nat (length data)" by simp
  moreover have u: "unat (word_of_nat (length data) :: u32) = length data"
    using assms(2) by (intro unat_of_nat_u32) simp
  ultimately have n: "unat (min (?len - 8) rlen) = length data"
    using assms(1) by (simp add: min_def word_le_nat_alt)
  have m: "message data = ?h @ word_bytes (crc_spec ?h)" by (simp add: message_def Let_def)
  have w: "read_word (message data) 0 = Some MAGIC" "read_word (message data) 4 = Some ?len" "read_word (message data) 8 = Some 0"
    unfolding m using read_word_after [of "[]" 0 MAGIC] read_word_after [of "word_bytes MAGIC" 4 ?len]
      read_word_after [of "word_bytes MAGIC @ word_bytes ?len" 8 0] by simp_all
  have c: "read_word (message data) (12 + length data) = Some (crc_spec ?h)"
    unfolding m using read_word_after [of ?h "12 + length data" "crc_spec ?h" "[]"] by simp
  have t: "take (12 + length data) (message data) = ?h" "take (length data) (drop 12 (message data)) = data"
    unfolding m by simp_all
  show ?thesis unfolding decode_def w option.case n c Let_def t by simp
qed


text \<open>A peer that fails twice and then answers with three bytes.\<close>

definition flaky :: "nat \<Rightarrow> u8 list \<Rightarrow> nat \<times> u8 list" where
  "flaky k req = (Suc k, if k < 2 then word_bytes MAGIC @ word_bytes 8 @ word_bytes (word_of_int CRC_ERROR) else message [1, 2, 3])"


section \<open>The server\<close>

definition fifo_port :: "(u8 list \<times> u8 list) port" where
  "fifo_port = \<lparr>serial_read = (\<lambda>n (i, out). (take n i, drop n i, out)), serial_write = (\<lambda>bs (i, out). (i, out @ bs))\<rparr>"

text \<open>The server gets as many turns as it was sent bytes; each reads one at least while there are any.\<close>

definition server_peer :: "host \<Rightarrow> cstring \<Rightarrow> u8 list \<Rightarrow> (u8 list \<times> u8 list) server \<Rightarrow> u8 list \<Rightarrow> (u8 list \<times> u8 list) server \<times> u8 list" where
  "server_peer host base_dir junk sv req =
     (case server_turns (length req) fifo_port host base_dir junk (sv\<lparr>srv_port := (fst (srv_port sv) @ req, [])\<rparr>) of
        None \<Rightarrow> (sv, [])
      | Some sv' \<Rightarrow> (sv'\<lparr>srv_port := (fst (srv_port sv'), [])\<rparr>, snd (srv_port sv')))"

lemma parts_crc_spec: "parts_crc parts = Some (crc_spec (concat parts))"
  by (simp add: parts_crc_def crc32_append_all_foldl crc32_start_def crc32_finish_def xor_ones crc_spec_def)

lemma send_parts_fifo: "send_parts fifo_port parts (i, out) = (i, out @ concat parts)"
  by (induction parts arbitrary: out) (simp_all add: send_parts_def fifo_port_def)

lemma server_turns_idle:
  "fst (srv_port sv) = [] \<Longrightarrow> server_turns n fifo_port host base_dir junk sv = Some sv"
proof (induction n)
  case (Suc n)
  then have "server_turn fifo_port host base_dir junk sv = Some sv"
    by (cases sv; cases "srv_port sv") (simp add: server_turn_def fifo_port_def)
  then show ?case using Suc by simp
qed simp

lemma server_break:
  assumes "srv_port sv = (3 # i, out)" "breaks_read sv < 2"
  shows "server_turn fifo_port host base_dir junk sv = Some (sv\<lparr>srv_port := (i, out), breaks_read := Suc (breaks_read sv)\<rparr>)"
  using assms by (simp add: server_turn_def fifo_port_def Let_def)

lemma server_command:
  assumes "srv_port sv = (c # i, out)" "breaks_read sv = 2"
  shows "server_turn fifo_port host base_dir junk sv =
    map_option (\<lambda>s. sv\<lparr>breaks_read := 0, srv_port := s\<rparr>) (do_cmd fifo_port host base_dir junk c (i, out))"
  using assms by (cases "do_cmd fifo_port host base_dir junk c (i, out)") (simp_all add: server_turn_def fifo_port_def Let_def)

lemma identify_fifo:
  assumes "length junk = 4"
  shows "identify fifo_port junk (word_bytes 0 @ i, []) = Some (i, message (word_bytes SERVER_CAPABILITIES))"
proof -
  have r: "read_into fifo_port junk 4 (word_bytes 0 @ i, []) = (word_bytes 0, i, [])"
    using assms by (simp add: read_into_def fifo_port_def)
  have b: "bytes_word (word_bytes 0) = 0" using read_word_bytes [of 0 "[]"] by (simp add: bytes_word_def)
  have c: "crc32 [] 0 = Some 0" by (simp add: crc32_def)
  show ?thesis using b c
    by (simp add: identify_def r parts_crc_spec send_parts_fifo message_def Let_def SUCCESS_def)
qed

lemma request_identify: "request 0 [] = 3 # 3 # 0 # word_bytes 0"
  by (simp add: request_def crc_spec_def word_bytes_def wire_def)

lemma server_peer_identify:
  assumes "length junk = 4" "breaks_read sv = 0" "srv_port sv = ([], [])"
  shows "server_peer host base_dir junk sv (request 0 []) = (sv, message (word_bytes SERVER_CAPABILITIES))"
proof -
  let ?T = "server_turns" and ?req = "3 # 3 # 0 # word_bytes 0"
  let ?s0 = "sv\<lparr>srv_port := (?req, [])\<rparr>"
  let ?s1 = "sv\<lparr>srv_port := (3 # 0 # word_bytes 0, []), breaks_read := 1\<rparr>"
  let ?s2 = "sv\<lparr>srv_port := (0 # word_bytes 0, []), breaks_read := 2\<rparr>"
  let ?s3 = "sv\<lparr>srv_port := ([], message (word_bytes SERVER_CAPABILITIES)), breaks_read := 0\<rparr>"
  have 1: "server_turn fifo_port host base_dir junk ?s0 = Some ?s1"
    using server_break [of ?s0 "3 # 0 # word_bytes 0" "[]" host base_dir junk] assms(2) by simp
  have 2: "server_turn fifo_port host base_dir junk ?s1 = Some ?s2"
    using server_break [of ?s1 "0 # word_bytes 0" "[]" host base_dir junk] by simp
  have "do_cmd fifo_port host base_dir junk 0 (word_bytes 0, []) = Some ([], message (word_bytes SERVER_CAPABILITIES))"
    using identify_fifo [OF assms(1), of "[]"] by (simp add: do_cmd_def)
  then have 3: "server_turn fifo_port host base_dir junk ?s2 = Some ?s3"
    using server_command [of ?s2 0 "word_bytes 0" "[]" host base_dir junk] by simp
  have "length ?req = Suc (Suc (Suc 4))" by simp
  then have "?T (length ?req) fifo_port host base_dir junk ?s0 = Some ?s3"
    using 1 2 3 server_turns_idle [of ?s3 4 host base_dir junk] by (simp only: server_turns.simps bind.simps) simp
  moreover have "?s3\<lparr>srv_port := ([], [])\<rparr> = sv" using assms(2,3) by (cases sv) simp
  ultimately show ?thesis using assms(3) by (simp add: server_peer_def request_identify)
qed



end
